(* ===== verification/Prelude.thy ===== *)
theory Prelude
  imports Main "HOL-Library.Word" "HOL-Library.Monad_Syntax"
begin

text \<open>
  Shared vocabulary of the development.

  \<^item> Machine types: \<open>u8\<close>, \<open>u16\<close>, \<open>u32\<close>, \<open>u64\<close> are C's \<open>uint8_t\<close>, \<open>uint16_t\<close>,
    \<open>unsigned int\<close> and \<open>size_t\<close> where wrap-around matters; \<open>bytes\<close> is an array of
    \<open>uint8_t\<close>.
  \<^item> Crashes: an operation that can call \<open>abort()\<close>, fail an \<open>assert\<close> or make an access
    the C standard leaves undefined returns an option; \<open>None\<close> is the crash. The option
    monad's do-notation chains such operations.
  \<^item> C strings and arrays: \<open>cstr\<close> is what a \<open>char\<close> array holds up to its terminator,
    \<open>poke\<close> writes a run of bytes into an array.
  \<^item> \<open>seg r w xs\<close> is the run of \<open>xs\<close> between two offsets, the shape of every buffer here.
\<close>

type_synonym u8 = "8 word"
type_synonym u16 = "16 word"
type_synonym u32 = "32 word"
type_synonym u64 = "64 word"
type_synonym bytes = "u8 list"

named_theorems wf_intros \<open>preservation of well-formedness by one operation\<close>
named_theorems frame_simps \<open>fields an operation leaves alone\<close>

section \<open>Crashing operations\<close>

definition check :: "bool \<Rightarrow> unit option" where
  "check b = (if b then Some () else None)"

lemma check_True [simp]: "check True = Some ()"
  by (simp add: check_def)

lemma check_False [simp]: "check False = None"
  by (simp add: check_def)

lemma check_eq_Some [simp]: "check b = Some u \<longleftrightarrow> b"
  by (simp add: check_def)

text \<open>An array read that crashes out of range.\<close>

definition nth_opt :: "'a list \<Rightarrow> nat \<Rightarrow> 'a option" where
  "nth_opt xs i = (if i < length xs then Some (xs ! i) else None)"

lemma nth_opt_in [simp]: "i < length xs \<Longrightarrow> nth_opt xs i = Some (xs ! i)"
  by (simp add: nth_opt_def)

lemma nth_opt_out [simp]: "length xs \<le> i \<Longrightarrow> nth_opt xs i = None"
  by (simp add: nth_opt_def)

lemma nth_opt_eq_Some: "nth_opt xs i = Some x \<longleftrightarrow> i < length xs \<and> xs ! i = x"
  by (auto simp: nth_opt_def)

lemma bind_eq_SomeE:
  assumes "Option.bind m f = Some y"
  obtains x where "m = Some x" and "f x = Some y"
  using assms by (auto simp: bind_eq_Some_conv)

text \<open>The values of \<open>errno\<close> the code tells apart.\<close>

datatype errno = EAGAIN | EWOULDBLOCK | EINPROGRESS | EINTR | EBADF | EPIPE | EOTHER

section \<open>Runs of an array\<close>

definition seg :: "nat \<Rightarrow> nat \<Rightarrow> 'a list \<Rightarrow> 'a list" where
  "seg r w xs = take (w - r) (drop r xs)"

lemma seg_same [simp]: "seg r r xs = []"
  by (simp add: seg_def)

lemma length_seg: "length (seg r w xs) = min (w - r) (length xs - r)"
  by (simp add: seg_def)

lemma length_seg_in [simp]: "r \<le> w \<Longrightarrow> w \<le> length xs \<Longrightarrow> length (seg r w xs) = w - r"
  by (simp add: seg_def)

lemma seg_empty_iff: "w \<le> length xs \<Longrightarrow> seg r w xs = [] \<longleftrightarrow> w \<le> r"
  by (auto simp: seg_def)

lemma seg_Cons: "r < w \<Longrightarrow> w \<le> length xs \<Longrightarrow> seg r w xs = xs ! r # seg (Suc r) w xs"
  by (simp add: seg_def Cons_nth_drop_Suc [symmetric] Suc_diff_Suc [symmetric])

lemma seg_drop: "seg (r + n) w xs = drop n (seg r w xs)"
  by (simp add: seg_def drop_take add.commute)

lemma seg_take: "r \<le> w \<Longrightarrow> n \<le> w - r \<Longrightarrow> seg r (r + n) xs = take n (seg r w xs)"
  by (simp add: seg_def)

text \<open>\<open>memcpy\<close>/\<open>recv\<close> into an array: the run \<open>bs\<close> lands at offset \<open>i\<close>.\<close>

definition poke :: "nat \<Rightarrow> 'a list \<Rightarrow> 'a list \<Rightarrow> 'a list" where
  "poke i bs xs = take i xs @ bs @ drop (i + length bs) xs"

lemma length_poke [simp]: "i + length bs \<le> length xs \<Longrightarrow> length (poke i bs xs) = length xs"
  by (simp add: poke_def)

lemma seg_poke:
  assumes "r \<le> w" and "w + length bs \<le> length xs"
  shows "seg r (w + length bs) (poke w bs xs) = seg r w xs @ bs"
  using assms by (simp add: seg_def poke_def drop_take)

lemma poke_single: "i < length xs \<Longrightarrow> poke i [b] xs = xs[i := b]"
  by (simp add: poke_def upd_conv_take_nth_drop)

lemma seg_update_end:
  assumes "r \<le> w" and "w < length xs"
  shows "seg r (Suc w) (xs[w := c]) = seg r w xs @ [c]"
  using seg_poke [of r w "[c]" xs] assms by (simp add: poke_single)

lemma seg_poke_0: "length bs \<le> length xs \<Longrightarrow> seg 0 (length bs) (poke 0 bs xs) = bs"
  by (simp add: seg_def poke_def)

lemma poke_Nil [simp]: "poke i [] xs = xs"
  by (simp add: poke_def)

lemma poke_Cons:
  assumes "i < length xs"
  shows "poke (Suc i) bs (xs[i := b]) = poke i (b # bs) xs"
proof -
  have "take (Suc i) (xs[i := b]) = take i xs @ [b]"
    using assms by (simp add: take_Suc_conv_app_nth)
  then show ?thesis by (simp add: poke_def)
qed

lemma take_poke_0: "length bs \<le> length xs \<Longrightarrow> take (length bs) (poke 0 bs xs) = bs"
  by (simp add: poke_def)

section \<open>A one-byte counter that is compared after it is incremented\<close>

text \<open>
  The parsers store byte number \<open>k\<close> with \<open>buf[k++]\<close> (a \<open>uint8_t\<close>) and stop when \<open>k == n\<close>.
  Starting from 0 that takes \<open>n\<close> bytes, but 256 when \<open>n\<close> is 0: the counter wraps.
\<close>

definition wrap_total :: "u8 \<Rightarrow> nat" where
  "wrap_total n = (if n = 0 then 256 else unat n)"

lemma unat_u8_less: "unat (k :: u8) < 256"
  using unsigned_less [of k] by simp

lemma unat_u8_le: "unat (k :: u8) \<le> 255"
  using unat_u8_less [of k] by linarith

lemma wrap_total_le: "wrap_total n \<le> 256"
  using unat_u8_le [of n] by (simp add: wrap_total_def)

lemma wrap_total_pos: "0 < wrap_total n"
  by (simp add: wrap_total_def unat_gt_0)

lemma unat_u8_Suc: "unat ((k :: u8) + 1) = (if unat k = 255 then 0 else Suc (unat k))"
  using unat_u8_less [of k] by (auto simp: unat_word_ariths mod_if)

lemma wrap_step:
  assumes "unat k < wrap_total n"
  shows "k + 1 = n \<longleftrightarrow> Suc (unat k) = wrap_total n"
proof -
  have "k + 1 = n \<longleftrightarrow> unat (k + 1) = unat n" by (simp add: word_unat_eq_iff)
  then show ?thesis
    using assms unat_u8_le [of n]
    by (auto simp: unat_u8_Suc wrap_total_def unat_eq_zero split: if_splits)
qed

lemma wrap_next: "Suc (unat (k :: u8)) < wrap_total n \<Longrightarrow> unat (k + 1) = Suc (unat k)"
  using wrap_total_le [of n] unat_u8_Suc [of k] by (simp split: if_splits)

section \<open>C strings\<close>

text \<open>What a \<open>char\<close> array holds as a C string: the bytes before the first zero.\<close>

definition cstr :: "bytes \<Rightarrow> bytes" where
  "cstr a = takeWhile (\<lambda>c. c \<noteq> 0) a"

text \<open>The array really has a terminator: reading it as a string stays inside it.\<close>

definition terminated :: "bytes \<Rightarrow> bool" where
  "terminated a \<longleftrightarrow> 0 \<in> set a"

lemma cstr_nonzero: "c \<in> set (cstr a) \<Longrightarrow> c \<noteq> 0"
  unfolding cstr_def by (drule set_takeWhileD) simp

lemma cstr_append_zero: "0 \<notin> set s \<Longrightarrow> cstr (s @ 0 # r) = s"
  by (induction s) (auto simp: cstr_def)

lemma cstr_length_le: "length (cstr a) \<le> length a"
  by (simp add: cstr_def length_takeWhile_le)

lemma terminated_length: "terminated a \<Longrightarrow> length (cstr a) < length a"
  by (induction a) (auto simp: terminated_def cstr_def)

text \<open>The bytes of an ASCII string literal, and the string of a run of bytes.\<close>

definition bytes_of :: "string \<Rightarrow> bytes" where
  "bytes_of s = map of_char s"

definition string_of :: "bytes \<Rightarrow> string" where
  "string_of bs = map (\<lambda>b. char_of (unat b)) bs"

lemma unat_of_char: "unat (of_char c :: u8) = of_char c"
proof -
  have "unat (of_nat (of_char c) :: u8) = of_char c mod 256"
    by (simp add: unat_of_nat)
  then show ?thesis by (simp only: of_nat_of_char) simp
qed

lemma string_of_bytes_of [simp]: "string_of (bytes_of s) = s"
  by (simp add: string_of_def bytes_of_def comp_def unat_of_char)

lemma length_string_of [simp]: "length (string_of bs) = length bs"
  by (simp add: string_of_def)

lemma length_bytes_of [simp]: "length (bytes_of s) = length s"
  by (simp add: bytes_of_def)

section \<open>32-bit counters\<close>

text \<open>Global \<open>unsigned int\<close> counters are natural numbers with the wrap-around written out.\<close>

definition inc32 :: "nat \<Rightarrow> nat" where "inc32 n = (n + 1) mod 2 ^ 32"

definition dec32 :: "nat \<Rightarrow> nat" where "dec32 n = (n + (2 ^ 32 - 1)) mod 2 ^ 32"

lemma inc32_small [simp]: "n < 2 ^ 32 - 1 \<Longrightarrow> inc32 n = Suc n"
  by (simp add: inc32_def)

lemma dec32_small [simp]: "0 < n \<Longrightarrow> n < 2 ^ 32 \<Longrightarrow> dec32 n = n - 1"
proof -
  assume n: "0 < n" "n < 2 ^ 32"
  then have "n + (2 ^ 32 - 1) = (n - 1) + 2 ^ 32" by simp
  with n show ?thesis unfolding dec32_def by (simp only: mod_add_self2) simp
qed

lemma inc32_less [simp]: "inc32 n < 2 ^ 32"
  by (simp add: inc32_def)

lemma dec32_less [simp]: "dec32 n < 2 ^ 32"
  by (simp add: dec32_def)

section \<open>Feeding a byte automaton\<close>

text \<open>
  The shape the three message parsers of the server share: consume bytes until the
  automaton is finished, and leave the rest. The result is the final automaton and the
  bytes it did not take.
\<close>

fun feed_all :: "('p \<Rightarrow> u8 \<Rightarrow> 'p) \<Rightarrow> ('p \<Rightarrow> bool) \<Rightarrow> 'p \<Rightarrow> bytes \<Rightarrow> 'p \<times> bytes" where
  "feed_all f d p [] = (p, [])"
| "feed_all f d p (c # cs) = (if d p then (p, c # cs) else feed_all f d (f p c) cs)"

lemma feed_all_done [simp]: "d p \<Longrightarrow> feed_all f d p cs = (p, cs)"
  by (cases cs) simp_all

lemma feed_step: "\<not> d p \<Longrightarrow> feed_all f d p (c # cs) = feed_all f d (f p c) cs"
  by simp

lemma feed_all_append:
  "feed_all f d p (xs @ ys) =
     (case feed_all f d p xs of (q, r) \<Rightarrow> feed_all f d q (r @ ys))"
  by (induction xs arbitrary: p) simp_all

lemma feed_all_rest_suffix: "\<exists>used. cs = used @ snd (feed_all f d p cs)"
proof (induction cs arbitrary: p)
  case Nil
  then show ?case by simp
next
  case (Cons c cs)
  show ?case
  proof (cases "d p")
    case False
    from Cons [of "f p c"] obtain used where "cs = used @ snd (feed_all f d (f p c) cs)" ..
    then have "c # cs = (c # used) @ snd (feed_all f d p (c # cs))" using False by simp
    then show ?thesis ..
  qed simp
qed

lemma feed_all_unfinished: "\<not> d (fst (feed_all f d p cs)) \<Longrightarrow> snd (feed_all f d p cs) = []"
  by (induction cs arbitrary: p) (auto split: if_splits)

declare feed_all.simps(2) [simp del]

lemma feed_all_inv:
  assumes "\<And>p c. I p \<Longrightarrow> \<not> d p \<Longrightarrow> I (f p c)" and "I p"
  shows "I (fst (feed_all f d p cs))"
  using assms(2) by (induction cs arbitrary: p) (auto simp: assms(1) feed_all.simps(2))

section \<open>What holds of every result\<close>

text \<open>
  \<open>post P m\<close>: the computation \<open>m\<close>, if it does not crash, ends in a result with \<open>P\<close>. The rules
  take a handler's body apart, branch by branch, and leave \<open>P\<close> to be shown where it returns.
\<close>

definition post :: "('a \<Rightarrow> bool) \<Rightarrow> 'a option \<Rightarrow> bool" where
  "post P m \<longleftrightarrow> (\<forall>x. m = Some x \<longrightarrow> P x)"

named_theorems post_intros

lemma post_bind [post_intros]: "(\<And>x. m = Some x \<Longrightarrow> post P (f x)) \<Longrightarrow> post P (m \<bind> f)"
  by (auto simp: post_def bind_eq_Some_conv)

lemma post_cases [post_intros]:
  "(\<And>a b. p = (a, b) \<Longrightarrow> post P (f2 a b)) \<Longrightarrow> post P (case p of (a, b) \<Rightarrow> f2 a b)"
  "(b \<Longrightarrow> post P m1) \<Longrightarrow> (\<not> b \<Longrightarrow> post P m2) \<Longrightarrow> post P (if b then m1 else m2)"
  "(\<And>x. r = Inl x \<Longrightarrow> post P (g x)) \<Longrightarrow> (\<And>y. r = Inr y \<Longrightarrow> post P (h y)) \<Longrightarrow>
    post P (case r of Inl x \<Rightarrow> g x | Inr y \<Rightarrow> h y)"
  "(q = None \<Longrightarrow> post P k) \<Longrightarrow> (\<And>z. q = Some z \<Longrightarrow> post P (l z)) \<Longrightarrow>
    post P (case q of None \<Rightarrow> k | Some z \<Rightarrow> l z)"
  "post P (l v) \<Longrightarrow> post P (Let v l)"
  by (auto split: prod.splits sum.splits option.splits simp: Let_def)

lemma post_Some [post_intros]: "P x \<Longrightarrow> post P (Some x)"
  by (simp add: post_def)

lemma post_None [post_intros]: "post P None"
  by (simp add: post_def)

end
