(* ===== verification/Buffer.thy ===== *)
theory Buffer
  imports Prelude
begin

text \<open>
  \<open>src/server/buffer.c\<close>, \<open>src/headers/buffer.h\<close>: the byte buffer between \<open>recv\<close> and
  \<open>send\<close>. The array \<open>data\<close> points to is the list \<open>buf_data\<close>; the pointers \<open>limit\<close>,
  \<open>read\<close> and \<open>write\<close> are offsets from \<open>data\<close>. An operation returns \<open>None\<close> where the
  code fails an \<open>assert\<close> or reaches outside the array. The lemmas show the documented
  invariant \<open>R <= W <= limit\<close>, and that the buffer is a FIFO queue of bytes (locale
  \<open>byte_queue\<close>).
\<close>

record buffer =
  buf_data :: bytes
  buf_limit :: nat
  buf_read :: nat
  buf_write :: nat

definition buffer_reset :: "buffer \<Rightarrow> buffer" where
  "buffer_reset b = b\<lparr>buf_read := 0, buf_write := 0\<rparr>"

text \<open>\<open>buffer_init\<close> on the array \<open>xs\<close>, of which the buffer may use the first \<open>n\<close> bytes.\<close>

definition buffer_init :: "nat \<Rightarrow> bytes \<Rightarrow> buffer" where
  "buffer_init n xs = (buffer_reset \<lparr>buf_data = xs, buf_limit = 0, buf_read = 0, buf_write = 0\<rparr>)
     \<lparr>buf_limit := n\<rparr>"

definition buffer_can_write :: "buffer \<Rightarrow> bool" where
  "buffer_can_write b \<longleftrightarrow> int (buf_limit b) - int (buf_write b) > 0"

text \<open>The write pointer and the room behind it; the pointer is the offset.\<close>

definition buffer_write_ptr :: "buffer \<Rightarrow> (nat \<times> nat) option" where
  "buffer_write_ptr b = do {
     check (buf_write b \<le> buf_limit b);
     Some (buf_write b, buf_limit b - buf_write b) }"

definition buffer_can_read :: "buffer \<Rightarrow> bool" where
  "buffer_can_read b \<longleftrightarrow> int (buf_write b) - int (buf_read b) > 0"

definition buffer_read_ptr :: "buffer \<Rightarrow> (nat \<times> nat) option" where
  "buffer_read_ptr b = do {
     check (buf_read b \<le> buf_write b);
     Some (buf_read b, buf_write b - buf_read b) }"

definition buffer_write_adv :: "buffer \<Rightarrow> int \<Rightarrow> buffer option" where
  "buffer_write_adv b n =
     (if n > -1 then do {
        let b1 = b\<lparr>buf_write := buf_write b + nat n\<rparr>;
        check (buf_write b1 \<le> buf_limit b1);
        Some b1 }
      else Some b)"

text \<open>\<open>memmove\<close> of the unread run to the start of the array.\<close>

definition buffer_compact :: "buffer \<Rightarrow> buffer option" where
  "buffer_compact b =
     (if buf_read b = 0 then Some b
      else if buf_read b = buf_write b then Some (b\<lparr>buf_read := 0, buf_write := 0\<rparr>)
      else do {
        check (buf_read b \<le> buf_write b \<and> buf_write b \<le> length (buf_data b));
        let n = buf_write b - buf_read b;
        Some (b\<lparr>buf_data := poke 0 (seg (buf_read b) (buf_write b) (buf_data b)) (buf_data b),
               buf_read := 0, buf_write := n\<rparr>) })"

definition buffer_read_adv :: "buffer \<Rightarrow> int \<Rightarrow> buffer option" where
  "buffer_read_adv b n =
     (if n > -1 then do {
        let b1 = b\<lparr>buf_read := buf_read b + nat n\<rparr>;
        check (buf_read b1 \<le> buf_write b1);
        if buf_read b1 = buf_write b1 then buffer_compact b1 else Some b1 }
      else Some b)"

definition buffer_read :: "buffer \<Rightarrow> (u8 \<times> buffer) option" where
  "buffer_read b =
     (if buffer_can_read b then do {
        c \<leftarrow> nth_opt (buf_data b) (buf_read b);
        b1 \<leftarrow> buffer_read_adv b 1;
        Some (c, b1) }
      else Some (0, b))"

definition buffer_write :: "buffer \<Rightarrow> u8 \<Rightarrow> buffer option" where
  "buffer_write b c =
     (if buffer_can_write b then do {
        check (buf_write b < length (buf_data b));
        buffer_write_adv (b\<lparr>buf_data := (buf_data b)[buf_write b := c]\<rparr>) 1 }
      else Some b)"

text \<open>
  \<open>recv(fd, ptr, n, 0)\<close> with \<open>ptr\<close> the write pointer stores what it received behind it;
  the caller advances the pointer afterwards.
\<close>

definition buffer_store :: "buffer \<Rightarrow> bytes \<Rightarrow> buffer option" where
  "buffer_store b bs = do {
     check (buf_write b + length bs \<le> length (buf_data b));
     Some (b\<lparr>buf_data := poke (buf_write b) bs (buf_data b)\<rparr>) }"

section \<open>The invariant and the queue a buffer stands for\<close>

definition buffer_inv :: "buffer \<Rightarrow> bool" where
  "buffer_inv b \<longleftrightarrow> buf_read b \<le> buf_write b \<and> buf_write b \<le> buf_limit b
     \<and> buf_limit b \<le> length (buf_data b)"

text \<open>The unread bytes, oldest first, and the bytes that still fit.\<close>

definition contents :: "buffer \<Rightarrow> bytes" where
  "contents b = seg (buf_read b) (buf_write b) (buf_data b)"

definition room :: "buffer \<Rightarrow> nat" where
  "room b = buf_limit b - buf_write b"

lemmas buffer_defs = buffer_inv_def contents_def room_def

lemma buffer_can_read_iff: "buffer_inv b \<Longrightarrow> buffer_can_read b \<longleftrightarrow> contents b \<noteq> []"
  by (auto simp: buffer_can_read_def buffer_defs seg_empty_iff)

lemma buffer_can_write_iff: "buffer_can_write b \<longleftrightarrow> 0 < room b"
  by (auto simp: buffer_can_write_def room_def)

lemma length_contents: "buffer_inv b \<Longrightarrow> length (contents b) = buf_write b - buf_read b"
  by (simp add: buffer_defs)

lemma contents_room_bound: "buffer_inv b \<Longrightarrow> length (contents b) + room b \<le> buf_limit b"
  by (auto simp: buffer_defs)

lemma buffer_init_wf [wf_intros]:
  "n \<le> length xs \<Longrightarrow> buffer_inv (buffer_init n xs)"
  by (simp add: buffer_init_def buffer_reset_def buffer_inv_def)

lemma buffer_init_contents [simp]: "contents (buffer_init n xs) = []"
  by (simp add: buffer_init_def buffer_reset_def contents_def)

lemma buffer_init_room [simp]: "room (buffer_init n xs) = n"
  by (simp add: buffer_init_def buffer_reset_def room_def)

lemma buffer_init_limit [simp]: "buf_limit (buffer_init n xs) = n"
  by (simp add: buffer_init_def)

lemma buffer_reset_spec:
  "buffer_inv b \<Longrightarrow> buffer_inv (buffer_reset b) \<and> contents (buffer_reset b) = []
     \<and> room (buffer_reset b) = buf_limit b"
  by (simp add: buffer_reset_def buffer_defs)

lemma buffer_write_ptr_spec:
  "buffer_inv b \<Longrightarrow> buffer_write_ptr b = Some (buf_write b, room b)"
  by (simp add: buffer_write_ptr_def buffer_defs)

lemma buffer_read_ptr_spec:
  "buffer_inv b \<Longrightarrow> buffer_read_ptr b = Some (buf_read b, length (contents b))"
  by (simp add: buffer_read_ptr_def buffer_defs)

text \<open>Compaction keeps the queue and gives back the space of what was read.\<close>

lemma buffer_compact_spec:
  assumes "buffer_inv b"
  shows "\<exists>b'. buffer_compact b = Some b' \<and> buffer_inv b' \<and> contents b' = contents b
     \<and> room b' = buf_limit b - length (contents b) \<and> buf_limit b' = buf_limit b
     \<and> (buf_read b = 0 \<or> buf_read b' = 0)"
proof (cases "buf_read b = 0 \<or> buf_read b = buf_write b")
  case True
  with assms show ?thesis by (auto simp: buffer_compact_def buffer_defs)
next
  case False
  let ?run = "seg (buf_read b) (buf_write b) (buf_data b)"
  from assms False have len: "length ?run = buf_write b - buf_read b"
    by (simp add: buffer_inv_def)
  from assms have "buf_write b - buf_read b \<le> length (buf_data b)"
    by (auto simp: buffer_inv_def)
  with len have "seg 0 (buf_write b - buf_read b) (poke 0 ?run (buf_data b)) = ?run"
    using seg_poke_0 [of ?run "buf_data b"] by simp
  moreover have "length (poke 0 ?run (buf_data b)) = length (buf_data b)"
    using len assms by (intro length_poke) (auto simp: buffer_inv_def)
  ultimately show ?thesis
    using assms False len by (auto simp: buffer_compact_def buffer_defs)
qed

text \<open>Taking \<open>n\<close> bytes: the queue loses its first \<open>n\<close>, and an emptied buffer is reset.\<close>

lemma buffer_read_adv_spec:
  assumes inv: "buffer_inv b" and n: "n \<le> length (contents b)"
  shows "\<exists>b'. buffer_read_adv b (int n) = Some b' \<and> buffer_inv b'
     \<and> contents b' = drop n (contents b) \<and> room b \<le> room b' \<and> buf_limit b' = buf_limit b
     \<and> (n = length (contents b) \<longrightarrow> room b' = buf_limit b)"
proof -
  let ?b1 = "b\<lparr>buf_read := buf_read b + n\<rparr>"
  have c1: "contents ?b1 = drop n (contents b)"
    by (simp add: contents_def seg_drop)
  have inv1: "buffer_inv ?b1"
    using inv n by (auto simp: buffer_inv_def length_contents)
  show ?thesis
  proof (cases "n = length (contents b)")
    case True
    with inv have eq: "buf_read ?b1 = buf_write ?b1"
      by (auto simp: length_contents buffer_inv_def)
    obtain b' where "buffer_compact ?b1 = Some b'" "buffer_inv b'"
      "contents b' = contents ?b1" "room b' = buf_limit ?b1 - length (contents ?b1)"
      "buf_limit b' = buf_limit ?b1"
      using buffer_compact_spec [OF inv1] by blast
    moreover from eq have "buffer_read_adv b (int n) = buffer_compact ?b1"
      using inv1 by (simp add: buffer_read_adv_def buffer_inv_def)
    ultimately show ?thesis
      using True c1 by (auto simp: room_def)
  next
    case False
    with inv n have ne: "buf_read ?b1 \<noteq> buf_write ?b1" "buf_read ?b1 \<le> buf_write ?b1"
      by (auto simp: length_contents)
    then have "buffer_read_adv b (int n) = Some ?b1"
      by (simp add: buffer_read_adv_def)
    with inv1 c1 False show ?thesis by (simp add: room_def)
  qed
qed

lemma buffer_read_spec:
  assumes inv: "buffer_inv b" and c: "contents b = c # cs"
  shows "\<exists>b'. buffer_read b = Some (c, b') \<and> buffer_inv b' \<and> contents b' = cs
     \<and> room b \<le> room b' \<and> buf_limit b' = buf_limit b"
proof -
  have lt: "buf_read b < buf_write b"
    using length_contents [OF inv] c by auto
  with inv have wl: "buf_write b \<le> length (buf_data b)"
    by (simp add: buffer_inv_def)
  with lt c have first: "buf_data b ! buf_read b = c" and "buf_read b < length (buf_data b)"
    by (auto simp: contents_def seg_Cons)
  moreover have "buffer_can_read b"
    using lt by (simp add: buffer_can_read_def)
  moreover obtain b' where "buffer_read_adv b 1 = Some b'" "buffer_inv b'"
    "contents b' = drop 1 (contents b)" "room b \<le> room b'" "buf_limit b' = buf_limit b"
    using buffer_read_adv_spec [OF inv, of 1] c by auto
  ultimately show ?thesis
    using c by (simp add: buffer_read_def)
qed

lemma buffer_read_empty: "buffer_inv b \<Longrightarrow> contents b = [] \<Longrightarrow> buffer_read b = Some (0, b)"
  by (simp add: buffer_read_def buffer_can_read_iff)

lemma buffer_write_spec:
  assumes inv: "buffer_inv b" and r: "0 < room b"
  shows "\<exists>b'. buffer_write b c = Some b' \<and> buffer_inv b' \<and> contents b' = contents b @ [c]
     \<and> room b = Suc (room b') \<and> buf_limit b' = buf_limit b"
proof -
  from inv r have "buf_write b < length (buf_data b)" "buf_read b \<le> buf_write b"
    by (auto simp: buffer_defs)
  then show ?thesis
    using inv r
    by (auto simp: buffer_write_def buffer_can_write_iff buffer_write_adv_def buffer_defs
        seg_update_end)
qed

lemma buffer_write_full: "room b = 0 \<Longrightarrow> buffer_write b c = Some b"
  by (simp add: buffer_write_def buffer_can_write_iff)

text \<open>\<open>recv\<close> into the free space followed by \<open>buffer_write_adv\<close> appends to the queue.\<close>

lemma buffer_store_adv_spec:
  assumes inv: "buffer_inv b" and fits: "length bs \<le> room b"
  shows "\<exists>b1 b'. buffer_store b bs = Some b1 \<and> buffer_write_adv b1 (int (length bs)) = Some b'
     \<and> buffer_inv b' \<and> contents b' = contents b @ bs \<and> room b' = room b - length bs
     \<and> buf_limit b' = buf_limit b"
proof -
  from inv fits have "buf_write b + length bs \<le> buf_limit b"
    and "buf_write b + length bs \<le> length (buf_data b)" and "buf_read b \<le> buf_write b"
    by (auto simp: buffer_defs)
  then show ?thesis
    using inv
    by (auto simp: buffer_store_def buffer_write_adv_def buffer_defs seg_poke)
qed

text \<open>One read shortens the unread run, whatever state the buffer is in.\<close>

lemma buffer_read_decreases:
  assumes "buffer_can_read b" and "buffer_read b = Some (c, b')"
  shows "buf_write b' - buf_read b' < buf_write b - buf_read b"
proof -
  from assms(1) have lt: "buf_read b < buf_write b"
    by (simp add: buffer_can_read_def)
  from assms have "buffer_read_adv b 1 = Some b'"
    by (auto simp: buffer_read_def bind_eq_Some_conv)
  then show ?thesis
    using lt by (auto simp: buffer_read_adv_def buffer_compact_def Let_def split: if_splits
        elim!: bind_eq_SomeE)
qed

section \<open>The queue interface\<close>

locale byte_queue =
  fixes inv :: "'b \<Rightarrow> bool"
    and items :: "'b \<Rightarrow> bytes"
    and space :: "'b \<Rightarrow> nat"
    and can_get :: "'b \<Rightarrow> bool"
    and can_put :: "'b \<Rightarrow> bool"
    and get :: "'b \<Rightarrow> (u8 \<times> 'b) option"
    and put :: "'b \<Rightarrow> u8 \<Rightarrow> 'b option"
  assumes can_get: "inv b \<Longrightarrow> can_get b \<longleftrightarrow> items b \<noteq> []"
    and can_put: "inv b \<Longrightarrow> can_put b \<longleftrightarrow> 0 < space b"
    and get: "inv b \<Longrightarrow> items b = c # cs \<Longrightarrow>
      \<exists>b'. get b = Some (c, b') \<and> inv b' \<and> items b' = cs \<and> space b \<le> space b'"
    and put: "inv b \<Longrightarrow> 0 < space b \<Longrightarrow>
      \<exists>b'. put b c = Some b' \<and> inv b' \<and> items b' = items b @ [c] \<and> space b = Suc (space b')"
begin

lemma put_then_get_first:
  assumes "inv b" and "items b = []" and "0 < space b"
  shows "\<exists>b1 b2. put b c = Some b1 \<and> get b1 = Some (c, b2) \<and> inv b2 \<and> items b2 = []"
proof -
  obtain b1 where b1: "put b c = Some b1" "inv b1" "items b1 = [c]"
    using put [OF assms(1,3), of c] assms(2) by auto
  with get [OF b1(2)] show ?thesis by blast
qed

end

interpretation buf: byte_queue buffer_inv contents room buffer_can_read buffer_can_write
  buffer_read buffer_write
proof unfold_locales
  fix b c cs
  assume "buffer_inv b" "contents b = c # cs"
  then show "\<exists>b'. buffer_read b = Some (c, b') \<and> buffer_inv b' \<and> contents b' = cs \<and> room b \<le> room b'"
    using buffer_read_spec by blast
next
  fix b c
  assume "buffer_inv b" "0 < room b"
  then show "\<exists>b'. buffer_write b c = Some b' \<and> buffer_inv b' \<and> contents b' = contents b @ [c]
      \<and> room b = Suc (room b')"
    using buffer_write_spec by blast
qed (simp_all add: buffer_can_read_iff buffer_can_write_iff)

end
