(* ===== verification/Byte_Parser.thy ===== *)
theory Byte_Parser
  imports Buffer
begin

text \<open>
  What the three message parsers (negotiation, authentication, request) share: a loop
  \<open>while (buffer_can_read(b) && !done(p)) step(p, buffer_read(b))\<close>. The locale states that
  loop once, as an equation; each parser interprets it with its own loop. Inside it: the
  loop computes \<open>feed_all\<close> on the queue of the buffer, never crashes, takes exactly the
  bytes of the message and gives the same result however the bytes are split over calls.
\<close>

locale byte_parser =
  fixes feed :: "'p \<Rightarrow> u8 \<Rightarrow> 'p"
    and finished :: "'p \<Rightarrow> bool"
    and loop :: "'p \<Rightarrow> buffer \<Rightarrow> ('p \<times> buffer) option"
  assumes loop_unfold: "loop p b =
    (if buffer_can_read b \<and> \<not> finished p
     then do { (c, b') \<leftarrow> buffer_read b; loop (feed p c) b' }
     else Some (p, b))"
begin

lemma loop_spec:
  assumes "buffer_inv b"
  shows "\<exists>b'. loop p b = Some (fst (feed_all feed finished p (contents b)), b')
     \<and> buffer_inv b' \<and> contents b' = snd (feed_all feed finished p (contents b))
     \<and> room b \<le> room b' \<and> buf_limit b' = buf_limit b"
  using assms
proof (induction "contents b" arbitrary: p b)
  case Nil
  then have "loop p b = Some (p, b)"
    using loop_unfold [of p b] by (simp add: buffer_can_read_iff)
  with Nil show ?case by (metis feed_all.simps(1) fst_conv snd_conv order_refl)
next
  case (Cons c cs)
  show ?case
  proof (cases "finished p")
    case True
    then have "loop p b = Some (p, b)"
      using loop_unfold [of p b] by simp
    with True Cons.prems show ?thesis by simp
  next
    case False
    obtain b1 where b1: "buffer_read b = Some (c, b1)" "buffer_inv b1" "contents b1 = cs"
      "room b \<le> room b1" "buf_limit b1 = buf_limit b"
      using buffer_read_spec [OF Cons.prems] Cons.hyps(2) by metis
    have "loop p b = loop (feed p c) b1"
      using loop_unfold [of p b] False b1(1) Cons.prems Cons.hyps(2)
      by (auto simp: buffer_can_read_iff)
    moreover have "feed_all feed finished p (contents b) = feed_all feed finished (feed p c) cs"
      using False Cons.hyps(2) [symmetric] by (simp add: feed_step)
    ultimately show ?thesis
      using Cons.hyps(1) [of b1 "feed p c"] b1 by (metis order_trans)
  qed
qed

lemma loop_result:
  assumes "buffer_inv b" and "feed_all feed finished p (contents b) = (q, rest)"
  shows "\<exists>b'. loop p b = Some (q, b') \<and> buffer_inv b' \<and> contents b' = rest
     \<and> room b \<le> room b' \<and> buf_limit b' = buf_limit b"
  using loop_spec [OF assms(1), of p] assms(2) by simp

text \<open>Two arrivals parse as one: the split of the stream into \<open>recv\<close> calls is irrelevant.\<close>

lemma loop_chunks:
  assumes b: "buffer_inv b" "contents b = xs @ ys"
    and b1: "buffer_inv b1" "contents b1 = xs"
    and l1: "loop p b1 = Some (q, b2)"
    and b3: "buffer_inv b3" "contents b3 = contents b2 @ ys"
  shows "\<exists>r b4 b5. loop q b3 = Some (r, b4) \<and> loop p b = Some (r, b5) \<and> contents b4 = contents b5"
proof -
  obtain r1 rest1 where f1: "feed_all feed finished p xs = (r1, rest1)" by fastforce
  obtain b2' where "loop p b1 = Some (r1, b2')" "contents b2' = rest1"
    using loop_result [OF b1(1)] f1 b1(2) by blast
  with l1 have q: "q = r1" "contents b2 = rest1" by auto
  obtain r rest where f2: "feed_all feed finished q (rest1 @ ys) = (r, rest)" by fastforce
  have "feed_all feed finished p (contents b) = (r, rest)"
    using f1 f2 q b(2) by (simp add: feed_all_append [of feed finished p xs ys])
  then obtain b5 where "loop p b = Some (r, b5)" "contents b5 = rest"
    using loop_result [OF b(1), of p r rest] by auto
  moreover obtain b4 where "loop q b3 = Some (r, b4)" "contents b4 = rest"
    using loop_result [OF b3(1), of q r rest] f2 q(2) b3(2) by auto
  ultimately show ?thesis by blast
qed

text \<open>An unfinished parser has taken every byte there was.\<close>

lemma loop_unfinished:
  assumes "buffer_inv b" and "loop p b = Some (q, b')" and "\<not> finished q"
  shows "contents b' = []"
  using loop_spec [OF assms(1), of p] assms(2,3) feed_all_unfinished by fastforce

lemma loop_invariant:
  assumes step: "\<And>p c. I p \<Longrightarrow> \<not> finished p \<Longrightarrow> I (feed p c)"
    and "buffer_inv b" and "I p" and "loop p b = Some (q, b')"
  shows "I q \<and> buffer_inv b' \<and> buf_limit b' = buf_limit b \<and> room b \<le> room b'"
proof -
  have "I (fst (feed_all feed finished p (contents b)))"
    by (rule feed_all_inv) (use step assms(3) in auto)
  with loop_spec [OF assms(2), of p] assms(4) show ?thesis by auto
qed

lemma loop_total: "buffer_inv b \<Longrightarrow> loop p b \<noteq> None"
  using loop_spec by force

end

end
