(* ===== verification/Negotiation_Parser.thy ===== *)
theory Negotiation_Parser
  imports Byte_Parser
begin

text \<open>
  \<open>src/server/negotiation_parser.c\<close> and its header: the SOCKS5 method negotiation
  (version, number of methods, the methods). The only method the server accepts is
  username/password (\<open>PASS\<close>). The parser object is never NULL here, so the NULL test of
  \<open>initialize_negotiation_parser\<close> always succeeds.
\<close>

datatype method_types = PASS | NOT_ACCEPTABLE

primrec method_code :: "method_types \<Rightarrow> u8" where
  "method_code PASS = 0x2"
| "method_code NOT_ACCEPTABLE = 0xFF"

datatype neg_states = NEG_VERSION | NEG_METHOD_COUNT | NEG_METHOD_LIST | NEG_DONE | NEG_ERROR

record neg_parser =
  selected_method :: method_types
  neg_state :: neg_states
  method_quantity :: u8

definition SOCKS_VERSION :: u8 where "SOCKS_VERSION = 0x05"

definition required_method :: method_types where "required_method = PASS"

definition is_negotiation_read_done :: "neg_parser \<Rightarrow> bool" where
  "is_negotiation_read_done np \<longleftrightarrow> neg_state np = NEG_DONE \<or> neg_state np = NEG_ERROR"

definition has_errors :: "neg_parser \<Rightarrow> bool" where
  "has_errors np \<longleftrightarrow> neg_state np = NEG_ERROR"

definition initialize_negotiation_parser :: "neg_parser \<Rightarrow> neg_parser" where
  "initialize_negotiation_parser np =
     np\<lparr>neg_state := NEG_VERSION, selected_method := NOT_ACCEPTABLE\<rparr>"

definition negotiation_parse_version :: "neg_parser \<Rightarrow> u8 \<Rightarrow> neg_parser" where
  "negotiation_parse_version np version =
     (if SOCKS_VERSION = version then np\<lparr>neg_state := NEG_METHOD_COUNT\<rparr>
      else np\<lparr>neg_state := NEG_ERROR\<rparr>)"

definition negotiation_parse_method_count :: "neg_parser \<Rightarrow> u8 \<Rightarrow> neg_parser" where
  "negotiation_parse_method_count np n =
     (if n = 0 then np\<lparr>neg_state := NEG_DONE\<rparr>
      else np\<lparr>method_quantity := n, neg_state := NEG_METHOD_LIST\<rparr>)"

text \<open>\<open>selected_method = current_method\<close> happens only where the byte is the required method.\<close>

definition negotiation_parse_methods :: "neg_parser \<Rightarrow> u8 \<Rightarrow> neg_parser" where
  "negotiation_parse_methods np m =
     (let np1 = np\<lparr>method_quantity := method_quantity np - 1\<rparr>;
          np2 = (if m = method_code required_method
                 then np1\<lparr>selected_method := required_method\<rparr> else np1)
      in np2\<lparr>neg_state := (if method_quantity np2 = 0 then NEG_DONE else NEG_METHOD_LIST)\<rparr>)"

text \<open>The switch of the loop; its default branch is left by the loop's guard.\<close>

definition negotiation_feed :: "neg_parser \<Rightarrow> u8 \<Rightarrow> neg_parser" where
  "negotiation_feed np c = (case neg_state np of
       NEG_VERSION \<Rightarrow> negotiation_parse_version np c
     | NEG_METHOD_COUNT \<Rightarrow> negotiation_parse_method_count np c
     | NEG_METHOD_LIST \<Rightarrow> negotiation_parse_methods np c
     | _ \<Rightarrow> np)"

function negotiation_parse :: "neg_parser \<Rightarrow> buffer \<Rightarrow> (neg_parser \<times> buffer) option" where
  "negotiation_parse np b =
     (if buffer_can_read b \<and> \<not> is_negotiation_read_done np
      then do { (c, b') \<leftarrow> buffer_read b; negotiation_parse (negotiation_feed np c) b' }
      else Some (np, b))"
  by pat_completeness auto
termination
  by (relation "measure (\<lambda>(np, b). buf_write b - buf_read b)")
    (auto dest: buffer_read_decreases)

declare negotiation_parse.simps [simp del]

text \<open>Returns 0 (\<open>False\<close>) on success, 1 (\<open>True\<close>) on error, with what was written so far.\<close>

definition generate_negotiation_response :: "neg_parser \<Rightarrow> buffer \<Rightarrow> (bool \<times> buffer) option" where
  "generate_negotiation_response np b =
     (if has_errors np \<or> \<not> buffer_can_write b then Some (True, b)
      else do {
        b1 \<leftarrow> buffer_write b SOCKS_VERSION;
        if \<not> buffer_can_write b1 then Some (True, b1)
        else do {
          b2 \<leftarrow> buffer_write b1 (method_code (selected_method np));
          Some (False, b2) } })"

interpretation neg: byte_parser negotiation_feed is_negotiation_read_done negotiation_parse
  by unfold_locales (rule negotiation_parse.simps)

lemmas neg_step_defs = negotiation_feed_def negotiation_parse_version_def
  negotiation_parse_method_count_def negotiation_parse_methods_def is_negotiation_read_done_def
  SOCKS_VERSION_def required_method_def Let_def

text \<open>
  While methods are being read, the counter is the number still to come, and it is not 0.
\<close>

definition neg_parser_ok :: "neg_parser \<Rightarrow> bool" where
  "neg_parser_ok np \<longleftrightarrow> (neg_state np = NEG_METHOD_LIST \<longrightarrow> method_quantity np \<noteq> 0)"

lemma negotiation_feed_ok [wf_intros]:
  "neg_parser_ok np \<Longrightarrow> neg_parser_ok (negotiation_feed np c)"
  by (cases "neg_state np") (auto simp: neg_parser_ok_def neg_step_defs)

lemma initialize_negotiation_ok [wf_intros]: "neg_parser_ok (initialize_negotiation_parser np)"
  by (simp add: neg_parser_ok_def initialize_negotiation_parser_def)

text \<open>Reading the method list: exactly as many bytes as announced, \<open>PASS\<close> if it is among them.\<close>

lemma feed_methods:
  assumes "length ms = unat (method_quantity np)" and "neg_state np = NEG_METHOD_LIST"
    and "ms \<noteq> []"
  shows "feed_all negotiation_feed is_negotiation_read_done np (ms @ rest) =
    (np\<lparr>method_quantity := 0, neg_state := NEG_DONE,
        selected_method := (if 0x2 \<in> set ms then PASS else selected_method np)\<rparr>, rest)"
  using assms
proof (induction ms arbitrary: np)
  case Nil
  then show ?case by simp
next
  case (Cons m ms)
  have nd: "\<not> is_negotiation_read_done np"
    using Cons.prems by (simp add: is_negotiation_read_done_def)
  let ?np1 = "negotiation_feed np m"
  have ne: "method_quantity np \<noteq> 0"
    using Cons.prems by auto
  then have q: "unat (method_quantity np - 1) = length ms"
    using Cons.prems by (simp add: unat_minus_one)
  show ?case
  proof (cases "ms = []")
    case True
    with q have "method_quantity np - 1 = 0" by (simp add: unat_eq_zero)
    with True nd Cons.prems show ?thesis
      by (simp add: neg_step_defs feed_step)
  next
    case False
    with q have nz: "method_quantity np - 1 \<noteq> 0" by auto
    have n1: "neg_state ?np1 = NEG_METHOD_LIST" "method_quantity ?np1 = method_quantity np - 1"
      "selected_method ?np1 = (if m = 0x2 then PASS else selected_method np)"
      using Cons.prems nz by (simp_all add: neg_step_defs)
    have "feed_all negotiation_feed is_negotiation_read_done ?np1 (ms @ rest) =
      (?np1\<lparr>method_quantity := 0, neg_state := NEG_DONE,
        selected_method := (if 0x2 \<in> set ms then PASS else selected_method ?np1)\<rparr>, rest)"
      using Cons.IH [of ?np1] n1 q False by simp
    moreover have "?np1\<lparr>method_quantity := 0, neg_state := NEG_DONE, selected_method := x\<rparr> =
      np\<lparr>method_quantity := 0, neg_state := NEG_DONE, selected_method := x\<rparr>" for x
      using Cons.prems by (simp add: neg_step_defs)
    ultimately show ?thesis
      using nd n1(3) by (cases "m = 0x2") (simp_all add: feed_step)
  qed
qed

text \<open>The negotiation of a well-formed hello, from a freshly initialised parser.\<close>

lemma feed_hello:
  assumes "length ms = unat n"
  shows "\<exists>np. feed_all negotiation_feed is_negotiation_read_done
      (initialize_negotiation_parser np0) (SOCKS_VERSION # n # ms @ rest) = (np, rest)
    \<and> neg_state np = NEG_DONE
    \<and> selected_method np = (if 0x2 \<in> set ms then PASS else NOT_ACCEPTABLE)"
proof (cases "n = 0")
  case True
  with assms have "ms = []" by simp
  with True show ?thesis
    by (simp add: initialize_negotiation_parser_def neg_step_defs feed_step)
next
  case False
  let ?np2 = "(initialize_negotiation_parser np0)\<lparr>method_quantity := n, neg_state := NEG_METHOD_LIST\<rparr>"
  from False have nz: "unat n \<noteq> 0" by (simp add: unat_eq_zero)
  then have "ms \<noteq> []" using assms by auto
  moreover have "feed_all negotiation_feed is_negotiation_read_done
      (initialize_negotiation_parser np0) (SOCKS_VERSION # n # ms @ rest)
    = feed_all negotiation_feed is_negotiation_read_done ?np2 (ms @ rest)"
    using False by (simp add: initialize_negotiation_parser_def neg_step_defs feed_step)
  moreover have "feed_all negotiation_feed is_negotiation_read_done ?np2 (ms @ rest) =
    (?np2\<lparr>method_quantity := 0, neg_state := NEG_DONE,
        selected_method := (if 0x2 \<in> set ms then PASS else selected_method ?np2)\<rparr>, rest)"
    using \<open>ms \<noteq> []\<close> assms by (intro feed_methods) simp_all
  ultimately show ?thesis
    by (simp add: initialize_negotiation_parser_def)
qed

lemma feed_bad_version:
  assumes "v \<noteq> SOCKS_VERSION"
  shows "feed_all negotiation_feed is_negotiation_read_done
      (initialize_negotiation_parser np0) (v # rest) =
    ((initialize_negotiation_parser np0)\<lparr>neg_state := NEG_ERROR\<rparr>, rest)"
  using assms by (simp add: initialize_negotiation_parser_def neg_step_defs feed_step)

lemma generate_negotiation_response_spec:
  assumes "buffer_inv b" and "2 \<le> room b" and "\<not> has_errors np"
  shows "\<exists>b'. generate_negotiation_response np b = Some (False, b') \<and> buffer_inv b'
    \<and> contents b' = contents b @ [SOCKS_VERSION, method_code (selected_method np)]
    \<and> room b' = room b - 2 \<and> buf_limit b' = buf_limit b"
proof -
  obtain b1 where b1: "buffer_write b SOCKS_VERSION = Some b1" "buffer_inv b1"
    "contents b1 = contents b @ [SOCKS_VERSION]" "room b = Suc (room b1)" "buf_limit b1 = buf_limit b"
    using buffer_write_spec [OF assms(1), of SOCKS_VERSION] assms(2) by auto
  obtain b2 where b2: "buffer_write b1 (method_code (selected_method np)) = Some b2" "buffer_inv b2"
    "contents b2 = contents b1 @ [method_code (selected_method np)]" "room b1 = Suc (room b2)"
    "buf_limit b2 = buf_limit b1"
    using buffer_write_spec [OF b1(2), of "method_code (selected_method np)"] b1(4) assms(2) by auto
  from b1 b2 assms show ?thesis
    by (simp add: generate_negotiation_response_def buffer_can_write_iff)
qed

lemma generate_negotiation_response_safe:
  assumes "buffer_inv b"
  shows "\<exists>r b'. generate_negotiation_response np b = Some (r, b') \<and> buffer_inv b'
    \<and> buf_limit b' = buf_limit b"
proof (cases "has_errors np \<or> room b = 0")
  case True
  with assms show ?thesis
    by (auto simp: generate_negotiation_response_def buffer_can_write_iff)
next
  case False
  then obtain b1 where b1: "buffer_write b SOCKS_VERSION = Some b1" "buffer_inv b1"
    "buf_limit b1 = buf_limit b"
    using buffer_write_spec [OF assms, of SOCKS_VERSION] by auto
  show ?thesis
  proof (cases "room b1 = 0")
    case True
    with False b1 show ?thesis
      by (auto simp: generate_negotiation_response_def buffer_can_write_iff)
  next
    case r1: False
    then obtain b2 where "buffer_write b1 (method_code (selected_method np)) = Some b2"
      "buffer_inv b2" "buf_limit b2 = buf_limit b1"
      using buffer_write_spec [OF b1(2)] by blast
    with False r1 b1 show ?thesis
      by (auto simp: generate_negotiation_response_def buffer_can_write_iff)
  qed
qed

end
