(* ===== verification/Auth_Parser.thy ===== *)
theory Auth_Parser
  imports Byte_Parser
begin

text \<open>
  \<open>src/server/authentication_parser.c\<close> and its header: the username/password
  subnegotiation. The arrays \<open>uname\<close> and \<open>passwd\<close> are lists of 256 bytes; the index into
  them is the \<open>uint8_t\<close> \<open>bytes_read\<close>, which wraps at 256 and so never leaves them. The
  parser object is never NULL here.
\<close>

datatype auth_states =
    AUTH_PARSE_VERSION | AUTH_ULEN | AUTH_UNAME | AUTH_PLEN | AUTH_PASSWD | AUTH_DONE | AUTH_ERROR

datatype auth_status = AUTHENTICATED | ACCESS_DENIED

primrec auth_status_code :: "auth_status \<Rightarrow> u8" where
  "auth_status_code AUTHENTICATED = 0"
| "auth_status_code ACCESS_DENIED = 1"

definition MAX_LENGTH :: nat where "MAX_LENGTH = 255"

definition AUTH_VERSION :: u8 where "AUTH_VERSION = 0x01"

record auth_parser =
  auth_state :: auth_states
  authenticated :: auth_status
  auth_length :: u8
  auth_bytes_read :: u8
  uname :: bytes
  passwd :: bytes

definition initialize_auth_parser :: "auth_parser \<Rightarrow> auth_parser" where
  "initialize_auth_parser ap =
     ap\<lparr>auth_state := AUTH_PARSE_VERSION, authenticated := ACCESS_DENIED,
        auth_length := 0, auth_bytes_read := 0\<rparr>"

definition auth_parse_version :: "auth_parser \<Rightarrow> u8 \<Rightarrow> auth_parser" where
  "auth_parse_version ap version =
     (if version = AUTH_VERSION then ap\<lparr>auth_state := AUTH_ULEN\<rparr>
      else ap\<lparr>auth_state := AUTH_ERROR\<rparr>)"

definition auth_parse_length :: "auth_parser \<Rightarrow> u8 \<Rightarrow> auth_parser" where
  "auth_parse_length ap n =
     (if unat n > MAX_LENGTH then ap\<lparr>auth_state := AUTH_ERROR\<rparr>
      else if n = 0 \<and> auth_state ap = AUTH_ULEN then ap\<lparr>auth_state := AUTH_PLEN\<rparr>
      else ap\<lparr>auth_state := (if auth_state ap = AUTH_ULEN then AUTH_UNAME else AUTH_PASSWD),
              auth_length := n\<rparr>)"

definition auth_parse_characters :: "auth_parser \<Rightarrow> u8 \<Rightarrow> auth_parser" where
  "auth_parse_characters ap c =
     (let i = unat (auth_bytes_read ap);
          ap1 = (if auth_state ap = AUTH_UNAME then ap\<lparr>uname := (uname ap)[i := c]\<rparr>
                 else ap\<lparr>passwd := (passwd ap)[i := c]\<rparr>);
          ap2 = ap1\<lparr>auth_bytes_read := auth_bytes_read ap + 1\<rparr>
      in if auth_bytes_read ap2 = auth_length ap2
         then ap2\<lparr>auth_bytes_read := 0,
                  auth_state := (if auth_state ap2 = AUTH_UNAME then AUTH_PLEN else AUTH_DONE)\<rparr>
         else ap2)"

definition auth_has_error :: "auth_parser \<Rightarrow> bool" where
  "auth_has_error ap \<longleftrightarrow> auth_state ap = AUTH_ERROR"

definition is_auth_done :: "auth_parser \<Rightarrow> bool" where
  "is_auth_done ap \<longleftrightarrow> auth_state ap = AUTH_DONE \<or> auth_state ap = AUTH_ERROR"

definition auth_generate_response :: "buffer \<Rightarrow> auth_status \<Rightarrow> (bool \<times> buffer) option" where
  "auth_generate_response b status =
     (if \<not> buffer_can_write b then Some (True, b)
      else do {
        b1 \<leftarrow> buffer_write b AUTH_VERSION;
        if \<not> buffer_can_write b1 then Some (True, b1)
        else do {
          b2 \<leftarrow> buffer_write b1 (auth_status_code status);
          Some (False, b2) } })"

text \<open>The if-chain of the loop of \<open>auth_parse\<close>; its last branch is left by the loop's guard.\<close>

definition auth_feed :: "auth_parser \<Rightarrow> u8 \<Rightarrow> auth_parser" where
  "auth_feed ap c =
     (if auth_state ap = AUTH_PARSE_VERSION then auth_parse_version ap c
      else if auth_state ap = AUTH_ULEN \<or> auth_state ap = AUTH_PLEN then auth_parse_length ap c
      else if auth_state ap = AUTH_UNAME \<or> auth_state ap = AUTH_PASSWD
      then auth_parse_characters ap c
      else ap)"

function auth_parse :: "auth_parser \<Rightarrow> buffer \<Rightarrow> (auth_parser \<times> buffer) option" where
  "auth_parse ap b =
     (if buffer_can_read b \<and> \<not> is_auth_done ap
      then do { (c, b') \<leftarrow> buffer_read b; auth_parse (auth_feed ap c) b' }
      else Some (ap, b))"
  by pat_completeness auto
termination
  by (relation "measure (\<lambda>(ap, b). buf_write b - buf_read b)")
    (auto dest: buffer_read_decreases)

declare auth_parse.simps [simp del]

interpretation auth: byte_parser auth_feed is_auth_done auth_parse
  by unfold_locales (rule auth_parse.simps)

lemmas auth_step_defs = auth_feed_def auth_parse_version_def auth_parse_length_def
  auth_parse_characters_def is_auth_done_def AUTH_VERSION_def MAX_LENGTH_def Let_def

section \<open>The arrays\<close>

text \<open>
  Both arrays keep their 256 bytes; the bytes of \<open>uname\<close> from the last index on stay zero
  when they were, so the name read so far is always terminated.
\<close>

definition auth_parser_ok :: "auth_parser \<Rightarrow> bool" where
  "auth_parser_ok ap \<longleftrightarrow> length (uname ap) = 256 \<and> length (passwd ap) = 256
     \<and> uname ap ! 255 = 0
     \<and> (auth_state ap \<in> {AUTH_PARSE_VERSION, AUTH_ULEN, AUTH_PLEN} \<longrightarrow> auth_bytes_read ap = 0)
     \<and> (auth_state ap = AUTH_UNAME \<longrightarrow> auth_bytes_read ap < auth_length ap)"

lemma auth_parser_ok_index:
  assumes "auth_parser_ok ap"
  shows "unat (auth_bytes_read ap) < length (uname ap)
    \<and> unat (auth_bytes_read ap) < length (passwd ap)"
  using assms unat_u8_less [of "auth_bytes_read ap"] by (simp add: auth_parser_ok_def)

lemma auth_parser_ok_terminated:
  assumes "auth_parser_ok ap"
  shows "terminated (uname ap)"
proof -
  have "uname ap ! 255 \<in> set (uname ap)"
    using assms by (intro nth_mem) (simp add: auth_parser_ok_def)
  with assms show ?thesis by (simp add: auth_parser_ok_def terminated_def)
qed

lemma auth_characters_ok:
  assumes ok: "auth_parser_ok ap" and st: "auth_state ap = AUTH_UNAME \<or> auth_state ap = AUTH_PASSWD"
  shows "auth_parser_ok (auth_parse_characters ap c)"
proof (cases "auth_state ap = AUTH_UNAME")
  case True
  with ok have lt: "unat (auth_bytes_read ap) < unat (auth_length ap)"
    by (simp add: auth_parser_ok_def word_less_nat_alt)
  then have small: "unat (auth_bytes_read ap) < 255"
    using unat_u8_less [of "auth_length ap"] by linarith
  then have "unat (auth_bytes_read ap + 1) = Suc (unat (auth_bytes_read ap))"
    by (simp add: unat_u8_Suc)
  with lt have "auth_bytes_read ap + 1 \<noteq> auth_length ap \<Longrightarrow> auth_bytes_read ap + 1 < auth_length ap"
    by (auto simp: word_less_nat_alt word_unat_eq_iff)
  with True ok small show ?thesis
    by (auto simp: auth_parser_ok_def auth_parse_characters_def Let_def)
next
  case False
  with ok st show ?thesis
    by (auto simp: auth_parser_ok_def auth_parse_characters_def Let_def)
qed

lemma auth_feed_ok [wf_intros]:
  assumes "auth_parser_ok ap"
  shows "auth_parser_ok (auth_feed ap c)"
proof (cases "auth_state ap = AUTH_UNAME \<or> auth_state ap = AUTH_PASSWD")
  case True
  with assms show ?thesis
    using auth_characters_ok [OF assms True] by (auto simp: auth_feed_def)
next
  case False
  with assms show ?thesis
    by (auto simp: auth_parser_ok_def auth_feed_def auth_parse_version_def auth_parse_length_def
        word_neq_0_conv)
qed

section \<open>Reading a run of characters\<close>

text \<open>
  From any point inside a field, the remaining characters of the field are stored in order
  and the parser moves on. A field of length 0 counts as 256 (\<open>wrap_total\<close>).
\<close>

lemma feed_uname:
  assumes "auth_state ap = AUTH_UNAME" and "length (uname ap) = 256" and "cs \<noteq> []"
    and "unat (auth_bytes_read ap) + length cs = wrap_total (auth_length ap)"
  shows "feed_all auth_feed is_auth_done ap (cs @ rest) =
    feed_all auth_feed is_auth_done
      (ap\<lparr>uname := poke (unat (auth_bytes_read ap)) cs (uname ap), auth_bytes_read := 0,
          auth_state := AUTH_PLEN\<rparr>) rest"
  using assms
proof (induction cs arbitrary: ap)
  case Nil
  then show ?case by simp
next
  case (Cons c cs)
  let ?k = "auth_bytes_read ap"
  have lt: "unat ?k < wrap_total (auth_length ap)" using Cons.prems(4) by simp
  have nd: "\<not> is_auth_done ap" using Cons.prems(1) by (simp add: is_auth_done_def)
  show ?case
  proof (cases "cs = []")
    case True
    with Cons.prems(4) have "?k + 1 = auth_length ap" using wrap_step [OF lt] by simp
    with True nd Cons.prems show ?thesis
      by (simp add: auth_feed_def auth_parse_characters_def Let_def poke_single feed_step unat_u8_less)
  next
    case False
    then have lt': "Suc (unat ?k) < wrap_total (auth_length ap)" using Cons.prems(4) by (cases cs) auto
    let ?ap1 = "ap\<lparr>uname := (uname ap)[unat ?k := c], auth_bytes_read := ?k + 1\<rparr>"
    have "auth_feed ap c = ?ap1"
      using Cons.prems(1) lt' wrap_step [OF lt]
      by (simp add: auth_feed_def auth_parse_characters_def Let_def)
    then show ?thesis
      using Cons.IH [of ?ap1] Cons.prems False nd wrap_next [OF lt']
      by (simp add: poke_Cons feed_step unat_u8_less)
  qed
qed

lemma feed_passwd:
  assumes "auth_state ap = AUTH_PASSWD" and "length (passwd ap) = 256" and "cs \<noteq> []"
    and "unat (auth_bytes_read ap) + length cs = wrap_total (auth_length ap)"
  shows "feed_all auth_feed is_auth_done ap (cs @ rest) =
    (ap\<lparr>passwd := poke (unat (auth_bytes_read ap)) cs (passwd ap), auth_bytes_read := 0,
        auth_state := AUTH_DONE\<rparr>, rest)"
  using assms
proof (induction cs arbitrary: ap)
  case Nil
  then show ?case by simp
next
  case (Cons c cs)
  let ?k = "auth_bytes_read ap"
  have lt: "unat ?k < wrap_total (auth_length ap)" using Cons.prems(4) by simp
  have nd: "\<not> is_auth_done ap" using Cons.prems(1) by (simp add: is_auth_done_def)
  show ?case
  proof (cases "cs = []")
    case True
    with Cons.prems(4) have "?k + 1 = auth_length ap" using wrap_step [OF lt] by simp
    with True nd Cons.prems show ?thesis
      by (simp add: auth_feed_def auth_parse_characters_def is_auth_done_def Let_def poke_single feed_step unat_u8_less)
  next
    case False
    then have lt': "Suc (unat ?k) < wrap_total (auth_length ap)" using Cons.prems(4) by (cases cs) auto
    let ?ap1 = "ap\<lparr>passwd := (passwd ap)[unat ?k := c], auth_bytes_read := ?k + 1\<rparr>"
    have "auth_feed ap c = ?ap1"
      using Cons.prems(1) lt' wrap_step [OF lt]
      by (simp add: auth_feed_def auth_parse_characters_def Let_def)
    then show ?thesis
      using Cons.IH [of ?ap1] Cons.prems False nd wrap_next [OF lt']
      by (simp add: poke_Cons feed_step unat_u8_less)
  qed
qed

text \<open>The length bytes.\<close>

lemma feed_version:
  assumes "auth_state ap = AUTH_PARSE_VERSION"
  shows "feed_all auth_feed is_auth_done ap (AUTH_VERSION # cs) =
    feed_all auth_feed is_auth_done (ap\<lparr>auth_state := AUTH_ULEN\<rparr>) cs"
  using assms
  by (simp add: feed_step is_auth_done_def auth_feed_def auth_parse_version_def)

lemma auth_length_guard: "\<not> MAX_LENGTH < unat (n :: u8)"
  using unat_u8_le [of n] by (simp add: MAX_LENGTH_def)

lemma feed_ulen:
  assumes "auth_state ap = AUTH_ULEN"
  shows "feed_all auth_feed is_auth_done ap (n # cs) =
    feed_all auth_feed is_auth_done
      (if n = 0 then ap\<lparr>auth_state := AUTH_PLEN\<rparr>
       else ap\<lparr>auth_state := AUTH_UNAME, auth_length := n\<rparr>) cs"
  using assms auth_length_guard [of n]
  by (simp add: feed_step is_auth_done_def auth_feed_def auth_parse_length_def)

lemma feed_plen:
  assumes "auth_state ap = AUTH_PLEN"
  shows "feed_all auth_feed is_auth_done ap (n # cs) =
    feed_all auth_feed is_auth_done (ap\<lparr>auth_state := AUTH_PASSWD, auth_length := n\<rparr>) cs"
  using assms auth_length_guard [of n]
  by (simp add: feed_step is_auth_done_def auth_feed_def auth_parse_length_def)

text \<open>
  A whole request: the fields end up in the arrays and the rest is left. The password takes
  \<open>wrap_total m\<close> bytes.
\<close>

definition auth_result :: "auth_parser \<Rightarrow> bytes \<Rightarrow> u8 \<Rightarrow> bytes \<Rightarrow> auth_parser" where
  "auth_result ap u m p = (initialize_auth_parser ap)\<lparr>uname := poke 0 u (uname ap),
     passwd := poke 0 p (passwd ap), auth_length := m, auth_state := AUTH_DONE\<rparr>"

lemma feed_auth_request:
  assumes ok: "length (uname ap) = 256" "length (passwd ap) = 256"
    and u: "length u = unat n" and p: "length p = wrap_total m"
  shows "feed_all auth_feed is_auth_done (initialize_auth_parser ap)
      (AUTH_VERSION # n # u @ m # p @ rest) = (auth_result ap u m p, rest)"
proof -
  have pne: "p \<noteq> []" using p wrap_total_pos [of m] by auto
  let ?i = "(initialize_auth_parser ap)\<lparr>auth_state := AUTH_ULEN\<rparr>"
  have "feed_all auth_feed is_auth_done (initialize_auth_parser ap)
      (AUTH_VERSION # n # u @ m # p @ rest)
    = feed_all auth_feed is_auth_done ?i (n # u @ m # p @ rest)"
    by (simp add: feed_version initialize_auth_parser_def)
  also have "\<dots> = feed_all auth_feed is_auth_done
      (?i\<lparr>auth_length := n, uname := poke 0 u (uname ap), auth_state := AUTH_PLEN\<rparr>) (m # p @ rest)"
  proof (cases "n = 0")
    case True
    with u have "u = []" by simp
    with True show ?thesis
      by (cases ap) (simp add: feed_ulen initialize_auth_parser_def)
  next
    case False
    with u have "u \<noteq> []" by (auto simp: unat_eq_zero)
    with False u ok show ?thesis
      by (cases ap) (simp add: feed_ulen feed_uname wrap_total_def initialize_auth_parser_def)
  qed
  also have "\<dots> = (auth_result ap u m p, rest)"
    using pne p ok
    by (cases ap) (simp add: feed_plen feed_passwd auth_result_def initialize_auth_parser_def)
  finally show ?thesis .
qed

lemma auth_result_strings:
  assumes "length (uname ap) = 256" and "\<forall>c \<in> set (uname ap). c = 0"
    and "length u < 256" and "0 \<notin> set u"
  shows "cstr (uname (auth_result ap u m p)) = u"
proof -
  have "drop (length u) (uname ap) = 0 # drop (Suc (length u)) (uname ap)"
    using assms by (metis Cons_nth_drop_Suc nth_mem)
  then show ?thesis
    using assms(4) by (simp add: auth_result_def initialize_auth_parser_def poke_def cstr_append_zero)
qed

lemma auth_result_passwd:
  assumes "length (passwd ap) = 256" and "\<forall>c \<in> set (passwd ap). c = 0"
    and "length p < 256" and "0 \<notin> set p"
  shows "cstr (passwd (auth_result ap u m p)) = p"
proof -
  have "drop (length p) (passwd ap) = 0 # drop (Suc (length p)) (passwd ap)"
    using assms by (metis Cons_nth_drop_Suc nth_mem)
  then show ?thesis
    using assms(4) by (simp add: auth_result_def initialize_auth_parser_def poke_def cstr_append_zero)
qed

lemma auth_result_done [simp]: "is_auth_done (auth_result ap u m p)"
  by (simp add: auth_result_def is_auth_done_def)

lemma auth_generate_response_spec:
  assumes "buffer_inv b" and "2 \<le> room b"
  shows "\<exists>b'. auth_generate_response b st = Some (False, b') \<and> buffer_inv b'
    \<and> contents b' = contents b @ [AUTH_VERSION, auth_status_code st]
    \<and> room b' = room b - 2 \<and> buf_limit b' = buf_limit b"
proof -
  obtain b1 where b1: "buffer_write b AUTH_VERSION = Some b1" "buffer_inv b1"
    "contents b1 = contents b @ [AUTH_VERSION]" "room b = Suc (room b1)" "buf_limit b1 = buf_limit b"
    using buffer_write_spec [OF assms(1), of AUTH_VERSION] assms(2) by auto
  obtain b2 where "buffer_write b1 (auth_status_code st) = Some b2" "buffer_inv b2"
    "contents b2 = contents b1 @ [auth_status_code st]" "room b1 = Suc (room b2)"
    "buf_limit b2 = buf_limit b1"
    using buffer_write_spec [OF b1(2), of "auth_status_code st"] b1(4) assms(2) by auto
  with b1 assms show ?thesis
    by (simp add: auth_generate_response_def buffer_can_write_iff)
qed

lemma auth_generate_response_safe:
  assumes "buffer_inv b"
  shows "\<exists>r b'. auth_generate_response b st = Some (r, b') \<and> buffer_inv b' \<and> buf_limit b' = buf_limit b"
proof (cases "2 \<le> room b")
  case True
  with auth_generate_response_spec [OF assms] show ?thesis by blast
next
  case False
  show ?thesis
  proof (cases "room b = 0")
    case True
    with assms show ?thesis by (auto simp: auth_generate_response_def buffer_can_write_iff)
  next
    case r: False
    then obtain b1 where "buffer_write b AUTH_VERSION = Some b1" "buffer_inv b1"
      "room b = Suc (room b1)" "buf_limit b1 = buf_limit b"
      using buffer_write_spec [OF assms, of AUTH_VERSION] by auto
    with False r assms show ?thesis
      by (auto simp: auth_generate_response_def buffer_can_write_iff)
  qed
qed

end
