(* ===== verification/Request_Parser.thy ===== *)
theory Request_Parser
  imports Byte_Parser
begin

unbundle bit_operations_syntax

text \<open>
  \<open>src/server/request_parser.c\<close> and its header: the CONNECT request of the client and the
  reply of the server. The C union \<open>address_class\<close> (\<open>in_addr\<close>, \<open>in6_addr\<close>, \<open>char dn[256]\<close>)
  is its 256 bytes, read through \<open>addr_ipv4\<close>, \<open>addr_ipv6\<close> and \<open>addr_dn\<close>. \<open>atyp\<close> is the
  enum's 32-bit object, which any byte may be stored into. Socket addresses
  (\<open>sockaddr_storage\<close>) hold address and port as they lie in memory, in network order. The
  parser object is never NULL here.
\<close>

datatype req_states =
    REQ_VERSION | REQ_CMD | REQ_RSV | REQ_ATYP | REQ_DST_ADDR_LENGTH | REQ_DST_ADDR
  | REQ_DST_PORT | REQ_DONE | REQ_ERROR

datatype connection_status =
    CON_SUCCEEDED | CON_SERVER_FAILURE | CON_NOT_ALLOWED | CON_NET_UNREACHABLE
  | CON_HOST_UNREACHABLE | CON_REFUSED | CON_TTL_EXPIRED | CON_COMMAND_NOT_SUPPORTED
  | CON_ATYPE_NOT_SUPPORTED | CON_OTHER

primrec status_code :: "connection_status \<Rightarrow> u8" where
  "status_code CON_SUCCEEDED = 0"
| "status_code CON_SERVER_FAILURE = 1"
| "status_code CON_NOT_ALLOWED = 2"
| "status_code CON_NET_UNREACHABLE = 3"
| "status_code CON_HOST_UNREACHABLE = 4"
| "status_code CON_REFUSED = 5"
| "status_code CON_TTL_EXPIRED = 6"
| "status_code CON_COMMAND_NOT_SUPPORTED = 7"
| "status_code CON_ATYPE_NOT_SUPPORTED = 8"
| "status_code CON_OTHER = 9"

definition IPV4 :: u32 where "IPV4 = 0x01"
definition DN :: u32 where "DN = 0x03"
definition IPV6 :: u32 where "IPV6 = 0x04"

definition MAX_ADDR_LENGTH :: nat where "MAX_ADDR_LENGTH = 255"
definition PROTOCOL_VERSION :: u8 where "PROTOCOL_VERSION = 0x05"
definition CONNECT :: u8 where "CONNECT = 0x01"
definition RSV :: u8 where "RSV = 0x00"

text \<open>\<open>sizeof\<close> of the two address structs.\<close>

definition sizeof_in_addr :: u8 where "sizeof_in_addr = 4"
definition sizeof_in6_addr :: u8 where "sizeof_in6_addr = 16"

record address =
  address_class :: bytes
  addr_buffer :: bytes

definition addr_ipv4 :: "address \<Rightarrow> bytes" where
  "addr_ipv4 a = take 4 (address_class a)"

definition addr_ipv6 :: "address \<Rightarrow> bytes" where
  "addr_ipv6 a = take 16 (address_class a)"

definition addr_dn :: "address \<Rightarrow> bytes" where
  "addr_dn a = cstr (address_class a)"

record req_parser =
  req_state :: req_states
  con_status :: connection_status
  atyp :: u32
  addr_len :: u8
  req_bytes_read :: u8
  req_port :: u16
  req_address :: address

definition initialize_request_parser :: "req_parser \<Rightarrow> req_parser" where
  "initialize_request_parser rp =
     rp\<lparr>req_state := REQ_VERSION, con_status := CON_SERVER_FAILURE, addr_len := 0,
        req_bytes_read := 0, req_port := 0\<rparr>"

definition req_parse_version :: "req_parser \<Rightarrow> u8 \<Rightarrow> req_parser" where
  "req_parse_version rp version =
     (if version = PROTOCOL_VERSION then rp\<lparr>req_state := REQ_CMD\<rparr>
      else rp\<lparr>req_state := REQ_ERROR\<rparr>)"

definition req_parse_cmd :: "req_parser \<Rightarrow> u8 \<Rightarrow> req_parser" where
  "req_parse_cmd rp cmd =
     (if cmd = CONNECT then rp\<lparr>req_state := REQ_RSV\<rparr>
      else rp\<lparr>req_state := REQ_ERROR, con_status := CON_COMMAND_NOT_SUPPORTED\<rparr>)"

definition req_parse_rsv :: "req_parser \<Rightarrow> u8 \<Rightarrow> req_parser" where
  "req_parse_rsv rp rsv =
     (if rsv = RSV then rp\<lparr>req_state := REQ_ATYP\<rparr>
      else rp\<lparr>req_state := REQ_ERROR, con_status := CON_SERVER_FAILURE\<rparr>)"

definition req_parse_atyp :: "req_parser \<Rightarrow> u8 \<Rightarrow> req_parser" where
  "req_parse_atyp rp t =
     (let rp1 = rp\<lparr>atyp := ucast t\<rparr>
      in if ucast t = IPV4 then rp1\<lparr>req_state := REQ_DST_ADDR, addr_len := sizeof_in_addr\<rparr>
         else if ucast t = IPV6 then rp1\<lparr>req_state := REQ_DST_ADDR, addr_len := sizeof_in6_addr\<rparr>
         else if ucast t = DN then rp1\<lparr>req_state := REQ_DST_ADDR_LENGTH\<rparr>
         else rp1\<lparr>req_state := REQ_ERROR, con_status := CON_ATYPE_NOT_SUPPORTED\<rparr>)"

definition req_parse_dst_addr_length :: "req_parser \<Rightarrow> u8 \<Rightarrow> req_parser" where
  "req_parse_dst_addr_length rp n =
     (if unat n > MAX_ADDR_LENGTH then rp\<lparr>req_state := REQ_ERROR, con_status := CON_OTHER\<rparr>
      else rp\<lparr>addr_len := n, req_state := REQ_DST_ADDR\<rparr>)"

text \<open>
  The three \<open>memcpy\<close> of the switch copy \<open>addr_len\<close> bytes to the start of the union; the
  domain name is also terminated.
\<close>

definition req_parse_dst_addr :: "req_parser \<Rightarrow> u8 \<Rightarrow> req_parser" where
  "req_parse_dst_addr rp c =
     (let a = req_address rp;
          a1 = a\<lparr>addr_buffer := (addr_buffer a)[unat (req_bytes_read rp) := c]\<rparr>;
          rp1 = rp\<lparr>req_address := a1, req_bytes_read := req_bytes_read rp + 1\<rparr>;
          n = unat (addr_len rp1);
          a2 = a1\<lparr>address_class := poke 0 (take n (addr_buffer a1)) (address_class a1)\<rparr>
      in if req_bytes_read rp1 = addr_len rp1 then
           (if atyp rp1 = IPV4 \<or> atyp rp1 = IPV6 then
              rp1\<lparr>req_address := a2, req_state := REQ_DST_PORT, req_bytes_read := 0\<rparr>
            else if atyp rp1 = DN then
              rp1\<lparr>req_address := a2\<lparr>address_class := (address_class a2)[n := 0]\<rparr>,
                  req_state := REQ_DST_PORT, req_bytes_read := 0\<rparr>
            else rp1)
         else rp1\<lparr>req_state := REQ_DST_ADDR\<rparr>)"

definition req_parse_dst_port :: "req_parser \<Rightarrow> u8 \<Rightarrow> req_parser" where
  "req_parse_dst_port rp c =
     (if req_bytes_read rp = 0
      then rp\<lparr>req_bytes_read := req_bytes_read rp + 1, req_port := push_bit 8 (ucast c)\<rparr>
      else rp\<lparr>req_port := req_port rp OR ucast c, req_bytes_read := 0, req_state := REQ_DONE\<rparr>)"

definition req_has_error :: "req_parser \<Rightarrow> bool" where
  "req_has_error rp \<longleftrightarrow> req_state rp = REQ_ERROR"

definition is_req_done :: "req_parser \<Rightarrow> bool" where
  "is_req_done rp \<longleftrightarrow> req_state rp = REQ_DONE \<or> req_state rp = REQ_ERROR"

text \<open>The switch of the loop of \<open>req_parse\<close>; its default branch is left by the loop's guard.\<close>

definition req_feed :: "req_parser \<Rightarrow> u8 \<Rightarrow> req_parser" where
  "req_feed rp c = (case req_state rp of
       REQ_VERSION \<Rightarrow> req_parse_version rp c
     | REQ_CMD \<Rightarrow> req_parse_cmd rp c
     | REQ_RSV \<Rightarrow> req_parse_rsv rp c
     | REQ_ATYP \<Rightarrow> req_parse_atyp rp c
     | REQ_DST_ADDR_LENGTH \<Rightarrow> req_parse_dst_addr_length rp c
     | REQ_DST_ADDR \<Rightarrow> req_parse_dst_addr rp c
     | REQ_DST_PORT \<Rightarrow> req_parse_dst_port rp c
     | _ \<Rightarrow> rp)"

function req_parse :: "req_parser \<Rightarrow> buffer \<Rightarrow> (req_parser \<times> buffer) option" where
  "req_parse rp b =
     (if buffer_can_read b \<and> \<not> (req_state rp = REQ_DONE \<or> req_state rp = REQ_ERROR)
      then do { (c, b') \<leftarrow> buffer_read b; req_parse (req_feed rp c) b' }
      else Some (rp, b))"
  by pat_completeness auto
termination
  by (relation "measure (\<lambda>(rp, b). buf_write b - buf_read b)")
    (auto dest: buffer_read_decreases)

declare req_parse.simps [simp del]

section \<open>The reply\<close>

datatype sockaddr =
    Sockaddr_in (sin_addr: bytes) (sin_port: bytes)
  | Sockaddr_in6 (sin6_addr: bytes) (sin6_port: bytes)
  | Sockaddr_other

text \<open>\<open>htons\<close> as it lies in memory: high byte first.\<close>

definition htons :: "u16 \<Rightarrow> bytes" where
  "htons p = [ucast (drop_bit 8 p), ucast p]"

definition ntohs :: "bytes \<Rightarrow> u16" where
  "ntohs bs = push_bit 8 (ucast (bs ! 0)) OR ucast (bs ! 1)"

definition dummy_bnd_addr :: sockaddr where
  "dummy_bnd_addr = Sockaddr_in (replicate 4 0) (replicate 2 0)"

text \<open>The bytes \<open>req_generate_response\<close> collects in \<open>response\<close>.\<close>

definition req_response :: "req_parser \<Rightarrow> sockaddr \<Rightarrow> bytes" where
  "req_response rp bnd =
     [PROTOCOL_VERSION, status_code (con_status rp), RSV] @
     (if con_status rp = CON_SUCCEEDED then
        (case bnd of
           Sockaddr_in a p \<Rightarrow> ucast IPV4 # take 4 a @ take 2 p
         | Sockaddr_in6 a p \<Rightarrow> ucast IPV6 # take 16 a @ take 2 p
         | Sockaddr_other \<Rightarrow> ucast IPV4 # replicate 4 0 @ replicate 2 0)
      else ucast IPV4 # replicate 4 0 @ replicate 2 0)"

text \<open>The loop that writes them; it stops with an error where the buffer is full.\<close>

fun req_put_response :: "bytes \<Rightarrow> buffer \<Rightarrow> (bool \<times> buffer) option" where
  "req_put_response [] b = Some (False, b)"
| "req_put_response (c # cs) b =
     (if \<not> buffer_can_write b then Some (True, b)
      else do { b1 \<leftarrow> buffer_write b c; req_put_response cs b1 })"

definition req_generate_response :: "req_parser \<Rightarrow> buffer \<Rightarrow> sockaddr \<Rightarrow> (bool \<times> buffer) option" where
  "req_generate_response rp b bnd = req_put_response (req_response rp bnd) b"

section \<open>The loop\<close>

lemma req_parse_unfold:
  "req_parse rp b =
     (if buffer_can_read b \<and> \<not> is_req_done rp
      then do { (c, b') \<leftarrow> buffer_read b; req_parse (req_feed rp c) b' }
      else Some (rp, b))"
  by (subst req_parse.simps) (simp add: is_req_done_def)

interpretation req: byte_parser req_feed is_req_done req_parse
  by unfold_locales (rule req_parse_unfold)

lemmas req_step_defs = req_feed_def req_parse_version_def req_parse_cmd_def req_parse_rsv_def
  req_parse_atyp_def req_parse_dst_addr_length_def req_parse_dst_addr_def req_parse_dst_port_def
  Let_def

text \<open>
  The arrays keep their sizes; inside the address field the address type is one of the three
  the switch knows, and an IP address stays within its struct.
\<close>

definition req_parser_ok :: "req_parser \<Rightarrow> bool" where
  "req_parser_ok rp \<longleftrightarrow>
     length (address_class (req_address rp)) = 256 \<and> length (addr_buffer (req_address rp)) = 256
     \<and> (req_state rp \<in> {REQ_DST_ADDR, REQ_DST_PORT, REQ_DONE} \<longrightarrow> atyp rp \<in> {IPV4, IPV6, DN})
     \<and> (req_state rp = REQ_DST_ADDR_LENGTH \<longrightarrow> atyp rp = DN)
     \<and> (req_state rp = REQ_DST_ADDR \<longrightarrow>
          (atyp rp = IPV4 \<longrightarrow> addr_len rp = sizeof_in_addr)
        \<and> (atyp rp = IPV6 \<longrightarrow> addr_len rp = sizeof_in6_addr)
        \<and> unat (req_bytes_read rp) < wrap_total (addr_len rp))
     \<and> (req_state rp \<in> {REQ_VERSION, REQ_CMD, REQ_RSV, REQ_ATYP, REQ_DST_ADDR_LENGTH}
          \<longrightarrow> req_bytes_read rp = 0)"

lemma req_parser_ok_index:
  assumes "req_parser_ok rp"
  shows "unat (req_bytes_read rp) < length (addr_buffer (req_address rp))
    \<and> unat (addr_len rp) < length (address_class (req_address rp))"
  using assms unat_u8_less [of "req_bytes_read rp"] unat_u8_less [of "addr_len rp"]
  by (simp add: req_parser_ok_def)

lemma initialize_request_ok [wf_intros]:
  "length (address_class (req_address rp)) = 256 \<Longrightarrow> length (addr_buffer (req_address rp)) = 256
   \<Longrightarrow> req_parser_ok (initialize_request_parser rp)"
  by (simp add: req_parser_ok_def initialize_request_parser_def)

lemma atyp_distinct [simp]:
  "IPV4 \<noteq> DN" "IPV6 \<noteq> DN" "IPV4 \<noteq> IPV6" "DN \<noteq> IPV4" "DN \<noteq> IPV6" "IPV6 \<noteq> IPV4"
  by (simp_all add: IPV4_def IPV6_def DN_def)

lemma wrap_total_sizes [simp]:
  "wrap_total sizeof_in_addr = 4" "wrap_total sizeof_in6_addr = 16"
  "unat sizeof_in_addr = 4" "unat sizeof_in6_addr = 16"
  by (simp_all add: wrap_total_def sizeof_in_addr_def sizeof_in6_addr_def)

lemma addr_length_guard: "\<not> MAX_ADDR_LENGTH < unat (n :: u8)"
  using unat_u8_le [of n] by (simp add: MAX_ADDR_LENGTH_def)

lemma req_dst_addr_ok:
  assumes ok: "req_parser_ok rp" and st: "req_state rp = REQ_DST_ADDR"
  shows "req_parser_ok (req_parse_dst_addr rp c)"
proof -
  let ?k = "req_bytes_read rp"
  from ok st have lt: "unat ?k < wrap_total (addr_len rp)" by (simp add: req_parser_ok_def)
  have n: "unat (addr_len rp) \<le> 255" by (rule unat_u8_le)
  show ?thesis
  proof (cases "?k + 1 = addr_len rp")
    case True
    with ok st n show ?thesis
      by (auto simp: req_parser_ok_def req_parse_dst_addr_def Let_def)
  next
    case False
    then have "Suc (unat ?k) < wrap_total (addr_len rp)"
      using wrap_step [OF lt] lt by simp
    with wrap_next [OF this] False ok st show ?thesis
      by (auto simp: req_parser_ok_def req_parse_dst_addr_def Let_def)
  qed
qed

lemma req_feed_ok [wf_intros]:
  assumes "req_parser_ok rp"
  shows "req_parser_ok (req_feed rp c)"
proof (cases "req_state rp")
  case REQ_DST_ADDR
  with req_dst_addr_ok [OF assms] show ?thesis by (simp add: req_feed_def)
next
  case REQ_ATYP
  with assms show ?thesis
    by (auto simp: req_parser_ok_def req_feed_def req_parse_atyp_def Let_def)
next
  case REQ_DST_ADDR_LENGTH
  with assms show ?thesis
    using addr_length_guard [of c] wrap_total_pos [of c]
    by (auto simp: req_parser_ok_def req_feed_def req_parse_dst_addr_length_def)
next
  case REQ_DST_PORT
  with assms show ?thesis
    by (auto simp: req_parser_ok_def req_feed_def req_parse_dst_port_def)
qed (use assms in \<open>auto simp: req_parser_ok_def req_feed_def req_parse_version_def
      req_parse_cmd_def req_parse_rsv_def\<close>)

section \<open>Reading the fields\<close>

lemma not_done: "req_state rp \<notin> {REQ_DONE, REQ_ERROR} \<Longrightarrow> \<not> is_req_done rp"
  by (simp add: is_req_done_def)

text \<open>The address field, from any point inside it; a length of 0 counts as 256.\<close>

definition dst_addr_result :: "req_parser \<Rightarrow> bytes \<Rightarrow> req_parser" where
  "dst_addr_result rp cs =
     (let a = req_address rp;
          buf = poke (unat (req_bytes_read rp)) cs (addr_buffer a);
          n = unat (addr_len rp);
          cls = poke 0 (take n buf) (address_class a);
          cls' = (if atyp rp = DN then cls[n := 0] else cls)
      in rp\<lparr>req_address := a\<lparr>addr_buffer := buf, address_class := cls'\<rparr>,
           req_state := REQ_DST_PORT, req_bytes_read := 0\<rparr>)"

lemma feed_dst_addr:
  assumes "req_state rp = REQ_DST_ADDR" and "length (addr_buffer (req_address rp)) = 256"
    and "atyp rp \<in> {IPV4, IPV6, DN}" and "cs \<noteq> []"
    and "unat (req_bytes_read rp) + length cs = wrap_total (addr_len rp)"
  shows "feed_all req_feed is_req_done rp (cs @ rest) =
    feed_all req_feed is_req_done (dst_addr_result rp cs) rest"
  using assms
proof (induction cs arbitrary: rp)
  case Nil
  then show ?case by simp
next
  case (Cons c cs)
  let ?k = "req_bytes_read rp" and ?a = "req_address rp"
  have lt: "unat ?k < wrap_total (addr_len rp)" using Cons.prems(5) by simp
  have nd: "\<not> is_req_done rp" using Cons.prems(1) by (simp add: is_req_done_def)
  show ?case
  proof (cases "cs = []")
    case True
    with Cons.prems(5) have "?k + 1 = addr_len rp" using wrap_step [OF lt] by simp
    then have "req_feed rp c = dst_addr_result rp [c]"
      using Cons.prems
      by (cases rp) (auto simp: req_feed_def req_parse_dst_addr_def dst_addr_result_def Let_def
          poke_single unat_u8_less)
    with True nd show ?thesis by (simp add: feed_step)
  next
    case False
    then have lt': "Suc (unat ?k) < wrap_total (addr_len rp)" using Cons.prems(5) by (cases cs) auto
    let ?rp1 = "rp\<lparr>req_address := ?a\<lparr>addr_buffer := (addr_buffer ?a)[unat ?k := c]\<rparr>,
      req_bytes_read := ?k + 1\<rparr>"
    have "req_feed rp c = ?rp1"
      using Cons.prems(1) lt' wrap_step [OF lt]
      by (simp add: req_feed_def req_parse_dst_addr_def Let_def)
    moreover have "dst_addr_result ?rp1 cs = dst_addr_result rp (c # cs)"
      using Cons.prems(2) wrap_next [OF lt']
      by (simp add: dst_addr_result_def Let_def poke_Cons unat_u8_less)
    ultimately show ?thesis
      using Cons.IH [of ?rp1] Cons.prems False nd wrap_next [OF lt'] by (simp add: feed_step)
  qed
qed

lemma feed_dst_port:
  assumes "req_state rp = REQ_DST_PORT" and "req_bytes_read rp = 0"
  shows "feed_all req_feed is_req_done rp (h # l # rest) =
    (rp\<lparr>req_port := ntohs [h, l], req_state := REQ_DONE\<rparr>, rest)"
  using assms
  by (cases rp) (simp add: feed_step is_req_done_def req_feed_def req_parse_dst_port_def ntohs_def)

lemma ntohs_htons [simp]: "ntohs (htons p) = p"
  by (rule bit_word_eqI) (auto simp: ntohs_def htons_def bit_simps)

lemma htons_Cons: "\<exists>h l. htons p = [h, l]"
  by (simp add: htons_def)

lemma feed_dst_port_htons:
  assumes "req_state rp = REQ_DST_PORT" and "req_bytes_read rp = 0"
  shows "feed_all req_feed is_req_done rp (htons p @ rest) =
    (rp\<lparr>req_port := p, req_state := REQ_DONE\<rparr>, rest)"
proof -
  obtain h l where "htons p = [h, l]" using htons_Cons by blast
  then show ?thesis using feed_dst_port [OF assms, of h l rest] ntohs_htons [of p] by simp
qed

text \<open>The header of a CONNECT request up to the address type.\<close>

lemma feed_connect_header:
  "feed_all req_feed is_req_done (initialize_request_parser rp)
      (PROTOCOL_VERSION # CONNECT # RSV # t # rest) =
   feed_all req_feed is_req_done
      (req_parse_atyp ((initialize_request_parser rp)\<lparr>req_state := REQ_ATYP\<rparr>) t) rest"
  by (simp add: feed_step is_req_done_def initialize_request_parser_def req_feed_def
      req_parse_version_def req_parse_cmd_def req_parse_rsv_def)

text \<open>
  What a complete request leaves in the parser: the address type, the port, and the address
  bytes at the start of the union.
\<close>

definition request_read_as :: "req_parser \<Rightarrow> u32 \<Rightarrow> bytes \<Rightarrow> u16 \<Rightarrow> bool" where
  "request_read_as rp t a p \<longleftrightarrow> req_state rp = REQ_DONE \<and> atyp rp = t \<and> req_port rp = p
     \<and> take (length a) (address_class (req_address rp)) = a"

lemma dst_addr_result_class:
  assumes "length (addr_buffer (req_address rp)) = 256" "length (address_class (req_address rp)) = 256"
    and "req_bytes_read rp = 0" and "length cs = unat (addr_len rp)"
  shows "take (length cs) (address_class (req_address (dst_addr_result rp cs))) = cs"
    and "atyp rp = DN \<Longrightarrow> address_class (req_address (dst_addr_result rp cs)) ! length cs = 0"
proof -
  have le: "length cs \<le> 255" using assms(4) unat_u8_le [of "addr_len rp"] by simp
  then have tk: "take (length cs) (poke 0 cs (addr_buffer (req_address rp))) = cs"
    using assms(1) by (intro take_poke_0) simp
  moreover have "take (length cs) (poke 0 cs (address_class (req_address rp))) = cs"
    using assms(2) le by (intro take_poke_0) simp
  ultimately show "take (length cs) (address_class (req_address (dst_addr_result rp cs))) = cs"
    using assms by (simp add: dst_addr_result_def Let_def)
  show "address_class (req_address (dst_addr_result rp cs)) ! length cs = 0" if "atyp rp = DN"
    using that assms le tk by (simp add: dst_addr_result_def Let_def)
qed

lemma dst_addr_result_simps [simp]:
  "req_state (dst_addr_result rp cs) = REQ_DST_PORT"
  "req_bytes_read (dst_addr_result rp cs) = 0"
  "atyp (dst_addr_result rp cs) = atyp rp"
  "con_status (dst_addr_result rp cs) = con_status rp"
  by (simp_all add: dst_addr_result_def Let_def)

text \<open>Address and port together, once the length of the address is known.\<close>

lemma feed_addr_port:
  assumes "req_state rp = REQ_DST_ADDR" and "req_bytes_read rp = 0"
    and "length (addr_buffer (req_address rp)) = 256" "length (address_class (req_address rp)) = 256"
    and "atyp rp \<in> {IPV4, IPV6, DN}" and "a \<noteq> []" and "length a = unat (addr_len rp)"
  shows "\<exists>rp'. feed_all req_feed is_req_done rp (a @ htons p @ rest) = (rp', rest)
    \<and> request_read_as rp' (atyp rp) a p
    \<and> (atyp rp = DN \<longrightarrow> address_class (req_address rp') ! length a = 0)
    \<and> con_status rp' = con_status rp"
proof -
  from assms(6,7) have "addr_len rp \<noteq> 0" by (metis length_0_conv unat_0)
  with assms have "feed_all req_feed is_req_done rp (a @ htons p @ rest) =
    feed_all req_feed is_req_done (dst_addr_result rp a) (htons p @ rest)"
    by (intro feed_dst_addr) (simp_all add: wrap_total_def)
  then show ?thesis
    using dst_addr_result_class [OF assms(3,4,2,7)]
    by (simp add: feed_dst_port_htons request_read_as_def)
qed

lemma feed_request_ip:
  assumes "length (addr_buffer (req_address rp)) = 256" "length (address_class (req_address rp)) = 256"
    and "(t = IPV4 \<and> length a = 4) \<or> (t = IPV6 \<and> length a = 16)"
  shows "\<exists>rp'. feed_all req_feed is_req_done (initialize_request_parser rp)
      (PROTOCOL_VERSION # CONNECT # RSV # ucast t # a @ htons p @ rest) = (rp', rest)
    \<and> request_read_as rp' t a p"
proof -
  let ?rp = "req_parse_atyp ((initialize_request_parser rp)\<lparr>req_state := REQ_ATYP\<rparr>) (ucast t)"
  have c: "ucast (ucast t :: u8) = t"
    using assms(3) by (auto simp: IPV4_def IPV6_def)
  with assms(3) have "req_state ?rp = REQ_DST_ADDR" "req_bytes_read ?rp = 0" "atyp ?rp = t"
    "req_address ?rp = req_address rp" "length a = unat (addr_len ?rp)"
    by (auto simp: req_parse_atyp_def initialize_request_parser_def Let_def)
  moreover have "a \<noteq> []" "t \<in> {IPV4, IPV6, DN}" using assms(3) by auto
  ultimately show ?thesis
    using feed_addr_port [of ?rp a p rest] assms(1,2) by (auto simp: feed_connect_header)
qed

lemma feed_request_dn:
  assumes "length (addr_buffer (req_address rp)) = 256" "length (address_class (req_address rp)) = 256"
    and "length a = unat n" and "a \<noteq> []"
  shows "\<exists>rp'. feed_all req_feed is_req_done (initialize_request_parser rp)
      (PROTOCOL_VERSION # CONNECT # RSV # ucast DN # n # a @ htons p @ rest) = (rp', rest)
    \<and> request_read_as rp' DN a p \<and> address_class (req_address rp') ! length a = 0"
proof -
  let ?start = "(initialize_request_parser rp)\<lparr>req_state := REQ_DST_ADDR_LENGTH, atyp := DN\<rparr>"
  let ?rp = "?start\<lparr>addr_len := n, req_state := REQ_DST_ADDR\<rparr>"
  have "req_parse_atyp ((initialize_request_parser rp)\<lparr>req_state := REQ_ATYP\<rparr>) (ucast DN) = ?start"
    by (simp add: req_parse_atyp_def Let_def IPV4_def IPV6_def DN_def)
  moreover have "feed_all req_feed is_req_done ?start (n # cs) = feed_all req_feed is_req_done ?rp cs" for cs
    using addr_length_guard [of n]
    by (simp add: feed_step is_req_done_def req_feed_def req_parse_dst_addr_length_def)
  moreover have "\<exists>rp'. feed_all req_feed is_req_done ?rp (a @ htons p @ rest) = (rp', rest)
    \<and> request_read_as rp' (atyp ?rp) a p
    \<and> (atyp ?rp = DN \<longrightarrow> address_class (req_address rp') ! length a = 0)
    \<and> con_status rp' = con_status ?rp"
    by (rule feed_addr_port) (use assms in \<open>simp_all add: initialize_request_parser_def\<close>)
  ultimately show ?thesis by (auto simp: feed_connect_header)
qed

section \<open>Writing the reply\<close>

lemma req_put_response_spec:
  assumes "buffer_inv b" and "length cs \<le> room b"
  shows "\<exists>b'. req_put_response cs b = Some (False, b') \<and> buffer_inv b'
    \<and> contents b' = contents b @ cs \<and> room b' = room b - length cs \<and> buf_limit b' = buf_limit b"
  using assms
proof (induction cs arbitrary: b)
  case Nil
  then show ?case by simp
next
  case (Cons c cs)
  then obtain b1 where b1: "buffer_write b c = Some b1" "buffer_inv b1"
    "contents b1 = contents b @ [c]" "room b = Suc (room b1)" "buf_limit b1 = buf_limit b"
    using buffer_write_spec [of b c] by fastforce
  with Cons.IH [of b1] Cons.prems show ?case
    by (auto simp: buffer_can_write_iff)
qed

lemma req_put_response_safe:
  assumes "buffer_inv b"
  shows "\<exists>r b'. req_put_response cs b = Some (r, b') \<and> buffer_inv b' \<and> buf_limit b' = buf_limit b"
  using assms
proof (induction cs arbitrary: b)
  case Nil
  then show ?case by auto
next
  case (Cons c cs)
  show ?case
  proof (cases "room b = 0")
    case True
    with Cons.prems show ?thesis by (auto simp: buffer_can_write_iff)
  next
    case False
    then obtain b1 where "buffer_write b c = Some b1" "buffer_inv b1" "buf_limit b1 = buf_limit b"
      using buffer_write_spec [OF Cons.prems, of c] by auto
    with Cons.IH [of b1] False show ?thesis by (auto simp: buffer_can_write_iff)
  qed
qed

lemma length_req_response_le: "length (req_response rp bnd) \<le> 22"
  by (auto simp: req_response_def split: sockaddr.splits)

text \<open>The reply of RFC 1928, as the client reads it.\<close>

definition reply_fields :: "bytes \<Rightarrow> (u8 \<times> u8 \<times> bytes \<times> u16) option" where
  "reply_fields bs = (case bs of
     v # rep # rsv # t # r \<Rightarrow>
       (if v = PROTOCOL_VERSION \<and> rsv = RSV then
          (if ucast t = IPV4 \<and> length r = 6 then Some (rep, t, take 4 r, ntohs (drop 4 r))
           else if ucast t = IPV6 \<and> length r = 18 then Some (rep, t, take 16 r, ntohs (drop 16 r))
           else None)
        else None)
   | _ \<Rightarrow> None)"

lemma req_response_fields:
  assumes bnd: "bnd = Sockaddr_in a (htons p) \<and> length a = 4 \<or> bnd = Sockaddr_in6 a (htons p) \<and> length a = 16"
  shows "reply_fields (req_response rp bnd) = Some
      (if con_status rp = CON_SUCCEEDED then (0, if length a = 4 then 1 else 4, a, p)
       else (status_code (con_status rp), 1, [0, 0, 0, 0], 0))"
proof -
  obtain h l where hl: "htons p = [h, l]" using htons_Cons by blast
  have "ntohs [h, l] = p" using ntohs_htons [of p] hl by simp
  moreover have "ntohs [0, 0] = 0" by (simp add: ntohs_def)
  moreover have "replicate 4 (0 :: u8) = [0, 0, 0, 0]" "replicate 2 (0 :: u8) = [0, 0]"
    by (simp_all add: numeral_eq_Suc)
  ultimately show ?thesis using bnd hl by (auto simp: reply_fields_def req_response_def IPV4_def IPV6_def)
qed

lemma req_generate_response_spec:
  assumes "buffer_inv b" and "22 \<le> room b"
  shows "\<exists>b'. req_generate_response rp b bnd = Some (False, b') \<and> buffer_inv b'
    \<and> contents b' = contents b @ req_response rp bnd \<and> buf_limit b' = buf_limit b"
  using req_put_response_spec [OF assms(1), of "req_response rp bnd"] length_req_response_le [of rp bnd] assms(2)
  by (fastforce simp: req_generate_response_def)

end
