(* ===== verification/Logger.thy ===== *)
theory Logger
  imports Prelude Request_Parser
begin

text \<open>
  \<open>src/shared/logger.c\<close>: the string builder, the decimal printer and the log.

  A \<open>StringBuilder\<close> is the text it holds (\<open>sb_text\<close>, the characters of \<open>buffer\<close> before the
  terminator), its \<open>length\<close> and its \<open>capacity\<close>; sizes are \<open>size_t\<close>, naturals with the
  wrap-around written out. Allocation outcomes are arguments (\<open>True\<close>: the call succeeded).
  The capacity loop may run forever when the doubling wraps, so it is a partial function;
  \<open>grow_capacity_total\<close> shows that it returns for every size up to \<open>2^63\<close>. Strings are
  C strings: lists without the terminator.
\<close>

record StringBuilder =
  sb_text :: string
  sb_length :: nat
  sb_capacity :: nat

definition SB_INITIAL_CAPACITY :: nat where "SB_INITIAL_CAPACITY = 64"

definition sb_create :: "bool \<Rightarrow> bool \<Rightarrow> StringBuilder option" where
  "sb_create malloc1 malloc2 =
     (if \<not> malloc1 then None
      else if \<not> malloc2 then None
      else Some \<lparr>sb_text = [], sb_length = 0, sb_capacity = SB_INITIAL_CAPACITY\<rparr>)"

text \<open>\<open>while (new_capacity < needed) new_capacity *= 2\<close>\<close>

partial_function (option) grow_capacity :: "nat \<Rightarrow> nat \<Rightarrow> nat option" where
  "grow_capacity n needed =
     (if n < needed then grow_capacity ((n * 2) mod 2 ^ 64) needed else Some n)"

text \<open>Returns 0 or -1 (a failed \<open>realloc\<close>) and the builder.\<close>

definition sb_append :: "bool \<Rightarrow> StringBuilder \<Rightarrow> string \<Rightarrow> (int \<times> StringBuilder) option" where
  "sb_append realloc_ok sb str =
     (let str_len = length str;
          needed = (sb_length sb + str_len + 1) mod 2 ^ 64;
          copied = (\<lambda>sb'. sb'\<lparr>sb_text := take (sb_length sb') (sb_text sb') @ str,
                              sb_length := sb_length sb' + str_len\<rparr>)
      in if needed > sb_capacity sb then do {
           new_capacity \<leftarrow> grow_capacity ((sb_capacity sb * 2) mod 2 ^ 64) needed;
           if \<not> realloc_ok then Some (-1, sb)
           else Some (0, copied (sb\<lparr>sb_capacity := new_capacity\<rparr>)) }
         else Some (0, copied sb))"

definition sb_get_string :: "StringBuilder \<Rightarrow> string" where
  "sb_get_string sb = sb_text sb"

text \<open>The backwards search for the last newline: the index it stops at, counted from 1.\<close>

fun last_newline :: "string \<Rightarrow> nat \<Rightarrow> nat option" where
  "last_newline s 0 = None"
| "last_newline s (Suc i) = (if s ! i = CHR 0x0A then Some i else last_newline s i)"

definition sb_remove_last_line :: "StringBuilder \<Rightarrow> StringBuilder" where
  "sb_remove_last_line sb =
     (if sb_length sb = 0 then sb
      else case last_newline (sb_text sb) (sb_length sb) of
        Some new_length \<Rightarrow> sb\<lparr>sb_text := take new_length (sb_text sb), sb_length := new_length\<rparr>
      | None \<Rightarrow> sb\<lparr>sb_text := [], sb_length := 0\<rparr>)"

section \<open>Names of enum values\<close>

datatype LOG_TYPE = INFO | WARNING | ERROR | FATAL

text \<open>The enum's order, used by the level test of \<open>our_log\<close>.\<close>

primrec log_level :: "LOG_TYPE \<Rightarrow> nat" where
  "log_level INFO = 0"
| "log_level WARNING = 1"
| "log_level ERROR = 2"
| "log_level FATAL = 3"

lemma log_level_inj: "log_level a = log_level b \<Longrightarrow> a = b"
  by (cases a; cases b) simp_all

instantiation LOG_TYPE :: linorder
begin

definition less_eq_LOG_TYPE :: "LOG_TYPE \<Rightarrow> LOG_TYPE \<Rightarrow> bool" where
  "less_eq_LOG_TYPE a b \<longleftrightarrow> log_level a \<le> log_level b"

definition less_LOG_TYPE :: "LOG_TYPE \<Rightarrow> LOG_TYPE \<Rightarrow> bool" where
  "less_LOG_TYPE a b \<longleftrightarrow> log_level a < log_level b"

instance
  by standard (auto simp: less_eq_LOG_TYPE_def less_LOG_TYPE_def dest: log_level_inj)

end

primrec type_to_string :: "LOG_TYPE \<Rightarrow> string" where
  "type_to_string INFO = ''INFO''"
| "type_to_string WARNING = ''WARNING''"
| "type_to_string ERROR = ''ERROR''"
| "type_to_string FATAL = ''FATAL''"

primrec status_to_string :: "connection_status \<Rightarrow> string" where
  "status_to_string CON_SUCCEEDED = ''Succeeded''"
| "status_to_string CON_SERVER_FAILURE = ''General server failure''"
| "status_to_string CON_NOT_ALLOWED = ''Connection not allowed by ruleset''"
| "status_to_string CON_NET_UNREACHABLE = ''Network unreachable''"
| "status_to_string CON_HOST_UNREACHABLE = ''Host unreachable''"
| "status_to_string CON_REFUSED = ''Connection refused''"
| "status_to_string CON_TTL_EXPIRED = ''TTL expired''"
| "status_to_string CON_COMMAND_NOT_SUPPORTED = ''Command not supported''"
| "status_to_string CON_ATYPE_NOT_SUPPORTED = ''Address type not supported''"
| "status_to_string CON_OTHER = ''Other failure''"

section \<open>Printing an int\<close>

text \<open>The first loop: how many digits.\<close>

fun digit_count :: "nat \<Rightarrow> nat" where
  "digit_count n = (if n = 0 then 0 else Suc (digit_count (n div 10)))"

declare digit_count.simps [simp del]

definition digit_char :: "nat \<Rightarrow> char" where
  "digit_char d = char_of (d + 48)"

text \<open>The second loop: digits from the right, \<open>str[i--] = temp % 10 + '0'\<close>.\<close>

fun fill_digits :: "nat \<Rightarrow> int \<Rightarrow> string \<Rightarrow> string option" where
  "fill_digits temp i str =
     (if temp = 0 then Some str
      else do {
        check (0 \<le> i \<and> nat i < length str);
        fill_digits (temp div 10) (i - 1) (str[nat i := digit_char (temp mod 10)]) })"

declare fill_digits.simps [simp del]

text \<open>
  \<open>None\<close> is the undefined \<open>-INT_MIN\<close>; a failed \<open>malloc\<close> returns NULL, the inner \<open>None\<close>.
  \<open>junk\<close> is what \<open>malloc\<close> finds in the memory it returns.
\<close>

definition int_to_string :: "bool \<Rightarrow> (nat \<Rightarrow> string) \<Rightarrow> int \<Rightarrow> string option option" where
  "int_to_string malloc_ok junk num =
     (if num = 0 then Some (if malloc_ok then Some ''0'' else None)
      else do {
        check (num \<noteq> - (2 ^ 31));
        let temp = nat \<bar>num\<bar>;
            neg = (if num < 0 then 1 else 0);
            len = digit_count temp;
            size = len + neg;
            mem = take size (junk size @ replicate size (CHR 0x00));
            i = int (len + neg) - 1
        in if \<not> malloc_ok then Some None
           else do {
             str \<leftarrow> fill_digits temp i mem;
             Some (Some (if num < 0 then str[0 := CHR ''-''] else str)) } })"

section \<open>The log\<close>

record log_state =
  log_sb :: StringBuilder
  current_type :: LOG_TYPE

definition NO_LOGS_PLS :: bool where "NO_LOGS_PLS = True"

definition logs_append :: "bool \<Rightarrow> log_state \<Rightarrow> string \<Rightarrow> (int \<times> log_state) option" where
  "logs_append realloc_ok lg str = do {
     (r, sb) \<leftarrow> sb_append realloc_ok (log_sb lg) str;
     Some (r, lg\<lparr>log_sb := sb\<rparr>) }"

definition get_logs :: "log_state \<Rightarrow> string" where
  "get_logs lg = sb_get_string (log_sb lg)"

text \<open>The builder is given back: what is left has no room, and must not be appended to.\<close>

definition log_free :: "log_state \<Rightarrow> log_state" where
  "log_free lg = lg\<lparr>log_sb := \<lparr>sb_text = [], sb_length = 0, sb_capacity = 0\<rparr>\<rparr>"

definition set_log_type :: "LOG_TYPE \<Rightarrow> log_state \<Rightarrow> log_state" where
  "set_log_type new lg = (if INFO \<le> new \<and> new \<le> FATAL then lg\<lparr>current_type := new\<rparr> else lg)"

fun logs_append_all :: "bool \<Rightarrow> log_state \<Rightarrow> string list \<Rightarrow> log_state option" where
  "logs_append_all ok lg [] = Some lg"
| "logs_append_all ok lg (s # ss) =
     do { (_, lg') \<leftarrow> logs_append ok lg s; logs_append_all ok lg' ss }"

text \<open>
  The lines printed and the log. With \<open>NO_LOGS_PLS\<close> set, as in the source, nothing happens.
\<close>

definition our_log :: "bool \<Rightarrow> string \<Rightarrow> LOG_TYPE \<Rightarrow> string \<Rightarrow> log_state \<Rightarrow> (string list \<times> log_state) option" where
  "our_log ok timestamp ty msg lg =
     (if \<not> NO_LOGS_PLS then do {
        let type_str = type_to_string ty;
        let printed = (if ty \<ge> current_type lg
          then [''['' @ timestamp @ ''] ['' @ type_str @ ''] ['' @ msg @ '']'' @ [CHR 0x0A]] else []);
        lg' \<leftarrow> logs_append_all ok lg [timestamp, '' '', type_str, '' '', msg, [CHR 0x0A]];
        Some (printed, lg') }
      else Some ([], lg))"

section \<open>The builder holds what was appended\<close>

definition sb_inv :: "StringBuilder \<Rightarrow> bool" where
  "sb_inv sb \<longleftrightarrow> sb_length sb = length (sb_text sb) \<and> sb_length sb < sb_capacity sb
     \<and> sb_capacity sb < 2 ^ 64"

lemma sb_create_inv [wf_intros]: "sb_create m1 m2 = Some sb \<Longrightarrow> sb_inv sb"
  by (auto simp: sb_create_def sb_inv_def SB_INITIAL_CAPACITY_def split: if_splits)

lemma grow_capacity_total:
  assumes "0 < n" and "needed \<le> 2 ^ 63"
  shows "\<exists>c. grow_capacity n needed = Some c \<and> needed \<le> c \<and> n \<le> c \<and> (c = n \<or> c < 2 * needed)"
  using assms(1)
proof (induction "needed - n" arbitrary: n rule: less_induct)
  case less
  show ?case
  proof (cases "n < needed")
    case False
    then have "grow_capacity n needed = Some n"
      by (simp add: grow_capacity.simps [of n needed])
    with False show ?thesis by simp
  next
    case True
    with assms(2) have m: "(n * 2) mod 2 ^ 64 = n * 2" by simp
    with True have "grow_capacity n needed = grow_capacity (n * 2) needed"
      by (simp add: grow_capacity.simps [of n needed])
    moreover have "\<exists>c. grow_capacity (n * 2) needed = Some c \<and> needed \<le> c \<and> n * 2 \<le> c
      \<and> (c = n * 2 \<or> c < 2 * needed)"
      using less.hyps [of "n * 2"] less.prems True by simp
    ultimately show ?thesis using True less.prems by fastforce
  qed
qed

text \<open>Once the doubling has wrapped to 0 the loop never returns.\<close>

lemma grow_capacity_wrapped: "0 < needed \<Longrightarrow> grow_capacity 0 needed = None"
proof (rule ccontr)
  assume n: "0 < needed" and "grow_capacity 0 needed \<noteq> None"
  then obtain c where c: "grow_capacity 0 needed = Some c" by auto
  have "\<not> ((0::nat) = 0 \<and> 0 < needed)"
  proof (rule grow_capacity.raw_induct [where P = "\<lambda>n m c. \<not> (n = 0 \<and> 0 < m)", OF _ c])
    fix f n m c
    assume IH: "\<And>n m c. f n m = Some c \<Longrightarrow> \<not> (n = 0 \<and> 0 < (m::nat))"
      and eq: "(if n < m then f ((n * 2) mod 2 ^ 64) m else Some n) = Some c"
    show "\<not> (n = 0 \<and> 0 < m)"
    proof
      assume z: "n = 0 \<and> 0 < m"
      with eq have "f 0 m = Some c" by simp
      from IH [OF this] z show False by simp
    qed
  qed
  with n show False by simp
qed

lemma sb_append_spec:
  assumes inv: "sb_inv sb" and small: "sb_length sb + length str < 2 ^ 63"
    and cap: "sb_capacity sb < 2 ^ 63"
  shows "\<exists>r sb'. sb_append ok sb str = Some (r, sb') \<and> sb_inv sb'
    \<and> (r = 0 \<and> sb_text sb' = sb_text sb @ str \<or> r = -1 \<and> sb' = sb \<and> \<not> ok)
    \<and> (ok \<longrightarrow> r = 0)"
proof -
  let ?need = "sb_length sb + length str + 1"
  have need: "?need mod 2 ^ 64 = ?need" using small by simp
  show ?thesis
  proof (cases "?need > sb_capacity sb")
    case False
    with inv need show ?thesis by (auto simp: sb_append_def Let_def sb_inv_def)
  next
    case True
    have "(sb_capacity sb * 2) mod 2 ^ 64 = sb_capacity sb * 2" using cap by simp
    moreover obtain c where c: "grow_capacity (sb_capacity sb * 2) ?need = Some c" "?need \<le> c"
      "c = sb_capacity sb * 2 \<or> c < 2 * ?need"
      using grow_capacity_total [of "sb_capacity sb * 2" ?need] inv small
      by (fastforce simp: sb_inv_def)
    moreover have "c < 2 ^ 64" using c(3) cap small by auto
    ultimately show ?thesis
      using True inv need by (auto simp: sb_append_def Let_def sb_inv_def)
  qed
qed

text \<open>
  From a power of two the doubling returns exactly when it need not wrap around; else it
  reaches 0 and never leaves it.
\<close>

lemma grow_capacity_power:
  assumes "k < 64"
  shows "(\<exists>c. grow_capacity (2 ^ k) needed = Some c) \<longleftrightarrow> needed \<le> 2 ^ 63"
    and "grow_capacity (2 ^ k) needed = Some c \<Longrightarrow> \<exists>m < 64. c = 2 ^ m"
proof -
  have "(needed \<le> 2 ^ 63 \<longrightarrow> (\<exists>m < 64. grow_capacity (2 ^ k) needed = Some (2 ^ m)))
    \<and> (\<not> needed \<le> 2 ^ 63 \<longrightarrow> grow_capacity (2 ^ k) needed = None)"
    using assms
  proof (induction "63 - k" arbitrary: k)
    case 0
    then have k: "k = 63" by simp
    show ?case
    proof (cases "needed \<le> 2 ^ 63")
      case True
      then have "grow_capacity (2 ^ k) needed = Some (2 ^ 63)" by (subst grow_capacity.simps) (simp add: k)
      with True show ?thesis by (intro conjI impI exI [of _ 63]) auto
    next
      case False
      then have "grow_capacity (2 ^ k) needed = grow_capacity 0 needed"
        by (subst grow_capacity.simps) (simp add: k)
      with False grow_capacity_wrapped [of needed] show ?thesis by simp
    qed
  next
    case (Suc n)
    then have k: "Suc k < 64" "n = 63 - Suc k" by simp_all
    have "(2::nat) ^ Suc k < 2 ^ 64" using k(1) by (rule power_strict_increasing) simp
    then have step: "grow_capacity (2 ^ k) needed =
        (if 2 ^ k < needed then grow_capacity (2 ^ Suc k) needed else Some (2 ^ k))"
      by (subst grow_capacity.simps) (simp add: mult.commute)
    have "(2::nat) ^ k \<le> 2 ^ 63" using k(1) by (intro power_increasing) simp_all
    with Suc.hyps(1) [OF k(2,1)] k(1) show ?case unfolding step by auto
  qed
  then show "(\<exists>c. grow_capacity (2 ^ k) needed = Some c) \<longleftrightarrow> needed \<le> 2 ^ 63"
    and "grow_capacity (2 ^ k) needed = Some c \<Longrightarrow> \<exists>m < 64. c = 2 ^ m"
    by (metis option.distinct(1), metis option.distinct(1) option.inject)
qed

lemma grow_capacity_doubled:
  assumes k: "k < 64" and need: "2 ^ k < needed"
  defines "grown \<equiv> grow_capacity ((2 ^ k * 2) mod 2 ^ 64) needed"
  shows "((\<exists>c. grown = Some c) \<longleftrightarrow> needed \<le> 2 ^ 63) \<and> (\<forall>c. grown = Some c \<longrightarrow> (\<exists>m < 64. c = 2 ^ m) \<and> needed \<le> c)"
proof (cases "k = 63")
  case True
  then have "grown = None" using grow_capacity_wrapped [of needed] need by (simp add: grown_def)
  with need True show ?thesis by simp
next
  case False
  then have k': "Suc k < 64" using k by simp
  then have "(2::nat) ^ Suc k < 2 ^ 64" by (rule power_strict_increasing) simp
  then have eq: "grown = grow_capacity (2 ^ Suc k) needed" by (simp add: grown_def mult.commute)
  have "\<forall>c. grown = Some c \<longrightarrow> needed \<le> c"
    using grow_capacity_total [of "2 ^ Suc k" needed] grow_capacity_power(1) [OF k', of needed] unfolding eq by auto
  with grow_capacity_power [OF k', of needed] show ?thesis unfolding eq by blast
qed

text \<open>A builder as it comes out of \<open>sb_create\<close> and goes through \<open>sb_append\<close>.\<close>

definition sb_doubled :: "StringBuilder \<Rightarrow> bool" where
  "sb_doubled sb \<longleftrightarrow> sb_inv sb \<and> (\<exists>k < 64. sb_capacity sb = 2 ^ k)"

lemma sb_append_returns:
  assumes sb: "sb_doubled sb" and fits: "sb_length sb + length str + 1 < 2 ^ 64"
  shows "(\<exists>r. sb_append ok sb str = Some r) \<longleftrightarrow> sb_length sb + length str < 2 ^ 63"
    and "sb_append ok sb str = Some (r, sb') \<Longrightarrow> sb_doubled sb'"
proof -
  let ?need = "sb_length sb + length str + 1"
  obtain k where k: "k < 64" "sb_capacity sb = 2 ^ k" and inv: "sb_inv sb" using sb by (auto simp: sb_doubled_def)
  have le: "(2::nat) ^ k \<le> 2 ^ 63" using k(1) by (intro power_increasing) simp_all
  have lt: "(2::nat) ^ m < 2 ^ 64" if "m < 64" for m using that by (rule power_strict_increasing) simp
  note grown = grow_capacity_doubled [OF k(1), of ?need]
  show "(\<exists>r. sb_append ok sb str = Some r) \<longleftrightarrow> sb_length sb + length str < 2 ^ 63"
    using fits k le grown by (auto simp: sb_append_def Let_def)
  show "sb_append ok sb str = Some (r, sb') \<Longrightarrow> sb_doubled sb'"
    using inv fits k grown sb lt
    by (auto simp: sb_append_def Let_def sb_doubled_def sb_inv_def bind_eq_Some_conv split: if_splits)
qed

lemma our_log_silent: "our_log ok stamp ty msg lg = Some ([], lg)"
  by (simp add: our_log_def NO_LOGS_PLS_def)

lemma last_newline_spec:
  assumes "i \<le> length s"
  shows "last_newline s i = (if CHR 0x0A \<in> set (take i s)
    then Some (Max {k. k < i \<and> s ! k = CHR 0x0A}) else None)"
  using assms
proof (induction i)
  case 0
  then show ?case by simp
next
  case (Suc i)
  have tk: "take (Suc i) s = take i s @ [s ! i]"
    using Suc.prems by (simp add: take_Suc_conv_app_nth)
  show ?case
  proof (cases "s ! i = CHR 0x0A")
    case True
    have "Max {k. k < Suc i \<and> s ! k = CHR 0x0A} = i"
      by (rule Max_eqI) (use True in auto)
    with True tk show ?thesis by simp
  next
    case False
    then have "{k. k < Suc i \<and> s ! k = CHR 0x0A} = {k. k < i \<and> s ! k = CHR 0x0A}"
      by (auto simp: less_Suc_eq)
    with False tk Suc show ?thesis by simp
  qed
qed

lemma last_newline_suffix:
  assumes "CHR 0x0A \<notin> set t"
  shows "last_newline (s @ CHR 0x0A # t) (length (s @ CHR 0x0A # t)) = Some (length s)"
proof -
  have "last_newline (s @ CHR 0x0A # t) (length s + Suc k) = Some (length s)" if "k \<le> length t" for k
    using that
  proof (induction k)
    case 0
    then show ?case by simp
  next
    case (Suc k)
    then have "t ! k \<in> set t" by simp
    with assms Suc have "t ! k \<noteq> CHR 0x0A" by metis
    with Suc show ?case by (simp add: nth_append)
  qed
  from this [of "length t"] show ?thesis by simp
qed

lemma sb_remove_last_line_spec:
  assumes "sb_inv sb"
  shows "sb_inv (sb_remove_last_line sb)"
    and "sb_text sb = s @ CHR 0x0A # t \<Longrightarrow> CHR 0x0A \<notin> set t \<Longrightarrow>
      sb_text (sb_remove_last_line sb) = s"
    and "CHR 0x0A \<notin> set (sb_text sb) \<Longrightarrow> sb_text (sb_remove_last_line sb) = []"
proof -
  have le: "n \<le> length (sb_text sb)" if "last_newline (sb_text sb) i = Some n" "i \<le> length (sb_text sb)" for n i
    using that by (induction i) (auto split: if_splits)
  show "sb_inv (sb_remove_last_line sb)"
    using assms le [of "sb_length sb"]
    by (auto simp: sb_remove_last_line_def sb_inv_def split: option.splits)
  show "sb_text (sb_remove_last_line sb) = s" if "sb_text sb = s @ CHR 0x0A # t" "CHR 0x0A \<notin> set t"
    using assms that last_newline_suffix [OF that(2), of s]
    by (simp add: sb_remove_last_line_def sb_inv_def)
  show "sb_text (sb_remove_last_line sb) = []" if "CHR 0x0A \<notin> set (sb_text sb)"
    using assms that last_newline_spec [of "sb_length sb" "sb_text sb"]
    by (auto simp: sb_remove_last_line_def sb_inv_def)
qed

section \<open>The printer prints decimal notation\<close>

text \<open>Reading decimal digits back.\<close>

definition dec_value :: "string \<Rightarrow> nat" where
  "dec_value s = foldl (\<lambda>v c. v * 10 + (of_char c - 48)) 0 s"

fun decimal :: "nat \<Rightarrow> string" where
  "decimal n = (if n = 0 then [] else decimal (n div 10) @ [digit_char (n mod 10)])"

declare decimal.simps [simp del]

lemma length_decimal: "length (decimal n) = digit_count n"
  by (induction n rule: decimal.induct) (simp add: decimal.simps digit_count.simps)

lemma of_char_digit: "d < 10 \<Longrightarrow> (of_char (digit_char d) :: nat) = d + 48"
  by (simp add: digit_char_def)

lemma dec_value_decimal: "dec_value (decimal n) = n"
proof (induction n rule: decimal.induct)
  case (1 n)
  show ?case
  proof (cases "n = 0")
    case True
    then show ?thesis by (simp add: decimal.simps dec_value_def)
  next
    case False
    then have "decimal n = decimal (n div 10) @ [digit_char (n mod 10)]"
      by (simp add: decimal.simps [of n])
    with 1 False show ?thesis by (simp add: dec_value_def of_char_digit)
  qed
qed

lemma fill_digits_spec:
  assumes "i = int k - 1" and "digit_count n \<le> k" and "k \<le> length str"
  shows "fill_digits n i str = Some (poke (k - digit_count n) (decimal n) str)"
  using assms
proof (induction n i str arbitrary: k rule: fill_digits.induct)
  case (1 n i str)
  show ?case
  proof (cases "n = 0")
    case True
    then show ?thesis by (simp add: fill_digits.simps decimal.simps)
  next
    case False
    then have dc: "digit_count n = Suc (digit_count (n div 10))"
      by (simp add: digit_count.simps [of n])
    then obtain k' where k: "k = Suc k'" using "1.prems" by (cases k) auto
    let ?d = "digit_char (n mod 10)"
    have "fill_digits n i str = fill_digits (n div 10) (i - 1) (str[k' := ?d])"
      using False "1.prems" k by (simp add: fill_digits.simps [of n])
    also have "\<dots> = Some (poke (k' - digit_count (n div 10)) (decimal (n div 10)) (str[k' := ?d]))"
      using "1.IH" [of "()" k'] False "1.prems" k dc by simp
    also have "poke (k' - digit_count (n div 10)) (decimal (n div 10)) (str[k' := ?d])
      = poke (k - digit_count n) (decimal n) str"
    proof -
      have "drop k' (str[k' := ?d]) = ?d # drop (Suc k') str"
        using "1.prems" k by (simp add: Cons_nth_drop_Suc [symmetric])
      then show ?thesis
        using False dc k "1.prems"
        by (simp add: poke_def length_decimal decimal.simps [of n])
    qed
    finally show ?thesis .
  qed
qed

lemma length_fresh: "length (take n (xs @ replicate n x)) = n"
  by auto

lemma poke_behind:
  "length xs = k + length bs \<Longrightarrow> poke k bs xs = take k xs @ bs"
  by (simp add: poke_def)

lemma update_head: "length xs = 1 \<Longrightarrow> (xs @ ys)[0 := c] = c # ys"
  by (cases xs) simp_all

lemma int_to_string_spec:
  assumes "\<bar>num\<bar> < 2 ^ 31" and "num \<noteq> 0"
  shows "int_to_string True junk num =
    Some (Some ((if num < 0 then ''-'' else []) @ decimal (nat \<bar>num\<bar>)))"
proof -
  define n where "n = nat \<bar>num\<bar>"
  define neg where "neg = (if num < 0 then 1 else 0 :: nat)"
  define size where "size = digit_count n + neg"
  define mem where "mem = take size (junk size @ replicate size (CHR 0x00))"
  have len: "length mem = size" unfolding mem_def by (rule length_fresh)
  have fill: "fill_digits n (int size - 1) mem = Some (take neg mem @ decimal n)"
    using fill_digits_spec [of "int size - 1" size n mem] len
    by (simp add: size_def poke_behind length_decimal)
  have unfold: "int_to_string True junk num =
    fill_digits n (int size - 1) mem \<bind> (\<lambda>str. Some (Some (if num < 0 then str[0 := CHR ''-''] else str)))"
  proof -
    have "num \<noteq> - (2 ^ 31)" using assms(1) by auto
    then show ?thesis
      using assms(2) by (simp add: int_to_string_def Let_def n_def neg_def size_def mem_def)
  qed
  have "num < 0 \<Longrightarrow> length (take neg mem) = 1"
    using len by (simp add: neg_def size_def)
  then show ?thesis
    unfolding unfold fill by (auto simp: update_head n_def neg_def)
qed

end
