(* ===== verification/C_Library.thy ===== *)
theory C_Library
  imports Logger
begin

text \<open>
  Functions of the C library that more than one source file uses on text, in the C locale.
\<close>

text \<open>
  \<open>strtol(str, &endptr, 10)\<close> with a 64-bit \<open>long\<close>: the value, clamped, and the rest. Without a
  digit the rest is the whole string.
\<close>

definition is_space :: "char \<Rightarrow> bool" where
  "is_space c \<longleftrightarrow> c = CHR '' '' \<or> c \<in> {CHR 0x09, CHR 0x0A, CHR 0x0B, CHR 0x0C, CHR 0x0D}"

definition is_digit :: "char \<Rightarrow> bool" where
  "is_digit c \<longleftrightarrow> 48 \<le> (of_char c :: nat) \<and> (of_char c :: nat) \<le> 57"

definition strtol :: "string \<Rightarrow> int \<times> string" where
  "strtol str =
     (let t = dropWhile is_space str;
          neg = (t \<noteq> [] \<and> hd t = CHR ''-'');
          u = (if t \<noteq> [] \<and> (hd t = CHR ''-'' \<or> hd t = CHR ''+'') then tl t else t);
          digits = takeWhile is_digit u;
          v = int (dec_value digits)
      in if digits = [] then (0, str)
         else (if neg then max (- (2 ^ 63)) (- v) else min (2 ^ 63 - 1) v, dropWhile is_digit u))"

text \<open>\<open>snprintf\<close> with \<open>%u\<close> or \<open>%d\<close> of a non-negative number.\<close>

definition utoa :: "nat \<Rightarrow> string" where
  "utoa n = (if n = 0 then ''0'' else decimal n)"

text \<open>A number written out and nothing else is read back.\<close>

lemma takeWhile_digits [simp]: "list_all is_digit ds \<Longrightarrow> takeWhile is_digit ds = ds \<and> dropWhile is_digit ds = []"
  by (induction ds) simp_all

lemma digit_not_space: "is_digit c \<Longrightarrow> \<not> is_space c \<and> c \<noteq> CHR ''-'' \<and> c \<noteq> CHR ''+''"
  by (auto simp: is_digit_def is_space_def)

lemma strtol_digits:
  assumes "list_all is_digit ds" and "ds \<noteq> []" and "dec_value ds < 2 ^ 63"
  shows "strtol ds = (int (dec_value ds), [])"
proof -
  obtain d ds' where ds: "ds = d # ds'" using assms(2) by (cases ds) auto
  with assms(1) have "dropWhile is_space ds = ds" "hd ds \<noteq> CHR ''-''" "hd ds \<noteq> CHR ''+''"
    using digit_not_space [of d] by simp_all
  with assms show ?thesis by (simp add: strtol_def Let_def)
qed

text \<open>Blanks and a sign before the digits, and nothing else, is what is read as a whole.\<close>

definition strtol_clamp :: "string \<Rightarrow> nat \<Rightarrow> int" where
  "strtol_clamp sign v = (if sign = ''-'' then max (- (2 ^ 63)) (- int v) else min (2 ^ 63 - 1) (int v))"

lemma strtol_padded:
  assumes sp: "list_all is_space sp" and ds: "list_all is_digit ds" "ds \<noteq> []" and sign: "sign \<in> {[], ''+'', ''-''}"
  shows "strtol (sp @ sign @ ds) = (strtol_clamp sign (dec_value ds), [])"
proof -
  obtain d ds' where d: "ds = d # ds'" using ds(2) by (cases ds) auto
  then have first: "\<not> is_space d" "d \<noteq> CHR ''-''" "d \<noteq> CHR ''+''" using ds(1) digit_not_space [of d] by simp_all
  have "\<not> is_space (CHR ''+'')" "\<not> is_space (CHR ''-'')" by (simp_all add: is_space_def)
  then have "dropWhile is_space (sp @ sign @ ds) = sign @ ds"
    using sp sign first(1) d by (induction sp) auto
  then show ?thesis using ds sign first d by (auto simp: strtol_def strtol_clamp_def Let_def list_all_iff)
qed

lemma strtol_whole:
  assumes "strtol s = (v, [])" and "s \<noteq> []"
  obtains sp sign ds where "s = sp @ sign @ ds" "list_all is_space sp" "sign \<in> {[], ''+'', ''-''}"
    "list_all is_digit ds" "ds \<noteq> []" "v = strtol_clamp sign (dec_value ds)"
proof -
  define sp t where "sp = takeWhile is_space s" and "t = dropWhile is_space s"
  define sign where "sign = (if t \<noteq> [] \<and> (hd t = CHR ''-'' \<or> hd t = CHR ''+'') then [hd t] else [])"
  define u where "u = (if t \<noteq> [] \<and> (hd t = CHR ''-'' \<or> hd t = CHR ''+'') then tl t else t)"
  have t: "t = sign @ u" by (cases t) (auto simp: sign_def u_def)
  have s: "s = sp @ sign @ u" using takeWhile_dropWhile_id [of is_space s] by (simp add: sp_def t_def flip: t)
  have sign: "sign \<in> {[], ''+'', ''-''}" "(t \<noteq> [] \<and> hd t = CHR ''-'') = (sign = ''-'')" by (auto simp: sign_def)
  have st: "strtol s = (if takeWhile is_digit u = [] then (0, s)
      else (strtol_clamp sign (dec_value (takeWhile is_digit u)), dropWhile is_digit u))"
    by (simp only: strtol_def Let_def strtol_clamp_def sign(2) flip: t_def u_def)
  with assms have "dropWhile is_digit u = []" "takeWhile is_digit u \<noteq> []" "v = strtol_clamp sign (dec_value (takeWhile is_digit u))"
    by (auto split: if_splits)
  moreover from this(1) have "takeWhile is_digit u = u" by (simp add: takeWhile_eq_all_conv dropWhile_eq_Nil_conv)
  moreover have "list_all is_digit (takeWhile is_digit u)" "list_all is_space sp"
    by (auto simp: list_all_iff sp_def dest: set_takeWhileD)
  ultimately show ?thesis using that s sign(1) by metis
qed

lemma decimal_digits: "list_all is_digit (decimal n)"
proof (induction n rule: decimal.induct)
  case (1 n)
  have "is_digit (digit_char (n mod 10))"
    by (simp add: is_digit_def of_char_digit)
  with 1 show ?case by (cases "n = 0") (simp_all add: decimal.simps [of n] decimal.simps [of 0])
qed

lemma strtol_utoa:
  assumes "n < 2 ^ 63"
  shows "strtol (utoa n) = (int n, [])"
proof (cases "n = 0")
  case True
  then show ?thesis
    by (simp add: utoa_def strtol_digits dec_value_def is_digit_def)
next
  case False
  then have "decimal n \<noteq> []" by (simp add: decimal.simps [of n])
  with False assms show ?thesis
    by (simp add: utoa_def strtol_digits decimal_digits dec_value_decimal)
qed

end
