(* ===== verification/Metrics.thy ===== *)
theory Metrics
  imports Prelude
begin

text \<open>
  \<open>src/server/metrics.c\<close>: the three \<open>unsigned int\<close> counters, naturals with the wrap-around
  written out. \<open>more_bytes\<close> takes a \<open>long\<close>, which may be negative.
\<close>

record metrics =
  hConnections :: nat
  cConnections :: nat
  bytes_moved :: nat

definition init_metrics :: metrics where
  "init_metrics = \<lparr>hConnections = 0, cConnections = 0, bytes_moved = 0\<rparr>"

definition more_connections :: "metrics \<Rightarrow> metrics" where
  "more_connections m = m\<lparr>hConnections := inc32 (hConnections m), cConnections := inc32 (cConnections m)\<rparr>"

definition less_connections :: "metrics \<Rightarrow> metrics" where
  "less_connections m = m\<lparr>cConnections := dec32 (cConnections m)\<rparr>"

definition get_historical_connections :: "metrics \<Rightarrow> nat" where
  "get_historical_connections m = hConnections m"

definition get_connections :: "metrics \<Rightarrow> nat" where
  "get_connections m = cConnections m"

definition more_bytes :: "int \<Rightarrow> metrics \<Rightarrow> metrics" where
  "more_bytes b m = m\<lparr>bytes_moved := nat ((int (bytes_moved m) + b) mod 2 ^ 32)\<rparr>"

definition get_bytes :: "metrics \<Rightarrow> nat" where
  "get_bytes m = bytes_moved m"

lemma metrics_frame [frame_simps, simp]:
  "cConnections (more_bytes b m) = cConnections m"
  "hConnections (more_bytes b m) = hConnections m"
  "bytes_moved (more_connections m) = bytes_moved m"
  "bytes_moved (less_connections m) = bytes_moved m"
  "hConnections (less_connections m) = hConnections m"
  by (simp_all add: more_bytes_def more_connections_def less_connections_def)

lemma more_bytes_add:
  "bytes_moved (more_bytes (int a) (more_bytes (int b) m)) = bytes_moved (more_bytes (int (a + b)) m)"
  by (simp add: more_bytes_def mod_add_right_eq ac_simps)

lemma more_bytes_small:
  "bytes_moved m + n < 2 ^ 32 \<Longrightarrow> bytes_moved (more_bytes (int n) m) = bytes_moved m + n"
  by (simp add: more_bytes_def nat_mod_as_int [symmetric] flip: of_nat_add)

text \<open>A failed \<open>send\<close> reported to the counter takes one byte away, or wraps it around.\<close>

lemma more_bytes_failed:
  "bytes_moved m < 2 ^ 32 \<Longrightarrow>
   bytes_moved (more_bytes (-1) m) = (if bytes_moved m = 0 then 2 ^ 32 - 1 else bytes_moved m - 1)"
  by (auto simp: more_bytes_def nat_eq_iff2)

end
