(* ===== verification/Users.thy ===== *)
theory Users
  imports Logger
begin

text \<open>
  \<open>src/server/users.c\<close>: the table of users. The C array \<open>users\<close> is the list of its first
  \<open>cantUsers\<close> entries; \<open>users_cap\<close> is how many entries the block from \<open>malloc\<close>/\<open>realloc\<close>
  can hold, and a write behind it is a crash. The counters are \<open>unsigned int\<close>, naturals
  with the wrap-around written out. Names and passwords are C strings (lists of characters
  without the terminator); the arrays hold at most 255 of them, which \<open>strncpy\<close> enforces by
  truncation. The messages built for the log have no effect (\<open>our_log_silent\<close>) and are
  left out.
\<close>

definition ADMIN :: int where "ADMIN = 1"
definition COMMONER :: int where "COMMONER = 0"

definition USER_MAX_LENGTH :: nat where "USER_MAX_LENGTH = 255"

record Tuser =
  u_name :: string
  u_pass :: string
  u_status :: int
  u_access :: "StringBuilder option"

record user_table =
  cantUsers :: nat
  admins :: nat
  max_users :: nat
  users :: "Tuser list"
  users_cap :: nat

text \<open>The initialised globals, before \<open>init_users\<close>.\<close>

definition users_globals :: user_table where
  "users_globals = \<lparr>cantUsers = 0, admins = 0, max_users = 10, users = [], users_cap = 0\<rparr>"

text \<open>The scan \<open>for (i = 0; i < cantUsers; i++)\<close>: the first index with that name, or -1.\<close>

fun find_user :: "Tuser list \<Rightarrow> string \<Rightarrow> int \<Rightarrow> int" where
  "find_user [] name i = -1"
| "find_user (u # us) name i = (if u_name u = name then i else find_user us name (i + 1))"

definition user_exists :: "user_table \<Rightarrow> string \<Rightarrow> int" where
  "user_exists t name = find_user (users t) name 0"

text \<open>
  A NULL argument is \<open>None\<close>. \<open>sb_ok\<close>: the string builder of the new user was allocated (a
  NULL is stored where it was not). The result is 0 or -1, with the table.
\<close>

definition new_user ::
  "bool \<Rightarrow> user_table \<Rightarrow> string option \<Rightarrow> string option \<Rightarrow> (int \<times> user_table) option" where
  "new_user sb_ok t name pass =
     (case name of None \<Rightarrow> Some (-1, t) | Some n \<Rightarrow>
      if n = [] then Some (-1, t) else
      case pass of None \<Rightarrow> Some (-1, t) | Some p \<Rightarrow>
      if p = [] then Some (-1, t) else
      if user_exists t n \<ge> 0 then Some (-1, t) else
      if cantUsers t \<ge> max_users t then Some (-1, t)
      else do {
        check (cantUsers t < users_cap t);
        let u = \<lparr>u_name = take USER_MAX_LENGTH n, u_pass = take USER_MAX_LENGTH p,
                 u_status = COMMONER, u_access = sb_create sb_ok sb_ok\<rparr>;
        Some (0, t\<lparr>users := users t @ [u], cantUsers := inc32 (cantUsers t)\<rparr>) })"

definition change_status :: "user_table \<Rightarrow> string \<Rightarrow> int \<Rightarrow> user_table" where
  "change_status t name newStatus =
     (let index = user_exists t name
      in if index < 0 then t
         else let u = users t ! nat index; oldStatus = u_status u
         in if oldStatus = newStatus then t
            else let t1 = t\<lparr>users := (users t)[nat index := u\<lparr>u_status := newStatus\<rparr>]\<rparr>
              in if oldStatus = ADMIN \<and> newStatus \<noteq> ADMIN then t1\<lparr>admins := dec32 (admins t1)\<rparr>
                 else if oldStatus \<noteq> ADMIN \<and> newStatus = ADMIN then t1\<lparr>admins := inc32 (admins t1)\<rparr>
                 else t1)"

definition change_password :: "user_table \<Rightarrow> string \<Rightarrow> string \<Rightarrow> string \<Rightarrow> int \<times> user_table" where
  "change_password t name old new =
     (let index = user_exists t name
      in if index = -1 then (-1, t)
         else let u = users t ! nat index
         in if u_pass u = old
            then (0, t\<lparr>users := (users t)[nat index := u\<lparr>u_pass := take USER_MAX_LENGTH new\<rparr>]\<rparr>)
            else (-1, t))"

text \<open>The loop \<open>users[i] = users[i + 1]\<close> from \<open>index\<close> on moves the tail down by one.\<close>

definition delete_user :: "user_table \<Rightarrow> string \<Rightarrow> int \<times> user_table" where
  "delete_user t name =
     (let index = user_exists t name;
          remove = (\<lambda>t. t\<lparr>users := take (nat index) (users t) @ drop (Suc (nat index)) (users t),
                          cantUsers := dec32 (cantUsers t)\<rparr>)
      in if index < 0 then (-1, t)
         else if u_status (users t ! nat index) = ADMIN then
           (if admins t = 1 then (-1, t) else (0, remove (t\<lparr>admins := dec32 (admins t)\<rparr>)))
         else (0, remove t))"

definition user_login :: "user_table \<Rightarrow> string \<Rightarrow> string \<Rightarrow> int" where
  "user_login t name password =
     (let index = user_exists t name
      in if index < 0 then -1
         else if u_pass (users t ! nat index) \<noteq> password then -1 else 0)"

definition init_users :: "bool \<Rightarrow> bool \<Rightarrow> user_table \<Rightarrow> (int \<times> user_table) option" where
  "init_users malloc_ok sb_ok t =
     (if \<not> malloc_ok then Some (-1, t)
      else let t1 = t\<lparr>users_cap := max_users t\<rparr>
      in if admins t1 = 0 then do {
           (_, t2) \<leftarrow> new_user sb_ok t1 (Some ''admin'') (Some ''admin'');
           Some (0, change_status t2 ''admin'' ADMIN) }
         else Some (0, t1))"

text \<open>
  \<open>close_users\<close> gives back the access logs and the array; the counters stay as they are, and
  nothing asks for a user afterwards.
\<close>

definition close_users :: "user_table \<Rightarrow> user_table" where
  "close_users t = t\<lparr>users := [], users_cap := 0\<rparr>"

definition get_users :: "user_table \<Rightarrow> Tuser list" where
  "get_users t = users t"

definition get_user_count :: "user_table \<Rightarrow> nat" where
  "get_user_count t = cantUsers t"

text \<open>The access log of a user: NULL where there is no such user or no builder.\<close>

definition get_access :: "user_table \<Rightarrow> string \<Rightarrow> StringBuilder option" where
  "get_access t name =
     (let index = user_exists t name
      in if index < 0 then None else u_access (users t ! nat index))"

text \<open>
  \<open>create_access\<close> goes on with index -1 where the user does not exist: a write before the
  array, a crash.
\<close>

definition create_access :: "bool \<Rightarrow> user_table \<Rightarrow> string \<Rightarrow> (StringBuilder option \<times> user_table) option" where
  "create_access sb_ok t name =
     (let index = user_exists t name
      in if index < 0 then None
         else let sb = sb_create sb_ok sb_ok
         in Some (sb, t\<lparr>users := (users t)[nat index := (users t ! nat index)\<lparr>u_access := sb\<rparr>]\<rparr>))"

section \<open>Looking up\<close>

definition has_user :: "user_table \<Rightarrow> string \<Rightarrow> bool" where
  "has_user t name \<longleftrightarrow> name \<in> u_name ` set (users t)"

text \<open>The entry the code works on for a name: the first one.\<close>

definition lookup :: "user_table \<Rightarrow> string \<Rightarrow> Tuser option" where
  "lookup t name = find (\<lambda>u. u_name u = name) (users t)"

lemma find_user_cases:
  "find_user us name i = (case find (\<lambda>u. u_name u = name) us of None \<Rightarrow> -1
     | Some u \<Rightarrow> i + int (length (takeWhile (\<lambda>u. u_name u \<noteq> name) us)))"
  by (induction us name i rule: find_user.induct) (auto split: option.splits)

lemma find_first_split:
  assumes "find P xs = Some x"
  shows "xs ! length (takeWhile (\<lambda>y. \<not> P y) xs) = x \<and> length (takeWhile (\<lambda>y. \<not> P y) xs) < length xs
    \<and> P x"
  using assms by (induction xs) (auto split: if_splits)

lemma user_exists_lookup:
  "user_exists t name < 0 \<longleftrightarrow> lookup t name = None"
  "user_exists t name = -1 \<longleftrightarrow> lookup t name = None"
  by (auto simp: user_exists_def lookup_def find_user_cases split: option.splits)

lemma user_exists_nonneg:
  assumes "\<not> user_exists t name < 0"
  obtains u where "lookup t name = Some u" "nat (user_exists t name) < length (users t)"
    "users t ! nat (user_exists t name) = u" "u_name u = name"
proof -
  obtain u where u: "lookup t name = Some u"
    using assms user_exists_lookup(1) by auto
  then have "user_exists t name = int (length (takeWhile (\<lambda>u. u_name u \<noteq> name) (users t)))"
    by (simp add: user_exists_def lookup_def find_user_cases)
  with u find_first_split [of "\<lambda>u. u_name u = name" "users t" u] show ?thesis
    by (intro that [of u]) (auto simp: lookup_def)
qed

lemma lookup_None_iff: "lookup t name = None \<longleftrightarrow> \<not> has_user t name"
  by (auto simp: lookup_def has_user_def find_None_iff image_iff)

lemma user_exists_iff: "0 \<le> user_exists t name \<longleftrightarrow> has_user t name"
  using user_exists_lookup(1) [of t name] lookup_None_iff [of t name] by auto

lemma user_login_iff:
  "user_login t name password = 0 \<longleftrightarrow> (\<exists>u. lookup t name = Some u \<and> u_pass u = password)"
proof (cases "user_exists t name < 0")
  case True
  then show ?thesis by (simp add: user_login_def user_exists_lookup)
next
  case False
  then show ?thesis
    by (elim user_exists_nonneg) (auto simp: user_login_def Let_def False)
qed

section \<open>The table's invariant\<close>

definition admin_count :: "Tuser list \<Rightarrow> nat" where
  "admin_count us = length (filter (\<lambda>u. u_status u = ADMIN) us)"

definition users_inv :: "user_table \<Rightarrow> bool" where
  "users_inv t \<longleftrightarrow> cantUsers t = length (users t) \<and> admins t = admin_count (users t)
     \<and> cantUsers t \<le> max_users t \<and> max_users t < 2 ^ 32
     \<and> max_users t \<le> users_cap t
     \<and> (\<forall>u \<in> set (users t). u_name u \<noteq> [] \<and> length (u_name u) \<le> USER_MAX_LENGTH
          \<and> length (u_pass u) \<le> USER_MAX_LENGTH)"

lemma admin_count_simps [simp]:
  "admin_count [] = 0"
  "admin_count (u # us) = (if u_status u = ADMIN then Suc (admin_count us) else admin_count us)"
  "admin_count (us @ vs) = admin_count us + admin_count vs"
  by (simp_all add: admin_count_def)

lemma admin_count_le: "admin_count us \<le> length us"
  by (simp add: admin_count_def)

lemma admin_count_update:
  assumes "i < length us"
  shows "admin_count (us[i := u]) + (if u_status (us ! i) = ADMIN then 1 else 0) =
    admin_count us + (if u_status u = ADMIN then 1 else 0)"
proof -
  have "admin_count us = admin_count (take i us @ us ! i # drop (Suc i) us)"
    using assms by (simp add: id_take_nth_drop [symmetric])
  moreover have "us[i := u] = take i us @ u # drop (Suc i) us"
    using assms by (rule upd_conv_take_nth_drop)
  ultimately show ?thesis by simp
qed

lemma admin_count_remove:
  assumes "i < length us"
  shows "admin_count us = admin_count (take i us @ drop (Suc i) us)
    + (if u_status (us ! i) = ADMIN then 1 else 0)"
proof -
  have "admin_count us = admin_count (take i us @ us ! i # drop (Suc i) us)"
    using assms by (simp add: id_take_nth_drop [symmetric])
  then show ?thesis by simp
qed

lemma ADMIN_neq_COMMONER [simp]: "ADMIN \<noteq> COMMONER" "COMMONER \<noteq> ADMIN"
  by (simp_all add: ADMIN_def COMMONER_def)

lemma new_user_spec:
  assumes "users_inv t"
  shows "\<exists>r t'. new_user ok t name pass = Some (r, t') \<and> users_inv t'
    \<and> (r = 0 \<or> r = -1 \<and> t' = t)
    \<and> (r = 0 \<longleftrightarrow> (\<exists>n p. name = Some n \<and> pass = Some p \<and> n \<noteq> [] \<and> p \<noteq> []
          \<and> \<not> has_user t n \<and> cantUsers t < max_users t))
    \<and> max_users t' = max_users t \<and> admins t' = admins t"
proof (cases "\<exists>n p. name = Some n \<and> pass = Some p \<and> n \<noteq> [] \<and> p \<noteq> [] \<and> \<not> has_user t n
      \<and> cantUsers t < max_users t")
  case True
  then obtain n p where np: "name = Some n" "pass = Some p" "n \<noteq> []" "p \<noteq> []" "\<not> has_user t n"
    "cantUsers t < max_users t" by blast
  then have "\<not> 0 \<le> user_exists t n" using user_exists_iff [of t n] by blast
  with np assms show ?thesis
    by (auto simp: new_user_def users_inv_def USER_MAX_LENGTH_def)
next
  case False
  have "new_user ok t name pass = Some (-1, t)"
    using False user_exists_iff [of t] by (auto simp: new_user_def split: option.splits)
  with False assms show ?thesis by auto
qed

lemma new_user_adds:
  assumes "users_inv t" and "new_user ok t (Some n) (Some p) = Some (0, t')"
  shows "users t' = users t @ [\<lparr>u_name = take 255 n, u_pass = take 255 p, u_status = COMMONER,
      u_access = sb_create ok ok\<rparr>]"
  using assms
  by (auto simp: new_user_def USER_MAX_LENGTH_def bind_eq_Some_conv split: if_splits)

lemma change_status_inv [wf_intros]:
  assumes "users_inv t"
  shows "users_inv (change_status t name st)"
proof (cases "user_exists t name < 0")
  case True
  with assms show ?thesis by (simp add: change_status_def)
next
  case False
  then obtain u where u: "nat (user_exists t name) < length (users t)"
    "users t ! nat (user_exists t name) = u" by (elim user_exists_nonneg)
  let ?i = "nat (user_exists t name)" and ?us = "users t"
  let ?us' = "?us[?i := u\<lparr>u_status := st\<rparr>]"
  have mem: "u \<in> set ?us" using u by (metis nth_mem)
  have cnt: "admin_count ?us' + (if u_status u = ADMIN then 1 else 0) =
      admin_count ?us + (if st = ADMIN then 1 else 0)"
    using admin_count_update [OF u(1), of "u\<lparr>u_status := st\<rparr>"] u(2) by simp
  have "admin_count ?us \<le> length ?us" "admin_count ?us' \<le> length ?us'"
    by (rule admin_count_le)+
  then have bounds: "admin_count ?us < 2 ^ 32" "admin_count ?us' < 2 ^ 32"
    using assms by (auto simp: users_inv_def)
  have "set ?us' \<subseteq> insert (u\<lparr>u_status := st\<rparr>) (set ?us)" by (rule set_update_subset_insert)
  then have wf: "\<forall>v \<in> set ?us'. u_name v \<noteq> [] \<and> length (u_name v) \<le> USER_MAX_LENGTH
      \<and> length (u_pass v) \<le> USER_MAX_LENGTH"
    using assms mem by (fastforce simp: users_inv_def)
  have "inc32 (admin_count ?us) = admin_count ?us'" if "u_status u \<noteq> ADMIN" "st = ADMIN"
    using that cnt bounds by (simp add: inc32_def)
  moreover have "dec32 (admin_count ?us) = admin_count ?us'" if "u_status u = ADMIN" "st \<noteq> ADMIN"
    using that cnt bounds by (subst dec32_small) auto
  ultimately show ?thesis
    using assms False u wf cnt
    by (auto simp: change_status_def Let_def users_inv_def split: if_splits)
qed

lemma change_password_inv [wf_intros]:
  assumes "users_inv t" and "change_password t name old new = (r, t')"
  shows "users_inv t'"
proof (cases "user_exists t name = -1")
  case True
  with assms show ?thesis by (simp add: change_password_def)
next
  case False
  then have "\<not> user_exists t name < 0" using user_exists_lookup [of t name] by blast
  then obtain u where u: "nat (user_exists t name) < length (users t)"
    "users t ! nat (user_exists t name) = u" by (elim user_exists_nonneg)
  let ?i = "nat (user_exists t name)" and ?us = "users t"
  let ?us' = "?us[?i := u\<lparr>u_pass := take USER_MAX_LENGTH new\<rparr>]"
  have mem: "u \<in> set ?us" using u by (metis nth_mem)
  have "admin_count ?us' = admin_count ?us"
    using admin_count_update [OF u(1), of "u\<lparr>u_pass := take USER_MAX_LENGTH new\<rparr>"] u(2) by simp
  moreover have "set ?us' \<subseteq> insert (u\<lparr>u_pass := take USER_MAX_LENGTH new\<rparr>) (set ?us)"
    by (rule set_update_subset_insert)
  then have "\<forall>v \<in> set ?us'. u_name v \<noteq> [] \<and> length (u_name v) \<le> USER_MAX_LENGTH
      \<and> length (u_pass v) \<le> USER_MAX_LENGTH"
    using assms mem by (fastforce simp: users_inv_def)
  ultimately show ?thesis
    using assms False u by (auto simp: change_password_def Let_def users_inv_def split: if_splits)
qed

lemma users_inv_shrink:
  assumes "users_inv t" and "length us' \<le> length (users t)" and "a = admin_count us'"
    and "c = length us'" and "set us' \<subseteq> set (users t)"
  shows "users_inv (t\<lparr>admins := a, users := us', cantUsers := c\<rparr>)"
  using assms by (auto simp: users_inv_def)

lemma delete_user_inv [wf_intros]:
  assumes "users_inv t" and "delete_user t name = (r, t')"
  shows "users_inv t'"
proof (cases "user_exists t name < 0")
  case True
  with assms show ?thesis by (simp add: delete_user_def)
next
  case False
  then obtain u where u: "nat (user_exists t name) < length (users t)"
    "users t ! nat (user_exists t name) = u" by (elim user_exists_nonneg)
  let ?i = "nat (user_exists t name)" and ?us = "users t"
  let ?us' = "take ?i ?us @ drop (Suc ?i) ?us"
  have cnt: "admin_count ?us = admin_count ?us' + (if u_status u = ADMIN then 1 else 0)"
    using admin_count_remove [OF u(1)] u(2) by simp
  have sub: "set ?us' \<subseteq> set ?us"
    by (auto dest: in_set_takeD in_set_dropD)
  have len: "length ?us' = length ?us - 1" "0 < length ?us" using u(1) by auto
  have "length ?us < 2 ^ 32" "admin_count ?us < 2 ^ 32"
    using assms admin_count_le [of ?us] by (auto simp: users_inv_def)
  then have d: "dec32 (length ?us) = length ?us'"
    "u_status u = ADMIN \<Longrightarrow> dec32 (admin_count ?us) = admin_count ?us'"
    using len cnt by simp_all
  have le: "length ?us' \<le> length ?us" using len(1) by linarith
  have c: "dec32 (cantUsers t) = length ?us'"
    using d(1) assms(1) by (simp only: users_inv_def)
  show ?thesis
  proof (cases "u_status u = ADMIN")
    case True
    have "dec32 (admins t) = admin_count ?us'"
      using d(2) [OF True] assms(1) by (simp only: users_inv_def)
    then have "users_inv (t\<lparr>admins := dec32 (admins t), users := ?us', cantUsers := dec32 (cantUsers t)\<rparr>)"
      using c le sub by (intro users_inv_shrink [OF assms(1)]) (simp_all only:)
    moreover have "t' = t \<or> t' = t\<lparr>admins := dec32 (admins t), users := ?us', cantUsers := dec32 (cantUsers t)\<rparr>"
      using assms(2) False u(2) True by (simp add: delete_user_def Let_def split: if_splits)
    ultimately show ?thesis using assms(1) by metis
  next
    case nadm: False
    have "admins t = admin_count ?us'"
      using cnt nadm assms(1) by (simp add: users_inv_def)
    then have "users_inv (t\<lparr>admins := admins t, users := ?us', cantUsers := dec32 (cantUsers t)\<rparr>)"
      using c le sub by (intro users_inv_shrink [OF assms(1)]) (simp_all only:)
    moreover have "t' = t\<lparr>users := ?us', cantUsers := dec32 (cantUsers t)\<rparr>"
      using assms(2) False u(2) nadm by (simp add: delete_user_def Let_def)
    ultimately show ?thesis by simp
  qed
qed

text \<open>\<open>delete_user\<close> never removes the last administrator.\<close>

lemma delete_user_keeps_admin:
  assumes "users_inv t" and "delete_user t name = (r, t')" and "0 < admins t"
  shows "0 < admins t'"
proof (cases "user_exists t name < 0")
  case True
  with assms show ?thesis by (simp add: delete_user_def)
next
  case False
  have "admins t < 2 ^ 32"
    using assms(1) admin_count_le [of "users t"] by (auto simp: users_inv_def)
  with False assms show ?thesis
    by (auto simp: delete_user_def Let_def split: if_splits)
qed

lemma create_access_inv [wf_intros]:
  assumes "users_inv t" and "create_access ok t name = Some (sb, t')"
  shows "users_inv t'"
proof -
  have "\<not> user_exists t name < 0"
    using assms(2) by (auto simp: create_access_def Let_def split: if_splits)
  then obtain u where u: "nat (user_exists t name) < length (users t)"
    "users t ! nat (user_exists t name) = u" by (elim user_exists_nonneg)
  let ?us' = "(users t)[nat (user_exists t name) := u\<lparr>u_access := sb\<rparr>]"
  have mem: "u \<in> set (users t)" using u by (metis nth_mem)
  have t': "t' = t\<lparr>users := ?us'\<rparr>"
    using assms(2) u(2) by (auto simp: create_access_def Let_def split: if_splits)
  have "admin_count ?us' = admin_count (users t)"
    using admin_count_update [OF u(1), of "u\<lparr>u_access := sb\<rparr>"] u(2) by simp
  moreover have "set ?us' \<subseteq> insert (u\<lparr>u_access := sb\<rparr>) (set (users t))"
    by (rule set_update_subset_insert)
  then have "\<forall>v \<in> set ?us'. u_name v \<noteq> [] \<and> length (u_name v) \<le> USER_MAX_LENGTH
      \<and> length (u_pass v) \<le> USER_MAX_LENGTH"
    using assms(1) mem by (fastforce simp: users_inv_def)
  ultimately show ?thesis using assms(1) t' by (simp add: users_inv_def)
qed

section \<open>The store interface its clients rely on\<close>

text \<open>
  What the handlers use of the table: looking a name up, checking a password, adding an
  account. \<open>absent\<close> and \<open>accepts\<close> are what they ask; the laws say how they answer after
  an account was added.
\<close>

locale account_store =
  fixes inv :: "'t \<Rightarrow> bool"
    and present :: "'t \<Rightarrow> string \<Rightarrow> bool"
    and accepts :: "'t \<Rightarrow> string \<Rightarrow> string \<Rightarrow> bool"
    and add :: "'t \<Rightarrow> string \<Rightarrow> string \<Rightarrow> 't option"
  assumes accepts_present: "accepts t n p \<Longrightarrow> present t n"
    and accepts_unique: "accepts t n p \<Longrightarrow> accepts t n q \<Longrightarrow> p = q"
    and add_inv: "inv t \<Longrightarrow> add t n p = Some t' \<Longrightarrow> inv t'"
    and add_fresh: "inv t \<Longrightarrow> add t n p = Some t' \<Longrightarrow> \<not> present t n"
    and add_accepts: "inv t \<Longrightarrow> add t n p = Some t' \<Longrightarrow> length n \<le> 255 \<Longrightarrow> length p \<le> 255 \<Longrightarrow>
      accepts t' n p"
    and add_other: "inv t \<Longrightarrow> add t n p = Some t' \<Longrightarrow> present t m \<Longrightarrow> accepts t' m q = accepts t m q"
begin

text \<open>An account keeps its password while others are added, and is not added twice.\<close>

lemma add_twice:
  assumes "inv t" "add t n p = Some t'" "length n \<le> 255" "length p \<le> 255"
  shows "add t' n q = None"
proof (rule ccontr)
  assume "add t' n q \<noteq> None"
  then obtain t'' where "add t' n q = Some t''" by auto
  then have "\<not> present t' n" using add_fresh add_inv assms(1,2) by blast
  moreover have "accepts t' n p" using add_accepts assms by blast
  ultimately show False using accepts_present by blast
qed

lemma add_then_only_password:
  assumes "inv t" "add t n p = Some t'" "length n \<le> 255" "length p \<le> 255"
  shows "accepts t' n q \<longleftrightarrow> q = p"
  using add_accepts [OF assms] accepts_unique by blast

end

definition login_ok :: "user_table \<Rightarrow> string \<Rightarrow> string \<Rightarrow> bool" where
  "login_ok t n p \<longleftrightarrow> user_login t n p = 0"

definition add_user :: "user_table \<Rightarrow> string \<Rightarrow> string \<Rightarrow> user_table option" where
  "add_user t n p = (case new_user True t (Some n) (Some p) of
     Some (r, t') \<Rightarrow> if r = 0 then Some t' else None | None \<Rightarrow> None)"

lemma add_user_SomeD:
  assumes "users_inv t" and "add_user t n p = Some t'"
  shows "new_user True t (Some n) (Some p) = Some (0, t')" "\<not> has_user t n" "users_inv t'"
    "users t' = users t @ [\<lparr>u_name = take 255 n, u_pass = take 255 p, u_status = COMMONER,
       u_access = sb_create True True\<rparr>]"
proof -
  show n: "new_user True t (Some n) (Some p) = Some (0, t')"
    using assms(2) by (auto simp: add_user_def split: option.splits prod.splits if_splits)
  then show "\<not> has_user t n" "users_inv t'"
    using new_user_spec [OF assms(1), of True "Some n" "Some p"] by auto
  show "users t' = users t @ [\<lparr>u_name = take 255 n, u_pass = take 255 p, u_status = COMMONER,
       u_access = sb_create True True\<rparr>]"
    using new_user_adds [OF assms(1) n] .
qed

lemma find_append_Some: "find P xs = Some x \<Longrightarrow> find P (xs @ ys) = Some x"
  by (induction xs) auto

lemma find_append_None: "find P xs = None \<Longrightarrow> find P (xs @ ys) = find P ys"
  by (induction xs) (auto split: if_splits)

interpretation accounts: account_store users_inv has_user login_ok add_user
proof unfold_locales
  fix t n p
  assume "login_ok t n p"
  then show "has_user t n"
    using lookup_None_iff [of t n] by (auto simp: login_ok_def user_login_iff)
next
  fix t n p q
  assume "login_ok t n p" "login_ok t n q"
  then show "p = q" by (auto simp: login_ok_def user_login_iff)
next
  fix t n p t'
  assume "users_inv t" "add_user t n p = Some t'"
  then show "users_inv t'" by (rule add_user_SomeD)
next
  fix t n p t'
  assume "users_inv t" "add_user t n p = Some t'"
  then show "\<not> has_user t n" by (rule add_user_SomeD)
next
  fix t n p t'
  assume a: "users_inv t" "add_user t n p = Some t'" and len: "length n \<le> 255" "length p \<le> 255"
  have "find (\<lambda>u. u_name u = n) (users t) = None"
    using add_user_SomeD(2) [OF a] lookup_None_iff [of t n] by (simp add: lookup_def)
  then show "login_ok t' n p"
    using add_user_SomeD(4) [OF a] len
    by (simp add: login_ok_def user_login_iff lookup_def find_append_None)
next
  fix t n p t' m q
  assume a: "users_inv t" "add_user t n p = Some t'" and "has_user t m"
  then obtain u where "find (\<lambda>u. u_name u = m) (users t) = Some u"
    using lookup_None_iff [of t m] by (auto simp: lookup_def)
  then show "login_ok t' m q = login_ok t m q"
    using add_user_SomeD(4) [OF a]
    by (simp add: login_ok_def user_login_iff lookup_def find_append_Some)
qed

end
