(* ===== verification/Selector.thy ===== *)
theory Selector
  imports Prelude
begin

unbundle bit_operations_syntax

text \<open>
  \<open>src/shared/selector.c\<close>, \<open>src/headers/selector.h\<close>: the I/O multiplexer.

  The table \<open>fds\<close> is a list (empty while the C pointer is NULL), its length is \<open>fd_size\<close>;
  \<open>fd_set\<close>s are sets of descriptors. A handler is a pointer to a static struct of four
  callbacks: the selector stores the pointer (type \<open>'h\<close>), and the structs are the argument
  \<open>hs\<close> of the operations that call through them. A callback runs on the selector and the
  rest of the program's state (\<open>'w\<close>). An access outside \<open>fds\<close>, a failed \<open>assert\<close> and a
  call through NULL are crashes (\<open>None\<close>). A selector argument is never NULL here; the mutex
  and the signal that wakes \<open>pselect\<close> only make the job list atomic and are not modelled;
  what \<open>pselect\<close> and the allocators answer are arguments. \<open>registered\<close> is the finite map
  the table stands for; the lemmas show that registering, unregistering and changing an
  interest are the map's update and delete, and that the interest sets handed to \<open>pselect\<close>
  and \<open>max_fd\<close> always agree with it.
\<close>

datatype selector_status =
    SELECTOR_SUCCESS | SELECTOR_ENOMEM | SELECTOR_MAXFD | SELECTOR_IARGS | SELECTOR_FDINUSE
  | SELECTOR_IO

definition ERROR_DEFAULT_MSG :: string where "ERROR_DEFAULT_MSG = ''something failed''"

fun selector_error :: "selector_status \<Rightarrow> string" where
  "selector_error SELECTOR_SUCCESS = ''Success''"
| "selector_error SELECTOR_ENOMEM = ''Not enough memory''"
| "selector_error SELECTOR_MAXFD = ''Can'' @ [CHR 0x27] @ ''t handle any more file descriptors''"
| "selector_error SELECTOR_IARGS = ''Illegal argument''"
| "selector_error SELECTOR_IO = ''I/O error''"
| "selector_error _ = ERROR_DEFAULT_MSG"

text \<open>
  \<open>selector_init\<close>: the configuration, the two signal masks of the file, and what the calls change
  in the process: the signals it blocks and those that \<open>wake_handler\<close> handles.
\<close>

record selector_conf =
  conf_signal :: int
  select_timeout :: "int \<times> int"

record signals =
  sel_conf :: selector_conf
  emptyset :: "int set"
  blockset :: "int set"
  blocked :: "int set"
  woken_by :: "int set"

definition selector_init :: "bool \<Rightarrow> bool \<Rightarrow> selector_conf \<Rightarrow> signals \<Rightarrow> selector_status \<times> signals" where
  "selector_init sigprocmask_ok sigaction_ok c g =
     (let g1 = g\<lparr>sel_conf := c, blockset := {conf_signal c}\<rparr>
      in if \<not> sigprocmask_ok then (SELECTOR_IO, g1)
         else let g2 = g1\<lparr>blocked := blocked g1 \<union> blockset g1\<rparr>
              in if \<not> sigaction_ok then (SELECTOR_IO, g2)
                 else (SELECTOR_SUCCESS,
                       g2\<lparr>woken_by := insert (conf_signal c) (woken_by g2), emptyset := {}\<rparr>))"

definition selector_close :: "signals \<Rightarrow> selector_status \<times> signals" where
  "selector_close g = (SELECTOR_SUCCESS, g)"

text \<open>The static variables before the call, and a process with default signal handling.\<close>

definition no_signals :: signals where
  "no_signals = \<lparr>sel_conf = \<lparr>conf_signal = 0, select_timeout = (0, 0)\<rparr>, emptyset = {}, blockset = {},
     blocked = {}, woken_by = {}\<rparr>"

text \<open>
  Afterwards the signal reaches the process only inside \<open>pselect\<close>, which waits with the mask
  \<open>emptyset\<close>: a notification between two calls is kept for the next one.
\<close>

lemma selector_init_spec:
  assumes "selector_init m a c g = (st, g')"
  shows "(st = SELECTOR_SUCCESS \<longleftrightarrow> m \<and> a) \<and> sel_conf g' = c
    \<and> (st = SELECTOR_SUCCESS \<longrightarrow> conf_signal c \<in> blocked g' \<and> conf_signal c \<in> woken_by g' \<and> emptyset g' = {})"
  using assms by (auto simp: selector_init_def Let_def split: if_splits)

lemma selector_init_status [simp]: "fst (selector_init m a c g) = SELECTOR_SUCCESS \<longleftrightarrow> m \<and> a"
  by (simp add: selector_init_def Let_def)

definition OP_NOOP :: u32 where "OP_NOOP = 0"
definition OP_READ :: u32 where "OP_READ = push_bit 0 1"
definition OP_WRITE :: u32 where "OP_WRITE = push_bit 2 1"

definition INTEREST_OFF :: "u32 \<Rightarrow> u32 \<Rightarrow> u32" where
  "INTEREST_OFF flag msk = flag AND NOT msk"

definition FD_UNUSED :: int where "FD_UNUSED = -1"

record ('h, 'd) item =
  item_fd :: int
  item_interest :: u32
  item_handler :: "'h option"
  item_data :: "'d option"

definition ITEM_USED :: "('h, 'd) item \<Rightarrow> bool" where
  "ITEM_USED i \<longleftrightarrow> FD_UNUSED \<noteq> item_fd i"

record ('h, 'd) fdselector =
  fds :: "('h, 'd) item list"
  max_fd :: int
  master_r :: "int set"
  master_w :: "int set"
  slave_r :: "int set"
  slave_w :: "int set"
  resolution_jobs :: "int list"

record 'd selector_key =
  key_fd :: int
  key_data :: "'d option"

record ('d, 's) fd_handler =
  handle_read :: "('d selector_key \<Rightarrow> 's \<Rightarrow> 's option) option"
  handle_write :: "('d selector_key \<Rightarrow> 's \<Rightarrow> 's option) option"
  handle_block :: "('d selector_key \<Rightarrow> 's \<Rightarrow> 's option) option"
  handle_close :: "('d selector_key \<Rightarrow> 's \<Rightarrow> 's option) option"

type_synonym ('h, 'd, 'w) handlers =
  "'h \<Rightarrow> ('d, ('h, 'd) fdselector \<times> 'w) fd_handler"

definition ITEMS_MAX_SIZE :: nat where "ITEMS_MAX_SIZE = 1024"

definition INVALID_FD :: "int \<Rightarrow> bool" where
  "INVALID_FD fd \<longleftrightarrow> fd < 0 \<or> fd \<ge> int ITEMS_MAX_SIZE"

definition fd_size :: "('h, 'd) fdselector \<Rightarrow> nat" where
  "fd_size s = length (fds s)"

section \<open>The size of the table\<close>

text \<open>\<open>while (tmp != 0) { tmp >>= 1; bits++; }\<close>\<close>

fun bit_count :: "nat \<Rightarrow> nat \<Rightarrow> nat" where
  "bit_count tmp bits = (if tmp = 0 then bits else bit_count (tmp div 2) (bits + 1))"

declare bit_count.simps [simp del]

text \<open>\<open>1UL << bits\<close> is undefined from 64 bits on.\<close>

definition next_capacity :: "nat \<Rightarrow> nat option" where
  "next_capacity n = do {
     let bits = bit_count n 0;
     check (bits < 64);
     let tmp = 2 ^ bits;
     check (tmp \<ge> n);
     let tmp' = (if tmp > ITEMS_MAX_SIZE then ITEMS_MAX_SIZE else tmp);
     Some (tmp' + 1) }"

definition item_init :: "('h, 'd) item" where
  "item_init = \<lparr>item_fd = FD_UNUSED, item_interest = 0, item_handler = None, item_data = None\<rparr>"

text \<open>\<open>sizeof(struct item)\<close> on a 64-bit machine, and \<open>SIZE_MAX\<close>.\<close>

definition element_size :: nat where "element_size = 24"
definition SIZE_MAX :: nat where "SIZE_MAX = 2 ^ 64 - 1"

text \<open>
  The new entries are initialised by \<open>items_init\<close>; the entries \<open>realloc\<close> adds hold
  undetermined bytes in their other fields, which nothing reads while the item is unused.
\<close>

definition ensure_capacity ::
  "bool \<Rightarrow> ('h, 'd) fdselector \<Rightarrow> nat \<Rightarrow> (selector_status \<times> ('h, 'd) fdselector) option" where
  "ensure_capacity alloc_ok s n =
     (if n < fd_size s then Some (SELECTOR_SUCCESS, s)
      else if n > ITEMS_MAX_SIZE then Some (SELECTOR_MAXFD, s)
      else if fds s = [] then do {
        new_size \<leftarrow> next_capacity n;
        if \<not> alloc_ok then Some (SELECTOR_ENOMEM, s)
        else Some (SELECTOR_SUCCESS, s\<lparr>fds := replicate new_size item_init\<rparr>) }
      else do {
        new_size \<leftarrow> next_capacity n;
        if new_size > SIZE_MAX div element_size then Some (SELECTOR_ENOMEM, s)
        else if \<not> alloc_ok then Some (SELECTOR_ENOMEM, s)
        else Some (SELECTOR_SUCCESS,
               s\<lparr>fds := take new_size (fds s) @ replicate (new_size - fd_size s) item_init\<rparr>) })"

definition blank_selector :: "('h, 'd) fdselector" where
  "blank_selector = \<lparr>fds = [], max_fd = 0, master_r = {}, master_w = {}, slave_r = {}, slave_w = {},
     resolution_jobs = []\<rparr>"

text \<open>\<open>selector_new\<close>: NULL is the inner \<open>None\<close>; the selector it destroys there is still empty.\<close>

definition selector_new :: "bool \<Rightarrow> bool \<Rightarrow> nat \<Rightarrow> ('h, 'd) fdselector option option" where
  "selector_new malloc_ok calloc_ok initial_elements =
     (if \<not> malloc_ok then Some None
      else do {
        (st, s) \<leftarrow> ensure_capacity calloc_ok blank_selector initial_elements;
        Some (if st \<noteq> SELECTOR_SUCCESS then None else Some s) })"

section \<open>Registering\<close>

definition items_max_fd :: "('h, 'd) fdselector \<Rightarrow> int option" where
  "items_max_fd s = do {
     check (nat (max_fd s) < fd_size s);
     Some (foldl (\<lambda>m it. if ITEM_USED it then if item_fd it > m then item_fd it else m else m) 0
             (take (nat (max_fd s) + 1) (fds s))) }"

definition items_update_fdset_for_fd ::
  "('h, 'd) fdselector \<Rightarrow> ('h, 'd) item \<Rightarrow> ('h, 'd) fdselector" where
  "items_update_fdset_for_fd s it =
     (let fd = item_fd it;
          s1 = s\<lparr>master_r := master_r s - {fd}, master_w := master_w s - {fd}\<rparr>
      in if ITEM_USED it then
           let s2 = (if item_interest it AND OP_READ \<noteq> 0
                     then s1\<lparr>master_r := insert fd (master_r s1)\<rparr> else s1)
           in (if item_interest it AND OP_WRITE \<noteq> 0
               then s2\<lparr>master_w := insert fd (master_w s2)\<rparr> else s2)
         else s1)"

definition selector_register ::
  "bool \<Rightarrow> ('h, 'd) fdselector \<Rightarrow> int \<Rightarrow> 'h option \<Rightarrow> u32 \<Rightarrow> 'd option
    \<Rightarrow> (selector_status \<times> ('h, 'd) fdselector) option" where
  "selector_register alloc_ok s fd handler interest data =
     (if INVALID_FD fd \<or> handler = None then Some (SELECTOR_IARGS, s)
      else do {
        let ufd = nat fd;
        (ret, s1) \<leftarrow> (if ufd > fd_size s then ensure_capacity alloc_ok s ufd
                      else Some (SELECTOR_SUCCESS, s));
        if ret \<noteq> SELECTOR_SUCCESS then Some (ret, s1)
        else do {
          it \<leftarrow> nth_opt (fds s1) ufd;
          if ITEM_USED it then Some (SELECTOR_FDINUSE, s1)
          else do {
            let it1 = \<lparr>item_fd = fd, item_interest = interest, item_handler = handler,
                       item_data = data\<rparr>;
            let s2 = s1\<lparr>fds := (fds s1)[ufd := it1],
                        max_fd := (if fd > max_fd s1 then fd else max_fd s1)\<rparr>;
            Some (SELECTOR_SUCCESS, items_update_fdset_for_fd s2 it1) } } })"

definition selector_unregister_fd ::
  "('h, 'd, 'w) handlers \<Rightarrow> int \<Rightarrow> ('h, 'd) fdselector \<times> 'w
    \<Rightarrow> (selector_status \<times> ('h, 'd) fdselector \<times> 'w) option" where
  "selector_unregister_fd hs fd st =
     (if INVALID_FD fd then Some (SELECTOR_IARGS, st)
      else do {
        it \<leftarrow> nth_opt (fds (fst st)) (nat fd);
        if \<not> ITEM_USED it then Some (SELECTOR_IARGS, st)
        else do {
          h \<leftarrow> item_handler it;
          (s1, w1) \<leftarrow> (case handle_close (hs h) of
              None \<Rightarrow> Some st
            | Some f \<Rightarrow> f \<lparr>key_fd = item_fd it, key_data = item_data it\<rparr> st);
          it1 \<leftarrow> nth_opt (fds s1) (nat fd);
          let it2 = it1\<lparr>item_interest := OP_NOOP\<rparr>;
          let s2 = items_update_fdset_for_fd (s1\<lparr>fds := (fds s1)[nat fd := it2]\<rparr>) it2;
          let s3 = s2\<lparr>fds := (fds s2)[nat fd := item_init]\<rparr>;
          m \<leftarrow> items_max_fd s3;
          Some (SELECTOR_SUCCESS, s3\<lparr>max_fd := m\<rparr>, w1) } })"

definition selector_set_interest ::
  "('h, 'd) fdselector \<Rightarrow> int \<Rightarrow> u32 \<Rightarrow> (selector_status \<times> ('h, 'd) fdselector) option" where
  "selector_set_interest s fd i =
     (if INVALID_FD fd then Some (SELECTOR_IARGS, s)
      else do {
        it \<leftarrow> nth_opt (fds s) (nat fd);
        if \<not> ITEM_USED it then Some (SELECTOR_IARGS, s)
        else do {
          let it1 = it\<lparr>item_interest := i\<rparr>;
          Some (SELECTOR_SUCCESS, items_update_fdset_for_fd (s\<lparr>fds := (fds s)[nat fd := it1]\<rparr>) it1) } })"

definition selector_set_interest_key ::
  "('h, 'd) fdselector \<Rightarrow> 'd selector_key \<Rightarrow> u32 \<Rightarrow> (selector_status \<times> ('h, 'd) fdselector) option" where
  "selector_set_interest_key s key i =
     (if INVALID_FD (key_fd key) then Some (SELECTOR_IARGS, s)
      else selector_set_interest s (key_fd key) i)"

text \<open>No range check here: a descriptor outside the table, such as -1, is a wild read.\<close>

definition get_key_with_offset :: "('h, 'd) fdselector \<Rightarrow> int \<Rightarrow> 'd selector_key option" where
  "get_key_with_offset s target_fd = do {
     check (0 \<le> target_fd);
     it \<leftarrow> nth_opt (fds s) (nat target_fd);
     Some \<lparr>key_fd = item_fd it, key_data = item_data it\<rparr> }"

section \<open>Dispatching\<close>

text \<open>One round of the loop of \<open>handle_iteration\<close>.\<close>

definition handle_item ::
  "('h, 'd, 'w) handlers \<Rightarrow> nat \<Rightarrow> ('h, 'd) fdselector \<times> 'w \<Rightarrow> (('h, 'd) fdselector \<times> 'w) option" where
  "handle_item hs i st = do {
     it \<leftarrow> nth_opt (fds (fst st)) i;
     if \<not> ITEM_USED it then Some st
     else do {
       let key = \<lparr>key_fd = item_fd it, key_data = item_data it\<rparr>;
       st1 \<leftarrow> (if item_fd it \<in> slave_r (fst st) \<and> OP_READ AND item_interest it \<noteq> 0
               then do { h \<leftarrow> item_handler it; f \<leftarrow> handle_read (hs h); f key st }
               else Some st);
       it1 \<leftarrow> nth_opt (fds (fst st1)) i;
       (if int i \<in> slave_w (fst st1) \<and> OP_WRITE AND item_interest it1 \<noteq> 0
        then do { h \<leftarrow> item_handler it1; f \<leftarrow> handle_write (hs h); f key st1 }
        else Some st1) } }"

fun handle_items ::
  "('h, 'd, 'w) handlers \<Rightarrow> nat list \<Rightarrow> ('h, 'd) fdselector \<times> 'w \<Rightarrow> (('h, 'd) fdselector \<times> 'w) option" where
  "handle_items hs [] st = Some st"
| "handle_items hs (i # is) st = do { st1 \<leftarrow> handle_item hs i st; handle_items hs is st1 }"

definition handle_iteration ::
  "('h, 'd, 'w) handlers \<Rightarrow> ('h, 'd) fdselector \<times> 'w \<Rightarrow> (('h, 'd) fdselector \<times> 'w) option" where
  "handle_iteration hs st = handle_items hs [0..<nat (max_fd (fst st) + 1)] st"

fun run_jobs ::
  "('h, 'd, 'w) handlers \<Rightarrow> int list \<Rightarrow> ('h, 'd) fdselector \<times> 'w \<Rightarrow> (('h, 'd) fdselector \<times> 'w) option" where
  "run_jobs hs [] st = Some st"
| "run_jobs hs (fd # js) st = do {
     check (0 \<le> fd);
     it \<leftarrow> nth_opt (fds (fst st)) (nat fd);
     st1 \<leftarrow> (if ITEM_USED it
             then do { h \<leftarrow> item_handler it; f \<leftarrow> handle_block (hs h);
                       f \<lparr>key_fd = item_fd it, key_data = item_data it\<rparr> st }
             else Some st);
     run_jobs hs js st1 }"

definition handle_block_notifications ::
  "('h, 'd, 'w) handlers \<Rightarrow> ('h, 'd) fdselector \<times> 'w \<Rightarrow> (('h, 'd) fdselector \<times> 'w) option" where
  "handle_block_notifications hs st = do {
     (s1, w1) \<leftarrow> run_jobs hs (resolution_jobs (fst st)) st;
     Some (s1\<lparr>resolution_jobs := []\<rparr>, w1) }"

definition selector_notify_block ::
  "bool \<Rightarrow> ('h, 'd) fdselector \<Rightarrow> int \<Rightarrow> selector_status \<times> ('h, 'd) fdselector" where
  "selector_notify_block malloc_ok s fd =
     (if \<not> malloc_ok then (SELECTOR_ENOMEM, s)
      else (SELECTOR_SUCCESS, s\<lparr>resolution_jobs := fd # resolution_jobs s\<rparr>))"

text \<open>What \<open>pselect\<close> answers: the descriptors that are ready, or an error.\<close>

datatype pselect_result = Ready "int set" "int set" | Failed errno

definition selector_select ::
  "('h, 'd, 'w) handlers \<Rightarrow> pselect_result \<Rightarrow> ('h, 'd) fdselector \<times> 'w
    \<Rightarrow> (selector_status \<times> ('h, 'd) fdselector \<times> 'w) option" where
  "selector_select hs answer st =
     (let (s, w) = st;
          s1 = s\<lparr>slave_r := master_r s, slave_w := master_w s\<rparr>
      in case answer of
           Failed e \<Rightarrow>
             (if e = EAGAIN \<or> e = EINTR
              then do { st2 \<leftarrow> handle_block_notifications hs (s1, w); Some (SELECTOR_SUCCESS, st2) }
              else Some (SELECTOR_IO, s1, w))
         | Ready r wr \<Rightarrow> do {
             st1 \<leftarrow> handle_iteration hs (s1\<lparr>slave_r := r, slave_w := wr\<rparr>, w);
             st2 \<leftarrow> handle_block_notifications hs st1;
             Some (SELECTOR_SUCCESS, st2) })"

text \<open>The loop of \<open>selector_destroy\<close>: every item still in use is unregistered.\<close>

fun destroy_items ::
  "('h, 'd, 'w) handlers \<Rightarrow> nat list \<Rightarrow> ('h, 'd) fdselector \<times> 'w \<Rightarrow> (('h, 'd) fdselector \<times> 'w) option" where
  "destroy_items hs [] st = Some st"
| "destroy_items hs (i # is) st = do {
     it \<leftarrow> nth_opt (fds (fst st)) i;
     st1 \<leftarrow> (if ITEM_USED it
             then do { (_, st1) \<leftarrow> selector_unregister_fd hs (int i) st; Some st1 }
             else Some st);
     destroy_items hs is st1 }"

text \<open>What is left of the program's state when the selector has been freed.\<close>

definition selector_destroy ::
  "('h, 'd, 'w) handlers \<Rightarrow> ('h, 'd) fdselector \<times> 'w \<Rightarrow> 'w option" where
  "selector_destroy hs st =
     (if fds (fst st) = [] then Some (snd st)
      else do { st1 \<leftarrow> destroy_items hs [0..<fd_size (fst st)] st; Some (snd st1) })"

text \<open>\<open>fcntl\<close>'s two answers (\<open>None\<close>: -1); the flags are the bits it returned.\<close>

definition selector_fd_set_nio :: "u32 option \<Rightarrow> (u32 \<Rightarrow> bool) \<Rightarrow> u32 \<Rightarrow> int" where
  "selector_fd_set_nio get_flags set_flags O_NONBLOCK =
     (case get_flags of None \<Rightarrow> -1
      | Some flags \<Rightarrow> if \<not> set_flags (flags OR O_NONBLOCK) then -1 else 0)"


section \<open>The size computation\<close>

lemma bit_count_spec:
  "\<exists>k. bit_count n b = b + k \<and> n < 2 ^ k \<and> (0 < n \<longrightarrow> 2 ^ k \<le> 2 * n)"
proof (induction n b rule: bit_count.induct)
  case (1 n b)
  show ?case
  proof (cases "n = 0")
    case True
    then show ?thesis using bit_count.simps [of 0 b] by simp
  next
    case False
    from 1 [OF False] obtain k where k: "bit_count (n div 2) (b + 1) = b + 1 + k" "n div 2 < 2 ^ k"
      "0 < n div 2 \<longrightarrow> 2 ^ k \<le> 2 * (n div 2)"
      by (elim exE conjE)
    have "bit_count n b = b + Suc k"
      using False k(1) by (simp add: bit_count.simps [of n b])
    moreover have "n < 2 ^ Suc k" using k(2) by simp
    moreover have "2 ^ Suc k \<le> 2 * n"
    proof (cases "n div 2 = 0")
      case True
      then have "n = 1" using False by auto
      with k(1) have "k = 0" using bit_count.simps [of 0 "b + 1"] by simp
      then show ?thesis using \<open>n = 1\<close> by simp
    next
      case False
      with k(3) have "2 ^ k \<le> 2 * (n div 2)" by simp
      then have "2 ^ k \<le> n" by linarith
      then show ?thesis by simp
    qed
    ultimately show ?thesis by blast
  qed
qed

lemma next_capacity_spec:
  assumes "n \<le> ITEMS_MAX_SIZE"
  shows "\<exists>c. next_capacity n = Some c \<and> n < c \<and> c \<le> ITEMS_MAX_SIZE + 1"
proof -
  obtain k where k: "bit_count n 0 = k" "n < 2 ^ k" "0 < n \<longrightarrow> 2 ^ k \<le> 2 * n"
    using bit_count_spec [of n 0] by auto
  have "k < 64"
  proof (rule ccontr)
    assume "\<not> k < 64"
    then have "(2::nat) ^ 64 \<le> 2 ^ k" by (intro power_increasing) auto
    moreover have "n \<noteq> 0"
    proof
      assume "n = 0"
      with k(1) have "k = 0" by (simp add: bit_count.simps [of 0 0])
      with \<open>\<not> k < 64\<close> show False by simp
    qed
    ultimately show False using k(3) assms by (simp add: ITEMS_MAX_SIZE_def)
  qed
  with k assms show ?thesis by (auto simp: next_capacity_def Let_def)
qed

section \<open>The map the table stands for\<close>

definition registered :: "('h, 'd) fdselector \<Rightarrow> int \<Rightarrow> ('h, 'd) item option" where
  "registered s fd =
     (if 0 \<le> fd \<and> nat fd < fd_size s \<and> ITEM_USED (fds s ! nat fd) then Some (fds s ! nat fd) else None)"

definition wants :: "u32 \<Rightarrow> ('h, 'd) item \<Rightarrow> bool" where
  "wants op it \<longleftrightarrow> item_interest it AND op \<noteq> 0"

definition sel_inv :: "('h, 'd) fdselector \<Rightarrow> bool" where
  "sel_inv s \<longleftrightarrow> 0 \<le> max_fd s \<and> nat (max_fd s) < fd_size s
     \<and> (\<forall>fd it. registered s fd = Some it \<longrightarrow>
          item_fd it = fd \<and> item_handler it \<noteq> None \<and> fd < int ITEMS_MAX_SIZE \<and> fd \<le> max_fd s)
     \<and> (max_fd s = 0 \<or> registered s (max_fd s) \<noteq> None)
     \<and> master_r s = {fd. \<exists>it. registered s fd = Some it \<and> wants OP_READ it}
     \<and> master_w s = {fd. \<exists>it. registered s fd = Some it \<and> wants OP_WRITE it}"

lemma registered_SomeD:
  "registered s fd = Some it \<Longrightarrow> 0 \<le> fd \<and> nat fd < fd_size s \<and> ITEM_USED it \<and> fds s ! nat fd = it"
  by (auto simp: registered_def split: if_splits)

lemma registered_at:
  "0 \<le> fd \<Longrightarrow> nat fd < fd_size s \<Longrightarrow>
   nth_opt (fds s) (nat fd) = Some (fds s ! nat fd)
   \<and> (ITEM_USED (fds s ! nat fd) \<longleftrightarrow> registered s fd \<noteq> None)
   \<and> (registered s fd \<noteq> None \<longrightarrow> registered s fd = Some (fds s ! nat fd))"
  by (auto simp: registered_def fd_size_def)

lemma registered_update:
  assumes "0 \<le> fd" and "nat fd < fd_size s"
  shows "registered (s\<lparr>fds := (fds s)[nat fd := it]\<rparr>) =
    (registered s)(fd := if ITEM_USED it then Some it else None)"
proof
  fix x
  show "registered (s\<lparr>fds := (fds s)[nat fd := it]\<rparr>) x =
    ((registered s)(fd := if ITEM_USED it then Some it else None)) x"
    using assms by (cases "x = fd") (auto simp: registered_def fd_size_def nth_list_update eq_nat_nat_iff)
qed

lemma registered_cong [simp]:
  "registered (s\<lparr>max_fd := m\<rparr>) = registered s"
  "registered (s\<lparr>master_r := r\<rparr>) = registered s"
  "registered (s\<lparr>master_w := r\<rparr>) = registered s"
  "registered (s\<lparr>slave_r := r\<rparr>) = registered s"
  "registered (s\<lparr>slave_w := r\<rparr>) = registered s"
  "registered (s\<lparr>resolution_jobs := js\<rparr>) = registered s"
  by (auto simp: registered_def fd_size_def)

lemma fd_size_cong [simp]:
  "fd_size (s\<lparr>max_fd := m\<rparr>) = fd_size s"
  "fd_size (s\<lparr>master_r := r\<rparr>) = fd_size s"
  "fd_size (s\<lparr>master_w := r\<rparr>) = fd_size s"
  "fd_size (s\<lparr>fds := (fds s)[i := it]\<rparr>) = fd_size s"
  by (auto simp: fd_size_def)

lemma sel_inv_cong [simp]:
  "sel_inv (s\<lparr>slave_r := r\<rparr>) = sel_inv s"
  "sel_inv (s\<lparr>slave_w := r\<rparr>) = sel_inv s"
  "sel_inv (s\<lparr>resolution_jobs := js\<rparr>) = sel_inv s"
  by (simp_all add: sel_inv_def fd_size_def)

lemma update_fdset_fields [simp]:
  "fds (items_update_fdset_for_fd s it) = fds s"
  "max_fd (items_update_fdset_for_fd s it) = max_fd s"
  "fd_size (items_update_fdset_for_fd s it) = fd_size s"
  "registered (items_update_fdset_for_fd s it) = registered s"
  "slave_r (items_update_fdset_for_fd s it) = slave_r s"
  "slave_w (items_update_fdset_for_fd s it) = slave_w s"
  "resolution_jobs (items_update_fdset_for_fd s it) = resolution_jobs s"
  by (auto simp: items_update_fdset_for_fd_def Let_def registered_def fd_size_def)

lemma update_fdset_masters:
  "master_r (items_update_fdset_for_fd s it) =
     (if ITEM_USED it \<and> wants OP_READ it then insert (item_fd it) (master_r s)
      else master_r s - {item_fd it})"
  "master_w (items_update_fdset_for_fd s it) =
     (if ITEM_USED it \<and> wants OP_WRITE it then insert (item_fd it) (master_w s)
      else master_w s - {item_fd it})"
  by (auto simp: items_update_fdset_for_fd_def Let_def wants_def)

text \<open>Storing a used item at its own index, as registering and changing an interest do.\<close>

lemma sel_inv_store:
  assumes inv: "sel_inv s" and fd: "0 \<le> fd" "nat fd < fd_size s" "fd < int ITEMS_MAX_SIZE"
    and it: "item_fd it = fd" "item_handler it \<noteq> None"
  defines "s' \<equiv> items_update_fdset_for_fd
    (s\<lparr>fds := (fds s)[nat fd := it], max_fd := (if fd > max_fd s then fd else max_fd s)\<rparr>) it"
  shows "sel_inv s' \<and> registered s' = (registered s)(fd \<mapsto> it) \<and> fd_size s' = fd_size s"
proof -
  have used: "ITEM_USED it" using it(1) fd(1) by (simp add: ITEM_USED_def FD_UNUSED_def)
  then have reg: "registered s' = (registered s)(fd \<mapsto> it)"
    using registered_update [OF fd(1,2), of it] by (simp add: s'_def)
  have r: "master_r s' = {x. \<exists>i. registered s' x = Some i \<and> wants OP_READ i}"
    and w: "master_w s' = {x. \<exists>i. registered s' x = Some i \<and> wants OP_WRITE i}"
    unfolding reg using inv used it(1)
    by (auto simp: s'_def update_fdset_masters sel_inv_def)
  have size: "fd_size s' = fd_size s" by (simp add: s'_def)
  have m: "max_fd s' = (if fd > max_fd s then fd else max_fd s)" by (simp add: s'_def)
  have "0 \<le> max_fd s'" "nat (max_fd s') < fd_size s'"
    using inv fd unfolding m size by (auto simp: sel_inv_def)
  moreover have "item_fd i = x \<and> item_handler i \<noteq> None \<and> x < int ITEMS_MAX_SIZE \<and> x \<le> max_fd s'"
    if "registered s' x = Some i" for x i
  proof (cases "x = fd")
    case True
    with that it fd(3) show ?thesis by (simp add: reg m)
  next
    case False
    with that have "registered s x = Some i" by (simp add: reg)
    with inv have "item_fd i = x \<and> item_handler i \<noteq> None \<and> x < int ITEMS_MAX_SIZE \<and> x \<le> max_fd s"
      unfolding sel_inv_def by blast
    then show ?thesis by (simp add: m)
  qed
  moreover have "max_fd s' = 0 \<or> registered s' (max_fd s') \<noteq> None"
    using inv unfolding m reg by (auto simp: sel_inv_def)
  ultimately have "sel_inv s'" unfolding sel_inv_def using r w by blast
  with reg size show ?thesis by blast
qed

lemma sel_invD:
  assumes "sel_inv s" and "registered s fd = Some it"
  shows "item_fd it = fd" "item_handler it \<noteq> None" "fd < int ITEMS_MAX_SIZE" "fd \<le> max_fd s"
  using assms unfolding sel_inv_def by blast+

lemma sel_inv_max:
  "sel_inv s \<Longrightarrow> registered s fd = Some it \<Longrightarrow> (if fd > max_fd s then fd else max_fd s) = max_fd s"
  using sel_invD(4) [of s fd it] by simp

lemma selector_set_interest_spec:
  assumes inv: "sel_inv s" and reg: "registered s fd = Some it"
  shows "\<exists>s'. selector_set_interest s fd i = Some (SELECTOR_SUCCESS, s') \<and> sel_inv s'
    \<and> registered s' = (registered s)(fd \<mapsto> it\<lparr>item_interest := i\<rparr>) \<and> fd_size s' = fd_size s"
proof -
  have fd: "0 \<le> fd" "nat fd < fd_size s" "ITEM_USED it" "fds s ! nat fd = it"
    using registered_SomeD [OF reg] by auto
  have it: "item_fd it = fd" "item_handler it \<noteq> None" "fd < int ITEMS_MAX_SIZE"
    using inv reg by (auto simp: sel_inv_def)
  have same: "s\<lparr>fds := (fds s)[nat fd := it\<lparr>item_interest := i\<rparr>]\<rparr> =
    s\<lparr>fds := (fds s)[nat fd := it\<lparr>item_interest := i\<rparr>],
      max_fd := (if fd > max_fd s then fd else max_fd s)\<rparr>"
    using sel_inv_max [OF inv reg] by (cases s) simp
  have "selector_set_interest s fd i = Some (SELECTOR_SUCCESS, items_update_fdset_for_fd
      (s\<lparr>fds := (fds s)[nat fd := it\<lparr>item_interest := i\<rparr>]\<rparr>) (it\<lparr>item_interest := i\<rparr>))"
    using fd it by (simp add: selector_set_interest_def INVALID_FD_def fd_size_def Let_def)
  with same have "selector_set_interest s fd i = Some (SELECTOR_SUCCESS, items_update_fdset_for_fd
      (s\<lparr>fds := (fds s)[nat fd := it\<lparr>item_interest := i\<rparr>],
        max_fd := (if fd > max_fd s then fd else max_fd s)\<rparr>) (it\<lparr>item_interest := i\<rparr>))"
    by metis
  moreover have "item_fd (it\<lparr>item_interest := i\<rparr>) = fd" "item_handler (it\<lparr>item_interest := i\<rparr>) \<noteq> None"
    using it by simp_all
  ultimately show ?thesis
    using sel_inv_store [OF inv fd(1,2) it(3)] by blast
qed

text \<open>On a descriptor that is not registered (but inside the table) nothing happens.\<close>

lemma selector_set_interest_absent:
  assumes "INVALID_FD fd \<or> (0 \<le> fd \<and> nat fd < fd_size s \<and> registered s fd = None)"
  shows "selector_set_interest s fd i = Some (SELECTOR_IARGS, s)"
  using assms registered_at [of fd s] by (auto simp: selector_set_interest_def)

lemma selector_set_interest_key_eq:
  "selector_set_interest_key s key i = selector_set_interest s (key_fd key) i"
  by (simp add: selector_set_interest_key_def selector_set_interest_def)

text \<open>Whatever the descriptor, the call keeps the invariant and which descriptors are in use.\<close>

lemma selector_set_interest_inv:
  assumes "sel_inv s" and "selector_set_interest s fd i = Some (r, s')"
  shows "sel_inv s' \<and> dom (registered s') = dom (registered s) \<and> fd_size s' = fd_size s
    \<and> (\<forall>x it'. registered s' x = Some it' \<longrightarrow>
        (\<exists>it. registered s x = Some it \<and> item_handler it' = item_handler it \<and> item_data it' = item_data it))
    \<and> (r = SELECTOR_SUCCESS \<longleftrightarrow> registered s fd \<noteq> None)"
proof (cases "registered s fd")
  case (Some it)
  then show ?thesis
    using selector_set_interest_spec [OF assms(1) Some, of i] assms(2) by auto
next
  case None
  have "r = SELECTOR_IARGS \<and> s' = s"
  proof (cases "INVALID_FD fd")
    case True
    with assms(2) show ?thesis by (simp add: selector_set_interest_def)
  next
    case False
    with assms(2) have "nat fd < fd_size s"
      by (auto simp: selector_set_interest_def nth_opt_def fd_size_def split: if_splits)
    with False None assms(2) show ?thesis
      using selector_set_interest_absent [of fd s i] by (simp add: INVALID_FD_def)
  qed
  with None assms(1) show ?thesis by auto
qed

section \<open>Registering is the map's insertion\<close>

lemma ensure_capacity_spec:
  assumes inv: "sel_inv s" and n: "fd_size s \<le> n" "n \<le> ITEMS_MAX_SIZE"
  shows "\<exists>s'. ensure_capacity True s n = Some (SELECTOR_SUCCESS, s') \<and> sel_inv s' \<and> n < fd_size s'
    \<and> registered s' = registered s \<and> fd_size s' \<le> ITEMS_MAX_SIZE + 1"
proof -
  obtain c where c: "next_capacity n = Some c" "n < c" "c \<le> ITEMS_MAX_SIZE + 1"
    using next_capacity_spec [OF n(2)] by blast
  have ne: "fds s \<noteq> []" using inv by (auto simp: sel_inv_def fd_size_def)
  let ?s' = "s\<lparr>fds := fds s @ replicate (c - fd_size s) item_init\<rparr>"
  have size: "fd_size ?s' = c" using c n by (simp add: fd_size_def)
  have reg: "registered ?s' = registered s"
  proof
    fix x
    show "registered ?s' x = registered s x"
      using c n by (auto simp: registered_def fd_size_def nth_append item_init_def ITEM_USED_def)
  qed
  have "sel_inv ?s'"
    using inv c n unfolding sel_inv_def reg size by (auto simp: fd_size_def)
  moreover have "ensure_capacity True s n = Some (SELECTOR_SUCCESS, ?s')"
    using ne c n
    by (simp add: ensure_capacity_def fd_size_def SIZE_MAX_def element_size_def ITEMS_MAX_SIZE_def)
  ultimately show ?thesis using reg size c by (intro exI [of _ ?s']) simp
qed

lemma ensure_capacity_cases:
  assumes inv: "sel_inv s" and "ensure_capacity ok s n = Some (r, s')"
  shows "(r \<noteq> SELECTOR_SUCCESS \<and> s' = s) \<or>
    (r = SELECTOR_SUCCESS \<and> sel_inv s' \<and> registered s' = registered s \<and> fd_size s \<le> fd_size s' \<and> n < fd_size s')"
proof -
  consider "n < fd_size s" | "\<not> n < fd_size s" "n > ITEMS_MAX_SIZE"
    | "fd_size s \<le> n" "n \<le> ITEMS_MAX_SIZE" by linarith
  then show ?thesis
  proof cases
    case 1
    then have "ensure_capacity ok s n = Some (SELECTOR_SUCCESS, s)" by (simp add: ensure_capacity_def)
    with 1 assms show ?thesis by auto
  next
    case 2
    then have "ensure_capacity ok s n = Some (SELECTOR_MAXFD, s)" by (simp add: ensure_capacity_def)
    with assms show ?thesis by auto
  next
    case 3
    obtain c where c: "next_capacity n = Some c" using next_capacity_spec [OF 3(2)] by blast
    have ne: "fds s \<noteq> []" using inv by (auto simp: sel_inv_def fd_size_def)
    show ?thesis
    proof (cases ok)
      case True
      with 3 assms ensure_capacity_spec [OF inv, of n] show ?thesis by auto
    next
      case False
      with 3 c ne have "ensure_capacity ok s n = Some (SELECTOR_ENOMEM, s)"
        by (simp add: ensure_capacity_def)
      with assms show ?thesis by auto
    qed
  qed
qed

lemma selector_new_spec:
  assumes "n \<le> ITEMS_MAX_SIZE"
  shows "\<exists>s. selector_new True True n = Some (Some s) \<and> sel_inv s \<and> registered s = Map.empty
    \<and> n < fd_size s \<and> fd_size s \<le> ITEMS_MAX_SIZE + 1"
proof -
  obtain c where c: "next_capacity n = Some c" "n < c" "c \<le> ITEMS_MAX_SIZE + 1"
    using next_capacity_spec [OF assms] by blast
  let ?s = "blank_selector\<lparr>fds := replicate c item_init\<rparr>"
  have reg: "registered ?s = Map.empty"
    by (auto simp: registered_def fd_size_def item_init_def ITEM_USED_def fun_eq_iff)
  moreover have "sel_inv ?s"
    unfolding sel_inv_def reg using c by (auto simp: fd_size_def blank_selector_def)
  moreover have "selector_new True True n = Some (Some ?s)"
    using c assms by (simp add: selector_new_def ensure_capacity_def blank_selector_def fd_size_def)
  ultimately show ?thesis using c by (auto simp: fd_size_def)
qed

definition new_item :: "int \<Rightarrow> 'h option \<Rightarrow> u32 \<Rightarrow> 'd option \<Rightarrow> ('h, 'd) item" where
  "new_item fd h i d = \<lparr>item_fd = fd, item_interest = i, item_handler = h, item_data = d\<rparr>"

lemma selector_register_in_table:
  assumes inv: "sel_inv s" and fd: "0 \<le> fd" "fd < int ITEMS_MAX_SIZE" "nat fd < fd_size s"
    and h: "handler \<noteq> None"
  shows "registered s fd \<noteq> None \<Longrightarrow>
      selector_register ok s fd handler i d = Some (SELECTOR_FDINUSE, s)"
    and "registered s fd = None \<Longrightarrow>
      \<exists>s'. selector_register ok s fd handler i d = Some (SELECTOR_SUCCESS, s') \<and> sel_inv s'
        \<and> registered s' = (registered s)(fd \<mapsto> new_item fd handler i d) \<and> fd_size s' = fd_size s"
proof -
  have at: "nth_opt (fds s) (nat fd) = Some (fds s ! nat fd)"
    "ITEM_USED (fds s ! nat fd) \<longleftrightarrow> registered s fd \<noteq> None"
    using registered_at [OF fd(1,3)] by auto
  have valid: "\<not> INVALID_FD fd" using fd by (simp add: INVALID_FD_def)
  show "selector_register ok s fd handler i d = Some (SELECTOR_FDINUSE, s)"
    if "registered s fd \<noteq> None"
    using that at valid h fd by (simp add: selector_register_def)
  show "\<exists>s'. selector_register ok s fd handler i d = Some (SELECTOR_SUCCESS, s') \<and> sel_inv s'
        \<and> registered s' = (registered s)(fd \<mapsto> new_item fd handler i d) \<and> fd_size s' = fd_size s"
    if "registered s fd = None"
  proof -
    let ?s' = "items_update_fdset_for_fd (s\<lparr>fds := (fds s)[nat fd := new_item fd handler i d],
      max_fd := (if fd > max_fd s then fd else max_fd s)\<rparr>) (new_item fd handler i d)"
    have "selector_register ok s fd handler i d = Some (SELECTOR_SUCCESS, ?s')"
      using that at valid h fd by (simp add: selector_register_def new_item_def Let_def)
    moreover have "item_fd (new_item fd handler i d) = fd" "item_handler (new_item fd handler i d) \<noteq> None"
      using h by (simp_all add: new_item_def)
    ultimately show ?thesis
      using sel_inv_store [OF inv fd(1,3,2)] by blast
  qed
qed

text \<open>Beyond the table but not right behind it, the table grows first.\<close>

lemma selector_register_grow:
  assumes inv: "sel_inv s" and fd: "0 \<le> fd" "fd < int ITEMS_MAX_SIZE" "fd_size s < nat fd"
  shows "\<exists>s'. selector_register True s fd (Some h) i d = Some (SELECTOR_SUCCESS, s') \<and> sel_inv s'
        \<and> registered s' = (registered s)(fd \<mapsto> new_item fd (Some h) i d)"
proof -
  have "nat fd \<le> ITEMS_MAX_SIZE" using fd(2) by (simp add: nat_le_iff)
  then obtain s1 where s1: "ensure_capacity True s (nat fd) = Some (SELECTOR_SUCCESS, s1)" "sel_inv s1"
    "nat fd < fd_size s1" "registered s1 = registered s"
    using ensure_capacity_spec [OF inv, of "nat fd"] fd by auto
  have "registered s fd = None" using fd by (simp add: registered_def)
  then obtain s' where s': "selector_register True s1 fd (Some h) i d = Some (SELECTOR_SUCCESS, s')"
    "sel_inv s'" "registered s' = (registered s1)(fd \<mapsto> new_item fd (Some h) i d)"
    using selector_register_in_table(2) [OF s1(2) fd(1,2) s1(3), of "Some h" True i d] s1(4) by auto
  have "selector_register True s fd (Some h) i d = selector_register True s1 fd (Some h) i d"
    using s1 fd by (simp add: selector_register_def INVALID_FD_def)
  with s' s1(4) show ?thesis by auto
qed

text \<open>
  Whatever the outcome, a registration that returns keeps the invariant; it changes the map
  only where it succeeds.
\<close>

lemma selector_register_inv:
  assumes inv: "sel_inv s" and res: "selector_register ok s fd handler i d = Some (r, s')"
  shows "sel_inv s' \<and> (r = SELECTOR_SUCCESS \<longrightarrow> registered s fd = None \<and> 0 \<le> fd
        \<and> registered s' = (registered s)(fd \<mapsto> new_item fd handler i d))
    \<and> (r \<noteq> SELECTOR_SUCCESS \<longrightarrow> registered s' = registered s) \<and> fd_size s \<le> fd_size s'"
proof (cases "INVALID_FD fd \<or> handler = None")
  case True
  with assms show ?thesis by (auto simp: selector_register_def)
next
  case False
  then have fd: "0 \<le> fd" "fd < int ITEMS_MAX_SIZE" and h: "handler \<noteq> None"
    by (auto simp: INVALID_FD_def)
  have in_table: ?thesis if "sel_inv s1" "selector_register ok s1 fd handler i d = Some (r, s')"
      "registered s1 = registered s" "nat fd < fd_size s1" "fd_size s \<le> fd_size s1" for s1
    using selector_register_in_table [OF that(1) fd that(4) h, of ok i d] that fd(1)
    by (cases "registered s fd") auto
  show ?thesis
  proof (cases "nat fd > fd_size s")
    case True
    then obtain r1 s1 where e: "ensure_capacity ok s (nat fd) = Some (r1, s1)"
      using res False by (auto simp: selector_register_def bind_eq_Some_conv Let_def)
    show ?thesis
    proof (cases "r1 = SELECTOR_SUCCESS")
      case ok: True
      with ensure_capacity_cases [OF inv e] have s1: "sel_inv s1" "registered s1 = registered s"
        "nat fd < fd_size s1" "fd_size s \<le> fd_size s1" by auto
      have "selector_register ok s1 fd handler i d = Some (r, s')"
        using res True False e ok s1(3) by (auto simp: selector_register_def Let_def)
      with s1 show ?thesis by (intro in_table) auto
    next
      case fail: False
      with ensure_capacity_cases [OF inv e] have "s1 = s" by auto
      with fail res True False e inv show ?thesis by (auto simp: selector_register_def)
    qed
  next
    case small: False
    have "nat fd \<noteq> fd_size s"
      using res False small by (auto simp: selector_register_def fd_size_def nth_opt_def split: if_splits)
    with small inv res show ?thesis by (intro in_table) auto
  qed
qed

text \<open>
  The guard \<open>ufd > fd_size\<close> lets the descriptor equal to \<open>fd_size\<close> through without growing
  the table: the item behind the last one is read.
\<close>

lemma selector_register_at_size_crashes:
  assumes "int (fd_size s) < int ITEMS_MAX_SIZE" and "handler \<noteq> None"
  shows "selector_register ok s (int (fd_size s)) handler i d = None"
  using assms by (auto simp: selector_register_def INVALID_FD_def fd_size_def)

section \<open>Unregistering is the map's deletion\<close>

lemma foldl_max:
  fixes its :: "('h, 'd) item list"
  defines "f \<equiv> \<lambda>m (it :: ('h, 'd) item). if ITEM_USED it then if item_fd it > m then item_fd it else m else m"
  shows "m \<le> foldl f m its \<and> (\<forall>it \<in> set its. ITEM_USED it \<longrightarrow> item_fd it \<le> foldl f m its)
    \<and> (foldl f m its = m \<or> (\<exists>it \<in> set its. ITEM_USED it \<and> item_fd it = foldl f m its))"
proof (induction its arbitrary: m)
  case Nil
  then show ?case by simp
next
  case (Cons it its)
  have "m \<le> f m it" "ITEM_USED it \<longrightarrow> item_fd it \<le> f m it"
    "f m it = m \<or> (ITEM_USED it \<and> item_fd it = f m it)"
    by (auto simp: f_def)
  with Cons [of "f m it"] show ?case by (auto intro: order_trans)
qed

lemma items_max_fd_spec:
  assumes "0 \<le> max_fd s" "nat (max_fd s) < fd_size s"
    and "\<And>fd it. registered s fd = Some it \<Longrightarrow> item_fd it = fd \<and> fd \<le> max_fd s"
  shows "\<exists>m. items_max_fd s = Some m \<and> 0 \<le> m \<and> m \<le> max_fd s
    \<and> (\<forall>fd it. registered s fd = Some it \<longrightarrow> fd \<le> m) \<and> (m = 0 \<or> registered s m \<noteq> None)"
proof -
  define its where "its = take (nat (max_fd s) + 1) (fds s)"
  define m where "m = foldl (\<lambda>m it. if ITEM_USED it then if item_fd it > m then item_fd it else m else m) 0 its"
  have m: "0 \<le> m" "\<forall>it \<in> set its. ITEM_USED it \<longrightarrow> item_fd it \<le> m"
    "m = 0 \<or> (\<exists>it \<in> set its. ITEM_USED it \<and> item_fd it = m)"
    using foldl_max [of 0 its] by (auto simp: m_def)
  have member: "it \<in> set its" if r: "registered s fd = Some it" for fd it
  proof -
    have "fds s ! nat fd = it" "nat fd < length (fds s)" "nat fd < nat (max_fd s) + 1"
      using registered_SomeD [OF r] assms(3) [OF r] assms(1) by (auto simp: fd_size_def)
    then have "its ! nat fd = it" "nat fd < length its" by (simp_all add: its_def)
    then show ?thesis by (metis nth_mem)
  qed
  have used: "registered s (item_fd it) \<noteq> None" if u: "it \<in> set its" "ITEM_USED it" for it
  proof -
    obtain k where k: "k < length its" "its ! k = it" 
      using u(1) unfolding in_set_conv_nth by blast
    then have "registered s (int k) = Some it"
      using u(2) by (auto simp: its_def registered_def fd_size_def)
    with assms(3) show ?thesis by (metis option.distinct(1))
  qed
  have "items_max_fd s = Some m"
    using assms(2) by (simp add: items_max_fd_def m_def its_def)
  moreover have "\<forall>fd it. registered s fd = Some it \<longrightarrow> fd \<le> m"
  proof (intro allI impI)
    fix fd it assume r: "registered s fd = Some it"
    with m(2) member [OF r] registered_SomeD [OF r] assms(3) [OF r] show "fd \<le> m" by auto
  qed
  moreover have "m = 0 \<or> registered s m \<noteq> None" using m(3) used by blast
  moreover have "m \<le> max_fd s"
    using \<open>m = 0 \<or> registered s m \<noteq> None\<close> assms(1,3) by auto
  ultimately show ?thesis using m(1) by blast
qed

definition remove_item :: "('h, 'd) fdselector \<Rightarrow> int \<Rightarrow> ('h, 'd) item \<Rightarrow> ('h, 'd) fdselector" where
  "remove_item s fd it =
     (let it2 = it\<lparr>item_interest := OP_NOOP\<rparr>;
          s2 = items_update_fdset_for_fd (s\<lparr>fds := (fds s)[nat fd := it2]\<rparr>) it2
      in s2\<lparr>fds := (fds s2)[nat fd := item_init]\<rparr>)"

lemma wants_NOOP [simp]: "\<not> wants op (it\<lparr>item_interest := OP_NOOP\<rparr>)"
  by (simp add: wants_def OP_NOOP_def)

lemma remove_item_spec:
  assumes inv: "sel_inv s" and reg: "registered s fd = Some it"
  shows "\<exists>m. items_max_fd (remove_item s fd it) = Some m
    \<and> sel_inv ((remove_item s fd it)\<lparr>max_fd := m\<rparr>)
    \<and> registered ((remove_item s fd it)\<lparr>max_fd := m\<rparr>) = (registered s)(fd := None)
    \<and> fd_size ((remove_item s fd it)\<lparr>max_fd := m\<rparr>) = fd_size s"
proof -
  let ?t = "remove_item s fd it"
  have fd: "0 \<le> fd" "nat fd < fd_size s" "ITEM_USED it"
    using registered_SomeD [OF reg] by auto
  have it: "item_fd it = fd" "fd < int ITEMS_MAX_SIZE" using inv reg by (auto simp: sel_inv_def)
  have size: "fd_size ?t = fd_size s" by (simp add: remove_item_def Let_def fd_size_def)
  have mx: "max_fd ?t = max_fd s" by (simp add: remove_item_def Let_def)
  have regt: "registered ?t = (registered s)(fd := None)"
  proof -
    let ?s2 = "items_update_fdset_for_fd
      (s\<lparr>fds := (fds s)[nat fd := it\<lparr>item_interest := OP_NOOP\<rparr>]\<rparr>) (it\<lparr>item_interest := OP_NOOP\<rparr>)"
    have "registered ?t = (registered ?s2)(fd := None)"
      using registered_update [of fd ?s2 item_init] fd
      by (simp add: remove_item_def Let_def item_init_def ITEM_USED_def)
    moreover have "registered ?s2 = (registered s)(fd := Some (it\<lparr>item_interest := OP_NOOP\<rparr>))"
      using registered_update [OF fd(1,2), of "it\<lparr>item_interest := OP_NOOP\<rparr>"] fd(3)
      by (simp add: ITEM_USED_def)
    ultimately show ?thesis by simp
  qed
  have masters: "master_r ?t = master_r s - {fd}" "master_w ?t = master_w s - {fd}"
    using it by (auto simp: remove_item_def Let_def update_fdset_masters)
  obtain m where m: "items_max_fd ?t = Some m" "0 \<le> m" "m \<le> max_fd s"
    "\<forall>x i. registered ?t x = Some i \<longrightarrow> x \<le> m" "m = 0 \<or> registered ?t m \<noteq> None"
  proof -
    have "0 \<le> max_fd ?t" "nat (max_fd ?t) < fd_size ?t"
      using inv size mx by (auto simp: sel_inv_def)
    moreover have "item_fd i = x \<and> x \<le> max_fd ?t" if "registered ?t x = Some i" for x i
      using that sel_invD [OF inv] by (auto simp: regt mx split: if_splits)
    ultimately show ?thesis using items_max_fd_spec [of ?t] that by (auto simp: mx)
  qed
  have "nat m < fd_size s" using m(2,3) inv by (auto simp: sel_inv_def)
  have "sel_inv (?t\<lparr>max_fd := m\<rparr>)"
    using m \<open>nat m < fd_size s\<close> inv size masters
    unfolding sel_inv_def by (auto simp: regt)
  with m(1) regt size show ?thesis by auto
qed

definition run_close ::
  "('h, 'd, 'w) handlers \<Rightarrow> 'h \<Rightarrow> 'd selector_key \<Rightarrow> ('h, 'd) fdselector \<times> 'w
    \<Rightarrow> (('h, 'd) fdselector \<times> 'w) option" where
  "run_close hs h key st = (case handle_close (hs h) of None \<Rightarrow> Some st | Some f \<Rightarrow> f key st)"

text \<open>Unregistering, when the close callback returns and has left the selector alone.\<close>

lemma unregister_run:
  assumes inv: "sel_inv s" and reg: "registered s fd = Some it" and h: "item_handler it = Some h"
    and close: "run_close hs h \<lparr>key_fd = fd, key_data = item_data it\<rparr> (s, w) = Some (s, w')"
  shows "\<exists>s'. selector_unregister_fd hs fd (s, w) = Some (SELECTOR_SUCCESS, s', w') \<and> sel_inv s'
    \<and> registered s' = (registered s)(fd := None) \<and> fd_size s' = fd_size s"
proof -
  have fd: "0 \<le> fd" "nat fd < fd_size s" "ITEM_USED it" "fds s ! nat fd = it"
    using registered_SomeD [OF reg] by auto
  have it: "item_fd it = fd" "fd < int ITEMS_MAX_SIZE" using inv reg by (auto simp: sel_inv_def)
  obtain m where m: "items_max_fd (remove_item s fd it) = Some m"
    "sel_inv ((remove_item s fd it)\<lparr>max_fd := m\<rparr>)"
    "registered ((remove_item s fd it)\<lparr>max_fd := m\<rparr>) = (registered s)(fd := None)"
    "fd_size ((remove_item s fd it)\<lparr>max_fd := m\<rparr>) = fd_size s"
    using remove_item_spec [OF inv reg] by blast
  have "(case handle_close (hs h) of None \<Rightarrow> Some (s, w)
    | Some f \<Rightarrow> f \<lparr>key_fd = item_fd it, key_data = item_data it\<rparr> (s, w)) = Some (s, w')"
    using close it(1) by (cases "handle_close (hs h)") (simp_all add: run_close_def)
  then have "selector_unregister_fd hs fd (s, w) =
    Some (SELECTOR_SUCCESS, (remove_item s fd it)\<lparr>max_fd := m\<rparr>, w')"
    using fd it h m(1)
    by (simp add: selector_unregister_fd_def INVALID_FD_def fd_size_def remove_item_def Let_def)
  with m show ?thesis by blast
qed

lemma set_update_cases: "x \<in> set (xs[j := a]) \<Longrightarrow> x = a \<or> x \<in> set xs"
  using set_update_subset_insert [of xs j a] by blast

lemma register_table:
  assumes "selector_register ok s fd h i d = Some (r, s')" and "nat fd < fd_size s"
  shows "resolution_jobs s' = resolution_jobs s \<and> set (fds s') \<subseteq> insert (new_item fd h i d) (set (fds s))"
  using assms by (auto simp: selector_register_def bind_eq_Some_conv Let_def new_item_def split: if_splits
      dest!: set_update_cases)

lemma register_slaves:
  assumes "selector_register ok s fd h i d = Some (r, s')" and "nat fd < fd_size s"
  shows "slave_r s' = slave_r s \<and> slave_w s' = slave_w s \<and> resolution_jobs s' = resolution_jobs s"
  using assms by (auto simp: selector_register_def bind_eq_Some_conv Let_def split: if_splits)

text \<open>A descriptor that is not ready is passed over.\<close>

lemma handle_item_idle:
  assumes "sel_inv (fst st)" and "i < fd_size (fst st)" and "int i \<notin> slave_r (fst st)" and "int i \<notin> slave_w (fst st)"
  shows "handle_item hs i st = Some st"
proof -
  have "ITEM_USED (fds (fst st) ! i) \<Longrightarrow> item_fd (fds (fst st) ! i) = int i"
    using registered_at [of "int i" "fst st"] assms(1,2) unfolding sel_inv_def by (metis nat_int of_nat_0_le_iff)
  moreover have "nth_opt (fds (fst st)) i = Some (fds (fst st) ! i)"
    using registered_at [of "int i" "fst st"] assms(2) by simp
  ultimately show ?thesis using assms(3,4) by (simp add: handle_item_def)
qed

lemma handle_items_idle:
  assumes "sel_inv (fst st)" and "\<forall>i \<in> set is. i < fd_size (fst st) \<and> int i \<notin> slave_r (fst st) \<and> int i \<notin> slave_w (fst st)"
  shows "handle_items hs is st = Some st"
  using assms(2) by (induction "is") (simp_all add: handle_item_idle [OF assms(1)])

lemma handle_items_append:
  "handle_items hs (is @ js) st = do { st1 \<leftarrow> handle_items hs is st; handle_items hs js st1 }"
  by (induction "is" arbitrary: st) (simp_all split: bind_split)

text \<open>The table both programs start with.\<close>

lemma new_selector_1024:
  "\<exists>sel :: ('h, 'd) fdselector. selector_new True True 1024 = Some (Some sel) \<and> sel_inv sel \<and> registered sel = Map.empty
    \<and> fd_size sel = 1025 \<and> resolution_jobs sel = [] \<and> set (fds sel) \<subseteq> {item_init}"
proof -
  obtain c where c: "next_capacity 1024 = Some c" "1024 < c" "c \<le> 1025"
    using next_capacity_spec [of 1024] by (auto simp: ITEMS_MAX_SIZE_def)
  let ?sel = "blank_selector\<lparr>fds := replicate 1025 item_init\<rparr> :: ('h, 'd) fdselector"
  have "selector_new True True 1024 = Some (Some ?sel)"
    using c by (simp add: selector_new_def ensure_capacity_def blank_selector_def fd_size_def ITEMS_MAX_SIZE_def)
  with selector_new_spec [of 1024, where 'a = 'h and 'b = 'd] show ?thesis
    by (auto simp: ITEMS_MAX_SIZE_def fd_size_def blank_selector_def)
qed

lemma destroy_nothing:
  "registered (fst s) = Map.empty \<Longrightarrow> \<forall>i \<in> set is. i < fd_size (fst s) \<Longrightarrow> destroy_items hs is s = Some s"
proof (induction "is")
  case (Cons i "is")
  with registered_at [of "int i" "fst s"] show ?case by simp
qed simp

text \<open>
  The contract of a close callback: it may change the program's state, not the selector.
  Under it, unregistering runs the callback once, on the item's own key, and deletes the item.
\<close>

locale closing_handlers =
  fixes hs :: "('h, 'd, 'w) handlers"
  assumes close_keeps: "handle_close (hs h) = Some f \<Longrightarrow> f key (s, w) = Some (s', w') \<Longrightarrow> s' = s"
begin

lemma unregister_spec:
  assumes inv: "sel_inv s" and reg: "registered s fd = Some it"
    and res: "selector_unregister_fd hs fd (s, w) = Some (r, s', w')"
  shows "r = SELECTOR_SUCCESS \<and> sel_inv s' \<and> registered s' = (registered s)(fd := None)
    \<and> fd_size s' = fd_size s
    \<and> (\<exists>h. item_handler it = Some h
        \<and> run_close hs h \<lparr>key_fd = fd, key_data = item_data it\<rparr> (s, w) = Some (s, w'))"
proof -
  have fd: "0 \<le> fd" "nat fd < fd_size s" "ITEM_USED it" "fds s ! nat fd = it"
    using registered_SomeD [OF reg] by auto
  have it: "item_fd it = fd" "fd < int ITEMS_MAX_SIZE" using inv reg by (auto simp: sel_inv_def)
  obtain h where h: "item_handler it = Some h" using inv reg by (fastforce simp: sel_inv_def)
  from res fd it h obtain s1 where "(case handle_close (hs h) of None \<Rightarrow> Some (s, w)
    | Some f \<Rightarrow> f \<lparr>key_fd = item_fd it, key_data = item_data it\<rparr> (s, w)) = Some (s1, w')"
    by (auto simp: selector_unregister_fd_def INVALID_FD_def fd_size_def nth_opt_def bind_eq_Some_conv
        Let_def split: if_splits)
  with it have s1: "run_close hs h \<lparr>key_fd = fd, key_data = item_data it\<rparr> (s, w) = Some (s1, w')"
    by (cases "handle_close (hs h)") (simp_all add: run_close_def)
  then have "s1 = s" using close_keeps by (auto simp: run_close_def split: option.splits)
  with s1 unregister_run [OF inv reg h] res h show ?thesis by fastforce
qed

lemma unregister_inv:
  assumes inv: "sel_inv s" and res: "selector_unregister_fd hs fd (s, w) = Some (r, s', w')"
  shows "sel_inv s' \<and> registered s' = (registered s)(fd := None)"
proof (cases "registered s fd")
  case (Some it)
  with unregister_spec [OF inv Some res] show ?thesis by simp
next
  case None
  have "s' = s"
    using res None registered_at [of fd s]
    by (auto simp: selector_unregister_fd_def INVALID_FD_def nth_opt_def fd_size_def split: if_splits)
  with None inv show ?thesis by auto
qed

text \<open>What unregistering leaves in the table, item by item.\<close>

lemma unregister_table:
  assumes "selector_unregister_fd hs fd (s, w) = Some (r, s', w')"
  shows "resolution_jobs s' = resolution_jobs s \<and> set (fds s') \<subseteq> insert item_init (set (fds s))"
proof -
  have close: "s1 = s" if "(case handle_close (hs h) of None \<Rightarrow> Some (s, w) | Some f \<Rightarrow> f key (s, w)) = Some (s1, w1)"
    for h key s1 w1
    using that close_keeps by (auto split: option.splits)
  from assms show ?thesis
    unfolding selector_unregister_fd_def Let_def
    by (auto simp: bind_eq_Some_conv split: if_splits prod.splits dest!: close set_update_cases)
qed

end

section \<open>Dispatching keeps what every callback keeps\<close>

locale preserving_handlers =
  fixes hs :: "('h, 'd, 'w) handlers"
    and I :: "('h, 'd) fdselector \<times> 'w \<Rightarrow> bool"
  assumes keeps_read: "handle_read (hs h) = Some f \<Longrightarrow> I st \<Longrightarrow> f key st = Some st' \<Longrightarrow> I st'"
    and keeps_write: "handle_write (hs h) = Some f \<Longrightarrow> I st \<Longrightarrow> f key st = Some st' \<Longrightarrow> I st'"
    and keeps_block: "handle_block (hs h) = Some f \<Longrightarrow> I st \<Longrightarrow> f key st = Some st' \<Longrightarrow> I st'"
    and slave_irrelevant: "I (s\<lparr>slave_r := r, slave_w := x\<rparr>, w) = I (s, w)"
    and jobs_taken: "I (s, w) \<Longrightarrow> I (s\<lparr>resolution_jobs := []\<rparr>, w)"
begin

lemma handle_item_keeps:
  assumes "I st" and "handle_item hs i st = Some st'"
  shows "I st'"
proof -
  from assms(2) obtain it where it: "nth_opt (fds (fst st)) i = Some it"
    by (auto simp: handle_item_def bind_eq_Some_conv)
  show ?thesis
  proof (cases "ITEM_USED it")
    case False
    with it assms show ?thesis by (simp add: handle_item_def)
  next
    case True
    obtain st1 and it1 :: "('h, 'd) item" where
      1: "(if item_fd it \<in> slave_r (fst st) \<and> OP_READ AND item_interest it \<noteq> 0
               then do { h \<leftarrow> item_handler it; f \<leftarrow> handle_read (hs h);
                         f \<lparr>key_fd = item_fd it, key_data = item_data it\<rparr> st }
               else Some st) = Some st1"
      and 2: "(if int i \<in> slave_w (fst st1) \<and> OP_WRITE AND item_interest it1 \<noteq> 0
        then do { h \<leftarrow> item_handler it1; f \<leftarrow> handle_write (hs h);
                  f \<lparr>key_fd = item_fd it, key_data = item_data it\<rparr> st1 }
        else Some st1) = Some st'"
      using True it assms(2) unfolding handle_item_def Let_def
      by simp ((erule bind_eq_SomeE)+, blast)
    from 1 assms(1) have "I st1"
      by (auto simp: bind_eq_Some_conv split: if_splits intro: keeps_read)
    with 2 show ?thesis
      by (auto simp: bind_eq_Some_conv split: if_splits intro: keeps_write)
  qed
qed

lemma handle_items_keeps: "I st \<Longrightarrow> handle_items hs is st = Some st' \<Longrightarrow> I st'"
  by (induction "is" arbitrary: st) (auto simp: bind_eq_Some_conv intro: handle_item_keeps)

lemma run_jobs_keeps: "I st \<Longrightarrow> run_jobs hs js st = Some st' \<Longrightarrow> I st'"
proof (induction js arbitrary: st)
  case Nil
  then show ?case by simp
next
  case (Cons fd js)
  then obtain it st1 where
    "(if ITEM_USED it then do { h \<leftarrow> item_handler it; f \<leftarrow> handle_block (hs h);
        f \<lparr>key_fd = item_fd it, key_data = item_data it\<rparr> st } else Some st) = Some st1"
    and "run_jobs hs js st1 = Some st'"
    by (auto simp: bind_eq_Some_conv)
  with Cons show ?case
    by (auto simp: bind_eq_Some_conv split: if_splits intro: keeps_block)
qed

lemma select_keeps:
  assumes "I (s, w)" and "selector_select hs answer (s, w) = Some (r, st')"
  shows "I st'"
proof -
  have n: "I st2" if "I st1" "handle_block_notifications hs st1 = Some st2" for st1 st2
    using that run_jobs_keeps [of st1]
    by (auto simp: handle_block_notifications_def bind_eq_Some_conv intro: jobs_taken)
  have i: "I st2" if "I st1" "handle_iteration hs st1 = Some st2" for st1 st2
    using that handle_items_keeps by (auto simp: handle_iteration_def)
  have I1: "I (s\<lparr>slave_r := r', slave_w := x\<rparr>, w)" for r' x
    using assms(1) by (simp add: slave_irrelevant)
  show ?thesis
  proof (cases answer)
    case (Ready r' x)
    with assms(2) obtain st1 st2 where
      "handle_iteration hs (s\<lparr>slave_r := r', slave_w := x\<rparr>, w) = Some st1"
      "handle_block_notifications hs st1 = Some st2" "st' = st2"
      unfolding selector_select_def Let_def by simp ((erule bind_eq_SomeE)+, simp)
    then show ?thesis using I1 i n by blast
  next
    case (Failed e)
    show ?thesis
    proof (cases "e = EAGAIN \<or> e = EINTR")
      case True
      with Failed assms(2) have "handle_block_notifications hs
          (s\<lparr>slave_r := master_r s, slave_w := master_w s\<rparr>, w) = Some st'"
        unfolding selector_select_def Let_def by (auto elim!: bind_eq_SomeE)
      then show ?thesis using I1 n by blast
    next
      case False
      with Failed assms(2) I1 show ?thesis by (auto simp: selector_select_def)
    qed
  qed
qed

end

section \<open>A selector that only reads\<close>

text \<open>
  The contract of a program that registers descriptors for reading only, with callbacks that
  return: the selector then never fails an assertion.
\<close>

locale reading_handlers =
  fixes hs :: "('h, 'd, 'w) handlers" and I :: "('h, 'd) fdselector \<times> 'w \<Rightarrow> bool" and n :: nat
  assumes table: "I st \<Longrightarrow> sel_inv (fst st) \<and> fd_size (fst st) = n \<and> resolution_jobs (fst st) = []"
    and no_writers: "I st \<Longrightarrow> it \<in> set (fds (fst st)) \<Longrightarrow> OP_WRITE AND item_interest it = 0"
    and read_returns: "\<lbrakk>I st; registered (fst st) fd = Some it; item_handler it = Some h\<rbrakk> \<Longrightarrow>
      \<exists>f st'. handle_read (hs h) = Some f \<and> f \<lparr>key_fd = fd, key_data = item_data it\<rparr> st = Some st' \<and> I st'"
    and slaves: "I (s\<lparr>slave_r := r, slave_w := x\<rparr>, w) = I (s, w)"
begin

lemma handle_item_returns:
  assumes I: "I st" and i: "i < n"
  shows "\<exists>st'. handle_item hs i st = Some st' \<and> I st'"
proof -
  have at: "nth_opt (fds (fst st)) i = Some (fds (fst st) ! i)"
    "ITEM_USED (fds (fst st) ! i) \<Longrightarrow> registered (fst st) (int i) = Some (fds (fst st) ! i)"
    using registered_at [of "int i" "fst st"] i table [OF I] by auto
  show ?thesis
  proof (cases "ITEM_USED (fds (fst st) ! i)")
    case False
    with at I show ?thesis by (simp add: handle_item_def)
  next
    case True
    let ?it = "fds (fst st) ! i"
    have reg: "registered (fst st) (int i) = Some ?it" using True at by simp
    have it: "item_fd ?it = int i" using sel_invD [OF _ reg] table [OF I] by simp
    obtain h where h: "item_handler ?it = Some h" using reg table [OF I] by (fastforce simp: sel_inv_def)
    obtain f st0 where f: "handle_read (hs h) = Some f"
      "f \<lparr>key_fd = int i, key_data = item_data ?it\<rparr> st = Some st0" "I st0"
      using read_returns [OF I reg h] by blast
    define st1 where "st1 = (if int i \<in> slave_r (fst st) \<and> OP_READ AND item_interest ?it \<noteq> 0 then st0 else st)"
    have st1: "I st1" using f(3) I by (simp add: st1_def)
    have "i < length (fds (fst st1))" using table [OF st1] i by (simp add: fd_size_def)
    then have "nth_opt (fds (fst st1)) i = Some (fds (fst st1) ! i)"
      "OP_WRITE AND item_interest (fds (fst st1) ! i) = 0" using no_writers [OF st1] by auto
    then have "handle_item hs i st = Some st1"
      using at(1) True it h f(1,2)
      by (cases "int i \<in> slave_r (fst st) \<and> OP_READ AND item_interest ?it \<noteq> 0")
        (auto simp: handle_item_def Let_def st1_def)
    with st1 show ?thesis by blast
  qed
qed

lemma handle_items_returns: "I st \<Longrightarrow> \<forall>i \<in> set is. i < n \<Longrightarrow> \<exists>st'. handle_items hs is st = Some st' \<and> I st'"
proof (induction "is" arbitrary: st)
  case (Cons i "is")
  from handle_item_returns [OF Cons.prems(1), of i] Cons.prems(2) obtain st1 where
    "handle_item hs i st = Some st1" "I st1" by auto
  with Cons show ?case by auto
qed simp

lemma block_notifications: "I st \<Longrightarrow> handle_block_notifications hs st = Some st"
  using table [of st] by (cases st) (simp add: handle_block_notifications_def)

lemma select_returns:
  assumes "I s"
  shows "\<exists>r s'. selector_select hs answer s = Some (r, s') \<and> I s'"
proof -
  obtain sel w where s: "s = (sel, w)" by (cases s)
  let ?at = "\<lambda>r x. (sel\<lparr>slave_r := r, slave_w := x\<rparr>, w)"
  have I: "I (?at r x)" for r x using assms by (simp add: s slaves)
  show ?thesis
  proof (cases answer)
    case (Ready r x)
    have "nat (max_fd sel) < n" using table [OF assms] by (simp add: s sel_inv_def)
    then have "\<forall>i \<in> set [0..<nat (max_fd sel + 1)]. i < n" by auto
    from handle_items_returns [OF I [where r = r and x = x] this] obtain st' where
      "handle_iteration hs (?at r x) = Some st'" "I st'" by (auto simp: handle_iteration_def)
    with block_notifications [of st'] show ?thesis by (simp add: selector_select_def s Ready Let_def)
  next
    case (Failed e)
    with block_notifications [OF I [where r = "master_r sel" and x = "master_w sel"]] I show ?thesis
      by (auto simp: selector_select_def s Let_def)
  qed
qed

end

end
