(* ===== verification/Stm.thy ===== *)
theory Stm
  imports Prelude
begin

text \<open>
  \<open>src/server/stm.c\<close>, \<open>src/headers/stm.h\<close>: the state machine that a client's events drive.

  The table \<open>states\<close> is a list of state definitions, an argument of the operations, since
  every machine of the program points to the same static table; \<open>current\<close> is an index into
  it, \<open>None\<close> while the pointer is NULL. The machine is embedded in a client, which its
  callbacks change while they run: \<open>stm_ref\<close> is the pointer to it, a pair of functions that
  read it from the state (\<open>None\<close> once the client has been freed) and write it back.
  Callbacks map a key and a state to a state, and crash with \<open>None\<close>; so does an \<open>abort\<close>.

  The lemmas show that the table is checked once and for all by \<open>stm_init\<close>, and that after
  each event the machine is in the state the callback asked for, which is a valid one.
\<close>

record state_machine =
  stm_initial :: nat
  stm_max_state :: nat
  stm_current :: "nat option"

record ('k, 's) state_definition =
  sd_state :: nat
  on_arrival :: "(nat \<Rightarrow> 'k \<Rightarrow> 's \<Rightarrow> 's option) option"
  on_departure :: "(nat \<Rightarrow> 'k \<Rightarrow> 's \<Rightarrow> 's option) option"
  on_read_ready :: "('k \<Rightarrow> 's \<Rightarrow> (nat \<times> 's) option) option"
  on_write_ready :: "('k \<Rightarrow> 's \<Rightarrow> (nat \<times> 's) option) option"
  on_block_ready :: "('k \<Rightarrow> 's \<Rightarrow> (nat \<times> 's) option) option"

record 's stm_ref =
  get_stm :: "'s \<Rightarrow> state_machine option"
  put_stm :: "state_machine \<Rightarrow> 's \<Rightarrow> 's"

section \<open>The operations\<close>

definition stm_init :: "('k, 's) state_definition list \<Rightarrow> state_machine \<Rightarrow> state_machine option" where
  "stm_init defs m = do {
     check (\<forall>i \<in> {0..stm_max_state m}. i < length defs \<and> i = sd_state (defs ! i));
     check (stm_initial m < stm_max_state m);
     Some (m\<lparr>stm_current := None\<rparr>) }"

text \<open>A callback of type \<open>on_arrival\<close> or \<open>on_departure\<close>, which may be NULL.\<close>

definition notify ::
  "(nat \<Rightarrow> 'k \<Rightarrow> 's \<Rightarrow> 's option) option \<Rightarrow> nat \<Rightarrow> 'k \<Rightarrow> 's \<Rightarrow> 's option" where
  "notify cb st key s = (case cb of None \<Rightarrow> Some s | Some f \<Rightarrow> f st key s)"

definition handle_first ::
  "('k, 's) state_definition list \<Rightarrow> 's stm_ref \<Rightarrow> 'k \<Rightarrow> 's \<Rightarrow> 's option" where
  "handle_first defs r key s = do {
     m \<leftarrow> get_stm r s;
     if stm_current m = None then do {
       d \<leftarrow> nth_opt defs (stm_initial m);
       let s1 = put_stm r (m\<lparr>stm_current := Some (stm_initial m)\<rparr>) s;
       notify (on_arrival d) (sd_state d) key s1 }
     else Some s }"

definition jump ::
  "('k, 's) state_definition list \<Rightarrow> 's stm_ref \<Rightarrow> nat \<Rightarrow> 'k \<Rightarrow> 's \<Rightarrow> 's option" where
  "jump defs r next key s = do {
     m \<leftarrow> get_stm r s;
     check (next \<le> stm_max_state m);
     if stm_current m \<noteq> Some next then do {
       s1 \<leftarrow> (case stm_current m of
                None \<Rightarrow> Some s
              | Some c \<Rightarrow> do { d \<leftarrow> nth_opt defs c; notify (on_departure d) (sd_state d) key s });
       m1 \<leftarrow> get_stm r s1;
       d \<leftarrow> nth_opt defs next;
       let s2 = put_stm r (m1\<lparr>stm_current := Some next\<rparr>) s1;
       notify (on_arrival d) (sd_state d) key s2 }
     else Some s }"

text \<open>
  The three event handlers have one body; \<open>ready\<close> is the field of the state definition that
  they call through.
\<close>

definition stm_handler ::
  "(('k, 's) state_definition \<Rightarrow> ('k \<Rightarrow> 's \<Rightarrow> (nat \<times> 's) option) option)
    \<Rightarrow> ('k, 's) state_definition list \<Rightarrow> 's stm_ref \<Rightarrow> 'k \<Rightarrow> 's \<Rightarrow> (nat \<times> 's) option" where
  "stm_handler ready defs r key s = do {
     s1 \<leftarrow> handle_first defs r key s;
     m \<leftarrow> get_stm r s1;
     c \<leftarrow> stm_current m;
     d \<leftarrow> nth_opt defs c;
     f \<leftarrow> ready d;
     (ret, s2) \<leftarrow> f key s1;
     s3 \<leftarrow> jump defs r ret key s2;
     Some (ret, s3) }"

definition stm_handler_read ::
  "('k, 's) state_definition list \<Rightarrow> 's stm_ref \<Rightarrow> 'k \<Rightarrow> 's \<Rightarrow> (nat \<times> 's) option" where
  "stm_handler_read = stm_handler on_read_ready"

definition stm_handler_write ::
  "('k, 's) state_definition list \<Rightarrow> 's stm_ref \<Rightarrow> 'k \<Rightarrow> 's \<Rightarrow> (nat \<times> 's) option" where
  "stm_handler_write = stm_handler on_write_ready"

definition stm_handler_block ::
  "('k, 's) state_definition list \<Rightarrow> 's stm_ref \<Rightarrow> 'k \<Rightarrow> 's \<Rightarrow> (nat \<times> 's) option" where
  "stm_handler_block = stm_handler on_block_ready"

definition stm_handler_close ::
  "('k, 's) state_definition list \<Rightarrow> 's stm_ref \<Rightarrow> 'k \<Rightarrow> 's \<Rightarrow> 's option" where
  "stm_handler_close defs r key s = do {
     m \<leftarrow> get_stm r s;
     (case stm_current m of
        None \<Rightarrow> Some s
      | Some c \<Rightarrow> do { d \<leftarrow> nth_opt defs c; notify (on_departure d) (sd_state d) key s }) }"

definition stm_state :: "('k, 's) state_definition list \<Rightarrow> state_machine \<Rightarrow> nat option" where
  "stm_state defs m = (case stm_current m of
       None \<Rightarrow> Some (stm_initial m)
     | Some c \<Rightarrow> do { d \<leftarrow> nth_opt defs c; Some (sd_state d) })"

section \<open>A checked table\<close>

definition stm_ok :: "('k, 's) state_definition list \<Rightarrow> state_machine \<Rightarrow> bool" where
  "stm_ok defs m \<longleftrightarrow> stm_max_state m < length defs
     \<and> (\<forall>i \<le> stm_max_state m. sd_state (defs ! i) = i)
     \<and> stm_initial m < stm_max_state m
     \<and> (\<forall>c. stm_current m = Some c \<longrightarrow> c \<le> stm_max_state m)"

lemma stm_init_ok:
  "stm_init defs m = Some m' \<longleftrightarrow> stm_ok defs (m\<lparr>stm_current := None\<rparr>) \<and> m' = m\<lparr>stm_current := None\<rparr>"
  by (auto simp: stm_init_def stm_ok_def bind_eq_Some_conv Ball_def less_Suc_eq_le)

lemma stm_state_current: "stm_ok defs m \<Longrightarrow> stm_current m = Some c \<Longrightarrow> stm_state defs m = Some c"
  by (auto simp: stm_state_def stm_ok_def nth_opt_def)

text \<open>Two tables that agree on what an operation looks at are the same to it.\<close>

definition tables_agree :: "('k, 's) state_definition list \<Rightarrow> ('k, 's) state_definition list \<Rightarrow> bool" where
  "tables_agree defs defs' \<longleftrightarrow> length defs = length defs'
     \<and> (\<forall>j < length defs. sd_state (defs ! j) = sd_state (defs' ! j)
          \<and> on_arrival (defs ! j) = on_arrival (defs' ! j)
          \<and> on_departure (defs ! j) = on_departure (defs' ! j))"

lemma nth_opt_agree:
  assumes "tables_agree defs defs'" and "\<And>j. j < length defs \<Longrightarrow> f (defs ! j) = g (defs' ! j)"
  shows "nth_opt defs c \<bind> f = nth_opt defs' c \<bind> g"
  using assms by (auto simp: nth_opt_def tables_agree_def)

lemma handle_first_agree:
  assumes "tables_agree defs defs'"
  shows "handle_first defs r key s = handle_first defs' r key s"
  unfolding handle_first_def using assms
  by (intro Option.bind_cong refl if_cong nth_opt_agree) (auto simp: tables_agree_def Let_def)

lemma departure_agree:
  assumes "tables_agree defs defs'"
  shows "nth_opt defs c \<bind> (\<lambda>d. notify (on_departure d) (sd_state d) key s)
    = nth_opt defs' c \<bind> (\<lambda>d. notify (on_departure d) (sd_state d) key s)"
  using assms by (intro nth_opt_agree) (auto simp: tables_agree_def)

lemma stm_handler_close_agree:
  assumes "tables_agree defs defs'"
  shows "stm_handler_close defs r key s = stm_handler_close defs' r key s"
  unfolding stm_handler_close_def departure_agree [OF assms] ..

lemma jump_agree:
  assumes "tables_agree defs defs'"
  shows "jump defs r next key s = jump defs' r next key s"
proof -
  have "nth_opt defs next \<bind> (\<lambda>d. let s2 = x in notify (on_arrival d) (sd_state d) key s2)
    = nth_opt defs' next \<bind> (\<lambda>d. let s2 = x in notify (on_arrival d) (sd_state d) key s2)" for x
    using assms by (intro nth_opt_agree) (auto simp: tables_agree_def)
  note arrival = this
  show ?thesis unfolding jump_def departure_agree [OF assms] arrival ..
qed

lemma stm_handler_agree:
  assumes "tables_agree defs defs'" and "\<And>j. j < length defs \<Longrightarrow> ready (defs ! j) = ready (defs' ! j)"
  shows "stm_handler ready defs r key s = stm_handler ready defs' r key s"
  unfolding stm_handler_def handle_first_agree [OF assms(1)] jump_agree [OF assms(1)]
  by (intro Option.bind_cong refl nth_opt_agree [OF assms(1)]) (simp add: assms(2))

text \<open>
  The contract of a machine's place in the state and of its callbacks: reading back what was
  written, and arrival and departure callbacks that leave the machine alone.
\<close>

locale machine_place =
  fixes defs :: "('k, 's) state_definition list" and r :: "'s stm_ref"
  assumes get_put: "get_stm r s \<noteq> None \<Longrightarrow> get_stm r (put_stm r m s) = Some m"
    and arrival_keeps: "d \<in> set defs \<Longrightarrow> on_arrival d = Some f \<Longrightarrow> f st key s = Some s'
      \<Longrightarrow> get_stm r s' = get_stm r s"
    and departure_keeps: "d \<in> set defs \<Longrightarrow> on_departure d = Some f \<Longrightarrow> f st key s = Some s'
      \<Longrightarrow> get_stm r s' = get_stm r s"
begin

lemma notify_arrival:
  "nth_opt defs c = Some d \<Longrightarrow> notify (on_arrival d) st key s = Some s' \<Longrightarrow> get_stm r s' = get_stm r s"
  by (auto simp: notify_def nth_opt_def split: option.splits if_splits intro: arrival_keeps [OF nth_mem])

lemma notify_departure:
  "nth_opt defs c = Some d \<Longrightarrow> notify (on_departure d) st key s = Some s' \<Longrightarrow> get_stm r s' = get_stm r s"
  by (auto simp: notify_def nth_opt_def split: option.splits if_splits intro: departure_keeps [OF nth_mem])

lemma handle_first_current:
  assumes "handle_first defs r key s = Some s'" and "get_stm r s = Some m"
  shows "get_stm r s' = Some (m\<lparr>stm_current :=
    Some (case stm_current m of None \<Rightarrow> stm_initial m | Some c \<Rightarrow> c)\<rparr>)"
proof (cases "stm_current m")
  case None
  with assms obtain d where "nth_opt defs (stm_initial m) = Some d"
    "notify (on_arrival d) (sd_state d) key
       (put_stm r (m\<lparr>stm_current := Some (stm_initial m)\<rparr>) s) = Some s'"
    by (auto simp: handle_first_def bind_eq_Some_conv)
  from notify_arrival [OF this] get_put assms(2) None show ?thesis by simp
next
  case (Some c)
  with assms show ?thesis by (auto simp: handle_first_def)
qed

lemma jump_current:
  assumes j: "jump defs r next key s = Some s'" and m: "get_stm r s = Some m"
  shows "next \<le> stm_max_state m \<and> get_stm r s' = Some (m\<lparr>stm_current := Some next\<rparr>)"
proof (cases "stm_current m = Some next")
  case True
  with assms show ?thesis by (auto simp: jump_def bind_eq_Some_conv)
next
  case False
  with j m have le: "next \<le> stm_max_state m" by (auto simp: jump_def bind_eq_Some_conv)
  from False j m obtain s1 m1 d where
    s1: "(case stm_current m of None \<Rightarrow> Some s
       | Some c \<Rightarrow> do { d \<leftarrow> nth_opt defs c; notify (on_departure d) (sd_state d) key s }) = Some s1"
    and m1: "get_stm r s1 = Some m1" and d: "nth_opt defs next = Some d"
    and n: "notify (on_arrival d) (sd_state d) key (put_stm r (m1\<lparr>stm_current := Some next\<rparr>) s1) = Some s'"
    by (auto simp: jump_def bind_eq_Some_conv)
  from s1 m m1 have "m1 = m"
    by (auto split: option.splits simp: bind_eq_Some_conv dest: notify_departure)
  with notify_arrival [OF d n] get_put m1 le show ?thesis by simp
qed

lemma handler_current:
  assumes "stm_handler ready defs r key s = Some (ret, s')"
  shows "\<exists>m. ret \<le> stm_max_state m \<and> get_stm r s' = Some (m\<lparr>stm_current := Some ret\<rparr>)"
proof -
  from assms obtain s2 where j: "jump defs r ret key s2 = Some s'"
    by (auto simp: stm_handler_def bind_eq_Some_conv)
  then obtain m where m: "get_stm r s2 = Some m" by (auto simp: jump_def bind_eq_Some_conv)
  from jump_current [OF j m] show ?thesis by blast
qed

end

end
