(* ===== verification/World.thy ===== *)
theory World
  imports Buffer Negotiation_Parser Auth_Parser Request_Parser C_Library Metrics Users Selector Stm
begin

text \<open>
  The state the handlers share: \<open>client_data\<close> of \<open>src/headers/socks5.h\<close>, the globals, and
  the calls to the operating system.

  Clients live on a heap \<open>clients\<close> (an entry is gone once the memory has been freed, and
  using it then is a crash), and so do the sessions of the management protocol, \<open>managers\<close>. What the system answers is the record \<open>os\<close>, one function per
  call, each given the history of the calls so far; every call is recorded in \<open>trace\<close> with
  its answer, in order. A handler's state is the selector and this world.

  The union \<open>handshake\<close> is the parser last written to it. A parser is initialised on top of
  what its predecessor left: \<open>as_auth\<close> and \<open>as_req\<close> lay the old bytes out again, with the
  offsets of the x86-64 ABI (the arrays of \<open>auth_parser\<close> start at byte 10, those of
  \<open>req_parser\<close> at byte 16, and the memory was zeroed by \<open>calloc\<close>).
\<close>

declare split_paired_Ex [simp del] split_paired_All [simp del]

section \<open>Calls to the operating system\<close>

record addrinfo =
  ai_family :: int
  ai_socktype :: int
  ai_protocol :: int
  ai_addr :: sockaddr

definition AF_INET :: int where "AF_INET = 2"
definition AF_INET6 :: int where "AF_INET6 = 10"
definition SOCK_STREAM :: int where "SOCK_STREAM = 1"
definition O_NONBLOCK :: u32 where "O_NONBLOCK = 0x800"

datatype event =
    Recv int "errno + bytes"
  | Send int bytes "errno + nat"
  | Shutdown_RD int
  | Shutdown_WR int
  | Close int
  | Accept int "(int \<times> sockaddr) option"
  | Set_nio int int
  | Socket int int int "int option"
  | Connect int sockaddr "errno option"
  | Getsockopt int "int option"
  | Getsockname int "sockaddr option"
  | Getaddrinfo string string "string + addrinfo list"
  | Pthread_create int
  | Malloc nat bool
  | Time string

type_synonym history = "event list"

text \<open>\<open>getaddrinfo\<close> answers \<open>Inl\<close> of the text \<open>gai_strerror\<close> has for its status, or the chain.\<close>

record os =
  os_recv :: "history \<Rightarrow> int \<Rightarrow> nat \<Rightarrow> errno + bytes"
  os_send :: "history \<Rightarrow> int \<Rightarrow> bytes \<Rightarrow> errno + nat"
  os_accept :: "history \<Rightarrow> int \<Rightarrow> (int \<times> sockaddr) option"
  os_getfd :: "history \<Rightarrow> int \<Rightarrow> u32 option"
  os_setfl :: "history \<Rightarrow> int \<Rightarrow> u32 \<Rightarrow> bool"
  os_socket :: "history \<Rightarrow> int \<Rightarrow> int \<Rightarrow> int \<Rightarrow> int option"
  os_connect :: "history \<Rightarrow> int \<Rightarrow> sockaddr \<Rightarrow> errno option"
  os_getsockopt :: "history \<Rightarrow> int \<Rightarrow> int option"
  os_getsockname :: "history \<Rightarrow> int \<Rightarrow> sockaddr option"
  os_getaddrinfo :: "history \<Rightarrow> string \<Rightarrow> string \<Rightarrow> string + addrinfo list"
  os_pthread_create :: "history \<Rightarrow> int"
  os_malloc :: "history \<Rightarrow> nat \<Rightarrow> bool"
  os_time :: "history \<Rightarrow> string"
  os_ntop :: "bytes \<Rightarrow> string"
  os_strerror :: "history \<Rightarrow> string"

text \<open>What POSIX promises of \<open>recv\<close> and \<open>send\<close>: no more bytes than asked for.\<close>

definition os_ok :: "os \<Rightarrow> bool" where
  "os_ok os \<longleftrightarrow> (\<forall>h fd n bs. os_recv os h fd n = Inr bs \<longrightarrow> length bs \<le> n)
     \<and> (\<forall>h fd bs k. os_send os h fd bs = Inr k \<longrightarrow> k \<le> length bs)"

section \<open>Clients\<close>

datatype handshake = Negotiation neg_parser | Authentication auth_parser | Request req_parser

record client_data =
  stm :: state_machine
  handshake :: handshake
  client_fd :: int
  client_eof :: bool
  client_address :: sockaddr
  username :: bytes
  client_to_sv :: buffer
  origin_fd :: int
  origin_eof :: bool
  sv_to_client :: buffer
  origin_addr :: "addrinfo list"
  current_origin_addr :: "addrinfo list"

text \<open>A chain of \<open>struct addrinfo\<close> is a list, NULL the empty one, \<open>ai_next\<close> its tail.\<close>

definition as_auth :: "handshake \<Rightarrow> auth_parser option" where
  "as_auth h = (case h of
       Negotiation np \<Rightarrow> Some \<lparr>auth_state = AUTH_PARSE_VERSION, authenticated = ACCESS_DENIED,
         auth_length = method_quantity np, auth_bytes_read = 0,
         uname = replicate 256 0, passwd = replicate 256 0\<rparr>
     | Authentication ap \<Rightarrow> Some ap
     | Request _ \<Rightarrow> None)"

definition little_endian :: "bytes \<Rightarrow> u32" where
  "little_endian bs = foldr (\<lambda>b acc. push_bit 8 acc OR ucast b) bs 0"

definition as_req :: "handshake \<Rightarrow> req_parser option" where
  "as_req h = (case h of
       Negotiation _ \<Rightarrow> None
     | Authentication ap \<Rightarrow>
         (let bs = uname ap @ passwd ap
          in Some \<lparr>req_state = REQ_VERSION, con_status = CON_SERVER_FAILURE,
               atyp = little_endian ([auth_length ap, auth_bytes_read ap] @ take 2 bs),
               addr_len = bs ! 2, req_bytes_read = bs ! 3, req_port = 0,
               req_address = \<lparr>address_class = take 256 (drop 6 bs),
                              addr_buffer = drop 262 bs @ replicate 6 0\<rparr>\<rparr>)
     | Request rp \<Rightarrow> Some rp)"

section \<open>Managers\<close>

text \<open>
  \<open>manager_data\<close> of \<open>src/server/manager.c\<close>. Its member \<open>buffer\<close> is written by \<open>recv\<close> before
  every use, so the bytes are a value of the handler; \<open>selector\<close> is the one selector.
\<close>

record manager_data =
  mgr_fd :: int
  logged_in :: bool
  user_sent :: bool
  mgr_username :: bytes
  is_admin :: bool

section \<open>The world\<close>

record resolve_job =
  rj_client_fd :: int
  rj_client :: nat

record world =
  clients :: "nat \<Rightarrow> client_data option"
  next_client :: nat
  managers :: "nat \<Rightarrow> manager_data option"
  next_manager :: nat
  user_tab :: user_table
  metrics_of :: metrics
  logs :: log_state
  threads :: "resolve_job list"
  trace :: history

text \<open>What the selector keeps for a descriptor: \<open>data\<close> and the static handler structs.\<close>

datatype attachment = Client nat | Manager nat
datatype handler_id = SOCKS5_HANDLER | MANAGER_HANDLER | PASSIVE_SOCKS | PASSIVE_MANAGER

type_synonym sel = "(handler_id, attachment) fdselector"
type_synonym key = "attachment selector_key"
type_synonym st = "sel \<times> world"

text \<open>\<open>ATTACHMENT(key)\<close>: the client a key points to.\<close>

definition ATTACHMENT :: "key \<Rightarrow> nat option" where
  "ATTACHMENT key = (case key_data key of Some (Client i) \<Rightarrow> Some i | _ \<Rightarrow> None)"

definition client_at :: "nat \<Rightarrow> st \<Rightarrow> client_data option" where
  "client_at i s = clients (snd s) i"

definition set_client :: "nat \<Rightarrow> client_data \<Rightarrow> st \<Rightarrow> st" where
  "set_client i c s = (fst s, (snd s)\<lparr>clients := (clients (snd s))(i \<mapsto> c)\<rparr>)"

definition client_stm :: "nat \<Rightarrow> st stm_ref" where
  "client_stm i = \<lparr>get_stm = (\<lambda>s. map_option stm (client_at i s)),
     put_stm = (\<lambda>m s. case client_at i s of None \<Rightarrow> s | Some c \<Rightarrow> set_client i (c\<lparr>stm := m\<rparr>) s)\<rparr>"

definition set_sel :: "sel \<Rightarrow> st \<Rightarrow> st" where "set_sel sel s = (sel, snd s)"

definition record_event :: "event \<Rightarrow> st \<Rightarrow> st" where
  "record_event e s = (fst s, (snd s)\<lparr>trace := trace (snd s) @ [e]\<rparr>)"

definition hist :: "st \<Rightarrow> history" where "hist s = trace (snd s)"

definition with_metrics :: "(metrics \<Rightarrow> metrics) \<Rightarrow> st \<Rightarrow> st" where
  "with_metrics f s = (fst s, (snd s)\<lparr>metrics_of := f (metrics_of (snd s))\<rparr>)"

definition sys_recv :: "os \<Rightarrow> int \<Rightarrow> nat \<Rightarrow> st \<Rightarrow> (errno + bytes) \<times> st" where
  "sys_recv os fd n s = (let r = os_recv os (hist s) fd n in (r, record_event (Recv fd r) s))"

definition sys_send :: "os \<Rightarrow> int \<Rightarrow> bytes \<Rightarrow> st \<Rightarrow> (errno + nat) \<times> st" where
  "sys_send os fd bs s = (let r = os_send os (hist s) fd bs in (r, record_event (Send fd bs r) s))"

definition sys_malloc :: "os \<Rightarrow> nat \<Rightarrow> st \<Rightarrow> bool \<times> st" where
  "sys_malloc os n s = (let r = os_malloc os (hist s) n in (r, record_event (Malloc n r) s))"

definition sys_set_nio :: "os \<Rightarrow> int \<Rightarrow> st \<Rightarrow> int \<times> st" where
  "sys_set_nio os fd s =
     (let r = selector_fd_set_nio (os_getfd os (hist s) fd) (os_setfl os (hist s) fd) O_NONBLOCK
      in (r, record_event (Set_nio fd r) s))"

text \<open>
  The selector's operations on the shared state: those that call no handler. Their allocations
  ask the system.
\<close>

definition set_interest :: "int \<Rightarrow> u32 \<Rightarrow> st \<Rightarrow> (selector_status \<times> st) option" where
  "set_interest fd i s = do {
     (r, sel) \<leftarrow> selector_set_interest (fst s) fd i;
     Some (r, set_sel sel s) }"

definition set_interest_key :: "key \<Rightarrow> u32 \<Rightarrow> st \<Rightarrow> (selector_status \<times> st) option" where
  "set_interest_key key i s = do {
     (r, sel) \<leftarrow> selector_set_interest_key (fst s) key i;
     Some (r, set_sel sel s) }"

definition register ::
  "os \<Rightarrow> int \<Rightarrow> handler_id \<Rightarrow> u32 \<Rightarrow> attachment option \<Rightarrow> st \<Rightarrow> (selector_status \<times> st) option" where
  "register os fd h i d s = do {
     let (ok, s1) = sys_malloc os element_size s;
     (r, sel) \<leftarrow> selector_register ok (fst s1) fd (Some h) i d;
     Some (r, set_sel sel s1) }"

section \<open>Logging\<close>

definition new_sb :: "os \<Rightarrow> st \<Rightarrow> StringBuilder option \<times> st" where
  "new_sb os s =
     (let (m1, s1) = sys_malloc os 24 s
      in if \<not> m1 then (sb_create m1 False, s1)
         else let (m2, s2) = sys_malloc os SB_INITIAL_CAPACITY s1 in (sb_create m1 m2, s2))"

definition append_sb :: "os \<Rightarrow> StringBuilder \<Rightarrow> string \<Rightarrow> st \<Rightarrow> (StringBuilder \<times> st) option" where
  "append_sb os sb str s = do {
     let (ok, s1) = sys_malloc os (length str) s;
     (_, sb1) \<leftarrow> sb_append ok sb str;
     Some (sb1, s1) }"

text \<open>\<open>our_log(type, msg)\<close>.\<close>

definition log_msg :: "os \<Rightarrow> LOG_TYPE \<Rightarrow> string \<Rightarrow> st \<Rightarrow> st option" where
  "log_msg os ty msg s = do {
     (_, lg) \<leftarrow> our_log True (os_time os (hist s)) ty msg (logs (snd s));
     Some (fst s, (snd s)\<lparr>logs := lg\<rparr>) }"

text \<open>
  \<open>sb = sb_create(); sb_append(sb, msg); our_log(type, sb_get_string(sb)); sb_free(sb);\<close>
  with no test of \<open>sb\<close>.
\<close>

definition log_line :: "os \<Rightarrow> LOG_TYPE \<Rightarrow> string \<Rightarrow> st \<Rightarrow> st option" where
  "log_line os ty msg s = do {
     let (sb, s1) = new_sb os s;
     sb0 \<leftarrow> sb;
     (sb1, s2) \<leftarrow> append_sb os sb0 msg s1;
     log_msg os ty (sb_get_string sb1) s2 }"

section \<open>States, and I/O between a socket and a buffer\<close>

datatype socks_v5state =
    NEGOTIATION_READ | NEGOTIATION_WRITE | AUTH_READ | AUTH_WRITE | REQ_READ | REQ_RESOLVE
  | REQ_CONNECT | REQ_WRITE | COPY | SOCKS_DONE | SOCKS_ERROR

primrec state_id :: "socks_v5state \<Rightarrow> nat" where
  "state_id NEGOTIATION_READ = 0"
| "state_id NEGOTIATION_WRITE = 1"
| "state_id AUTH_READ = 2"
| "state_id AUTH_WRITE = 3"
| "state_id REQ_READ = 4"
| "state_id REQ_RESOLVE = 5"
| "state_id REQ_CONNECT = 6"
| "state_id REQ_WRITE = 7"
| "state_id COPY = 8"
| "state_id SOCKS_DONE = 9"
| "state_id SOCKS_ERROR = 10"

lemma state_id_inj [simp]: "state_id a = state_id b \<longleftrightarrow> a = b"
  by (cases a; cases b) simp_all

declare state_id.simps [simp del]

text \<open>\<open>recv(fd, buffer_write_ptr(b), n, 0)\<close>: the number of bytes and the buffer's new data.\<close>

definition recv_buf :: "os \<Rightarrow> int \<Rightarrow> buffer \<Rightarrow> nat \<Rightarrow> st \<Rightarrow> ((errno + nat \<times> buffer) \<times> st) option" where
  "recv_buf os fd b n s =
     (case sys_recv os fd n s of
        (Inl e, s1) \<Rightarrow> Some (Inl e, s1)
      | (Inr bs, s1) \<Rightarrow> do { b1 \<leftarrow> buffer_store b bs; Some (Inr (length bs, b1), s1) })"

text \<open>\<open>send(fd, buffer_read_ptr(b), n, MSG_NOSIGNAL)\<close>.\<close>

definition send_buf :: "os \<Rightarrow> int \<Rightarrow> buffer \<Rightarrow> nat \<Rightarrow> st \<Rightarrow> ((errno + nat) \<times> st) option" where
  "send_buf os fd b n s = do {
     check (buf_read b + n \<le> length (buf_data b));
     Some (sys_send os fd (seg (buf_read b) (buf_read b + n) (buf_data b)) s) }"

section \<open>Laws of the shared state\<close>

lemma world_frame [frame_simps, simp]:
  "fst (set_client i c s) = fst s"
  "client_at i (set_client j c s) = (if i = j then Some c else client_at i s)"
  "hist (set_client i c s) = hist s"
  "fst (record_event e s) = fst s"
  "client_at i (record_event e s) = client_at i s"
  "hist (record_event e s) = hist s @ [e]"
  "fst (set_sel sel s) = sel"
  "client_at i (set_sel sel s) = client_at i s"
  "hist (set_sel sel s) = hist s"
  "fst (with_metrics f s) = fst s"
  "client_at i (with_metrics f s) = client_at i s"
  "hist (with_metrics f s) = hist s"
  by (simp_all add: set_client_def client_at_def hist_def record_event_def set_sel_def with_metrics_def)

lemma user_tab_frame [frame_simps, simp]:
  "user_tab (snd (set_client i c s)) = user_tab (snd s)"
  "user_tab (snd (record_event e s)) = user_tab (snd s)"
  "user_tab (snd (set_sel sel s)) = user_tab (snd s)"
  "user_tab (snd (with_metrics f s)) = user_tab (snd s)"
  by (simp_all add: set_client_def record_event_def set_sel_def with_metrics_def)

lemma metrics_of_frame [frame_simps, simp]:
  "metrics_of (snd (set_client i c s)) = metrics_of (snd s)"
  "metrics_of (snd (record_event e s)) = metrics_of (snd s)"
  "metrics_of (snd (set_sel sel s)) = metrics_of (snd s)"
  "metrics_of (snd (with_metrics f s)) = f (metrics_of (snd s))"
  by (simp_all add: set_client_def record_event_def set_sel_def with_metrics_def)

text \<open>The bytes that came in from and went out to a descriptor.\<close>

definition received :: "int \<Rightarrow> history \<Rightarrow> bytes" where
  "received fd h = concat (map (\<lambda>e. case e of
     Recv f (Inr bs) \<Rightarrow> (if f = fd then bs else []) | _ \<Rightarrow> []) h)"

definition sent :: "int \<Rightarrow> history \<Rightarrow> bytes" where
  "sent fd h = concat (map (\<lambda>e. case e of
     Send f bs (Inr k) \<Rightarrow> (if f = fd then take k bs else []) | _ \<Rightarrow> []) h)"

lemma traffic_simps [simp]:
  "received fd [] = []" "sent fd [] = []"
  "received fd (g @ h) = received fd g @ received fd h"
  "sent fd (g @ h) = sent fd g @ sent fd h"
  "received fd (Recv f (Inr bs) # h) = (if f = fd then bs else []) @ received fd h"
  "received fd (Recv f (Inl e) # h) = received fd h"
  "received fd (Send f bs r # h) = received fd h"
  "sent fd (Send f bs (Inr k) # h) = (if f = fd then take k bs else []) @ sent fd h"
  "sent fd (Send f bs (Inl e) # h) = sent fd h"
  "sent fd (Recv f rr # h) = sent fd h"
  by (simp_all add: received_def sent_def)

text \<open>What a step added to the history, and steps that neither send nor receive.\<close>

definition new_events :: "st \<Rightarrow> st \<Rightarrow> history" where
  "new_events s s' = drop (length (hist s)) (hist s')"

definition quiet :: "event \<Rightarrow> bool" where
  "quiet e \<longleftrightarrow> (case e of Recv _ _ \<Rightarrow> False | Send _ _ _ \<Rightarrow> False | _ \<Rightarrow> True)"

lemma quiet_traffic:
  "\<forall>e \<in> set h. quiet e \<Longrightarrow> received fd h = [] \<and> sent fd h = []"
  by (induction h) (auto simp: received_def sent_def quiet_def split: event.splits)

lemma recv_buf_spec:
  assumes ok: "os_ok os" and inv: "buffer_inv b"
  shows "\<exists>r. recv_buf os fd b (room b) s = Some (r, record_event (Recv fd (os_recv os (hist s) fd (room b))) s)
    \<and> (case os_recv os (hist s) fd (room b) of
         Inl e \<Rightarrow> r = Inl e
       | Inr bs \<Rightarrow> \<exists>b1 b2. r = Inr (length bs, b1) \<and> buffer_write_adv b1 (int (length bs)) = Some b2
           \<and> buffer_inv b2 \<and> contents b2 = contents b @ bs \<and> buf_limit b2 = buf_limit b \<and> room b2 = room b - length bs)"
proof (cases "os_recv os (hist s) fd (room b)")
  case (Inl e)
  then show ?thesis by (simp add: recv_buf_def sys_recv_def Let_def)
next
  case (Inr bs)
  with ok have "length bs \<le> room b" by (auto simp: os_ok_def)
  from buffer_store_adv_spec [OF inv this] obtain b1 b2 where
    "buffer_store b bs = Some b1" "buffer_write_adv b1 (int (length bs)) = Some b2"
    "buffer_inv b2" "contents b2 = contents b @ bs" "buf_limit b2 = buf_limit b"
    "room b2 = room b - length bs" by blast
  with Inr show ?thesis by (simp add: recv_buf_def sys_recv_def Let_def)
qed

lemma send_buf_spec:
  assumes inv: "buffer_inv b"
  shows "send_buf os fd b (length (contents b)) s =
    Some (os_send os (hist s) fd (contents b),
      record_event (Send fd (contents b) (os_send os (hist s) fd (contents b))) s)"
proof -
  have "buf_read b + length (contents b) = buf_write b" "buf_write b \<le> length (buf_data b)"
    using inv by (auto simp: length_contents buffer_inv_def)
  then show ?thesis
    by (simp add: send_buf_def sys_send_def Let_def contents_def [symmetric])
qed

lemma os_send_le: "os_ok os \<Longrightarrow> os_send os h fd bs = Inr k \<Longrightarrow> k \<le> length bs"
  by (auto simp: os_ok_def)

text \<open>Steps that change nothing but add quiet events; logging is one.\<close>

definition silent :: "st \<Rightarrow> st \<Rightarrow> bool" where
  "silent s s' \<longleftrightarrow> (\<exists>es. s' = (fst s, (snd s)\<lparr>trace := hist s @ es\<rparr>) \<and> (\<forall>e \<in> set es. quiet e))"

lemma silent_refl: "silent s s"
  unfolding silent_def by (intro exI [of _ "[]"]) (simp add: hist_def)

lemma silent_trans:
  assumes "silent s t" and "silent t u"
  shows "silent s u"
proof -
  from assms obtain es fs where "t = (fst s, (snd s)\<lparr>trace := hist s @ es\<rparr>)"
    "u = (fst t, (snd t)\<lparr>trace := hist t @ fs\<rparr>)" "\<forall>e \<in> set es. quiet e" "\<forall>e \<in> set fs. quiet e"
    unfolding silent_def by blast
  then have "u = (fst s, (snd s)\<lparr>trace := hist s @ es @ fs\<rparr>)" by (simp add: hist_def)
  moreover have "\<forall>e \<in> set (es @ fs). quiet e"
    using \<open>\<forall>e \<in> set es. quiet e\<close> \<open>\<forall>e \<in> set fs. quiet e\<close> by auto
  ultimately show ?thesis unfolding silent_def by blast
qed

lemma silent_event: "quiet e \<Longrightarrow> silent s (record_event e s)"
  unfolding silent_def by (intro exI [of _ "[e]"]) (simp add: record_event_def hist_def)

lemma silent_malloc: "sys_malloc os n s = (ok, s') \<Longrightarrow> silent s s'"
  by (auto simp: sys_malloc_def Let_def quiet_def intro: silent_event)

lemma silent_new_sb: "new_sb os s = (sb, s') \<Longrightarrow> silent s s'"
  by (auto simp: new_sb_def Let_def split: prod.splits if_splits
      intro: silent_trans dest!: silent_malloc)

lemma silent_append_sb: "append_sb os sb str s = Some (sb', s') \<Longrightarrow> silent s s'"
  by (auto simp: append_sb_def bind_eq_Some_conv split: prod.splits dest!: silent_malloc)

lemma log_msg_same: "log_msg os ty msg s = Some s' \<longleftrightarrow> s' = s"
  by (auto simp: log_msg_def our_log_silent)

lemma log_line_silent: "log_line os ty msg s = Some s' \<Longrightarrow> silent s s'"
  by (auto simp: log_line_def log_msg_same bind_eq_Some_conv split: prod.splits
      dest!: silent_new_sb silent_append_sb intro: silent_trans)

lemma silentD:
  assumes "silent s s'"
  shows "fst s' = fst s" "client_at i s' = client_at i s" "user_tab (snd s') = user_tab (snd s)"
    "metrics_of (snd s') = metrics_of (snd s)"
    "\<exists>es. hist s' = hist s @ es \<and> (\<forall>e \<in> set es. quiet e)"
  using assms by (auto simp: client_at_def hist_def silent_def)

text \<open>It returns unless one of its two allocations fails.\<close>

definition mallocs_ok :: "os \<Rightarrow> bool" where
  "mallocs_ok os \<longleftrightarrow> (\<forall>h n. os_malloc os h n)"

lemma log_line_returns:
  assumes "mallocs_ok os" and "length msg < 2 ^ 20"
  shows "\<exists>s'. log_line os ty msg s = Some s'"
proof -
  define sb where "sb = \<lparr>sb_text = [], sb_length = 0, sb_capacity = SB_INITIAL_CAPACITY\<rparr>"
  have sb: "sb_create True True = Some sb" by (simp add: sb_create_def sb_def)
  obtain s1 where n: "new_sb os s = (Some sb, s1)"
    using assms(1) sb by (simp add: new_sb_def sys_malloc_def mallocs_ok_def Let_def)
  have app: "\<exists>r sb'. sb_append ok sb msg = Some (r, sb')" for ok
    using sb_append_spec [OF sb_create_inv [OF sb], of msg ok] assms(2)
    by (auto simp: sb_def SB_INITIAL_CAPACITY_def)
  have "\<exists>sb1 s2. append_sb os sb msg s1 = Some (sb1, s2)"
  proof -
    obtain ok s2 where "sys_malloc os (length msg) s1 = (ok, s2)" by (meson surj_pair)
    with app [of ok] show ?thesis by (auto simp: append_sb_def)
  qed
  with n show ?thesis by (auto simp: log_line_def log_msg_same)
qed

end
