(* ===== verification/Handshake.thy ===== *)
theory Handshake
  imports World
begin

text \<open>
  \<open>src/server/negotiation.c\<close> and \<open>src/server/authentication.c\<close>: the handlers of the first
  four states. A handler maps a key and the state to the identifier of the next state and the
  new state; \<open>None\<close> is a crash (a failed assertion, a NULL or freed pointer, a string
  operation on the NULL that \<open>sb_create\<close> answers when memory has run out).
\<close>

definition as_neg :: "handshake \<Rightarrow> neg_parser option" where
  "as_neg h = (case h of Negotiation np \<Rightarrow> Some np | _ \<Rightarrow> None)"

section \<open>Negotiation\<close>

definition negotiation_read_init :: "nat \<Rightarrow> key \<Rightarrow> st \<Rightarrow> st option" where
  "negotiation_read_init st key s = do {
     i \<leftarrow> ATTACHMENT key;
     c \<leftarrow> client_at i s;
     np \<leftarrow> as_neg (handshake c);
     Some (set_client i (c\<lparr>handshake := Negotiation (initialize_negotiation_parser np)\<rparr>) s) }"

definition negotiation_read :: "os \<Rightarrow> key \<Rightarrow> st \<Rightarrow> (nat \<times> st) option" where
  "negotiation_read os key s0 = do {
     s \<leftarrow> log_line os INFO ''Negotiation read started'' s0;
     i \<leftarrow> ATTACHMENT key;
     c \<leftarrow> client_at i s;
     (_, bytes_available) \<leftarrow> buffer_write_ptr (client_to_sv c);
     if \<not> buffer_can_write (client_to_sv c) then Some (state_id NEGOTIATION_READ, s)
     else do {
       (r, s1) \<leftarrow> recv_buf os (key_fd key) (client_to_sv c) bytes_available s;
       case r of
         Inl _ \<Rightarrow> Some (state_id SOCKS_ERROR, s1)
       | Inr (read_count, b1) \<Rightarrow>
           if read_count = 0 then Some (state_id SOCKS_ERROR, s1)
           else do {
             b2 \<leftarrow> buffer_write_adv b1 (int read_count);
             np \<leftarrow> as_neg (handshake c);
             (np1, b3) \<leftarrow> negotiation_parse np b2;
             let c1 = c\<lparr>client_to_sv := b3, handshake := Negotiation np1\<rparr>;
             let s2 = set_client i c1 s1;
             if is_negotiation_read_done np1 then do {
               (st, s3) \<leftarrow> set_interest_key key OP_WRITE s2;
               if st \<noteq> SELECTOR_SUCCESS then Some (state_id SOCKS_ERROR, s3)
               else do {
                 (err, b4) \<leftarrow> generate_negotiation_response np1 (sv_to_client c1);
                 let s4 = set_client i (c1\<lparr>sv_to_client := b4\<rparr>) s3;
                 Some (state_id (if err then SOCKS_ERROR else NEGOTIATION_WRITE), s4) } }
             else Some (state_id NEGOTIATION_READ, s2) } } }"

definition negotiation_write :: "os \<Rightarrow> key \<Rightarrow> st \<Rightarrow> (nat \<times> st) option" where
  "negotiation_write os key s0 = do {
     s \<leftarrow> log_line os INFO ''Negotiation write started'' s0;
     i \<leftarrow> ATTACHMENT key;
     c \<leftarrow> client_at i s;
     (_, bytes_to_write) \<leftarrow> buffer_read_ptr (sv_to_client c);
     (r, s1) \<leftarrow> send_buf os (key_fd key) (sv_to_client c) bytes_to_write s;
     case r of
       Inl _ \<Rightarrow> Some (state_id SOCKS_ERROR, s1)
     | Inr bytes_sent \<Rightarrow>
         if bytes_sent = 0 then Some (state_id SOCKS_ERROR, s1)
         else do {
           let s2 = with_metrics (more_bytes (int bytes_sent)) s1;
           b1 \<leftarrow> buffer_read_adv (sv_to_client c) (int bytes_sent);
           let c1 = c\<lparr>sv_to_client := b1\<rparr>;
           let s3 = set_client i c1 s2;
           if buffer_can_read b1 then Some (state_id NEGOTIATION_WRITE, s3)
           else do {
             np \<leftarrow> as_neg (handshake c1);
             if selected_method np = NOT_ACCEPTABLE then Some (state_id SOCKS_ERROR, s3)
             else do {
               (st, s4) \<leftarrow> set_interest_key key OP_READ s3;
               Some (state_id (if st \<noteq> SELECTOR_SUCCESS then SOCKS_ERROR else AUTH_READ), s4) } } } }"

section \<open>Authentication\<close>

definition authentication_read_init :: "nat \<Rightarrow> key \<Rightarrow> st \<Rightarrow> st option" where
  "authentication_read_init st key s = do {
     i \<leftarrow> ATTACHMENT key;
     c \<leftarrow> client_at i s;
     ap \<leftarrow> as_auth (handshake c);
     Some (set_client i (c\<lparr>handshake := Authentication (initialize_auth_parser ap)\<rparr>) s) }"

text \<open>\<open>strcpy(dst, src)\<close> between two arrays of the same size: the string and its terminator.\<close>

definition strcpy :: "bytes \<Rightarrow> bytes \<Rightarrow> bytes option" where
  "strcpy dst src = do {
     check (terminated src \<and> length (cstr src) < length dst);
     Some (poke 0 (cstr src @ [0]) dst) }"

definition authentication_read :: "os \<Rightarrow> key \<Rightarrow> st \<Rightarrow> (nat \<times> st) option" where
  "authentication_read os key s0 = do {
     s \<leftarrow> log_line os INFO ''Authentication read started '' s0;
     i \<leftarrow> ATTACHMENT key;
     c \<leftarrow> client_at i s;
     (_, bytes_available) \<leftarrow> buffer_write_ptr (client_to_sv c);
     if \<not> buffer_can_write (client_to_sv c) then Some (state_id AUTH_READ, s)
     else do {
       (r, s1) \<leftarrow> recv_buf os (key_fd key) (client_to_sv c) bytes_available s;
       case r of
         Inl _ \<Rightarrow> Some (state_id SOCKS_ERROR, s1)
       | Inr (bytes_read, b1) \<Rightarrow>
           if bytes_read = 0 then Some (state_id SOCKS_ERROR, s1)
           else do {
             b2 \<leftarrow> buffer_write_adv b1 (int bytes_read);
             ap \<leftarrow> as_auth (handshake c);
             (ap1, b3) \<leftarrow> auth_parse ap b2;
             let c1 = c\<lparr>client_to_sv := b3, handshake := Authentication ap1\<rparr>;
             if is_auth_done ap1 then do {
               let login = user_login (user_tab (snd s1)) (string_of (cstr (uname ap1)))
                             (string_of (cstr (passwd ap1)));
               let authenticated = (if login < 0 then ACCESS_DENIED else AUTHENTICATED);
               name \<leftarrow> strcpy (username c1) (uname ap1);
               (err, b4) \<leftarrow> auth_generate_response (sv_to_client c1) authenticated;
               let s2 = set_client i (c1\<lparr>username := name, sv_to_client := b4\<rparr>) s1;
               if err then Some (state_id SOCKS_ERROR, s2)
               else do {
                 (st, s3) \<leftarrow> set_interest_key key OP_WRITE s2;
                 Some (state_id (if st \<noteq> SELECTOR_SUCCESS then SOCKS_ERROR else AUTH_WRITE), s3) } }
             else Some (state_id AUTH_READ, set_client i c1 s1) } } }"

definition authentication_write :: "os \<Rightarrow> key \<Rightarrow> st \<Rightarrow> (nat \<times> st) option" where
  "authentication_write os key s0 = do {
     s \<leftarrow> log_line os INFO ''Authentication write started '' s0;
     i \<leftarrow> ATTACHMENT key;
     c \<leftarrow> client_at i s;
     (_, bytes_to_write) \<leftarrow> buffer_read_ptr (sv_to_client c);
     (r, s1) \<leftarrow> send_buf os (key_fd key) (sv_to_client c) bytes_to_write s;
     case r of
       Inl _ \<Rightarrow> Some (state_id SOCKS_ERROR, s1)
     | Inr bytes_sent \<Rightarrow>
         if bytes_sent = 0 then Some (state_id SOCKS_ERROR, s1)
         else do {
           b1 \<leftarrow> buffer_read_adv (sv_to_client c) (int bytes_sent);
           let s2 = set_client i (c\<lparr>sv_to_client := b1\<rparr>) s1;
           if buffer_can_read b1 then Some (state_id AUTH_WRITE, s2)
           else do {
             (st, s3) \<leftarrow> set_interest_key key OP_READ s2;
             Some (state_id (if st \<noteq> SELECTOR_SUCCESS then SOCKS_ERROR else REQ_READ), s3) } } }"

section \<open>What every handler keeps\<close>

text \<open>
  The buffers, arrays and parsers of a client are well formed; the handshake handlers neither
  touch the state machine nor the descriptors. \<open>roles\<close> is what the selector knows of a
  descriptor besides its interest.
\<close>

definition BUFFER_SIZE :: nat where "BUFFER_SIZE = 1024"

definition handshake_ok :: "handshake \<Rightarrow> bool" where
  "handshake_ok h = (case h of Negotiation np \<Rightarrow> neg_parser_ok np
     | Authentication ap \<Rightarrow> auth_parser_ok ap | Request rp \<Rightarrow> req_parser_ok rp)"

definition client_ok :: "client_data \<Rightarrow> bool" where
  "client_ok c \<longleftrightarrow> buffer_inv (client_to_sv c) \<and> buf_limit (client_to_sv c) = BUFFER_SIZE
     \<and> buffer_inv (sv_to_client c) \<and> buf_limit (sv_to_client c) = BUFFER_SIZE
     \<and> length (username c) = 256 \<and> handshake_ok (handshake c)"

definition roles :: "sel \<Rightarrow> int \<Rightarrow> (handler_id option \<times> attachment option) option" where
  "roles sel x = map_option (\<lambda>it. (item_handler it, item_data it)) (registered sel x)"

definition kind :: "handshake \<Rightarrow> nat" where
  "kind h = (case h of Negotiation _ \<Rightarrow> 0 | Authentication _ \<Rightarrow> 1 | Request _ \<Rightarrow> 2)"

definition same_place :: "client_data \<Rightarrow> client_data \<Rightarrow> bool" where
  "same_place c c' \<longleftrightarrow> stm c' = stm c \<and> client_fd c' = client_fd c \<and> origin_fd c' = origin_fd c
     \<and> client_eof c' = client_eof c \<and> origin_eof c' = origin_eof c
     \<and> origin_addr c' = origin_addr c \<and> current_origin_addr c' = current_origin_addr c
     \<and> kind (handshake c') = kind (handshake c)"

definition keeps :: "nat \<Rightarrow> st \<Rightarrow> st \<Rightarrow> bool" where
  "keeps i s s' \<longleftrightarrow> (\<exists>c c'. client_at i s = Some c \<and> client_at i s' = Some c' \<and> client_ok c' \<and> same_place c c')
     \<and> sel_inv (fst s') \<and> roles (fst s') = roles (fst s)
     \<and> (\<forall>j. j \<noteq> i \<longrightarrow> client_at j s' = client_at j s)"

text \<open>The situation in which the selector calls a handler of client \<open>i\<close>.\<close>

definition called :: "nat \<Rightarrow> key \<Rightarrow> client_data \<Rightarrow> st \<Rightarrow> bool" where
  "called i key c s \<longleftrightarrow> ATTACHMENT key = Some i \<and> client_at i s = Some c \<and> client_ok c
     \<and> sel_inv (fst s) \<and> registered (fst s) (key_fd key) \<noteq> None"

lemma called_silent: "called i key c s \<Longrightarrow> silent s s' \<Longrightarrow> called i key c s'"
  using silentD [of s s'] by (simp add: called_def)

lemma roles_registered: "roles sel x = None \<longleftrightarrow> registered sel x = None"
  by (simp add: roles_def)

lemma set_interest_roles:
  assumes "sel_inv sel" and "selector_set_interest sel fd i = Some (r, sel')"
  shows "sel_inv sel' \<and> roles sel' = roles sel \<and> (r = SELECTOR_SUCCESS \<longleftrightarrow> registered sel fd \<noteq> None)"
proof -
  note spec = selector_set_interest_inv [OF assms]
  have "roles sel' x = roles sel x" for x
  proof (cases "registered sel' x")
    case None
    with spec have "registered sel x = None" by (metis domIff)
    with None show ?thesis by (simp add: roles_def)
  next
    case (Some it')
    with spec show ?thesis by (fastforce simp: roles_def)
  qed
  with spec show ?thesis by auto
qed

text \<open>Changing the interest of the descriptor the handler was called for succeeds.\<close>

lemma set_interest_key_called:
  assumes "called i key c s"
  shows "\<exists>sel'. set_interest_key key op s = Some (SELECTOR_SUCCESS, set_sel sel' s)
    \<and> sel_inv sel' \<and> roles sel' = roles (fst s)
    \<and> (\<exists>it. registered sel' (key_fd key) = Some it \<and> item_interest it = op)"
proof -
  from assms obtain it where it: "sel_inv (fst s)" "registered (fst s) (key_fd key) = Some it"
    by (auto simp: called_def)
  from selector_set_interest_spec [OF it, of op] obtain sel' where
    sel': "selector_set_interest (fst s) (key_fd key) op = Some (SELECTOR_SUCCESS, sel')"
    "registered sel' = (registered (fst s))(key_fd key \<mapsto> it\<lparr>item_interest := op\<rparr>)" by blast
  with set_interest_roles [OF it(1) sel'(1)] show ?thesis
    by (intro exI [of _ sel']) (auto simp: set_interest_key_def selector_set_interest_key_eq)
qed

lemma called_update:
  assumes "called i key c s" and "client_ok c'"
  shows "called i key c' (set_client i c' s)"
  using assms by (simp add: called_def)

lemma called_frame [simp]:
  "called i key c (record_event e s) = called i key c s"
  "called i key c (with_metrics f s) = called i key c s"
  by (simp_all add: called_def)

lemma keeps_update:
  assumes "called i key c s0" and "sel_inv (fst s')" and "roles (fst s') = roles (fst s0)"
    and "client_at i s' = Some c'" and "client_ok c'" and "same_place c c'"
    and "\<And>j. j \<noteq> i \<Longrightarrow> client_at j s' = client_at j s0"
  shows "keeps i s0 s'"
  using assms unfolding keeps_def called_def by blast

lemma same_place_refl [simp]: "same_place c c"
  by (simp add: same_place_def)

lemma keeps_refl: "called i key c s \<Longrightarrow> silent s s' \<Longrightarrow> keeps i s s'"
  by (rule keeps_update [of i key c _ _ c]) (auto simp: called_def silentD)

lemma log_called:
  assumes "mallocs_ok os" and "called i key c s" and "length msg < 2 ^ 20"
  shows "\<exists>s1. log_line os ty msg s = Some s1 \<and> silent s s1 \<and> called i key c s1"
  using log_line_returns [OF assms(1,3), of ty s] log_line_silent called_silent [OF assms(2)] by metis

section \<open>The negotiation handlers\<close>

text \<open>
  \<open>negotiation_read\<close> returns, whatever arrives: one \<open>recv\<close>, the parser fed with everything
  unread, and once it has finished the reply in \<open>sv_to_client\<close>.
\<close>

lemma negotiation_read_spec:
  assumes ok: "os_ok os" "mallocs_ok os" and call: "called i key c s"
    and np: "handshake c = Negotiation np" and room: "0 < room (client_to_sv c)"
  shows "\<exists>s1. silent s s1 \<and> (case os_recv os (hist s1) (key_fd key) (room (client_to_sv c)) of
      Inl e \<Rightarrow> negotiation_read os key s =
        Some (state_id SOCKS_ERROR, record_event (Recv (key_fd key) (Inl e)) s1)
    | Inr bs \<Rightarrow>
        if bs = [] then negotiation_read os key s =
          Some (state_id SOCKS_ERROR, record_event (Recv (key_fd key) (Inr bs)) s1)
        else (\<exists>np1 rest b3.
          feed_all negotiation_feed is_negotiation_read_done np (contents (client_to_sv c) @ bs) = (np1, rest)
          \<and> buffer_inv b3 \<and> contents b3 = rest \<and> buf_limit b3 = buf_limit (client_to_sv c)
          \<and> room (client_to_sv c) - length bs \<le> room b3 \<and> neg_parser_ok np1
          \<and> (let c1 = c\<lparr>client_to_sv := b3, handshake := Negotiation np1\<rparr>;
                 s2 = set_client i c1 (record_event (Recv (key_fd key) (Inr bs)) s1)
             in if \<not> is_negotiation_read_done np1
                then negotiation_read os key s = Some (state_id NEGOTIATION_READ, s2)
                else \<exists>sel' err b4. sel_inv sel' \<and> roles sel' = roles (fst s)
                  \<and> (\<exists>it. registered sel' (key_fd key) = Some it \<and> item_interest it = OP_WRITE)
                  \<and> generate_negotiation_response np1 (sv_to_client c) = Some (err, b4)
                  \<and> buffer_inv b4 \<and> buf_limit b4 = buf_limit (sv_to_client c)
                  \<and> negotiation_read os key s =
                      Some (state_id (if err then SOCKS_ERROR else NEGOTIATION_WRITE),
                        set_client i (c1\<lparr>sv_to_client := b4\<rparr>) (set_sel sel' s2)))))"
proof -
  obtain s1 where log: "log_line os INFO ''Negotiation read started'' s = Some s1"
    and sil: "silent s s1" and call1: "called i key c s1"
    using log_called [OF ok(2) call, of "''Negotiation read started''" INFO] by auto
  then have at: "ATTACHMENT key = Some i" "client_at i s1 = Some c" and cok: "client_ok c"
    by (auto simp: called_def)
  from cok have inv: "buffer_inv (client_to_sv c)" "buffer_inv (sv_to_client c)" "neg_parser_ok np"
    by (auto simp: client_ok_def handshake_ok_def np)
  note wp = buffer_write_ptr_spec [OF inv(1)]
  have can: "buffer_can_write (client_to_sv c)" using room by (simp add: buffer_can_write_iff)
  note start = log at wp can
  obtain r where r: "recv_buf os (key_fd key) (client_to_sv c) (room (client_to_sv c)) s1 =
      Some (r, record_event (Recv (key_fd key) (os_recv os (hist s1) (key_fd key) (room (client_to_sv c)))) s1)"
    and rc: "case os_recv os (hist s1) (key_fd key) (room (client_to_sv c)) of
         Inl e \<Rightarrow> r = Inl e
       | Inr bs \<Rightarrow> \<exists>b1 b2. r = Inr (length bs, b1) \<and> buffer_write_adv b1 (int (length bs)) = Some b2
           \<and> buffer_inv b2 \<and> contents b2 = contents (client_to_sv c) @ bs
           \<and> buf_limit b2 = buf_limit (client_to_sv c) \<and> room b2 = room (client_to_sv c) - length bs"
    using recv_buf_spec [OF ok(1) inv(1), of "key_fd key" s1] by blast
  show ?thesis
  proof (cases "os_recv os (hist s1) (key_fd key) (room (client_to_sv c))")
    case (Inl e)
    with r rc have "negotiation_read os key s =
      Some (state_id SOCKS_ERROR, record_event (Recv (key_fd key) (Inl e)) s1)"
      by (simp add: negotiation_read_def start)
    with sil Inl show ?thesis by (intro exI [of _ s1]) simp
  next
    case (Inr bs)
    with rc obtain b1 b2 where b: "r = Inr (length bs, b1)"
      "buffer_write_adv b1 (int (length bs)) = Some b2" "buffer_inv b2"
      "contents b2 = contents (client_to_sv c) @ bs" "buf_limit b2 = buf_limit (client_to_sv c)"
      "room b2 = room (client_to_sv c) - length bs" by auto
    show ?thesis
    proof (cases "bs = []")
      case True
      with r b Inr have "negotiation_read os key s =
        Some (state_id SOCKS_ERROR, record_event (Recv (key_fd key) (Inr bs)) s1)"
        by (simp add: negotiation_read_def start)
      with sil Inr True show ?thesis by (intro exI [of _ s1]) simp
    next
      case ne: False
      obtain np1 rest where f: "feed_all negotiation_feed is_negotiation_read_done np
        (contents (client_to_sv c) @ bs) = (np1, rest)" by fastforce
      with b(4) obtain b3 where b3: "negotiation_parse np b2 = Some (np1, b3)" "buffer_inv b3"
        "contents b3 = rest" "buf_limit b3 = buf_limit (client_to_sv c)"
        "room (client_to_sv c) - length bs \<le> room b3"
        using neg.loop_result [OF b(3), of np np1 rest] b(5,6) by auto
      have np1: "neg_parser_ok np1"
        using neg.loop_invariant [of neg_parser_ok, OF _ b(3) inv(3) b3(1)] negotiation_feed_ok by blast
      define c1 where "c1 = c\<lparr>client_to_sv := b3, handshake := Negotiation np1\<rparr>"
      define s2 where "s2 = set_client i c1 (record_event (Recv (key_fd key) (Inr bs)) s1)"
      have "client_ok c1"
        using cok b3 np1 by (simp add: c1_def client_ok_def handshake_ok_def)
      then have call2: "called i key c1 s2"
        using call1 by (simp add: s2_def called_def)
      have run: "negotiation_read os key s =
        (if is_negotiation_read_done np1 then do {
           (st, s3) \<leftarrow> set_interest_key key OP_WRITE s2;
           if st \<noteq> SELECTOR_SUCCESS then Some (state_id SOCKS_ERROR, s3)
           else do {
             (err, b4) \<leftarrow> generate_negotiation_response np1 (sv_to_client c1);
             let s4 = set_client i (c1\<lparr>sv_to_client := b4\<rparr>) s3;
             Some (state_id (if err then SOCKS_ERROR else NEGOTIATION_WRITE), s4) } }
         else Some (state_id NEGOTIATION_READ, s2))"
        unfolding c1_def s2_def using r b Inr ne b3(1)
        by (simp add: negotiation_read_def start as_neg_def np Let_def)
      show ?thesis
      proof (cases "is_negotiation_read_done np1")
        case False
        with run have "negotiation_read os key s = Some (state_id NEGOTIATION_READ, s2)" by simp
        with sil Inr ne f b3 np1 False show ?thesis
          by (intro exI [of _ s1]) (simp, intro exI [of _ b3], simp add: c1_def s2_def Let_def)
      next
        case True
        obtain sel' where sel': "set_interest_key key OP_WRITE s2 = Some (SELECTOR_SUCCESS, set_sel sel' s2)"
          "sel_inv sel'" "roles sel' = roles (fst s2)"
          "\<exists>it. registered sel' (key_fd key) = Some it \<and> item_interest it = OP_WRITE"
          using set_interest_key_called [OF call2] by blast
        obtain err b4 where g: "generate_negotiation_response np1 (sv_to_client c) = Some (err, b4)"
          "buffer_inv b4" "buf_limit b4 = buf_limit (sv_to_client c)"
          using generate_negotiation_response_safe [OF inv(2)] by blast
        have "negotiation_read os key s = Some (state_id (if err then SOCKS_ERROR else NEGOTIATION_WRITE),
            set_client i (c1\<lparr>sv_to_client := b4\<rparr>) (set_sel sel' s2))"
          using run True sel'(1) g(1) by (simp add: c1_def Let_def)
        moreover have "roles sel' = roles (fst s)" using sel'(3) silentD(1) [OF sil] by (simp add: s2_def)
        ultimately show ?thesis
          using sil Inr ne f b3 np1 True sel'(2,4) g
          by (intro exI [of _ s1]) (simp, intro exI [of _ b3], simp add: c1_def s2_def Let_def,
            intro exI [of _ sel'], simp)
      qed
    qed
  qed
qed

text \<open>
  Sending: \<open>k\<close> bytes leave the front of the reply. On from there the two write handlers differ
  in what they count and in the test before the next state.
\<close>

lemma send_reply:
  assumes ok: "os_ok os" and call: "called i key c s"
    and k: "os_send os (hist s) (key_fd key) (contents (sv_to_client c)) = Inr k"
  shows "\<exists>b1. buffer_read_adv (sv_to_client c) (int k) = Some b1 \<and> buffer_inv b1
    \<and> contents b1 = drop k (contents (sv_to_client c)) \<and> buf_limit b1 = buf_limit (sv_to_client c)
    \<and> (buffer_can_read b1 \<longleftrightarrow> k < length (contents (sv_to_client c)))
    \<and> room (sv_to_client c) \<le> room b1 \<and> client_ok (c\<lparr>sv_to_client := b1\<rparr>)"
proof -
  have inv: "buffer_inv (sv_to_client c)" using call by (simp add: called_def client_ok_def)
  from buffer_read_adv_spec [OF inv os_send_le [OF ok k]] obtain b1 where
    "buffer_read_adv (sv_to_client c) (int k) = Some b1" "buffer_inv b1"
    "contents b1 = drop k (contents (sv_to_client c))" "buf_limit b1 = buf_limit (sv_to_client c)"
    "room (sv_to_client c) \<le> room b1" by blast
  with call show ?thesis
    by (auto simp: called_def client_ok_def buffer_can_read_iff)
qed

lemma negotiation_write_spec:
  assumes ok: "os_ok os" "mallocs_ok os" and call: "called i key c s"
    and np: "handshake c = Negotiation np"
  shows "\<exists>s1. silent s s1 \<and> (case os_send os (hist s1) (key_fd key) (contents (sv_to_client c)) of
      Inl e \<Rightarrow> negotiation_write os key s = Some (state_id SOCKS_ERROR,
        record_event (Send (key_fd key) (contents (sv_to_client c)) (Inl e)) s1)
    | Inr k \<Rightarrow> \<exists>ret s'. negotiation_write os key s = Some (ret, s')
        \<and> hist s' = hist s1 @ [Send (key_fd key) (contents (sv_to_client c)) (Inr k)]
        \<and> (if k = 0 then ret = state_id SOCKS_ERROR \<and> s' = record_event (Send (key_fd key) (contents (sv_to_client c)) (Inr k)) s1
           else metrics_of (snd s') = more_bytes (int k) (metrics_of (snd s))
             \<and> keeps i s s'
             \<and> (if k < length (contents (sv_to_client c)) then ret = state_id NEGOTIATION_WRITE
                else if selected_method np = NOT_ACCEPTABLE then ret = state_id SOCKS_ERROR
                else ret = state_id AUTH_READ
                  \<and> (\<exists>it. registered (fst s') (key_fd key) = Some it \<and> item_interest it = OP_READ))
             \<and> user_tab (snd s') = user_tab (snd s)
             \<and> (\<exists>c'. client_at i s' = Some c' \<and> c' = c\<lparr>sv_to_client := sv_to_client c'\<rparr>
                  \<and> room (sv_to_client c) \<le> room (sv_to_client c')
                  \<and> contents (sv_to_client c') = drop k (contents (sv_to_client c)))))"
proof -
  obtain s1 where log: "log_line os INFO ''Negotiation write started'' s = Some s1"
    and sil: "silent s s1" and call1: "called i key c s1"
    using log_called [OF ok(2) call, of "''Negotiation write started''" INFO] by auto
  then have at: "ATTACHMENT key = Some i" "client_at i s1 = Some c"
    and inv: "buffer_inv (sv_to_client c)"
    by (auto simp: called_def client_ok_def)
  note start = log at buffer_read_ptr_spec [OF inv] send_buf_spec [OF inv]
  show ?thesis
  proof (cases "os_send os (hist s1) (key_fd key) (contents (sv_to_client c))")
    case (Inl e)
    then have "negotiation_write os key s = Some (state_id SOCKS_ERROR,
        record_event (Send (key_fd key) (contents (sv_to_client c)) (Inl e)) s1)"
      by (simp add: negotiation_write_def start)
    with sil Inl show ?thesis by (intro exI [of _ s1]) simp
  next
    case (Inr k)
    let ?e = "Send (key_fd key) (contents (sv_to_client c)) (Inr k)"
    show ?thesis
    proof (cases "k = 0")
      case True
      with Inr have "negotiation_write os key s = Some (state_id SOCKS_ERROR, record_event ?e s1)"
        by (simp add: negotiation_write_def start)
      with sil Inr True show ?thesis by (intro exI [of _ s1]) simp
    next
      case nz: False
      obtain b1 where b1: "buffer_read_adv (sv_to_client c) (int k) = Some b1"
        "contents b1 = drop k (contents (sv_to_client c))"
        "buffer_can_read b1 \<longleftrightarrow> k < length (contents (sv_to_client c))"
        "client_ok (c\<lparr>sv_to_client := b1\<rparr>)" "room (sv_to_client c) \<le> room b1"
        using send_reply [OF ok(1) call1 Inr] by auto
      define s3 where "s3 = set_client i (c\<lparr>sv_to_client := b1\<rparr>)
        (with_metrics (more_bytes (int k)) (record_event ?e s1))"
      have call3: "called i key (c\<lparr>sv_to_client := b1\<rparr>) s3"
        unfolding s3_def using call1 b1(4) by (intro called_update) auto
      have run: "negotiation_write os key s =
        (if k < length (contents (sv_to_client c)) then Some (state_id NEGOTIATION_WRITE, s3)
         else if selected_method np = NOT_ACCEPTABLE then Some (state_id SOCKS_ERROR, s3)
         else do { (st, s4) \<leftarrow> set_interest_key key OP_READ s3;
           Some (state_id (if st \<noteq> SELECTOR_SUCCESS then SOCKS_ERROR else AUTH_READ), s4) })"
        using Inr nz b1(1,3) by (simp add: negotiation_write_def start as_neg_def np s3_def Let_def)
      have base: "hist s3 = hist s1 @ [?e]"
        "metrics_of (snd s3) = more_bytes (int k) (metrics_of (snd s))" "fst s3 = fst s"
        "client_at i s3 = Some (c\<lparr>sv_to_client := b1\<rparr>)"
        "\<And>j. j \<noteq> i \<Longrightarrow> client_at j s3 = client_at j s" "user_tab (snd s3) = user_tab (snd s)"
        using silentD [OF sil] by (auto simp: s3_def)
      have place: "same_place c (c\<lparr>sv_to_client := b1\<rparr>)" by (simp add: same_place_def)
      obtain sel' where sel': "set_interest_key key OP_READ s3 = Some (SELECTOR_SUCCESS, set_sel sel' s3)"
        "sel_inv sel'" "roles sel' = roles (fst s3)"
        "\<exists>it. registered sel' (key_fd key) = Some it \<and> item_interest it = OP_READ"
        using set_interest_key_called [OF call3] by blast
      have k3: "keeps i s s3"
        by (rule keeps_update [OF call _ _ base(4) b1(4) place]) (use base call in \<open>auto simp: called_def\<close>)
      have k4: "keeps i s (set_sel sel' s3)"
        by (rule keeps_update [OF call _ _ _ b1(4) place]) (use base sel' in auto)
      have m4: "metrics_of (snd (set_sel sel' s3)) = metrics_of (snd s3)" by simp
      consider "k < length (contents (sv_to_client c))"
        | "\<not> k < length (contents (sv_to_client c))" "selected_method np = NOT_ACCEPTABLE"
        | "\<not> k < length (contents (sv_to_client c))" "selected_method np \<noteq> NOT_ACCEPTABLE" by blast
      then show ?thesis
      proof cases
        case 1
        with run have "negotiation_write os key s = Some (state_id NEGOTIATION_WRITE, s3)" by simp
        with sil Inr nz base k3 b1(2,5) 1 show ?thesis
          by (intro exI [of _ s1]) simp
      next
        case 2
        with run have "negotiation_write os key s = Some (state_id SOCKS_ERROR, s3)" by simp
        with sil Inr nz base k3 b1(2,5) 2 show ?thesis
          by (intro exI [of _ s1]) simp
      next
        case 3
        with run sel'(1) have "negotiation_write os key s = Some (state_id AUTH_READ, set_sel sel' s3)"
          by simp
        with sil Inr nz base k4 b1(2,5) 3 sel'(4) show ?thesis
          by (intro exI [of _ s1]) simp
      qed
    qed
  qed
qed

section \<open>The authentication handlers\<close>

text \<open>What \<open>authentication_read\<close> answers for a parsed request.\<close>

definition auth_outcome :: "user_table \<Rightarrow> auth_parser \<Rightarrow> auth_status" where
  "auth_outcome t ap =
     (if user_login t (string_of (cstr (uname ap))) (string_of (cstr (passwd ap))) < 0
      then ACCESS_DENIED else AUTHENTICATED)"

lemma strcpy_uname:
  assumes "auth_parser_ok ap" and "length dst = 256"
  shows "\<exists>name. strcpy dst (uname ap) = Some name \<and> length name = 256 \<and> cstr name = cstr (uname ap)"
proof -
  have t: "terminated (uname ap)" "length (uname ap) = 256"
    using auth_parser_ok_terminated [OF assms(1)] assms(1) by (auto simp: auth_parser_ok_def)
  then have "length (cstr (uname ap)) < 256"
    using terminated_length by fastforce
  with t assms(2) have "strcpy dst (uname ap) = Some (poke 0 (cstr (uname ap) @ [0]) dst)"
    by (simp add: strcpy_def)
  moreover have "poke 0 (cstr (uname ap) @ [0]) dst
    = cstr (uname ap) @ 0 # drop (Suc (length (cstr (uname ap)))) dst" by (simp add: poke_def)
  moreover have "0 \<notin> set (cstr (uname ap))" using cstr_nonzero by blast
  ultimately show ?thesis
    using \<open>length (cstr (uname ap)) < 256\<close> assms(2) by (simp add: cstr_append_zero)
qed

lemma authentication_read_spec:
  assumes ok: "os_ok os" "mallocs_ok os" and call: "called i key c s"
    and ap: "handshake c = Authentication ap" and room: "0 < room (client_to_sv c)"
  shows "\<exists>s1. silent s s1 \<and> (case os_recv os (hist s1) (key_fd key) (room (client_to_sv c)) of
      Inl e \<Rightarrow> authentication_read os key s =
        Some (state_id SOCKS_ERROR, record_event (Recv (key_fd key) (Inl e)) s1)
    | Inr bs \<Rightarrow>
        if bs = [] then authentication_read os key s =
          Some (state_id SOCKS_ERROR, record_event (Recv (key_fd key) (Inr bs)) s1)
        else (\<exists>ap1 rest b3.
          feed_all auth_feed is_auth_done ap (contents (client_to_sv c) @ bs) = (ap1, rest)
          \<and> buffer_inv b3 \<and> contents b3 = rest \<and> buf_limit b3 = buf_limit (client_to_sv c)
          \<and> room (client_to_sv c) - length bs \<le> room b3 \<and> auth_parser_ok ap1
          \<and> (let c1 = c\<lparr>client_to_sv := b3, handshake := Authentication ap1\<rparr>;
                 t = record_event (Recv (key_fd key) (Inr bs)) s1
             in if \<not> is_auth_done ap1
                then authentication_read os key s = Some (state_id AUTH_READ, set_client i c1 t)
                else \<exists>sel' err b4 name.
                  auth_generate_response (sv_to_client c) (auth_outcome (user_tab (snd s)) ap1) = Some (err, b4)
                  \<and> buffer_inv b4 \<and> buf_limit b4 = buf_limit (sv_to_client c)
                  \<and> length name = 256 \<and> cstr name = cstr (uname ap1)
                  \<and> sel_inv sel' \<and> roles sel' = roles (fst s)
                  \<and> (\<not> err \<longrightarrow> (\<exists>it. registered sel' (key_fd key) = Some it \<and> item_interest it = OP_WRITE))
                  \<and> authentication_read os key s =
                      Some (state_id (if err then SOCKS_ERROR else AUTH_WRITE),
                        set_sel sel' (set_client i (c1\<lparr>username := name, sv_to_client := b4\<rparr>) t)))))"
proof -
  obtain s1 where log: "log_line os INFO ''Authentication read started '' s = Some s1"
    and sil: "silent s s1" and call1: "called i key c s1"
    using log_called [OF ok(2) call, of "''Authentication read started ''" INFO] by auto
  then have at: "ATTACHMENT key = Some i" "client_at i s1 = Some c" and cok: "client_ok c"
    by (auto simp: called_def)
  from cok have inv: "buffer_inv (client_to_sv c)" "buffer_inv (sv_to_client c)" "auth_parser_ok ap"
    "length (username c) = 256"
    by (auto simp: client_ok_def handshake_ok_def ap)
  note wp = buffer_write_ptr_spec [OF inv(1)]
  have can: "buffer_can_write (client_to_sv c)" using room by (simp add: buffer_can_write_iff)
  note start = log at wp can
  obtain r where r: "recv_buf os (key_fd key) (client_to_sv c) (room (client_to_sv c)) s1 =
      Some (r, record_event (Recv (key_fd key) (os_recv os (hist s1) (key_fd key) (room (client_to_sv c)))) s1)"
    and rc: "case os_recv os (hist s1) (key_fd key) (room (client_to_sv c)) of
         Inl e \<Rightarrow> r = Inl e
       | Inr bs \<Rightarrow> \<exists>b1 b2. r = Inr (length bs, b1) \<and> buffer_write_adv b1 (int (length bs)) = Some b2
           \<and> buffer_inv b2 \<and> contents b2 = contents (client_to_sv c) @ bs
           \<and> buf_limit b2 = buf_limit (client_to_sv c) \<and> room b2 = room (client_to_sv c) - length bs"
    using recv_buf_spec [OF ok(1) inv(1), of "key_fd key" s1] by blast
  show ?thesis
  proof (cases "os_recv os (hist s1) (key_fd key) (room (client_to_sv c))")
    case (Inl e)
    with r rc have "authentication_read os key s =
      Some (state_id SOCKS_ERROR, record_event (Recv (key_fd key) (Inl e)) s1)"
      by (simp add: authentication_read_def start)
    with sil Inl show ?thesis by (intro exI [of _ s1]) simp
  next
    case (Inr bs)
    with rc obtain b1 b2 where b: "r = Inr (length bs, b1)"
      "buffer_write_adv b1 (int (length bs)) = Some b2" "buffer_inv b2"
      "contents b2 = contents (client_to_sv c) @ bs" "buf_limit b2 = buf_limit (client_to_sv c)"
      "room b2 = room (client_to_sv c) - length bs" by auto
    show ?thesis
    proof (cases "bs = []")
      case True
      with r b Inr have "authentication_read os key s =
        Some (state_id SOCKS_ERROR, record_event (Recv (key_fd key) (Inr bs)) s1)"
        by (simp add: authentication_read_def start)
      with sil Inr True show ?thesis by (intro exI [of _ s1]) simp
    next
      case ne: False
      obtain ap1 rest where f: "feed_all auth_feed is_auth_done ap
        (contents (client_to_sv c) @ bs) = (ap1, rest)" by fastforce
      with b(4) obtain b3 where b3: "auth_parse ap b2 = Some (ap1, b3)" "buffer_inv b3"
        "contents b3 = rest" "buf_limit b3 = buf_limit (client_to_sv c)"
        "room (client_to_sv c) - length bs \<le> room b3"
        using auth.loop_result [OF b(3), of ap ap1 rest] b(5,6) by auto
      have ap1: "auth_parser_ok ap1"
        using auth.loop_invariant [of auth_parser_ok, OF _ b(3) inv(3) b3(1)] auth_feed_ok by blast
      obtain name where name: "strcpy (username c) (uname ap1) = Some name" "length name = 256"
        "cstr name = cstr (uname ap1)"
        using strcpy_uname [OF ap1 inv(4)] by blast
      define c1 where "c1 = c\<lparr>client_to_sv := b3, handshake := Authentication ap1\<rparr>"
      define t where "t = record_event (Recv (key_fd key) (Inr bs)) s1"
      obtain err b4 where g: "auth_generate_response (sv_to_client c)
          (auth_outcome (user_tab (snd s)) ap1) = Some (err, b4)"
        "buffer_inv b4" "buf_limit b4 = buf_limit (sv_to_client c)"
        using auth_generate_response_safe [OF inv(2)] by blast
      define c2 where "c2 = c1\<lparr>username := name, sv_to_client := b4\<rparr>"
      have "client_ok c2"
        using cok b3 ap1 g name(2) by (simp add: c1_def c2_def client_ok_def handshake_ok_def)
      then have call2: "called i key c2 (set_client i c2 t)"
        using call1 by (simp add: t_def called_def)
      have run: "authentication_read os key s =
        (if is_auth_done ap1 then
           (if err then Some (state_id SOCKS_ERROR, set_client i c2 t)
            else do {
              (st, s3) \<leftarrow> set_interest_key key OP_WRITE (set_client i c2 t);
              Some (state_id (if st \<noteq> SELECTOR_SUCCESS then SOCKS_ERROR else AUTH_WRITE), s3) })
         else Some (state_id AUTH_READ, set_client i c1 t))"
        unfolding c2_def c1_def t_def using r b Inr ne b3(1) name(1) g(1)
        by (simp add: authentication_read_def start as_auth_def ap Let_def auth_outcome_def
            silentD(3) [OF sil] cong: if_cong)
      obtain sel' where sel': "set_interest_key key OP_WRITE (set_client i c2 t)
          = Some (SELECTOR_SUCCESS, set_sel sel' (set_client i c2 t))"
        "sel_inv sel'" "roles sel' = roles (fst (set_client i c2 t))"
        "\<exists>it. registered sel' (key_fd key) = Some it \<and> item_interest it = OP_WRITE"
        using set_interest_key_called [OF call2] by blast
      have fst_t: "fst t = fst s" using silentD(1) [OF sil] by (simp add: t_def)
      have stay: "set_sel (fst s) (set_client i c2 t) = set_client i c2 t"
        using fst_t by (simp add: set_sel_def set_client_def)
      show ?thesis
      proof (cases "is_auth_done ap1")
        case False
        with run have "authentication_read os key s = Some (state_id AUTH_READ, set_client i c1 t)" by simp
        with sil Inr ne f b3 ap1 False show ?thesis
          by (intro exI [of _ s1]) (simp, intro exI [of _ b3], simp add: c1_def t_def Let_def)
      next
        case fin: True
        define sel'' where "sel'' = (if err then fst s else sel')"
        have "authentication_read os key s =
          Some (state_id (if err then SOCKS_ERROR else AUTH_WRITE), set_sel sel'' (set_client i c2 t))"
          using run fin sel'(1) stay by (simp add: sel''_def)
        moreover have "sel_inv sel''" "roles sel'' = roles (fst s)"
          "\<not> err \<longrightarrow> (\<exists>it. registered sel'' (key_fd key) = Some it \<and> item_interest it = OP_WRITE)"
          using sel' call fst_t by (simp_all add: sel''_def called_def)
        ultimately show ?thesis
          using sil Inr ne f b3 ap1 fin g name
          by (intro exI [of _ s1]) (simp, intro exI [of _ b3], simp add: c2_def c1_def t_def Let_def,
            intro exI [of _ sel''] exI [of _ name], simp)
      qed
    qed
  qed
qed

text \<open>
  \<open>authentication_write\<close> asks nothing about the outcome of the authentication: once the reply
  is out it goes on to the request, whatever the reply said.
\<close>

lemma authentication_write_spec:
  assumes ok: "os_ok os" "mallocs_ok os" and call: "called i key c s"
  shows "\<exists>s1. silent s s1 \<and> (case os_send os (hist s1) (key_fd key) (contents (sv_to_client c)) of
      Inl e \<Rightarrow> authentication_write os key s = Some (state_id SOCKS_ERROR,
        record_event (Send (key_fd key) (contents (sv_to_client c)) (Inl e)) s1)
    | Inr k \<Rightarrow> \<exists>ret s'. authentication_write os key s = Some (ret, s')
        \<and> hist s' = hist s1 @ [Send (key_fd key) (contents (sv_to_client c)) (Inr k)]
        \<and> (if k = 0 then ret = state_id SOCKS_ERROR \<and> s' = record_event (Send (key_fd key) (contents (sv_to_client c)) (Inr k)) s1
           else metrics_of (snd s') = metrics_of (snd s)
             \<and> keeps i s s'
             \<and> (if k < length (contents (sv_to_client c)) then ret = state_id AUTH_WRITE
                else ret = state_id REQ_READ
                  \<and> (\<exists>it. registered (fst s') (key_fd key) = Some it \<and> item_interest it = OP_READ))
             \<and> user_tab (snd s') = user_tab (snd s)
             \<and> (\<exists>c'. client_at i s' = Some c' \<and> c' = c\<lparr>sv_to_client := sv_to_client c'\<rparr>
                  \<and> room (sv_to_client c) \<le> room (sv_to_client c')
                  \<and> contents (sv_to_client c') = drop k (contents (sv_to_client c)))))"
proof -
  obtain s1 where log: "log_line os INFO ''Authentication write started '' s = Some s1"
    and sil: "silent s s1" and call1: "called i key c s1"
    using log_called [OF ok(2) call, of "''Authentication write started ''" INFO] by auto
  then have at: "ATTACHMENT key = Some i" "client_at i s1 = Some c"
    and inv: "buffer_inv (sv_to_client c)"
    by (auto simp: called_def client_ok_def)
  note start = log at buffer_read_ptr_spec [OF inv] send_buf_spec [OF inv]
  show ?thesis
  proof (cases "os_send os (hist s1) (key_fd key) (contents (sv_to_client c))")
    case (Inl e)
    then have "authentication_write os key s = Some (state_id SOCKS_ERROR,
        record_event (Send (key_fd key) (contents (sv_to_client c)) (Inl e)) s1)"
      by (simp add: authentication_write_def start)
    with sil Inl show ?thesis by (intro exI [of _ s1]) simp
  next
    case (Inr k)
    let ?e = "Send (key_fd key) (contents (sv_to_client c)) (Inr k)"
    show ?thesis
    proof (cases "k = 0")
      case True
      with Inr have "authentication_write os key s = Some (state_id SOCKS_ERROR, record_event ?e s1)"
        by (simp add: authentication_write_def start)
      with sil Inr True show ?thesis by (intro exI [of _ s1]) simp
    next
      case nz: False
      obtain b1 where b1: "buffer_read_adv (sv_to_client c) (int k) = Some b1"
        "contents b1 = drop k (contents (sv_to_client c))"
        "buffer_can_read b1 \<longleftrightarrow> k < length (contents (sv_to_client c))"
        "client_ok (c\<lparr>sv_to_client := b1\<rparr>)" "room (sv_to_client c) \<le> room b1"
        using send_reply [OF ok(1) call1 Inr] by auto
      define s3 where "s3 = set_client i (c\<lparr>sv_to_client := b1\<rparr>) (record_event ?e s1)"
      have call3: "called i key (c\<lparr>sv_to_client := b1\<rparr>) s3"
        unfolding s3_def using call1 b1(4) by (intro called_update) auto
      have run: "authentication_write os key s =
        (if k < length (contents (sv_to_client c)) then Some (state_id AUTH_WRITE, s3)
         else do { (st, s4) \<leftarrow> set_interest_key key OP_READ s3;
           Some (state_id (if st \<noteq> SELECTOR_SUCCESS then SOCKS_ERROR else REQ_READ), s4) })"
        using Inr nz b1(1,3) by (simp add: authentication_write_def start s3_def Let_def)
      have base: "hist s3 = hist s1 @ [?e]"
        "metrics_of (snd s3) = metrics_of (snd s)" "fst s3 = fst s"
        "client_at i s3 = Some (c\<lparr>sv_to_client := b1\<rparr>)"
        "\<And>j. j \<noteq> i \<Longrightarrow> client_at j s3 = client_at j s" "user_tab (snd s3) = user_tab (snd s)"
        using silentD [OF sil] by (auto simp: s3_def)
      have place: "same_place c (c\<lparr>sv_to_client := b1\<rparr>)" by (simp add: same_place_def)
      obtain sel' where sel': "set_interest_key key OP_READ s3 = Some (SELECTOR_SUCCESS, set_sel sel' s3)"
        "sel_inv sel'" "roles sel' = roles (fst s3)"
        "\<exists>it. registered sel' (key_fd key) = Some it \<and> item_interest it = OP_READ"
        using set_interest_key_called [OF call3] by blast
      have k3: "keeps i s s3"
        by (rule keeps_update [OF call _ _ base(4) b1(4) place]) (use base call in \<open>auto simp: called_def\<close>)
      have k4: "keeps i s (set_sel sel' s3)"
        by (rule keeps_update [OF call _ _ _ b1(4) place]) (use base sel' in auto)
      show ?thesis
      proof (cases "k < length (contents (sv_to_client c))")
        case True
        with run have "authentication_write os key s = Some (state_id AUTH_WRITE, s3)" by simp
        with sil Inr nz base k3 b1(2,5) True show ?thesis by (intro exI [of _ s1]) simp
      next
        case False
        with run sel'(1) have "authentication_write os key s = Some (state_id REQ_READ, set_sel sel' s3)"
          by simp
        with sil Inr nz base k4 b1(2,5) False sel'(4) show ?thesis by (intro exI [of _ s1]) simp
      qed
    qed
  qed
qed

end
