(* ===== verification/Copy.thy ===== *)
theory Copy
  imports Handshake
begin

text \<open>
  \<open>src/server/copy.c\<close>: the relay between the client and the origin server. The pointer to
  the buffer to fill or to drain is a \<open>direction\<close>. \<open>handle_read_data\<close> ends with an event of
  the client's own state machine, \<open>stm_handler_write(&data->stm, &target_key)\<close>, whose table
  contains the handlers of this file: that call is the argument \<open>write_event\<close>, supplied in
  the theory of \<open>socks5.c\<close>. A \<open>size_t\<close> or \<open>ssize_t\<close> result of -1 is \<open>Inl\<close> of the error.

  The lemmas show that the handlers return, and that bytes are relayed unchanged and in order:
  what was received on one side is what was sent on the other followed by what is still
  buffered.
\<close>

datatype direction = Client_to_sv | Sv_to_client

primrec buf_of :: "direction \<Rightarrow> client_data \<Rightarrow> buffer" where
  "buf_of Client_to_sv c = client_to_sv c"
| "buf_of Sv_to_client c = sv_to_client c"

primrec put_buf :: "direction \<Rightarrow> buffer \<Rightarrow> client_data \<Rightarrow> client_data" where
  "put_buf Client_to_sv b c = c\<lparr>client_to_sv := b\<rparr>"
| "put_buf Sv_to_client b c = c\<lparr>sv_to_client := b\<rparr>"

text \<open>A change of interest whose result is dropped.\<close>

definition try_interest :: "int \<Rightarrow> u32 \<Rightarrow> st \<Rightarrow> st option" where
  "try_interest fd op s = map_option snd (set_interest fd op s)"

text \<open>The same under an \<open>if\<close>.\<close>

definition interest_if :: "bool \<Rightarrow> int \<Rightarrow> u32 \<Rightarrow> st \<Rightarrow> st option" where
  "interest_if b fd op s = (if b then try_interest fd op s else Some s)"

definition would_block :: "errno \<Rightarrow> bool" where
  "would_block e \<longleftrightarrow> e = EAGAIN \<or> e = EWOULDBLOCK"

text \<open>Both sides have ended and nothing is left to send.\<close>

definition all_done :: "client_data \<Rightarrow> bool" where
  "all_done c \<longleftrightarrow> (client_eof c \<and> \<not> buffer_can_read (client_to_sv c))
     \<and> (origin_eof c \<and> \<not> buffer_can_read (sv_to_client c))"

section \<open>Reading\<close>

type_synonym event_handler = "nat \<Rightarrow> key \<Rightarrow> st \<Rightarrow> (nat \<times> st) option"

definition handle_read_data ::
  "event_handler \<Rightarrow> key \<Rightarrow> nat \<Rightarrow> errno + nat \<Rightarrow> direction \<Rightarrow> int \<Rightarrow> bool \<Rightarrow> st \<Rightarrow> (nat \<times> st) option" where
  "handle_read_data write_event key i n buffer_to_fill target_fd target_eof s = do {
     c \<leftarrow> client_at i s;
     case n of
       Inl e \<Rightarrow> Some (state_id (if would_block e then COPY else SOCKS_ERROR), s)
     | Inr n \<Rightarrow>
         if n = 0 then do {
           let s1 = record_event (Shutdown_RD (key_fd key)) s;
           let (c2, s2) =
             (if key_fd key = client_fd c then
                let c1 = c\<lparr>client_eof := True\<rparr>
                in if \<not> buffer_can_read (client_to_sv c1) \<and> \<not> origin_eof c1
                   then (c1\<lparr>origin_eof := True\<rparr>, record_event (Shutdown_WR (origin_fd c1)) s1)
                   else (c1, s1)
              else
                let c1 = c\<lparr>origin_eof := True\<rparr>
                in if \<not> buffer_can_read (sv_to_client c1) \<and> \<not> client_eof c1
                   then (c1\<lparr>client_eof := True\<rparr>, record_event (Shutdown_WR (client_fd c1)) s1)
                   else (c1, s1));
           Some (state_id (if all_done c2 then SOCKS_DONE else COPY), set_client i c2 s2) }
         else do {
           b1 \<leftarrow> buffer_write_adv (buf_of buffer_to_fill c) (int n);
           let s1 = set_client i (put_buf buffer_to_fill b1 c) s;
           if \<not> target_eof then do {
             s2 \<leftarrow> try_interest target_fd OP_WRITE s1;
             target_key \<leftarrow> get_key_with_offset (fst s2) target_fd;
             write_event i target_key s2 }
           else Some (state_id COPY, s1) } }"

definition copy_read :: "event_handler \<Rightarrow> os \<Rightarrow> key \<Rightarrow> st \<Rightarrow> (nat \<times> st) option" where
  "copy_read write_event os key s = do {
     i \<leftarrow> ATTACHMENT key;
     c \<leftarrow> client_at i s;
     (case (if key_fd key = client_fd c then Some (Client_to_sv, origin_fd c, origin_eof c)
            else if key_fd key = origin_fd c then Some (Sv_to_client, client_fd c, client_eof c)
            else None) of
        None \<Rightarrow> Some (state_id SOCKS_ERROR, s)
      | Some (buffer_to_fill, target_fd, target_eof) \<Rightarrow> do {
          (_, available_write_space) \<leftarrow> buffer_write_ptr (buf_of buffer_to_fill c);
          if available_write_space = 0 then Some (state_id COPY, s)
          else do {
            (r, s1) \<leftarrow> recv_buf os (key_fd key) (buf_of buffer_to_fill c) available_write_space s;
            case r of
              Inl e \<Rightarrow> handle_read_data write_event key i (Inl e) buffer_to_fill target_fd target_eof s1
            | Inr (n, b1) \<Rightarrow> handle_read_data write_event key i (Inr n) buffer_to_fill target_fd target_eof
                (set_client i (put_buf buffer_to_fill b1 c) s1) } }) }"

section \<open>Writing\<close>

definition handle_write_data ::
  "key \<Rightarrow> nat \<Rightarrow> errno + nat \<Rightarrow> direction \<Rightarrow> int \<Rightarrow> bool \<Rightarrow> st \<Rightarrow> (nat \<times> st) option" where
  "handle_write_data key i n buffer_to_drain source_fd source_eof s = do {
     c \<leftarrow> client_at i s;
     case n of
       Inl e \<Rightarrow> Some (state_id (if would_block e then COPY else SOCKS_ERROR), s)
     | Inr n \<Rightarrow>
         if n = 0 then Some (state_id SOCKS_ERROR, s)
         else do {
           b1 \<leftarrow> buffer_read_adv (buf_of buffer_to_drain c) (int n);
           let c1 = put_buf buffer_to_drain b1 c;
           let s1 = set_client i c1 s;
           s2 \<leftarrow> interest_if (\<not> source_eof \<and> buffer_can_write b1) source_fd OP_READ s1;
           if \<not> buffer_can_read b1 then do {
             s3 \<leftarrow> interest_if (key_fd key = origin_fd c1) (key_fd key) OP_READ s2;
             let s4 = (if source_eof then record_event (Shutdown_WR (key_fd key)) s3 else s3);
             if key_fd key = origin_fd c1 \<and> \<not> buffer_can_read (client_to_sv c1) \<and> client_eof c1
             then Some (state_id SOCKS_DONE, record_event (Shutdown_WR (origin_fd c1)) s4)
             else if key_fd key = client_fd c1 \<and> \<not> buffer_can_read (sv_to_client c1) \<and> client_eof c1
             then Some (state_id SOCKS_DONE,
               if \<not> origin_eof c1 then record_event (Shutdown_WR (origin_fd c1)) s4 else s4)
             else Some (state_id (if all_done c1 then SOCKS_DONE else COPY), s4) }
           else do {
             s3 \<leftarrow> try_interest (key_fd key) OP_WRITE s2;
             Some (state_id COPY, s3) } } }"

definition copy_write :: "os \<Rightarrow> key \<Rightarrow> st \<Rightarrow> (nat \<times> st) option" where
  "copy_write os key s = do {
     i \<leftarrow> ATTACHMENT key;
     c \<leftarrow> client_at i s;
     (case (if key_fd key = client_fd c then Some (Sv_to_client, origin_fd c, origin_eof c)
            else if key_fd key = origin_fd c then Some (Client_to_sv, client_fd c, client_eof c)
            else None) of
        None \<Rightarrow> Some (state_id SOCKS_ERROR, s)
      | Some (buffer_to_drain, source_fd, source_eof) \<Rightarrow> do {
          (_, available_read_data) \<leftarrow> buffer_read_ptr (buf_of buffer_to_drain c);
          if available_read_data = 0 then do {
            s1 \<leftarrow> try_interest (key_fd key) OP_READ s;
            let s2 = (if source_eof then record_event (Shutdown_WR (key_fd key)) s1 else s1);
            if key_fd key = client_fd c \<and> \<not> buffer_can_read (sv_to_client c) \<and> client_eof c
            then Some (state_id SOCKS_DONE,
              if \<not> origin_eof c then record_event (Shutdown_WR (origin_fd c)) s2 else s2)
            else Some (state_id (if all_done c then SOCKS_DONE else COPY), s2) }
          else do {
            (n, s1) \<leftarrow> send_buf os (key_fd key) (buf_of buffer_to_drain c) available_read_data s;
            let s2 = with_metrics (more_bytes (case n of Inl _ \<Rightarrow> -1 | Inr k \<Rightarrow> int k)) s1;
            handle_write_data key i n buffer_to_drain source_fd source_eof s2 } }) }"

section \<open>The relay invariant\<close>

text \<open>
  \<open>relayed i s s'\<close>: between the two states nothing was lost, made up or reordered in either
  direction of client \<open>i\<close>, and the rest of the client and of the selector is in order.
\<close>

definition current_valid :: "client_data \<Rightarrow> bool" where
  "current_valid c \<longleftrightarrow> (\<forall>x. stm_current (stm c) = Some x \<longrightarrow> x \<le> stm_max_state (stm c))"

lemma current_valid_frame [simp]:
  "current_valid (c\<lparr>client_to_sv := b\<rparr>) = current_valid c"
  "current_valid (c\<lparr>sv_to_client := b\<rparr>) = current_valid c"
  "current_valid (c\<lparr>client_eof := x\<rparr>) = current_valid c"
  "current_valid (c\<lparr>origin_eof := x\<rparr>) = current_valid c"
  by (simp_all add: current_valid_def)

definition same_fds :: "client_data \<Rightarrow> client_data \<Rightarrow> bool" where
  "same_fds c c' \<longleftrightarrow> client_fd c' = client_fd c \<and> origin_fd c' = origin_fd c
     \<and> handshake c' = handshake c \<and> username c' = username c
     \<and> origin_addr c' = origin_addr c \<and> current_origin_addr c' = current_origin_addr c
     \<and> stm_max_state (stm c') = stm_max_state (stm c) \<and> stm_initial (stm c') = stm_initial (stm c)
     \<and> (current_valid c \<longrightarrow> current_valid c')"

definition flows :: "client_data \<Rightarrow> client_data \<Rightarrow> history \<Rightarrow> bool" where
  "flows c c' es \<longleftrightarrow>
     contents (client_to_sv c) @ received (client_fd c) es = sent (origin_fd c) es @ contents (client_to_sv c')
   \<and> contents (sv_to_client c) @ received (origin_fd c) es = sent (client_fd c) es @ contents (sv_to_client c')"

definition relayed :: "nat \<Rightarrow> st \<Rightarrow> st \<Rightarrow> bool" where
  "relayed i s s' \<longleftrightarrow> (\<exists>c c' es. client_at i s = Some c \<and> client_at i s' = Some c'
       \<and> hist s' = hist s @ es \<and> flows c c' es \<and> client_ok c' \<and> same_fds c c')
     \<and> sel_inv (fst s') \<and> roles (fst s') = roles (fst s)
     \<and> (\<forall>j. j \<noteq> i \<longrightarrow> client_at j s' = client_at j s)"

lemma append_chain: "a @ b = c @ d \<Longrightarrow> d @ e = f @ g \<Longrightarrow> a @ b @ e = c @ f @ g"
  by (metis append_assoc)

lemma flows_trans:
  assumes "flows c c' es" and "flows c' c'' fs" and "same_fds c c'"
  shows "flows c c'' (es @ fs)"
proof -
  have "client_fd c' = client_fd c" "origin_fd c' = origin_fd c"
    using assms(3) by (simp_all add: same_fds_def)
  with assms(1,2) show ?thesis
    unfolding flows_def traffic_simps append_assoc by (auto intro: append_chain)
qed

lemma same_fds_trans: "same_fds c c' \<Longrightarrow> same_fds c' c'' \<Longrightarrow> same_fds c c''"
  by (simp add: same_fds_def)

lemma same_fds_refl [simp]: "same_fds c c"
  by (simp add: same_fds_def)

lemma flows_quiet: "\<forall>e \<in> set es. quiet e \<Longrightarrow>
    contents (client_to_sv c') = contents (client_to_sv c) \<Longrightarrow>
    contents (sv_to_client c') = contents (sv_to_client c) \<Longrightarrow> flows c c' es"
  using quiet_traffic [of es] by (simp add: flows_def)

lemma relayed_trans:
  assumes "relayed i s t" and "relayed i t u"
  shows "relayed i s u"
proof -
  from assms(1) obtain c c1 es where 1: "client_at i s = Some c" "client_at i t = Some c1"
    "hist t = hist s @ es" "flows c c1 es" "same_fds c c1" unfolding relayed_def by blast
  from assms(2) 1(2) obtain c2 fs where 2: "client_at i u = Some c2" "hist u = hist t @ fs"
    "flows c1 c2 fs" "client_ok c2" "same_fds c1 c2" unfolding relayed_def by auto
  have "flows c c2 (es @ fs)" using flows_trans 1 2 by blast
  moreover have "hist u = hist s @ es @ fs" using 1 2 by simp
  moreover have "same_fds c c2" using same_fds_trans 1 2 by blast
  ultimately show ?thesis using assms 1(1) 2 unfolding relayed_def by metis
qed

lemma relayed_refl:
  assumes "client_at i s = Some c" and "client_ok c" and "sel_inv (fst s)"
  shows "relayed i s s"
  using assms unfolding relayed_def
  by (intro conjI exI [of _ c] exI [of _ "[]"]) (auto simp: flows_def)

lemma relayed_event:
  assumes "relayed i s s'" and "quiet e"
  shows "relayed i s (record_event e s')"
proof -
  from assms obtain c c1 es where 1: "client_at i s = Some c" "client_at i s' = Some c1"
    "hist s' = hist s @ es" "flows c c1 es" "same_fds c c1" "client_ok c1" unfolding relayed_def by blast
  have "flows c c1 (es @ [e])"
    using flows_trans [OF 1(4) flows_quiet [of "[e]" c1 c1] 1(5)] assms(2) by simp
  with assms(1) 1 show ?thesis unfolding relayed_def by auto
qed

lemma relayed_sel:
  assumes "relayed i s s'" and "sel_inv sel'" and "roles sel' = roles (fst s')"
  shows "relayed i s (set_sel sel' s')"
  using assms unfolding relayed_def by auto

lemma relayed_metrics: "relayed i s (with_metrics f s') = relayed i s s'"
  unfolding relayed_def by simp

text \<open>A step with its own traffic on top of an unchanged selector.\<close>

lemma relayed_step:
  assumes "client_at i s = Some c" and "sel_inv (fst s)" and "client_ok c'" and "same_fds c c'"
    and "hist s' = hist s @ es" and "flows c c' es" and "client_at i s' = Some c'"
    and "fst s' = fst s" and "\<And>j. j \<noteq> i \<Longrightarrow> client_at j s' = client_at j s"
  shows "relayed i s s'"
  using assms unfolding relayed_def by auto

lemma relayed_interest:
  assumes "relayed i s s'" and "registered (fst s) fd \<noteq> None"
  shows "\<exists>sel'. try_interest fd op s' = Some (set_sel sel' s') \<and> relayed i s (set_sel sel' s')"
proof -
  have inv: "sel_inv (fst s')" "roles (fst s') = roles (fst s)"
    using assms(1) by (auto simp: relayed_def)
  then have "registered (fst s') fd \<noteq> None"
    using assms(2) roles_registered by metis
  then obtain it where it: "registered (fst s') fd = Some it" by auto
  from selector_set_interest_spec [OF inv(1) it, of op] obtain sel' where
    s: "selector_set_interest (fst s') fd op = Some (SELECTOR_SUCCESS, sel')" by blast
  from set_interest_roles [OF inv(1) s] have "relayed i s (set_sel sel' s')"
    by (intro relayed_sel [OF assms(1)]) auto
  with s show ?thesis by (auto simp: try_interest_def set_interest_def)
qed

section \<open>The write side\<close>

text \<open>The situation of the relay: two open, different, registered descriptors.\<close>

definition copying :: "nat \<Rightarrow> key \<Rightarrow> client_data \<Rightarrow> st \<Rightarrow> bool" where
  "copying i key c s \<longleftrightarrow> ATTACHMENT key = Some i \<and> client_at i s = Some c \<and> client_ok c
     \<and> sel_inv (fst s) \<and> client_fd c \<noteq> origin_fd c
     \<and> roles (fst s) (client_fd c) = Some (Some SOCKS5_HANDLER, Some (Client i))
     \<and> roles (fst s) (origin_fd c) = Some (Some SOCKS5_HANDLER, Some (Client i))
     \<and> (key_fd key = client_fd c \<or> key_fd key = origin_fd c)"

lemma copying_registered:
  "copying i key c s \<Longrightarrow> registered (fst s) (client_fd c) \<noteq> None \<and> registered (fst s) (origin_fd c) \<noteq> None
    \<and> registered (fst s) (key_fd key) \<noteq> None"
  unfolding copying_def by (metis option.distinct(1) roles_registered)

lemma client_ok_buf:
  "client_ok c \<Longrightarrow> buffer_inv (buf_of d c) \<and> buf_limit (buf_of d c) = BUFFER_SIZE"
  by (cases d) (simp_all add: client_ok_def)

lemma client_ok_put:
  "client_ok c \<Longrightarrow> buffer_inv b \<Longrightarrow> buf_limit b = BUFFER_SIZE \<Longrightarrow> client_ok (put_buf d b c)"
  by (cases d) (simp_all add: client_ok_def)

lemma put_buf_frame [simp]:
  "same_fds c (put_buf d b c)" "buf_of d (put_buf d b c) = b"
  "client_fd (put_buf d b c) = client_fd c" "origin_fd (put_buf d b c) = origin_fd c"
  "client_eof (put_buf d b c) = client_eof c" "origin_eof (put_buf d b c) = origin_eof c"
  by (cases d; simp add: same_fds_def)+

text \<open>Sending \<open>k\<close> bytes from the front of a buffer, and storing bytes behind it, are flows.\<close>

lemma flows_send:
  assumes "client_fd c \<noteq> origin_fd c" and "contents b = drop k (contents (buf_of d c))"
    and "fd = (case d of Client_to_sv \<Rightarrow> origin_fd c | Sv_to_client \<Rightarrow> client_fd c)"
  shows "flows c (put_buf d b c) [Send fd (contents (buf_of d c)) (Inr k)]"
  using assms by (cases d) (auto simp: flows_def)

lemma flows_recv:
  assumes "client_fd c \<noteq> origin_fd c" and "contents b = contents (buf_of d c) @ bs"
    and "fd = (case d of Client_to_sv \<Rightarrow> client_fd c | Sv_to_client \<Rightarrow> origin_fd c)"
  shows "flows c (put_buf d b c) [Recv fd (Inr bs)]"
  using assms by (cases d) (auto simp: flows_def)

lemma flows_failed:
  "flows c c [Send fd bs (Inl e)]" "flows c c [Recv fd (Inl e)]" "flows c c [Send fd bs (Inr 0)]"
  by (simp_all add: flows_def)

lemma quiet_shutdown [simp]: "quiet (Shutdown_WR fd)" "quiet (Shutdown_RD fd)"
  by (simp_all add: quiet_def)

lemma maybe_interest:
  assumes "relayed i s0 s" and "registered (fst s0) fd \<noteq> None"
  shows "\<exists>s2. interest_if b fd op s = Some s2 \<and> relayed i s0 s2"
  using relayed_interest [OF assms, of op] assms(1) by (cases b) (auto simp: interest_if_def)

text \<open>
  What follows a successful \<open>send\<close>: the interests and the \<open>shutdown\<close>s move no byte.
\<close>

lemma handle_write_data_spec:
  assumes call: "copying i key c s0" and at: "client_at i s = Some c"
    and r0: "n = 0 \<Longrightarrow> relayed i s0 s"
    and adv: "n \<noteq> 0 \<Longrightarrow> \<exists>b1. buffer_read_adv (buf_of d c) (int n) = Some b1
      \<and> relayed i s0 (set_client i (put_buf d b1 c) s)"
    and src: "registered (fst s0) source_fd \<noteq> None"
  shows "\<exists>ret s'. handle_write_data key i (Inr n) d source_fd source_eof s = Some (ret, s')
    \<and> ret \<in> state_id ` {COPY, SOCKS_DONE, SOCKS_ERROR} \<and> relayed i s0 s'"
proof (cases "n = 0")
  case True
  then show ?thesis using r0 at by (simp add: handle_write_data_def)
next
  case False
  with adv obtain b1 where b1: "buffer_read_adv (buf_of d c) (int n) = Some b1"
    "relayed i s0 (set_client i (put_buf d b1 c) s)" by blast
  define c1 where "c1 = put_buf d b1 c"
  define s1 where "s1 = set_client i c1 s"
  have keyreg: "registered (fst s0) (key_fd key) \<noteq> None" using copying_registered [OF call] by blast
  obtain s2 where s2: "interest_if (\<not> source_eof \<and> buffer_can_write b1) source_fd OP_READ s1 = Some s2" "relayed i s0 s2"
    using maybe_interest [OF b1(2) src] unfolding s1_def c1_def by blast
  obtain s3 where s3: "interest_if (key_fd key = origin_fd c1) (key_fd key) OP_READ s2 = Some s3" "relayed i s0 s3"
    using maybe_interest [OF s2(2) keyreg] by blast
  obtain s3' where s3': "try_interest (key_fd key) OP_WRITE s2 = Some s3'" "relayed i s0 s3'"
    using relayed_interest [OF s2(2) keyreg] by blast
  define s4 where "s4 = (if source_eof then record_event (Shutdown_WR (key_fd key)) s3 else s3)"
  have r4: "relayed i s0 s4" using s3(2) by (simp add: s4_def relayed_event)
  show ?thesis
  proof (cases "buffer_can_read b1")
    case True
    with False at b1(1) s2(1) s3' show ?thesis
      by (simp add: handle_write_data_def Let_def flip: c1_def s1_def)
  next
    case drained: False
    have run: "handle_write_data key i (Inr n) d source_fd source_eof s =
      (if key_fd key = origin_fd c1 \<and> \<not> buffer_can_read (client_to_sv c1) \<and> client_eof c1
       then Some (state_id SOCKS_DONE, record_event (Shutdown_WR (origin_fd c1)) s4)
       else if key_fd key = client_fd c1 \<and> \<not> buffer_can_read (sv_to_client c1) \<and> client_eof c1
       then Some (state_id SOCKS_DONE,
         if \<not> origin_eof c1 then record_event (Shutdown_WR (origin_fd c1)) s4 else s4)
       else Some (state_id (if all_done c1 then SOCKS_DONE else COPY), s4))"
      using False drained at b1(1) s2(1) s3(1)
      by (simp add: handle_write_data_def Let_def flip: c1_def s1_def s4_def)
    show ?thesis unfolding run using r4 by (auto intro: relayed_event)
  qed
qed

lemma copy_write_spec:
  assumes ok: "os_ok os" and call: "copying i key c s"
  shows "\<exists>ret s'. copy_write os key s = Some (ret, s')
    \<and> ret \<in> state_id ` {COPY, SOCKS_DONE, SOCKS_ERROR} \<and> relayed i s s'"
proof -
  have at: "ATTACHMENT key = Some i" "client_at i s = Some c" and cok: "client_ok c"
    and inv: "sel_inv (fst s)" and ne: "client_fd c \<noteq> origin_fd c"
    using call by (auto simp: copying_def)
  have keyreg: "registered (fst s) (key_fd key) \<noteq> None" using copying_registered [OF call] by blast
  define d where "d = (if key_fd key = client_fd c then Sv_to_client else Client_to_sv)"
  define sfd where "sfd = (if key_fd key = client_fd c then origin_fd c else client_fd c)"
  define seof where "seof = (if key_fd key = client_fd c then origin_eof c else client_eof c)"
  have route: "(if key_fd key = client_fd c then Some (Sv_to_client, origin_fd c, origin_eof c)
            else if key_fd key = origin_fd c then Some (Client_to_sv, client_fd c, client_eof c)
            else None) = Some (d, sfd, seof)"
    using call by (auto simp: copying_def d_def sfd_def seof_def)
  have src: "registered (fst s) sfd \<noteq> None" using copying_registered [OF call] by (simp add: sfd_def)
  have b: "buffer_inv (buf_of d c)" "buf_limit (buf_of d c) = BUFFER_SIZE"
    using client_ok_buf [OF cok] by auto
  have kd: "key_fd key = (case d of Client_to_sv \<Rightarrow> origin_fd c | Sv_to_client \<Rightarrow> client_fd c)"
    using call by (auto simp: copying_def d_def)
  have r0: "relayed i s s" by (rule relayed_refl [OF at(2) cok inv])
  show ?thesis
  proof (cases "contents (buf_of d c) = []")
    case True
    obtain sel1 where sel1: "try_interest (key_fd key) OP_READ s = Some (set_sel sel1 s)"
      "relayed i s (set_sel sel1 s)"
      using relayed_interest [OF r0 keyreg, of OP_READ] by auto
    define s2 where "s2 = (if seof then record_event (Shutdown_WR (key_fd key)) (set_sel sel1 s)
      else set_sel sel1 s)"
    have r2: "relayed i s s2" using sel1(2) by (simp add: s2_def relayed_event)
    have run: "copy_write os key s =
      (if key_fd key = client_fd c \<and> \<not> buffer_can_read (sv_to_client c) \<and> client_eof c
       then Some (state_id SOCKS_DONE,
         if \<not> origin_eof c then record_event (Shutdown_WR (origin_fd c)) s2 else s2)
       else Some (state_id (if all_done c then SOCKS_DONE else COPY), s2))"
      using True sel1(1) at
      by (simp add: copy_write_def route buffer_read_ptr_spec [OF b(1)] Let_def flip: s2_def)
    show ?thesis unfolding run using r2 by (auto intro: relayed_event)
  next
    case False
    define n where "n = os_send os (hist s) (key_fd key) (contents (buf_of d c))"
    define s1 where "s1 = record_event (Send (key_fd key) (contents (buf_of d c)) n) s"
    define s2 where "s2 = with_metrics (more_bytes (case n of Inl _ \<Rightarrow> -1 | Inr k \<Rightarrow> int k)) s1"
    have at2: "client_at i s2 = Some c" using at by (simp add: s2_def s1_def)
    have run: "copy_write os key s = handle_write_data key i n d sfd seof s2"
      using False at
      by (simp add: copy_write_def route buffer_read_ptr_spec [OF b(1)] send_buf_spec [OF b(1)]
          s2_def s1_def n_def Let_def)
    show ?thesis
    proof (cases n)
      case (Inl e)
      have "relayed i s s2"
        by (rule relayed_step [OF at(2) inv cok _ _ flows_failed(1) at2])
          (auto simp: s2_def s1_def Inl)
      with Inl at2 run show ?thesis by (simp add: handle_write_data_def)
    next
      case (Inr k)
      have k: "k \<le> length (contents (buf_of d c))"
        using os_send_le [OF ok] Inr by (simp add: n_def)
      obtain b1 where b1: "buffer_read_adv (buf_of d c) (int k) = Some b1" "buffer_inv b1"
        "contents b1 = drop k (contents (buf_of d c))" "buf_limit b1 = BUFFER_SIZE"
        using buffer_read_adv_spec [OF b(1) k] b(2) by auto
      have moved: "relayed i s (set_client i (put_buf d b1 c) s2)"
        by (rule relayed_step [OF at(2) inv client_ok_put [OF cok b1(2,4)] _ _ flows_send [OF ne b1(3) kd]])
          (auto simp: s2_def s1_def Inr)
      have start: "relayed i s s2" if "k = 0"
        by (rule relayed_step [OF at(2) inv cok _ _ flows_failed(3) at2])
          (auto simp: s2_def s1_def Inr that)
      show ?thesis
      proof (cases "k = 0")
        case True
        with start at2 run Inr show ?thesis by (simp add: handle_write_data_def)
      next
        case nz: False
        have "\<exists>ret s'. handle_write_data key i (Inr k) d sfd seof s2 = Some (ret, s')
          \<and> ret \<in> state_id ` {COPY, SOCKS_DONE, SOCKS_ERROR} \<and> relayed i s s'"
          by (rule handle_write_data_spec [OF call at2]) (use nz b1(1) moved src in auto)
        with run Inr show ?thesis by simp
      qed
    qed
  qed
qed

section \<open>The read side\<close>

text \<open>The machine is in the state \<open>COPY\<close>.\<close>

definition in_copy :: "client_data \<Rightarrow> bool" where
  "in_copy c \<longleftrightarrow> stm_current (stm c) = Some (state_id COPY) \<and> stm_max_state (stm c) = state_id SOCKS_ERROR"

lemma in_copy_put [simp]: "in_copy (put_buf d b c) = in_copy c"
  by (cases d) (simp_all add: in_copy_def)

text \<open>The key the selector keeps for the other descriptor belongs to the same client.\<close>

lemma get_key_role:
  assumes "sel_inv sel" and "roles sel fd = Some (h, d)"
  shows "get_key_with_offset sel fd = Some \<lparr>key_fd = fd, key_data = d\<rparr>"
proof -
  from assms(2) obtain it where it: "registered sel fd = Some it" "item_data it = d"
    by (auto simp: roles_def)
  from registered_SomeD [OF it(1)] sel_invD(1) [OF assms(1) it(1)] it(2) show ?thesis
    by (auto simp: get_key_with_offset_def fd_size_def)
qed

text \<open>End of file only sets the two flags.\<close>

definition same_queues :: "client_data \<Rightarrow> client_data \<Rightarrow> bool" where
  "same_queues c c' \<longleftrightarrow> same_fds c c' \<and> client_to_sv c' = client_to_sv c \<and> sv_to_client c' = sv_to_client c"

lemma relayed_flags:
  assumes "relayed i s s'" and "client_at i s' = Some c" and "client_ok c" and "same_queues c c'"
  shows "relayed i s (set_client i c' s')"
proof (rule relayed_trans [OF assms(1)])
  have "client_ok c'" using assms(3,4) by (simp add: same_queues_def same_fds_def client_ok_def)
  then show "relayed i s' (set_client i c' s')"
    by (intro relayed_step [OF assms(2), of c' _ "[]"])
      (use assms in \<open>auto simp: relayed_def flows_def same_queues_def\<close>)
qed

lemma handle_read_end:
  assumes "client_at i s = Some c"
  shows "\<exists>c' s'. handle_read_data write_event key i (Inr 0) d tfd teof s =
      Some (state_id (if all_done c' then SOCKS_DONE else COPY), set_client i c' s')
    \<and> same_queues c c'
    \<and> (s' = record_event (Shutdown_RD (key_fd key)) s
       \<or> (\<exists>z. s' = record_event (Shutdown_WR z) (record_event (Shutdown_RD (key_fd key)) s)))"
proof -
  define s1 where "s1 = record_event (Shutdown_RD (key_fd key)) s"
  define P where "P = (if key_fd key = client_fd c then
      let c1 = c\<lparr>client_eof := True\<rparr>
      in if \<not> buffer_can_read (client_to_sv c1) \<and> \<not> origin_eof c1
         then (c1\<lparr>origin_eof := True\<rparr>, record_event (Shutdown_WR (origin_fd c1)) s1)
         else (c1, s1)
    else
      let c1 = c\<lparr>origin_eof := True\<rparr>
      in if \<not> buffer_can_read (sv_to_client c1) \<and> \<not> client_eof c1
         then (c1\<lparr>client_eof := True\<rparr>, record_event (Shutdown_WR (client_fd c1)) s1)
         else (c1, s1))"
  obtain c' s' where p: "P = (c', s')" by (meson surj_pair)
  have "same_queues c c' \<and> (s' = s1 \<or> (\<exists>z. s' = record_event (Shutdown_WR z) s1))"
    using p by (auto simp: P_def same_queues_def same_fds_def Let_def split: if_splits)
  moreover have "handle_read_data write_event key i (Inr 0) d tfd teof s =
      Some (state_id (if all_done c' then SOCKS_DONE else COPY), set_client i c' s')"
    unfolding handle_read_data_def using assms p
    by (simp add: Let_def [of "record_event (Shutdown_RD (key_fd key)) s"] flip: s1_def P_def)
  ultimately show ?thesis unfolding s1_def by blast
qed

text \<open>
  What \<open>copy_read\<close> relies on when it hands the received bytes to the client's state machine:
  the write event returns and relays.
\<close>

locale write_sink =
  fixes write_event :: event_handler and os :: os
  assumes sink: "os_ok os \<Longrightarrow> mallocs_ok os \<Longrightarrow> copying i key c s \<Longrightarrow> in_copy c \<Longrightarrow>
    \<exists>ret s'. write_event i key s = Some (ret, s')
      \<and> ret \<in> state_id ` {COPY, SOCKS_DONE, SOCKS_ERROR} \<and> relayed i s s'"
begin

lemma sink_after:
  assumes ok: "os_ok os" "mallocs_ok os" and call: "copying i key c s0" and r: "relayed i s0 s"
    and at: "client_at i s = Some c1" and cp: "in_copy c1"
    and t: "t = client_fd c \<or> t = origin_fd c"
  shows "\<exists>s2 tk ret s'. try_interest t OP_WRITE s = Some s2 \<and> get_key_with_offset (fst s2) t = Some tk
    \<and> write_event i tk s2 = Some (ret, s')
    \<and> ret \<in> state_id ` {COPY, SOCKS_DONE, SOCKS_ERROR} \<and> relayed i s0 s'"
proof -
  have reg: "registered (fst s0) t \<noteq> None" using copying_registered [OF call] t by auto
  obtain sel' where s2: "try_interest t OP_WRITE s = Some (set_sel sel' s)" "relayed i s0 (set_sel sel' s)"
    using relayed_interest [OF r reg] by blast
  then have sel': "sel_inv sel'" "roles sel' = roles (fst s0)" by (auto simp: relayed_def)
  have role: "roles sel' t = Some (Some SOCKS5_HANDLER, Some (Client i))"
    using sel'(2) call t by (auto simp: copying_def)
  note key = get_key_role [OF sel'(1) role]
  from r at call have c1: "client_ok c1" "same_fds c c1" by (auto simp: relayed_def copying_def)
  then have "copying i \<lparr>key_fd = t, key_data = Some (Client i)\<rparr> c1 (set_sel sel' s)"
    using call at sel' t by (auto simp: copying_def ATTACHMENT_def same_fds_def)
  from sink [OF ok this cp] obtain ret s' where
    "write_event i \<lparr>key_fd = t, key_data = Some (Client i)\<rparr> (set_sel sel' s) = Some (ret, s')"
    "ret \<in> state_id ` {COPY, SOCKS_DONE, SOCKS_ERROR}" "relayed i (set_sel sel' s) s'" by blast
  with s2 key relayed_trans show ?thesis by (metis fst_conv set_sel_def)
qed

lemma copy_read_spec:
  assumes ok: "os_ok os" "mallocs_ok os" and call: "copying i key c s" and cp: "in_copy c"
  shows "\<exists>ret s'. copy_read write_event os key s = Some (ret, s')
    \<and> ret \<in> state_id ` {COPY, SOCKS_DONE, SOCKS_ERROR} \<and> relayed i s s'"
proof -
  have at: "ATTACHMENT key = Some i" "client_at i s = Some c" and cok: "client_ok c"
    and inv: "sel_inv (fst s)" and ne: "client_fd c \<noteq> origin_fd c"
    using call by (auto simp: copying_def)
  define d where "d = (if key_fd key = client_fd c then Client_to_sv else Sv_to_client)"
  define tfd where "tfd = (if key_fd key = client_fd c then origin_fd c else client_fd c)"
  define teof where "teof = (if key_fd key = client_fd c then origin_eof c else client_eof c)"
  have route: "(if key_fd key = client_fd c then Some (Client_to_sv, origin_fd c, origin_eof c)
            else if key_fd key = origin_fd c then Some (Sv_to_client, client_fd c, client_eof c)
            else None) = Some (d, tfd, teof)"
    using call by (auto simp: copying_def d_def tfd_def teof_def)
  have t: "tfd = client_fd c \<or> tfd = origin_fd c" by (simp add: tfd_def)
  have b: "buffer_inv (buf_of d c)" "buf_limit (buf_of d c) = BUFFER_SIZE"
    using client_ok_buf [OF cok] by auto
  have kd: "key_fd key = (case d of Client_to_sv \<Rightarrow> client_fd c | Sv_to_client \<Rightarrow> origin_fd c)"
    using call by (auto simp: copying_def d_def)
  have r0: "relayed i s s" by (rule relayed_refl [OF at(2) cok inv])
  note start = copy_read_def route buffer_write_ptr_spec [OF b(1)] at
  show ?thesis
  proof (cases "room (buf_of d c) = 0")
    case True
    with r0 show ?thesis by (simp add: start)
  next
    case False
    define x where "x = os_recv os (hist s) (key_fd key) (room (buf_of d c))"
    define s1 where "s1 = record_event (Recv (key_fd key) x) s"
    from recv_buf_spec [OF ok(1) b(1), of "key_fd key" s] obtain r where
      r: "recv_buf os (key_fd key) (buf_of d c) (room (buf_of d c)) s = Some (r, s1)"
      and rc: "case x of Inl e \<Rightarrow> r = Inl e
       | Inr bs \<Rightarrow> \<exists>b1 b2. r = Inr (length bs, b1) \<and> buffer_write_adv b1 (int (length bs)) = Some b2
           \<and> buffer_inv b2 \<and> contents b2 = contents (buf_of d c) @ bs
           \<and> buf_limit b2 = buf_limit (buf_of d c) \<and> room b2 = room (buf_of d c) - length bs"
      unfolding x_def s1_def by blast
    show ?thesis
    proof (cases x)
      case (Inl e)
      with rc have "r = Inl e" by simp
      have "relayed i s s1"
        by (rule relayed_step [OF at(2) inv cok _ _ flows_failed(2)]) (auto simp: s1_def Inl at)
      with r \<open>r = Inl e\<close> False at show ?thesis
        by (simp add: start handle_read_data_def s1_def)
    next
      case (Inr bs)
      with rc obtain b1 b2 where b12: "r = Inr (length bs, b1)"
        "buffer_write_adv b1 (int (length bs)) = Some b2" "buffer_inv b2"
        "contents b2 = contents (buf_of d c) @ bs" "buf_limit b2 = BUFFER_SIZE" using b(2) by auto
      define s2 where "s2 = set_client i (put_buf d b1 c) s1"
      have run: "copy_read write_event os key s =
        handle_read_data write_event key i (Inr (length bs)) d tfd teof s2"
        using r b12(1) False by (simp add: start s2_def)
      show ?thesis
      proof (cases "bs = []")
        case eof: True
        have b1: "b1 = b2" "contents b1 = contents (buf_of d c)"
          using eof b12(2,4) by (auto simp: buffer_write_adv_def bind_eq_Some_conv)
        define c0 where "c0 = put_buf d b1 c"
        define sR where "sR = record_event (Shutdown_RD (key_fd key)) s2"
        have c0: "client_ok c0" "same_fds c c0" "client_at i s2 = Some c0"
          using client_ok_put [OF cok b12(3,5)] b1(1) by (auto simp: c0_def s2_def)
        have f0: "flows c c0 [Recv (key_fd key) (Inr bs)]"
          unfolding c0_def using flows_recv [OF ne _ kd, of b1 bs] eof b1(2) by simp
        have rr: "relayed i s s2"
          by (rule relayed_step [OF at(2) inv c0(1,2) _ f0 c0(3)]) (auto simp: s2_def s1_def Inr)
        have rR: "relayed i s sR" using rr by (simp add: sR_def relayed_event)
        have atR: "client_at i sR = Some c0" using c0(3) by (simp add: sR_def)
        have fin: "relayed i s (set_client i c' s')"
          if "s' = sR \<or> s' = record_event (Shutdown_WR z) sR" "same_queues c0 c'" for c' s' z
          by (rule relayed_flags [OF _ _ c0(1) that(2)]) (use that rR atR in \<open>auto intro: relayed_event\<close>)
        obtain c' s' where e: "handle_read_data write_event key i (Inr 0) d tfd teof s2 =
            Some (state_id (if all_done c' then SOCKS_DONE else COPY), set_client i c' s')"
          "same_queues c0 c'" "s' = sR \<or> (\<exists>z. s' = record_event (Shutdown_WR z) sR)"
          using handle_read_end [OF c0(3), of write_event key d tfd teof] unfolding sR_def by blast
        then have "relayed i s (set_client i c' s')" using fin by blast
        with run eof e(1) show ?thesis by auto
      next
        case ne': False
        define c2 where "c2 = put_buf d b2 c"
        define s3 where "s3 = set_client i c2 s2"
        have c2: "client_ok c2" "same_fds c c2" "client_at i s3 = Some c2" "in_copy c2"
          using client_ok_put [OF cok b12(3,5)] cp by (auto simp: c2_def s3_def)
        have moved: "relayed i s s3"
          by (rule relayed_step [OF at(2) inv c2(1,2) _ flows_recv [OF ne b12(4) kd, folded c2_def] c2(3)])
            (auto simp: s3_def s2_def s1_def Inr)
        have twice: "put_buf d b2 (put_buf d b1 c) = c2" by (cases d) (simp_all add: c2_def)
        have "handle_read_data write_event key i (Inr (length bs)) d tfd teof s2 =
          (if \<not> teof then do {
             sA \<leftarrow> try_interest tfd OP_WRITE s3;
             target_key \<leftarrow> get_key_with_offset (fst sA) tfd;
             write_event i target_key sA }
           else Some (state_id COPY, s3))"
          using ne' b12(2) by (simp add: handle_read_data_def s2_def s3_def twice Let_def)
        with run sink_after [OF ok call moved c2(3,4) t] moved show ?thesis by auto
      qed
    qed
  qed
qed

end

text \<open>
  Without an origin, as after a refused request, the first bytes of the client crash the
  server: \<open>get_key_with_offset\<close> reads before the table.
\<close>

lemma copy_read_no_origin:
  assumes "ATTACHMENT key = Some i" and "client_at i s = Some c" and "client_ok c"
    and "origin_fd c = -1" and "key_fd key = client_fd c" and "\<not> origin_eof c"
    and "0 < room (client_to_sv c)" and "os_ok os"
    and "os_recv os (hist s) (key_fd key) (room (client_to_sv c)) = Inr bs" and "bs \<noteq> []"
  shows "copy_read write_event os key s = None"
proof -
  have inv: "buffer_inv (client_to_sv c)" using assms(3) by (simp add: client_ok_def)
  obtain b1 b2 where b: "recv_buf os (key_fd key) (client_to_sv c) (room (client_to_sv c)) s =
      Some (Inr (length bs, b1), record_event (Recv (key_fd key) (Inr bs)) s)"
    "buffer_write_adv b1 (int (length bs)) = Some b2"
    using recv_buf_spec [OF assms(8) inv, of "key_fd key" s] assms(9) by auto
  show ?thesis
    using assms b
    by (simp add: copy_read_def buffer_write_ptr_spec [OF inv] handle_read_data_def Let_def
        try_interest_def set_interest_def selector_set_interest_def INVALID_FD_def get_key_with_offset_def)
qed

end
