(* ===== verification/Request.thy ===== *)
theory Request
  imports Copy
begin

text \<open>
  \<open>src/server/request.c\<close>: the request of the client, the resolver thread, and the connection
  to the origin server.

  \<open>selector_unregister_fd\<close> calls back into \<open>socks5.c\<close>, so it is the argument \<open>unregister\<close>,
  supplied in the theory of that file. The addresses still to be tried are the list
  \<open>current_origin_addr\<close>, on which \<open>initiate_origin_connection\<close> recurses. The thread that
  \<open>pthread_create\<close> starts is an entry of \<open>threads\<close>; \<open>resolver_step\<close> runs it to its end.
\<close>

type_synonym unregister = "int \<Rightarrow> st \<Rightarrow> (selector_status \<times> st) option"

definition request_read_init :: "nat \<Rightarrow> key \<Rightarrow> st \<Rightarrow> st option" where
  "request_read_init st key s = do {
     i \<leftarrow> ATTACHMENT key;
     c \<leftarrow> client_at i s;
     rp \<leftarrow> as_req (handshake c);
     Some (set_client i (c\<lparr>handshake := Request (initialize_request_parser rp)\<rparr>) s) }"

text \<open>In the later states the union holds the request.\<close>

definition the_req :: "handshake \<Rightarrow> req_parser option" where
  "the_req h = (case h of Request rp \<Rightarrow> Some rp | _ \<Rightarrow> None)"

definition req_generate_response_error :: "key \<Rightarrow> connection_status \<Rightarrow> st \<Rightarrow> (nat \<times> st) option" where
  "req_generate_response_error key msg s = do {
     i \<leftarrow> ATTACHMENT key;
     c \<leftarrow> client_at i s;
     rp \<leftarrow> the_req (handshake c);
     let rp1 = rp\<lparr>req_state := REQ_ERROR, con_status := msg\<rparr>;
     let c1 = c\<lparr>handshake := Request rp1\<rparr>;
     (st, s1) \<leftarrow> set_interest_key key OP_WRITE (set_client i c1 s);
     if st \<noteq> SELECTOR_SUCCESS then Some (state_id SOCKS_ERROR, s1)
     else do {
       (err, b) \<leftarrow> req_generate_response rp1 (sv_to_client c1) dummy_bnd_addr;
       let s2 = set_client i (c1\<lparr>sv_to_client := b\<rparr>) s1;
       Some (state_id (if err then SOCKS_ERROR else REQ_WRITE), s2) } }"

section \<open>Connecting\<close>

definition sys_socket :: "os \<Rightarrow> addrinfo \<Rightarrow> st \<Rightarrow> int option \<times> st" where
  "sys_socket os a s =
     (let r = os_socket os (hist s) (ai_family a) (ai_socktype a) (ai_protocol a)
      in (r, record_event (Socket (ai_family a) (ai_socktype a) (ai_protocol a) r) s))"

definition sys_connect :: "os \<Rightarrow> int \<Rightarrow> sockaddr \<Rightarrow> st \<Rightarrow> errno option \<times> st" where
  "sys_connect os fd a s =
     (let r = os_connect os (hist s) fd a in (r, record_event (Connect fd a r) s))"

definition sys_getsockname :: "os \<Rightarrow> int \<Rightarrow> st \<Rightarrow> sockaddr option \<times> st" where
  "sys_getsockname os fd s =
     (let r = os_getsockname os (hist s) fd in (r, record_event (Getsockname fd r) s))"

definition sys_getsockopt :: "os \<Rightarrow> int \<Rightarrow> st \<Rightarrow> int option \<times> st" where
  "sys_getsockopt os fd s =
     (let r = os_getsockopt os (hist s) fd in (r, record_event (Getsockopt fd r) s))"

text \<open>
  The start of \<open>initiate_origin_connection\<close>. The close callback has already closed the
  descriptor and set the field to -1, so the \<open>close\<close> that follows is \<open>close(-1)\<close>.
\<close>

definition drop_origin :: "unregister \<Rightarrow> nat \<Rightarrow> st \<Rightarrow> st option" where
  "drop_origin unregister i s = do {
     c \<leftarrow> client_at i s;
     if origin_fd c \<noteq> -1 then do {
       (_, s1) \<leftarrow> unregister (origin_fd c) s;
       c1 \<leftarrow> client_at i s1;
       let s2 = record_event (Close (origin_fd c1)) s1;
       Some (set_client i (c1\<lparr>origin_fd := -1\<rparr>) s2) }
     else Some s }"

text \<open>A failed attempt: \<open>origin_fd = -1; current_origin_addr = address->ai_next\<close>.\<close>

definition next_address :: "nat \<Rightarrow> addrinfo list \<Rightarrow> bool \<Rightarrow> st \<Rightarrow> st option" where
  "next_address i rest closed s = do {
     c \<leftarrow> client_at i s;
     let s1 = (if closed then record_event (Close (origin_fd c)) s else s);
     Some (set_client i (c\<lparr>origin_fd := -1, current_origin_addr := rest\<rparr>) s1) }"

text \<open>\<open>connect\<close> has succeeded at once.\<close>

definition connected_at_once :: "os \<Rightarrow> key \<Rightarrow> nat \<Rightarrow> st \<Rightarrow> (nat \<times> st) option" where
  "connected_at_once os key i s = do {
     c \<leftarrow> client_at i s;
     rp \<leftarrow> the_req (handshake c);
     let rp1 = rp\<lparr>con_status := CON_SUCCEEDED\<rparr>;
     let c1 = c\<lparr>handshake := Request rp1\<rparr>;
     let (name, s1) = sys_getsockname os (origin_fd c) (set_client i c1 s);
     case name of
       None \<Rightarrow> Some (state_id SOCKS_ERROR, s1)
     | Some bnd_addr \<Rightarrow> do {
         (err, b) \<leftarrow> req_generate_response rp1 (sv_to_client c1) bnd_addr;
         let s2 = set_client i (c1\<lparr>sv_to_client := b\<rparr>) s1;
         if err then Some (state_id SOCKS_ERROR, s2)
         else do {
           (st, s3) \<leftarrow> set_interest_key key OP_WRITE s2;
           if st \<noteq> SELECTOR_SUCCESS then Some (state_id SOCKS_ERROR, s3)
           else do {
             (st1, s4) \<leftarrow> set_interest (origin_fd c) OP_READ s3;
             Some (state_id (if st1 \<noteq> SELECTOR_SUCCESS then SOCKS_ERROR else REQ_CONNECT), s4) } } } }"

fun initiate_from :: "unregister \<Rightarrow> os \<Rightarrow> key \<Rightarrow> nat \<Rightarrow> addrinfo list \<Rightarrow> st \<Rightarrow> (nat \<times> st) option" where
  "initiate_from unregister os key i [] s = do {
     s1 \<leftarrow> drop_origin unregister i s;
     c \<leftarrow> client_at i s1;
     req_generate_response_error key CON_HOST_UNREACHABLE (set_client i (c\<lparr>origin_fd := -1\<rparr>) s1) }"
| "initiate_from unregister os key i (address # ai_next) s = do {
     s1 \<leftarrow> drop_origin unregister i s;
     c \<leftarrow> client_at i s1;
     let (sock, s2) = sys_socket os address s1;
     case sock of
       None \<Rightarrow> do {
         s3 \<leftarrow> next_address i ai_next False s2;
         initiate_from unregister os key i ai_next s3 }
     | Some fd \<Rightarrow> do {
         let s3 = set_client i (c\<lparr>origin_fd := fd\<rparr>) s2;
         let (nio, s4) = sys_set_nio os fd s3;
         if nio = -1 then do {
           s5 \<leftarrow> next_address i ai_next True s4;
           initiate_from unregister os key i ai_next s5 }
         else do {
           (st, s5) \<leftarrow> register os fd SOCKS5_HANDLER OP_NOOP (Some (Client i)) s4;
           if st \<noteq> SELECTOR_SUCCESS then do {
             s6 \<leftarrow> next_address i ai_next True s5;
             initiate_from unregister os key i ai_next s6 }
           else do {
             let (connection_result, s6) = sys_connect os fd (ai_addr address) s5;
             case connection_result of
               None \<Rightarrow> connected_at_once os key i s6
             | Some e \<Rightarrow>
                 if e = EINPROGRESS then do {
                   (st1, s7) \<leftarrow> set_interest fd OP_WRITE s6;
                   if st1 \<noteq> SELECTOR_SUCCESS then Some (state_id SOCKS_ERROR, s7)
                   else do {
                     (st2, s8) \<leftarrow> set_interest_key key OP_NOOP s7;
                     Some (state_id (if st2 \<noteq> SELECTOR_SUCCESS then SOCKS_ERROR else REQ_CONNECT), s8) } }
                 else do {
                   c6 \<leftarrow> client_at i s6;
                   initiate_from unregister os key i ai_next
                     (set_client i (c6\<lparr>current_origin_addr := ai_next\<rparr>) s6) } } } } }"

definition initiate_origin_connection :: "unregister \<Rightarrow> os \<Rightarrow> key \<Rightarrow> st \<Rightarrow> (nat \<times> st) option" where
  "initiate_origin_connection unregister os key s = do {
     i \<leftarrow> ATTACHMENT key;
     c \<leftarrow> client_at i s;
     initiate_from unregister os key i (current_origin_addr c) s }"

section \<open>Reading the request\<close>

text \<open>
  The two branches of \<open>handle_request\<close> for an IP address: \<open>malloc\<close> of the socket address and
  \<open>calloc\<close> of the \<open>addrinfo\<close>, with the sizes of the structs.
\<close>

definition connect_to_ip ::
  "unregister \<Rightarrow> os \<Rightarrow> key \<Rightarrow> nat \<Rightarrow> nat \<Rightarrow> string \<Rightarrow> int \<Rightarrow> sockaddr \<Rightarrow> st \<Rightarrow> (nat \<times> st) option" where
  "connect_to_ip unregister os key i nbytes msg family addr s = do {
     let (m1, s1) = sys_malloc os nbytes s;
     if \<not> m1 then do {
       s2 \<leftarrow> log_msg os ERROR msg s1;
       req_generate_response_error key CON_SERVER_FAILURE s2 }
     else do {
       let (m2, s2) = sys_malloc os 48 s1;
       c \<leftarrow> client_at i s2;
       if \<not> m2 then do {
         s3 \<leftarrow> log_msg os ERROR ''Failed to allocate server address struct''
                 (set_client i (c\<lparr>origin_addr := []\<rparr>) s2);
         req_generate_response_error key CON_SERVER_FAILURE s3 }
       else do {
         let info = \<lparr>ai_family = family, ai_socktype = SOCK_STREAM, ai_protocol = 0, ai_addr = addr\<rparr>;
         initiate_origin_connection unregister os key
           (set_client i (c\<lparr>origin_addr := [info], current_origin_addr := [info]\<rparr>) s2) } } }"

text \<open>
  The test is \<open>pthread_create(...) == -1\<close>, but the function answers a positive number when it
  fails: then no thread runs and the code goes on as if one did.
\<close>

definition start_resolver :: "os \<Rightarrow> key \<Rightarrow> nat \<Rightarrow> st \<Rightarrow> (nat \<times> st) option" where
  "start_resolver os key i s = do {
     let (m, s1) = sys_malloc os 24 s;
     if \<not> m then do {
       s2 \<leftarrow> log_msg os ERROR ''Failed to allocate job struct'' s1;
       req_generate_response_error key CON_SERVER_FAILURE s2 }
     else do {
       let r = os_pthread_create os (hist s1);
       let s2 = record_event (Pthread_create r) s1;
       if r = -1 then do {
         s3 \<leftarrow> log_msg os ERROR ''Failed to create thread'' s2;
         req_generate_response_error key CON_SERVER_FAILURE s3 }
       else do {
         let job = \<lparr>rj_client_fd = key_fd key, rj_client = i\<rparr>;
         let s3 = (if r = 0 then (fst s2, (snd s2)\<lparr>threads := threads (snd s2) @ [job]\<rparr>) else s2);
         (st, s4) \<leftarrow> set_interest_key key OP_NOOP s3;
         Some (state_id (if st \<noteq> SELECTOR_SUCCESS then SOCKS_ERROR else REQ_RESOLVE), s4) } } }"

definition handle_request :: "unregister \<Rightarrow> os \<Rightarrow> key \<Rightarrow> st \<Rightarrow> (nat \<times> st) option" where
  "handle_request unregister os key s = do {
     i \<leftarrow> ATTACHMENT key;
     c \<leftarrow> client_at i s;
     rp \<leftarrow> the_req (handshake c);
     if atyp rp = IPV4
     then connect_to_ip unregister os key i 16 ''Failed to allocate IPv4 address struct'' AF_INET
       (Sockaddr_in (addr_ipv4 (req_address rp)) (htons (req_port rp))) s
     else if atyp rp = IPV6
     then connect_to_ip unregister os key i 28 ''Failed to allocate IPv6 address struct'' AF_INET6
       (Sockaddr_in6 (addr_ipv6 (req_address rp)) (htons (req_port rp))) s
     else start_resolver os key i s }"

definition request_read :: "unregister \<Rightarrow> os \<Rightarrow> key \<Rightarrow> st \<Rightarrow> (nat \<times> st) option" where
  "request_read unregister os key s0 = do {
     s \<leftarrow> log_msg os INFO ''Request read started'' s0;
     i \<leftarrow> ATTACHMENT key;
     c \<leftarrow> client_at i s;
     (_, bytes_available) \<leftarrow> buffer_write_ptr (client_to_sv c);
     if \<not> buffer_can_write (client_to_sv c) then Some (state_id REQ_READ, s)
     else do {
       (r, s1) \<leftarrow> recv_buf os (key_fd key) (client_to_sv c) bytes_available s;
       case r of
         Inl e \<Rightarrow> Some (state_id (if would_block e then REQ_READ else SOCKS_ERROR), s1)
       | Inr (bytes_read, b1) \<Rightarrow>
           if bytes_read = 0 then do {
             s2 \<leftarrow> log_msg os INFO ''Client closed connection'' s1;
             Some (state_id SOCKS_ERROR, s2) }
           else do {
             b2 \<leftarrow> buffer_write_adv b1 (int bytes_read);
             rp \<leftarrow> the_req (handshake c);
             (rp1, b3) \<leftarrow> req_parse rp b2;
             let c1 = c\<lparr>client_to_sv := b3, handshake := Request rp1\<rparr>;
             let s2 = set_client i c1 s1;
             if is_req_done rp1 then
               (if req_has_error rp1 then do {
                  (err, b4) \<leftarrow> req_generate_response rp1 (sv_to_client c1) dummy_bnd_addr;
                  let s3 = set_client i (c1\<lparr>sv_to_client := b4\<rparr>) s2;
                  if err then Some (state_id SOCKS_ERROR, s3)
                  else do {
                    (st, s4) \<leftarrow> set_interest_key key OP_WRITE s3;
                    Some (state_id (if st \<noteq> SELECTOR_SUCCESS then SOCKS_ERROR else REQ_WRITE), s4) } }
                else handle_request unregister os key s2)
             else Some (state_id REQ_READ, s2) } } }"

section \<open>The resolver\<close>

definition request_resolve_domain_name :: "os \<Rightarrow> resolve_job \<Rightarrow> st \<Rightarrow> st option" where
  "request_resolve_domain_name os rs s = do {
     c \<leftarrow> client_at (rj_client rs) s;
     rp \<leftarrow> the_req (handshake c);
     check (terminated (address_class (req_address rp)));
     let domain_name = string_of (addr_dn (req_address rp));
     let port = utoa (unat (req_port rp));
     let r = os_getaddrinfo os (hist s) domain_name port;
     let s1 = record_event (Getaddrinfo domain_name port r) s;
     s2 \<leftarrow> (case r of
         Inl msg \<Rightarrow> do {
           let (sb, s2) = new_sb os s1;
           sb0 \<leftarrow> sb;
           (sb1, s3) \<leftarrow> append_sb os sb0 (CHR 0x27 # ''getaddrinfo'' @ CHR 0x27 # '' error: '') s2;
           (sb2, s4) \<leftarrow> append_sb os sb1 msg s3;
           log_msg os ERROR (sb_get_string sb2) s4 }
       | Inr _ \<Rightarrow> Some s1);
     let chain = (case r of Inl _ \<Rightarrow> [] | Inr as \<Rightarrow> as);
     let s3 = set_client (rj_client rs) (c\<lparr>origin_addr := chain, current_origin_addr := chain\<rparr>) s2;
     let (m, s4) = sys_malloc os 16 s3;
     let (st, sel) = selector_notify_block m (fst s4) (rj_client_fd rs);
     if st \<noteq> SELECTOR_SUCCESS
     then log_msg os ERROR ''Failed to notify selecto of blocking job completion'' (set_sel sel s4)
     else Some (set_sel sel s4) }"

definition resolver_step :: "os \<Rightarrow> nat \<Rightarrow> st \<Rightarrow> st option" where
  "resolver_step os k s = do {
     job \<leftarrow> nth_opt (threads (snd s)) k;
     let rest = take k (threads (snd s)) @ drop (Suc k) (threads (snd s));
     request_resolve_domain_name os job (fst s, (snd s)\<lparr>threads := rest\<rparr>) }"

definition request_resolve :: "unregister \<Rightarrow> os \<Rightarrow> key \<Rightarrow> st \<Rightarrow> (nat \<times> st) option" where
  "request_resolve unregister os key s0 = do {
     s \<leftarrow> log_msg os INFO ''Request resolve (on_block_ready) started'' s0;
     i \<leftarrow> ATTACHMENT key;
     c \<leftarrow> client_at i s;
     if origin_addr c = [] then req_generate_response_error key CON_HOST_UNREACHABLE s
     else initiate_origin_connection unregister os key s }"

section \<open>The outcome of the connection\<close>

definition request_connect :: "unregister \<Rightarrow> os \<Rightarrow> key \<Rightarrow> st \<Rightarrow> (nat \<times> st) option" where
  "request_connect unregister os key s0 = do {
     s \<leftarrow> log_msg os INFO ''Request conncect (on_write_ready) started'' s0;
     i \<leftarrow> ATTACHMENT key;
     c \<leftarrow> client_at i s;
     let (opt, s1) = sys_getsockopt os (origin_fd c) s;
     case opt of
       None \<Rightarrow> req_generate_response_error key CON_SERVER_FAILURE s1
     | Some error \<Rightarrow>
         if error = 0 then do {
           rp \<leftarrow> the_req (handshake c);
           let rp1 = rp\<lparr>con_status := CON_SUCCEEDED\<rparr>;
           let c1 = (if origin_addr c \<noteq> []
             then c\<lparr>handshake := Request rp1, origin_addr := [], current_origin_addr := []\<rparr>
             else c\<lparr>handshake := Request rp1\<rparr>);
           let (name, s2) = sys_getsockname os (origin_fd c1) (set_client i c1 s1);
           case name of
             None \<Rightarrow> Some (state_id SOCKS_ERROR, s2)
           | Some bnd_addr \<Rightarrow> do {
               (err, b) \<leftarrow> req_generate_response rp1 (sv_to_client c1) bnd_addr;
               let s3 = set_client i (c1\<lparr>sv_to_client := b\<rparr>) s2;
               if err then Some (state_id SOCKS_ERROR, s3)
               else do {
                 (st, s4) \<leftarrow> set_interest (client_fd c1) OP_WRITE s3;
                 if st \<noteq> SELECTOR_SUCCESS then Some (state_id SOCKS_ERROR, s4)
                 else do {
                   (st1, s5) \<leftarrow> set_interest (origin_fd c1) OP_READ s4;
                   Some (state_id (if st1 \<noteq> SELECTOR_SUCCESS then SOCKS_ERROR else REQ_WRITE), s5) } } } }
         else (case current_origin_addr c of
             [] \<Rightarrow> None
           | _ # address \<Rightarrow> do {
               (_, s2) \<leftarrow> unregister (origin_fd c) s1;
               c2 \<leftarrow> client_at i s2;
               let s3 = record_event (Close (origin_fd c2)) s2;
               let s4 = set_client i (c2\<lparr>origin_fd := -1\<rparr>) s3;
               if address = [] then req_generate_response_error key CON_HOST_UNREACHABLE s4
               else initiate_origin_connection unregister os key s4 }) }"

section \<open>Sending the reply, and the access log\<close>

text \<open>
  The appends of \<open>request_write\<close>: literal text, and the numbers that go through
  \<open>int_to_string\<close> (which allocates, and whose NULL is not tested).
\<close>

datatype piece = Text string | Number int

fun append_pieces :: "os \<Rightarrow> StringBuilder \<Rightarrow> piece list \<Rightarrow> st \<Rightarrow> (StringBuilder \<times> st) option" where
  "append_pieces os sb [] s = Some (sb, s)"
| "append_pieces os sb (Text t # ps) s = do {
     (sb1, s1) \<leftarrow> append_sb os sb t s;
     append_pieces os sb1 ps s1 }"
| "append_pieces os sb (Number n # ps) s = do {
     let (m, s1) = sys_malloc os 12 s;
     r \<leftarrow> int_to_string m (\<lambda>_. []) n;
     t \<leftarrow> r;
     (sb1, s2) \<leftarrow> append_sb os sb t s1;
     append_pieces os sb1 ps s2 }"

text \<open>A port field in network order, printed with \<open>%u\<close> on a little-endian machine.\<close>

definition raw_port :: "bytes \<Rightarrow> string" where
  "raw_port p = utoa (unat (p ! 0) + 256 * unat (p ! 1))"

definition access_pieces :: "os \<Rightarrow> string \<Rightarrow> string \<Rightarrow> sockaddr \<Rightarrow> req_parser \<Rightarrow> piece list" where
  "access_pieces os timestamp name client_addr rp =
     [Text timestamp, Text [CHR 0x09], Text name, Text [CHR 0x09], Text (''A'' @ [CHR 0x09])]
   @ (case client_addr of
        Sockaddr_in ip port \<Rightarrow> [Text (os_ntop os ip), Text [CHR 0x09], Text (raw_port port)]
      | Sockaddr_in6 ip port \<Rightarrow> [Text (os_ntop os ip), Text [CHR 0x09], Text (raw_port port)]
      | Sockaddr_other \<Rightarrow> [])
   @ [Text [CHR 0x09]]
   @ (let ip = map (\<lambda>b. Number (int (unat b))) (addr_ipv4 (req_address rp))
      in if atyp rp = IPV4
         then [ip ! 0, Text ''.'', ip ! 1, Text ''.'', ip ! 2, Text ''.'', ip ! 3]
         else if atyp rp = IPV6 then [Text (os_ntop os (addr_ipv6 (req_address rp)))]
         else if atyp rp = DN then [Text (string_of (addr_dn (req_address rp)))]
         else [Text ''There was an error while parsing the destination addr''])
   @ [Text [CHR 0x09], Text (utoa (unat (req_port rp))), Text [CHR 0x09],
      Text (status_to_string (con_status rp)), Text [CHR 0x0A]]"

text \<open>
  The builder \<open>user_sb\<close> is the one in the user's table entry: what is appended to it is stored
  back there.
\<close>

definition store_access :: "string \<Rightarrow> StringBuilder \<Rightarrow> user_table \<Rightarrow> user_table" where
  "store_access name sb t =
     (let index = nat (user_exists t name)
      in t\<lparr>users := (users t)[index := (users t ! index)\<lparr>u_access := Some sb\<rparr>]\<rparr>)"

definition log_access :: "os \<Rightarrow> client_data \<Rightarrow> req_parser \<Rightarrow> st \<Rightarrow> st option" where
  "log_access os c rp s = do {
     check (terminated (username c));
     let name = string_of (cstr (username c));
     (user_sb, s1) \<leftarrow>
       (case get_access (user_tab (snd s)) name of
          Some sb \<Rightarrow> Some (sb, s)
        | None \<Rightarrow> do {
            let (m, s1) = sys_malloc os 24 s;
            (sb, t) \<leftarrow> create_access m (user_tab (snd s1)) name;
            sb0 \<leftarrow> sb;
            Some (sb0, (fst s1, (snd s1)\<lparr>user_tab := t\<rparr>)) });
     let timestamp = os_time os (hist s1);
     let s2 = record_event (Time timestamp) s1;
     check (atyp rp = DN \<longrightarrow> terminated (address_class (req_address rp)));
     (sb1, s3) \<leftarrow> append_pieces os user_sb
       (access_pieces os timestamp name (client_address c) rp) s2;
     Some (fst s3, (snd s3)\<lparr>user_tab := store_access name sb1 (user_tab (snd s3))\<rparr>) }"

definition request_write :: "os \<Rightarrow> key \<Rightarrow> st \<Rightarrow> (nat \<times> st) option" where
  "request_write os key s0 = do {
     s \<leftarrow> log_msg os INFO ''Request write started'' s0;
     i \<leftarrow> ATTACHMENT key;
     c \<leftarrow> client_at i s;
     (_, bytes_to_write) \<leftarrow> buffer_read_ptr (sv_to_client c);
     (r, s1) \<leftarrow> send_buf os (key_fd key) (sv_to_client c) bytes_to_write s;
     case r of
       Inl e \<Rightarrow> Some (state_id (if would_block e then REQ_WRITE else SOCKS_ERROR), s1)
     | Inr bytes_sent \<Rightarrow>
         if bytes_sent = 0 then Some (state_id SOCKS_ERROR, s1)
         else do {
           b1 \<leftarrow> buffer_read_adv (sv_to_client c) (int bytes_sent);
           let c1 = c\<lparr>sv_to_client := b1\<rparr>;
           let s2 = set_client i c1 s1;
           if buffer_can_read b1 then Some (state_id REQ_WRITE, s2)
           else do {
             (st, s3) \<leftarrow> set_interest_key key OP_READ s2;
             if st \<noteq> SELECTOR_SUCCESS then Some (state_id SOCKS_ERROR, s3)
             else do {
               rp \<leftarrow> the_req (handshake c1);
               s4 \<leftarrow> log_access os c1 rp s3;
               Some (state_id COPY, s4) } } } }"

end
