(* ===== verification/Socks5.thy ===== *)
theory Socks5
  imports Request
begin

text \<open>
  \<open>src/server/socks5.c\<close>: the table of states, the four callbacks the selector calls for a
  client's descriptors, the creation and destruction of clients, and the accepting socket.

  The C table refers to functions that use the table again (\<open>copy_read\<close> raises a write event,
  the connecting handlers unregister a descriptor and so run \<open>socksv5_close\<close>). The knot is
  tied in layers: closing looks at departures only, a write event never at the read handlers.
  \<open>stm_close_table\<close> and \<open>write_event_table\<close> show that each layer is the same as the full
  table \<open>client_actions\<close>. The handlers of the other kinds of descriptors are the argument
  \<open>others\<close>, their close callbacks.
\<close>

definition done_arrival :: "os \<Rightarrow> nat \<Rightarrow> key \<Rightarrow> st \<Rightarrow> st option" where
  "done_arrival os state key s = log_line os INFO ''Done state'' s"

definition error_arrival :: "os \<Rightarrow> nat \<Rightarrow> key \<Rightarrow> st \<Rightarrow> st option" where
  "error_arrival os state key s = log_line os ERROR ''Error state'' s"

text \<open>An entry of the table; the members that the initialiser does not name are NULL.\<close>

definition state_entry :: "socks_v5state \<Rightarrow> (key, st) state_definition" where
  "state_entry q = \<lparr>sd_state = state_id q, on_arrival = None, on_departure = None,
     on_read_ready = None, on_write_ready = None, on_block_ready = None\<rparr>"

type_synonym ready = "key \<Rightarrow> st \<Rightarrow> (nat \<times> st) option"

definition client_table :: "os \<Rightarrow> ready \<Rightarrow> ready \<Rightarrow> ready \<Rightarrow> ready \<Rightarrow> (key, st) state_definition list" where
  "client_table os copy_rd req_rd req_res req_con =
    [(state_entry NEGOTIATION_READ)
       \<lparr>on_arrival := Some negotiation_read_init, on_read_ready := Some (negotiation_read os)\<rparr>,
     (state_entry NEGOTIATION_WRITE)\<lparr>on_write_ready := Some (negotiation_write os)\<rparr>,
     (state_entry AUTH_READ)
       \<lparr>on_arrival := Some authentication_read_init, on_read_ready := Some (authentication_read os)\<rparr>,
     (state_entry AUTH_WRITE)\<lparr>on_write_ready := Some (authentication_write os)\<rparr>,
     (state_entry REQ_READ)\<lparr>on_arrival := Some request_read_init, on_read_ready := Some req_rd\<rparr>,
     (state_entry REQ_RESOLVE)\<lparr>on_block_ready := Some req_res\<rparr>,
     (state_entry REQ_CONNECT)\<lparr>on_write_ready := Some req_con\<rparr>,
     (state_entry REQ_WRITE)\<lparr>on_write_ready := Some (request_write os)\<rparr>,
     (state_entry COPY)\<lparr>on_read_ready := Some copy_rd, on_write_ready := Some (copy_write os)\<rparr>,
     (state_entry SOCKS_DONE)\<lparr>on_arrival := Some (done_arrival os)\<rparr>,
     (state_entry SOCKS_ERROR)\<lparr>on_arrival := Some (error_arrival os)\<rparr>]"

definition crash :: ready where "crash key s = None"

definition close_table :: "os \<Rightarrow> (key, st) state_definition list" where
  "close_table os = client_table os crash crash crash crash"

section \<open>Closing\<close>

text \<open>\<open>socksv5_destroy\<close> frees the addresses, whose owner is the client, and the client.\<close>

definition socksv5_destroy :: "nat \<Rightarrow> st \<Rightarrow> st" where
  "socksv5_destroy i s = (fst s, (snd s)\<lparr>clients := (clients (snd s))(i := None)\<rparr>)"

definition socksv5_close :: "os \<Rightarrow> key \<Rightarrow> st \<Rightarrow> st option" where
  "socksv5_close os key s = do {
     i \<leftarrow> ATTACHMENT key;
     s1 \<leftarrow> stm_handler_close (close_table os) (client_stm i) key s;
     c \<leftarrow> client_at i s1;
     let s2 = record_event (Close (key_fd key)) s1;
     let c1 = (if key_fd key = client_fd c then c\<lparr>client_fd := -1\<rparr>
               else if key_fd key = origin_fd c then c\<lparr>origin_fd := -1\<rparr> else c);
     let s3 = set_client i c1 s2;
     Some (if origin_fd c1 = -1 \<and> client_fd c1 = -1
           then with_metrics less_connections (socksv5_destroy i s3) else s3) }"

text \<open>\<open>selector_unregister_fd\<close>, of which only the close callbacks matter.\<close>

definition close_handlers :: "os \<Rightarrow> (handler_id \<Rightarrow> (key \<Rightarrow> st \<Rightarrow> st option) option)
    \<Rightarrow> (handler_id, attachment, world) handlers" where
  "close_handlers os others h = \<lparr>handle_read = None, handle_write = None, handle_block = None,
     handle_close = (if h = SOCKS5_HANDLER then Some (socksv5_close os) else others h)\<rparr>"

type_synonym others = "handler_id \<Rightarrow> (key \<Rightarrow> st \<Rightarrow> st option) option"

definition unregister_fd :: "os \<Rightarrow> others \<Rightarrow> unregister" where
  "unregister_fd os others fd s = selector_unregister_fd (close_handlers os others) fd s"

section \<open>The table and the callbacks\<close>

definition write_table :: "os \<Rightarrow> others \<Rightarrow> (key, st) state_definition list" where
  "write_table os others = client_table os crash crash crash
     (request_connect (unregister_fd os others) os)"

definition write_event :: "os \<Rightarrow> others \<Rightarrow> event_handler" where
  "write_event os others i key s = stm_handler_write (write_table os others) (client_stm i) key s"

definition client_actions :: "os \<Rightarrow> others \<Rightarrow> (key, st) state_definition list" where
  "client_actions os others = client_table os
     (copy_read (write_event os others) os)
     (request_read (unregister_fd os others) os)
     (request_resolve (unregister_fd os others) os)
     (request_connect (unregister_fd os others) os)"

definition done_fd :: "os \<Rightarrow> others \<Rightarrow> int \<Rightarrow> st \<Rightarrow> st option" where
  "done_fd os others fd s =
     (if fd \<noteq> -1 then do {
        (st, s1) \<leftarrow> unregister_fd os others fd s;
        check (st = SELECTOR_SUCCESS);
        Some s1 }
      else Some s)"

definition socksv5_done :: "os \<Rightarrow> others \<Rightarrow> key \<Rightarrow> st \<Rightarrow> st option" where
  "socksv5_done os others key s = do {
     i \<leftarrow> ATTACHMENT key;
     c \<leftarrow> client_at i s;
     s1 \<leftarrow> done_fd os others (client_fd c) s;
     done_fd os others (origin_fd c) s1 }"

definition after_event :: "os \<Rightarrow> others \<Rightarrow> key \<Rightarrow> nat \<times> st \<Rightarrow> st option" where
  "after_event os others key r =
     (if fst r = state_id SOCKS_ERROR \<or> fst r = state_id SOCKS_DONE
      then socksv5_done os others key (snd r) else Some (snd r))"

definition socksv5_read :: "os \<Rightarrow> others \<Rightarrow> key \<Rightarrow> st \<Rightarrow> st option" where
  "socksv5_read os others key s = do {
     i \<leftarrow> ATTACHMENT key;
     r \<leftarrow> stm_handler_read (client_actions os others) (client_stm i) key s;
     after_event os others key r }"

definition socksv5_write :: "os \<Rightarrow> others \<Rightarrow> key \<Rightarrow> st \<Rightarrow> st option" where
  "socksv5_write os others key s = do {
     i \<leftarrow> ATTACHMENT key;
     r \<leftarrow> stm_handler_write (client_actions os others) (client_stm i) key s;
     after_event os others key r }"

definition socksv5_block :: "os \<Rightarrow> others \<Rightarrow> key \<Rightarrow> st \<Rightarrow> st option" where
  "socksv5_block os others key s = do {
     i \<leftarrow> ATTACHMENT key;
     r \<leftarrow> stm_handler_block (client_actions os others) (client_stm i) key s;
     after_event os others key r }"

definition socks5_handler :: "os \<Rightarrow> others \<Rightarrow> (attachment, st) fd_handler" where
  "socks5_handler os others = \<lparr>handle_read = Some (socksv5_read os others),
     handle_write = Some (socksv5_write os others), handle_block = Some (socksv5_block os others),
     handle_close = Some (socksv5_close os)\<rparr>"

section \<open>New clients\<close>

text \<open>
  \<open>calloc\<close> of \<open>sizeof(struct client_data)\<close> bytes. The zeroed union is not read before it has
  been initialised.
\<close>

definition sizeof_client_data :: nat where "sizeof_client_data = 3344"

definition new_client_data :: "os \<Rightarrow> int \<Rightarrow> sockaddr \<Rightarrow> client_data option" where
  "new_client_data os fd addr = do {
     m \<leftarrow> stm_init (close_table os) \<lparr>stm_initial = state_id NEGOTIATION_READ,
       stm_max_state = state_id SOCKS_ERROR, stm_current = None\<rparr>;
     Some \<lparr>stm = m,
       handshake = Negotiation \<lparr>selected_method = NOT_ACCEPTABLE, neg_state = NEG_VERSION,
         method_quantity = 0\<rparr>,
       client_fd = fd, client_eof = False, client_address = addr,
       username = replicate 256 0,
       client_to_sv = buffer_init BUFFER_SIZE (replicate BUFFER_SIZE 0),
       origin_fd = -1, origin_eof = False,
       sv_to_client = buffer_init BUFFER_SIZE (replicate BUFFER_SIZE 0),
       origin_addr = [], current_origin_addr = []\<rparr> }"

definition socksv5_new :: "os \<Rightarrow> int \<Rightarrow> sockaddr \<Rightarrow> st \<Rightarrow> (nat option \<times> st) option" where
  "socksv5_new os fd addr s = do {
     let (m, s1) = sys_malloc os sizeof_client_data s;
     if \<not> m then Some (None, s1)
     else do {
       c \<leftarrow> new_client_data os fd addr;
       let i = next_client (snd s1);
       Some (Some i, set_client i c (fst s1, (snd s1)\<lparr>next_client := Suc i\<rparr>)) } }"

definition sys_accept :: "os \<Rightarrow> int \<Rightarrow> st \<Rightarrow> (int \<times> sockaddr) option \<times> st" where
  "sys_accept os fd s =
     (let r = os_accept os (hist s) fd in (r, record_event (Accept fd r) s))"

definition socks_v5_passive_accept :: "os \<Rightarrow> key \<Rightarrow> st \<Rightarrow> st option" where
  "socks_v5_passive_accept os key s = do {
     let (r, s1) = sys_accept os (key_fd key) s;
     case r of
       None \<Rightarrow> Some s1
     | Some (client, client_addr) \<Rightarrow> do {
         let (nio, s2) = sys_set_nio os client s1;
         if nio = -1 then Some s2
         else do {
           (state, s3) \<leftarrow> socksv5_new os client client_addr s2;
           case state of
             None \<Rightarrow> Some s3
           | Some i \<Rightarrow> do {
               (st, s4) \<leftarrow> register os client SOCKS5_HANDLER OP_READ (Some (Client i)) s3;
               Some (if st \<noteq> SELECTOR_SUCCESS
                     then socksv5_destroy i
                       (if client \<noteq> -1 then record_event (Close client) s4 else s4)
                     else with_metrics more_connections s4) } } } }"

section \<open>One table\<close>

lemma client_table_length [simp]: "length (client_table os a b c d) = 11"
  by (simp add: client_table_def)

text \<open>The table passes the check of \<open>stm_init\<close>: entry \<open>i\<close> is state \<open>i\<close>.\<close>

lemma client_table_states: "i \<le> state_id SOCKS_ERROR \<Longrightarrow> sd_state (client_table os a b c d ! i) = i"
proof -
  assume "i \<le> state_id SOCKS_ERROR"
  then have "i \<in> set [0..<11]" by (simp add: state_id.simps)
  moreover have "\<forall>i \<in> set [0..<11]. sd_state (client_table os a b c d ! i) = i"
    by (simp add: client_table_def state_entry_def state_id.simps upt_rec)
  ultimately show ?thesis by blast
qed

lemma client_table_ok:
  assumes "stm_initial m = state_id NEGOTIATION_READ" "stm_max_state m = state_id SOCKS_ERROR"
    and "stm_current m = None"
  shows "stm_ok (client_table os a b c d) m"
  using assms client_table_states by (simp add: stm_ok_def state_id.simps)

lemma client_table_departures: "e \<in> set (client_table os a b c d) \<Longrightarrow> on_departure e = None"
  by (auto simp: client_table_def state_entry_def)

text \<open>The tables agree on states, arrivals and departures, hence on where an event leads.\<close>

lemma client_table_agree:
  assumes "j < 11"
  shows "sd_state (client_table os a b c d ! j) = sd_state (client_table os a' b' c' d' ! j)"
    and "on_arrival (client_table os a b c d ! j) = on_arrival (client_table os a' b' c' d' ! j)"
    and "on_departure (client_table os a b c d ! j) = on_departure (client_table os a' b' c' d' ! j)"
    and "on_write_ready (client_table os a b c d ! j) = on_write_ready (client_table os a' b' c' d ! j)"
proof -
  have "j \<in> set [0..<11]" using assms by simp
  moreover have "\<forall>j \<in> set [0..<11].
      sd_state (client_table os a b c d ! j) = sd_state (client_table os a' b' c' d' ! j)
    \<and> on_arrival (client_table os a b c d ! j) = on_arrival (client_table os a' b' c' d' ! j)
    \<and> on_departure (client_table os a b c d ! j) = on_departure (client_table os a' b' c' d' ! j)
    \<and> on_write_ready (client_table os a b c d ! j) = on_write_ready (client_table os a' b' c' d ! j)"
    by (simp add: client_table_def state_entry_def upt_rec)
  ultimately show
    "sd_state (client_table os a b c d ! j) = sd_state (client_table os a' b' c' d' ! j)"
    "on_arrival (client_table os a b c d ! j) = on_arrival (client_table os a' b' c' d' ! j)"
    "on_departure (client_table os a b c d ! j) = on_departure (client_table os a' b' c' d' ! j)"
    "on_write_ready (client_table os a b c d ! j) = on_write_ready (client_table os a' b' c' d ! j)"
    by blast+
qed

lemma client_tables_agree: "tables_agree (client_table os a b c d) (client_table os a' b' c' d')"
  unfolding tables_agree_def using client_table_agree(1-3) by simp

lemma stm_close_table:
  "stm_handler_close (client_actions os others) r key s = stm_handler_close (close_table os) r key s"
  unfolding client_actions_def close_table_def by (rule stm_handler_close_agree [OF client_tables_agree])

lemma write_event_table:
  "write_event os others i key s = stm_handler_write (client_actions os others) (client_stm i) key s"
  unfolding write_event_def write_table_def client_actions_def stm_handler_write_def
  by (rule stm_handler_agree [OF client_tables_agree]) (simp, rule client_table_agree(4))

section \<open>The machine of a client\<close>

lemma client_stm_get: "get_stm (client_stm i) s = map_option stm (client_at i s)"
  by (simp add: client_stm_def)

lemma client_stm_put:
  "client_at i s = Some c \<Longrightarrow> put_stm (client_stm i) m s = set_client i (c\<lparr>stm := m\<rparr>) s"
  by (simp add: client_stm_def)

text \<open>Arrival callbacks initialise a parser or log; none touches a machine.\<close>

lemma client_arrivals:
  assumes "e \<in> set (client_table os a b c d)" and "on_arrival e = Some f" and "f st key s = Some s'"
  shows "get_stm (client_stm i) s' = get_stm (client_stm i) s"
proof -
  have "f \<in> {negotiation_read_init, authentication_read_init, request_read_init,
      done_arrival os, error_arrival os}"
    using assms(1,2) by (auto simp: client_table_def state_entry_def)
  then show ?thesis
    using assms(3)
    by (auto simp: client_stm_get negotiation_read_init_def authentication_read_init_def
        request_read_init_def done_arrival_def error_arrival_def bind_eq_Some_conv
        dest!: log_line_silent silentD(2) [of _ _ i])
qed

interpretation client_machine: machine_place "client_actions os others" "client_stm i" for os others i
proof unfold_locales
  fix s m
  assume "get_stm (client_stm i) s \<noteq> None"
  then obtain c where "client_at i s = Some c" by (auto simp: client_stm_get)
  then show "get_stm (client_stm i) (put_stm (client_stm i) m s) = Some m"
    by (simp add: client_stm_get client_stm_put)
next
  fix d f st key s s'
  assume "d \<in> set (client_actions os others)" "on_arrival d = Some f" "f st key s = Some s'"
  then show "get_stm (client_stm i) s' = get_stm (client_stm i) s"
    unfolding client_actions_def by (rule client_arrivals)
next
  fix d f st key s s'
  assume "d \<in> set (client_actions os others)" "on_departure d = Some f"
  then show "get_stm (client_stm i) s' = get_stm (client_stm i) s"
    using client_table_departures unfolding client_actions_def by force
qed

section \<open>The relay, event by event\<close>

text \<open>Moving on from \<open>COPY\<close>, or staying there, moves no byte.\<close>

lemma client_table_nth:
  "nth_opt (client_table os a b c d) (state_id COPY) =
     Some ((state_entry COPY)\<lparr>on_read_ready := Some a, on_write_ready := Some (copy_write os)\<rparr>)"
  "nth_opt (client_table os a b c d) (state_id SOCKS_DONE) =
     Some ((state_entry SOCKS_DONE)\<lparr>on_arrival := Some (done_arrival os)\<rparr>)"
  "nth_opt (client_table os a b c d) (state_id SOCKS_ERROR) =
     Some ((state_entry SOCKS_ERROR)\<lparr>on_arrival := Some (error_arrival os)\<rparr>)"
  by (simp_all add: client_table_def state_id.simps nth_opt_def)

lemma relayed_silent:
  assumes "relayed i s s'" and "silent s' s''"
  shows "relayed i s s''"
proof -
  from assms(1) obtain c c' es where 1: "client_at i s = Some c" "client_at i s' = Some c'"
    "hist s' = hist s @ es" "flows c c' es" "client_ok c'" "same_fds c c'" unfolding relayed_def by blast
  obtain fs where fs: "hist s'' = hist s' @ fs" "\<forall>e \<in> set fs. quiet e" using silentD(5) [OF assms(2)] by blast
  have "flows c c' (es @ fs)" by (rule flows_trans [OF 1(4) flows_quiet [OF fs(2)] 1(6)]) simp_all
  then have "\<exists>es. hist s'' = hist s @ es \<and> flows c c' es" using 1(3) fs(1) by auto
  with 1 assms silentD(1,2) [OF assms(2)] show ?thesis unfolding relayed_def by metis
qed

lemma relayed_stm:
  assumes "relayed i s s'" and "client_at i s' = Some c'" and "current_valid c'"
    and "n \<le> stm_max_state (stm c')"
  shows "relayed i s (put_stm (client_stm i) ((stm c')\<lparr>stm_current := Some n\<rparr>) s')"
proof -
  from assms(1) obtain c es where 1: "client_at i s = Some c"
    "hist s' = hist s @ es" "flows c c' es" "client_ok c'" "same_fds c c'"
    using assms(2) unfolding relayed_def by auto
  let ?c = "c'\<lparr>stm := (stm c')\<lparr>stm_current := Some n\<rparr>\<rparr>"
  have "client_ok ?c" "same_fds c ?c" "flows c ?c es"
    using 1(3-5) assms(4) by (auto simp: client_ok_def same_fds_def flows_def current_valid_def)
  with 1 assms(1) show ?thesis unfolding client_stm_put [OF assms(2)] relayed_def by auto
qed

lemma jump_relayed:
  assumes ok: "mallocs_ok os" and r: "relayed i s s'" and at: "client_at i s = Some c"
    and valid: "current_valid c" "stm_max_state (stm c) = state_id SOCKS_ERROR"
    and ret: "ret \<in> state_id ` {COPY, SOCKS_DONE, SOCKS_ERROR}"
  shows "\<exists>s''. jump (client_table os p q u v) (client_stm i) ret key s' = Some s'' \<and> relayed i s s''"
proof -
  let ?T = "client_table os p q u v"
  from r at obtain c' where c': "client_at i s' = Some c'" "same_fds c c'" unfolding relayed_def by auto
  then have v': "current_valid c'" "stm_max_state (stm c') = state_id SOCKS_ERROR"
    using valid by (simp_all add: same_fds_def)
  have le: "ret \<le> stm_max_state (stm c')" using ret v'(2) by (auto simp: state_id.simps)
  define t where "t = put_stm (client_stm i) ((stm c')\<lparr>stm_current := Some ret\<rparr>) s'"
  have rt: "relayed i s t" unfolding t_def by (rule relayed_stm [OF r c'(1) v'(1) le])
  have dep: "nth_opt ?T x \<bind> (\<lambda>d. notify (on_departure d) (sd_state d) key s') = Some s'"
    if "stm_current (stm c') = Some x" for x
  proof -
    have "x < 11" using v' that by (auto simp: current_valid_def state_id.simps)
    then have "?T ! x \<in> set ?T" by simp
    then have "on_departure (?T ! x) = None" by (rule client_table_departures)
    with \<open>x < 11\<close> show ?thesis by (simp add: nth_opt_def notify_def)
  qed
  obtain d where d: "nth_opt ?T ret = Some d"
    and ar: "on_arrival d = None \<or> on_arrival d = Some (done_arrival os) \<or> on_arrival d = Some (error_arrival os)"
    using ret client_table_nth by (auto simp: state_entry_def)
  have "\<exists>t'. notify (on_arrival d) (sd_state d) key t = Some t' \<and> silent t t'"
  proof -
    have "\<exists>t'. log_line os ty msg t = Some t' \<and> silent t t'" if "length msg < 2 ^ 20" for ty msg
      using log_line_returns [OF ok that] log_line_silent by blast
    from this [of "''Done state''" INFO] this [of "''Error state''" ERROR] ar silent_refl [of t]
    show ?thesis by (elim disjE) (simp_all add: notify_def done_arrival_def error_arrival_def)
  qed
  then obtain t' where t': "notify (on_arrival d) (sd_state d) key t = Some t'" "silent t t'" by blast
  show ?thesis
  proof (cases "stm_current (stm c') = Some ret")
    case True
    then have "jump ?T (client_stm i) ret key s' = Some s'"
      using c'(1) le by (simp add: jump_def client_stm_get)
    with r show ?thesis by blast
  next
    case False
    have "(case stm_current (stm c') of None \<Rightarrow> Some s'
        | Some x \<Rightarrow> nth_opt ?T x \<bind> (\<lambda>d. notify (on_departure d) (sd_state d) key s')) = Some s'"
      using dep by (cases "stm_current (stm c')") auto
    then have "jump ?T (client_stm i) ret key s' = Some t'"
      using c'(1) le False d t'(1) by (simp add: jump_def client_stm_get flip: t_def)
    with relayed_silent [OF rt t'(2)] show ?thesis by blast
  qed
qed

text \<open>An event in the state \<open>COPY\<close>, given that the handler it runs relays.\<close>

lemma copy_event:
  assumes ok: "mallocs_ok os" and call: "copying i key c s" and cp: "in_copy c"
    and f: "ready ((state_entry COPY)\<lparr>on_read_ready := Some p, on_write_ready := Some (copy_write os)\<rparr>) = Some f"
    and run: "\<exists>ret s'. f key s = Some (ret, s') \<and> ret \<in> state_id ` {COPY, SOCKS_DONE, SOCKS_ERROR}
      \<and> relayed i s s'"
  shows "\<exists>ret s'. stm_handler ready (client_table os p q u v) (client_stm i) key s = Some (ret, s')
    \<and> ret \<in> state_id ` {COPY, SOCKS_DONE, SOCKS_ERROR} \<and> relayed i s s'"
proof -
  have at: "client_at i s = Some c" using call by (simp add: copying_def)
  have cur: "stm_current (stm c) = Some (state_id COPY)" "stm_max_state (stm c) = state_id SOCKS_ERROR"
    "current_valid c"
    using cp by (auto simp: in_copy_def current_valid_def state_id.simps)
  from run obtain ret s' where r: "f key s = Some (ret, s')"
    "ret \<in> state_id ` {COPY, SOCKS_DONE, SOCKS_ERROR}" "relayed i s s'" by blast
  obtain s'' where j: "jump (client_table os p q u v) (client_stm i) ret key s' = Some s''" "relayed i s s''"
    using jump_relayed [OF ok r(3) at cur(3,2) r(2)] by blast
  have "handle_first (client_table os p q u v) (client_stm i) key s = Some s"
    using at cur(1) by (simp add: handle_first_def client_stm_get)
  then have "stm_handler ready (client_table os p q u v) (client_stm i) key s = Some (ret, s'')"
    using at cur(1) r(1) j(1) f by (simp add: stm_handler_def client_stm_get client_table_nth)
  with r(2) j(2) show ?thesis by blast
qed

interpretation relay: write_sink "write_event os others" os for os others
proof unfold_locales
  fix i key c s
  assume ok: "os_ok os" "mallocs_ok os" and call: "copying i key c s" and cp: "in_copy c"
  show "\<exists>ret s'. write_event os others i key s = Some (ret, s')
      \<and> ret \<in> state_id ` {COPY, SOCKS_DONE, SOCKS_ERROR} \<and> relayed i s s'"
    unfolding write_event_def write_table_def stm_handler_write_def
    by (rule copy_event [where f = "copy_write os", OF ok(2) call cp _ copy_write_spec [OF ok(1) call]])
      simp
qed

text \<open>Both events of the relay, through the machine.\<close>

lemma relay_read_event:
  assumes "os_ok os" "mallocs_ok os" and "copying i key c s" and "in_copy c"
  shows "\<exists>ret s'. stm_handler_read (client_actions os others) (client_stm i) key s = Some (ret, s')
    \<and> ret \<in> state_id ` {COPY, SOCKS_DONE, SOCKS_ERROR} \<and> relayed i s s'"
  unfolding client_actions_def stm_handler_read_def
  by (rule copy_event [where f = "copy_read (write_event os others) os",
        OF assms(2-4) _ relay.copy_read_spec [OF assms]]) simp

lemma relay_write_event:
  assumes "os_ok os" "mallocs_ok os" and "copying i key c s" and "in_copy c"
  shows "\<exists>ret s'. stm_handler_write (client_actions os others) (client_stm i) key s = Some (ret, s')
    \<and> ret \<in> state_id ` {COPY, SOCKS_DONE, SOCKS_ERROR} \<and> relayed i s s'"
  using relay.sink [OF assms] unfolding write_event_table .

section \<open>Any number of relay events\<close>

text \<open>
  The relay of client \<open>i\<close> between two states: events of either of its descriptors, each of
  which leaves the machine in \<open>COPY\<close>, interleaved in any order.
\<close>

inductive relay_run :: "os \<Rightarrow> others \<Rightarrow> nat \<Rightarrow> st \<Rightarrow> st \<Rightarrow> bool" for os others i where
  relay_start: "relay_run os others i s s"
| relay_read: "relay_run os others i s s1 \<Longrightarrow> ATTACHMENT key = Some i \<Longrightarrow> client_at i s1 = Some c \<Longrightarrow>
    key_fd key = client_fd c \<or> key_fd key = origin_fd c \<Longrightarrow>
    stm_handler_read (client_actions os others) (client_stm i) key s1 = Some (state_id COPY, s2) \<Longrightarrow>
    relay_run os others i s s2"
| relay_write: "relay_run os others i s s1 \<Longrightarrow> ATTACHMENT key = Some i \<Longrightarrow> client_at i s1 = Some c \<Longrightarrow>
    key_fd key = client_fd c \<or> key_fd key = origin_fd c \<Longrightarrow>
    stm_handler_write (client_actions os others) (client_stm i) key s1 = Some (state_id COPY, s2) \<Longrightarrow>
    relay_run os others i s s2"

text \<open>What holds of the client before and after each of them.\<close>

definition relaying :: "nat \<Rightarrow> client_data \<Rightarrow> st \<Rightarrow> bool" where
  "relaying i c s \<longleftrightarrow> client_at i s = Some c \<and> client_ok c \<and> in_copy c \<and> sel_inv (fst s)
     \<and> client_fd c \<noteq> origin_fd c
     \<and> roles (fst s) (client_fd c) = Some (Some SOCKS5_HANDLER, Some (Client i))
     \<and> roles (fst s) (origin_fd c) = Some (Some SOCKS5_HANDLER, Some (Client i))"

lemma relaying_copying:
  "relaying i c s \<Longrightarrow> ATTACHMENT key = Some i \<Longrightarrow> key_fd key = client_fd c \<or> key_fd key = origin_fd c \<Longrightarrow>
   copying i key c s"
  by (simp add: relaying_def copying_def)

lemma relaying_step:
  assumes "relaying i c s" and "relayed i s s'"
    and h: "\<exists>m. get_stm (client_stm i) s' = Some (m\<lparr>stm_current := Some (state_id COPY)\<rparr>)"
  shows "\<exists>c'. relaying i c' s' \<and> client_fd c' = client_fd c \<and> origin_fd c' = origin_fd c"
proof -
  from assms(1,2) obtain c' where c': "client_at i s' = Some c'" "client_ok c'" "same_fds c c'"
    unfolding relaying_def relayed_def by auto
  with h assms(1) have "in_copy c'"
    by (auto simp: client_stm_get in_copy_def same_fds_def relaying_def)
  with c' assms(1,2) show ?thesis
    by (auto simp: relaying_def relayed_def same_fds_def)
qed

lemma relay_run_relays:
  assumes "relay_run os others i s s'" and ok: "os_ok os" "mallocs_ok os" and "relaying i c s"
  shows "relayed i s s' \<and> (\<exists>c'. relaying i c' s' \<and> client_fd c' = client_fd c \<and> origin_fd c' = origin_fd c)"
  using assms(1,4)
proof (induction rule: relay_run.induct)
  case (relay_start s)
  then have "relayed i s s" by (intro relayed_refl [of i s c]) (auto simp: relaying_def)
  with relay_start show ?case by auto
next
  case (relay_read s s1 key c1 s2)
  then obtain c' where 1: "relayed i s s1" "relaying i c' s1" "client_fd c' = client_fd c"
    "origin_fd c' = origin_fd c" by auto
  then have "c' = c1" using relay_read.hyps(3) by (simp add: relaying_def)
  with 1(2) relay_read.hyps have call: "copying i key c1 s1" "in_copy c1"
    using relaying_copying by (auto simp: relaying_def)
  have r: "relayed i s1 s2"
    using relay_read_event [OF ok call, of others] relay_read.hyps(5) by auto
  have "\<exists>m. get_stm (client_stm i) s2 = Some (m\<lparr>stm_current := Some (state_id COPY)\<rparr>)"
    using client_machine.handler_current relay_read.hyps(5) unfolding stm_handler_read_def by blast
  from relaying_step [OF 1(2) r this] 1 relayed_trans [OF 1(1) r] show ?case by auto
next
  case (relay_write s s1 key c1 s2)
  then obtain c' where 1: "relayed i s s1" "relaying i c' s1" "client_fd c' = client_fd c"
    "origin_fd c' = origin_fd c" by auto
  then have "c' = c1" using relay_write.hyps(3) by (simp add: relaying_def)
  with 1(2) relay_write.hyps have call: "copying i key c1 s1" "in_copy c1"
    using relaying_copying by (auto simp: relaying_def)
  have r: "relayed i s1 s2"
    using relay_write_event [OF ok call, of others] relay_write.hyps(5) by auto
  have "\<exists>m. get_stm (client_stm i) s2 = Some (m\<lparr>stm_current := Some (state_id COPY)\<rparr>)"
    using client_machine.handler_current relay_write.hyps(5) unfolding stm_handler_write_def by blast
  from relaying_step [OF 1(2) r this] 1 relayed_trans [OF 1(1) r] show ?case by auto
qed

end
