(* ===== verification/Lifecycle.thy ===== *)
theory Lifecycle
  imports Socks5
begin

text \<open>
  The life of a client of \<open>src/server/socks5.c\<close>: created by \<open>socks_v5_passive_accept\<close>, its
  descriptors closed by \<open>socksv5_close\<close>, freed with the second of them. \<open>socksv5_done\<close> closes
  each of its descriptors once, takes them out of the selector and frees the client once.
\<close>

section \<open>Closing a descriptor\<close>

lemma stm_close_silent:
  assumes "stm_handler_close (client_table os p q u v) r key s = Some s'"
  shows "s' = s"
proof -
  let ?T = "client_table os p q u v"
  have "notify (on_departure d) st key s = Some s" if "nth_opt ?T n = Some d" for n d st
    using that client_table_departures [of d os p q u v]
    by (auto simp: nth_opt_def notify_def split: if_splits)
  with assms show ?thesis
    by (auto simp: stm_handler_close_def bind_eq_Some_conv split: option.splits)
qed

lemma socksv5_close_sel: "socksv5_close os key s = Some s' \<Longrightarrow> fst s' = fst s"
  by (auto simp: socksv5_close_def bind_eq_Some_conv close_table_def socksv5_destroy_def Let_def
      dest!: stm_close_silent split: if_splits)

text \<open>
  What is asked of the close callbacks of the descriptors that do not belong to clients, and
  the selector's contract that follows for all of them.
\<close>

locale other_closers =
  fixes others :: others
  assumes others_keep: "others h = Some f \<Longrightarrow> f key s = Some s' \<Longrightarrow> fst s' = fst s"

sublocale other_closers \<subseteq> client_close: closing_handlers "close_handlers os others" for os
proof unfold_locales
  fix h f key s w s' w'
  assume "handle_close (close_handlers os others h) = Some f" "f key (s, w) = Some (s', w')"
  then show "s' = s"
    using socksv5_close_sel [of os key "(s, w)" "(s', w')"] others_keep [of h f key "(s, w)" "(s', w')"]
    by (auto simp: close_handlers_def split: if_splits)
qed

definition dropped :: "int \<Rightarrow> client_data \<Rightarrow> client_data" where
  "dropped fd c = (if fd = client_fd c then c\<lparr>client_fd := -1\<rparr>
     else if fd = origin_fd c then c\<lparr>origin_fd := -1\<rparr> else c)"

text \<open>The state after the close callback of client \<open>i\<close>, whose data were \<open>c\<close>, ran for \<open>fd\<close>.\<close>

definition after_close :: "nat \<Rightarrow> int \<Rightarrow> client_data \<Rightarrow> st \<Rightarrow> st" where
  "after_close i fd c s =
     (let s3 = set_client i (dropped fd c) (record_event (Close fd) s)
      in if origin_fd (dropped fd c) = -1 \<and> client_fd (dropped fd c) = -1
         then with_metrics less_connections (socksv5_destroy i s3) else s3)"

text \<open>A machine that \<open>stm_init\<close> and the events can have produced.\<close>

definition machine_ok :: "client_data \<Rightarrow> bool" where
  "machine_ok c \<longleftrightarrow> stm_initial (stm c) = state_id NEGOTIATION_READ
     \<and> stm_max_state (stm c) = state_id SOCKS_ERROR \<and> current_valid c"

lemma stm_close_returns:
  assumes "client_at i s = Some c" and "machine_ok c"
  shows "stm_handler_close (close_table os) (client_stm i) key s = Some s"
proof (cases "stm_current (stm c)")
  case None
  with assms show ?thesis by (simp add: stm_handler_close_def client_stm_get)
next
  case (Some n)
  with assms(2) have "n < 11" by (auto simp: machine_ok_def current_valid_def state_id.simps)
  then have "close_table os ! n \<in> set (close_table os)" by (simp add: close_table_def)
  then have "on_departure (close_table os ! n) = None"
    unfolding close_table_def by (rule client_table_departures)
  with Some \<open>n < 11\<close> assms(1) show ?thesis
    by (simp add: stm_handler_close_def client_stm_get nth_opt_def notify_def close_table_def)
qed

lemma socksv5_close_spec:
  assumes "ATTACHMENT key = Some i" and "client_at i s = Some c" and "machine_ok c"
  shows "socksv5_close os key s = Some (after_close i (key_fd key) c s)"
  using assms stm_close_returns [OF assms(2,3), of os key]
  by (simp add: socksv5_close_def after_close_def dropped_def Let_def)

lemma destroy_frame [simp]:
  "fst (socksv5_destroy i s) = fst s"
  "client_at j (socksv5_destroy i s) = (if j = i then None else client_at j s)"
  "hist (socksv5_destroy i s) = hist s"
  "metrics_of (snd (socksv5_destroy i s)) = metrics_of (snd s)"
  "user_tab (snd (socksv5_destroy i s)) = user_tab (snd s)"
  by (simp_all add: socksv5_destroy_def client_at_def hist_def)

lemma after_close_frame:
  "fst (after_close i fd c s) = fst s"
  "hist (after_close i fd c s) = hist s @ [Close fd]"
  "j \<noteq> i \<Longrightarrow> client_at j (after_close i fd c s) = client_at j s"
  "user_tab (snd (after_close i fd c s)) = user_tab (snd s)"
  by (simp_all add: after_close_def Let_def)

text \<open>A descriptor that the selector holds for client \<open>i\<close>.\<close>

definition holds :: "st \<Rightarrow> int \<Rightarrow> nat \<Rightarrow> bool" where
  "holds s fd i \<longleftrightarrow> roles (fst s) fd = Some (Some SOCKS5_HANDLER, Some (Client i))"

lemma unregister_client:
  assumes inv: "sel_inv (fst s)" and reg: "holds s fd i" and at: "client_at i s = Some c" and m: "machine_ok c"
  shows "\<exists>sel'. unregister_fd os others fd s = Some (SELECTOR_SUCCESS, set_sel sel' (after_close i fd c s))
    \<and> sel_inv sel' \<and> registered sel' = (registered (fst s))(fd := None) \<and> fd_size sel' = fd_size (fst s)"
proof -
  from reg obtain it where it: "registered (fst s) fd = Some it" "item_handler it = Some SOCKS5_HANDLER"
    "item_data it = Some (Client i)"
    by (auto simp: holds_def roles_def)
  have "run_close (close_handlers os others) SOCKS5_HANDLER \<lparr>key_fd = fd, key_data = item_data it\<rparr> (fst s, snd s)
      = Some (fst s, snd (after_close i fd c s))"
    using socksv5_close_spec [of "\<lparr>key_fd = fd, key_data = item_data it\<rparr>" i s c os] at m it(3)
      after_close_frame(1) [of i fd c s]
    by (simp add: run_close_def close_handlers_def ATTACHMENT_def prod_eq_iff)
  from unregister_run [OF inv it(1,2) this] show ?thesis
    by (auto simp: unregister_fd_def set_sel_def)
qed

section \<open>The end of a client\<close>

text \<open>What the server holds for client \<open>i\<close>, while its own descriptor is open.\<close>

definition owns :: "nat \<Rightarrow> client_data \<Rightarrow> st \<Rightarrow> bool" where
  "owns i c s \<longleftrightarrow> client_at i s = Some c \<and> machine_ok c \<and> sel_inv (fst s)
     \<and> client_fd c \<noteq> -1 \<and> holds s (client_fd c) i
     \<and> (origin_fd c = -1 \<or> (origin_fd c \<noteq> client_fd c \<and> holds s (origin_fd c) i))"

lemma registered_negative [simp]: "fd < 0 \<Longrightarrow> registered sel fd = None"
  by (simp add: registered_def)

lemma socksv5_done_spec:
  assumes key: "ATTACHMENT key = Some i" and own: "owns i c s"
  shows "\<exists>s'. socksv5_done os others key s = Some s' \<and> client_at i s' = None
    \<and> sel_inv (fst s') \<and> registered (fst s') = (registered (fst s))(client_fd c := None, origin_fd c := None)
    \<and> hist s' = hist s @ Close (client_fd c) # (if origin_fd c = -1 then [] else [Close (origin_fd c)])
    \<and> metrics_of (snd s') = less_connections (metrics_of (snd s))
    \<and> (\<forall>j. j \<noteq> i \<longrightarrow> client_at j s' = client_at j s)"
proof -
  let ?a = "client_fd c" and ?b = "origin_fd c"
  from own have at: "client_at i s = Some c" and m: "machine_ok c" and inv: "sel_inv (fst s)"
    and a: "?a \<noteq> -1" "holds s ?a i" by (auto simp: owns_def)
  obtain sel1 where 1: "unregister_fd os others ?a s = Some (SELECTOR_SUCCESS, set_sel sel1 (after_close i ?a c s))"
    "sel_inv sel1" "registered sel1 = (registered (fst s))(?a := None)"
    using unregister_client [OF inv a(2) at m] by blast
  define s1 where "s1 = set_sel sel1 (after_close i ?a c s)"
  have run: "socksv5_done os others key s = done_fd os others ?b s1"
    using key at a(1) 1(1) by (simp add: socksv5_done_def done_fd_def s1_def)
  show ?thesis
  proof (cases "?b = -1")
    case True
    then have "client_at i s1 = None \<and> hist s1 = hist s @ [Close ?a]
      \<and> metrics_of (snd s1) = less_connections (metrics_of (snd s))
      \<and> (\<forall>j. j \<noteq> i \<longrightarrow> client_at j s1 = client_at j s)"
      by (simp add: s1_def after_close_def dropped_def Let_def)
    moreover have "registered (fst s1) = (registered (fst s))(?a := None, ?b := None)"
      using 1(3) True by (auto simp: s1_def)
    ultimately show ?thesis
      using run 1(2) True by (simp add: done_fd_def s1_def)
  next
    case False
    with own have b: "?b \<noteq> ?a" "holds s ?b i" by (auto simp: owns_def)
    let ?c1 = "c\<lparr>client_fd := -1\<rparr>"
    have s1: "s1 = set_sel sel1 (set_client i ?c1 (record_event (Close ?a) s))"
      using False b by (simp add: s1_def after_close_def dropped_def Let_def)
    have m1: "machine_ok ?c1" using m by (auto simp: machine_ok_def current_valid_def)
    have "holds s1 ?b i" using b 1(3) by (simp add: s1 holds_def roles_def)
    then obtain sel2 where 2: "unregister_fd os others ?b s1 =
        Some (SELECTOR_SUCCESS, set_sel sel2 (after_close i ?b ?c1 s1))"
      "sel_inv sel2" "registered sel2 = (registered (fst s1))(?b := None)"
      using unregister_client [of s1 ?b i ?c1 os others] 1(2) m1 by (auto simp: s1)
    define s2 where "s2 = set_sel sel2 (after_close i ?b ?c1 s1)"
    have "client_at i s2 = None \<and> hist s2 = hist s @ [Close ?a, Close ?b]
      \<and> metrics_of (snd s2) = less_connections (metrics_of (snd s))
      \<and> (\<forall>j. j \<noteq> i \<longrightarrow> client_at j s2 = client_at j s)"
      using False by (simp add: s2_def s1 after_close_def dropped_def Let_def)
    moreover have "registered (fst s2) = (registered (fst s))(?a := None, ?b := None)"
      using 1(3) 2(3) by (simp add: s2_def s1)
    moreover have "socksv5_done os others key s = Some s2"
      using run False 2(1) by (simp add: done_fd_def s2_def)
    ultimately show ?thesis using 2(2) False by (auto simp: s2_def)
  qed
qed

section \<open>A new client\<close>

text \<open>What a client is right after it was accepted: no state entered, nothing buffered.\<close>

definition fresh_client :: "int \<Rightarrow> sockaddr \<Rightarrow> client_data" where
  "fresh_client fd addr = \<lparr>stm = \<lparr>stm_initial = state_id NEGOTIATION_READ,
       stm_max_state = state_id SOCKS_ERROR, stm_current = None\<rparr>,
     handshake = Negotiation \<lparr>selected_method = NOT_ACCEPTABLE, neg_state = NEG_VERSION, method_quantity = 0\<rparr>,
     client_fd = fd, client_eof = False, client_address = addr, username = replicate 256 0,
     client_to_sv = buffer_init BUFFER_SIZE (replicate BUFFER_SIZE 0),
     origin_fd = -1, origin_eof = False,
     sv_to_client = buffer_init BUFFER_SIZE (replicate BUFFER_SIZE 0),
     origin_addr = [], current_origin_addr = []\<rparr>"

lemma new_client_data_fresh: "new_client_data os fd addr = Some (fresh_client fd addr)"
proof -
  let ?m = "\<lparr>stm_initial = state_id NEGOTIATION_READ, stm_max_state = state_id SOCKS_ERROR, stm_current = None\<rparr>"
  have "stm_init (close_table os) ?m = Some ?m"
    unfolding stm_init_ok close_table_def using client_table_ok [of ?m] by simp
  then show ?thesis by (simp add: new_client_data_def fresh_client_def)
qed

lemma fresh_client_ok: "client_ok (fresh_client fd addr) \<and> machine_ok (fresh_client fd addr)"
  by (auto simp: client_ok_def fresh_client_def handshake_ok_def neg_parser_ok_def machine_ok_def
      current_valid_def intro: buffer_init_wf)

text \<open>A slot of the heap that has not been handed out yet.\<close>

definition heap_fresh :: "st \<Rightarrow> bool" where
  "heap_fresh s \<longleftrightarrow> (\<forall>i \<ge> next_client (snd s). client_at i s = None)"

lemma accept_spec:
  assumes inv: "sel_inv (fst s)" and fresh: "heap_fresh s"
    and acc: "os_accept os (hist s) (key_fd key) = Some (fd, addr)"
    and nio: "os_getfd os (hist s @ [Accept (key_fd key) (Some (fd, addr))]) fd = Some fl"
      "os_setfl os (hist s @ [Accept (key_fd key) (Some (fd, addr))]) fd (fl OR O_NONBLOCK)"
    and mem: "mallocs_ok os" and fd: "0 \<le> fd" "nat fd < fd_size (fst s)" "fd < int ITEMS_MAX_SIZE"
    and free: "registered (fst s) fd = None"
  shows "\<exists>s'. socks_v5_passive_accept os key s = Some s'
    \<and> owns (next_client (snd s)) (fresh_client fd addr) s'
    \<and> registered (fst s') = (registered (fst s))
        (fd \<mapsto> new_item fd (Some SOCKS5_HANDLER) OP_READ (Some (Client (next_client (snd s)))))
    \<and> metrics_of (snd s') = more_connections (metrics_of (snd s)) \<and> heap_fresh s'
    \<and> (\<forall>j. j \<noteq> next_client (snd s) \<longrightarrow> client_at j s' = client_at j s)
    \<and> sel_inv (fst s') \<and> fd_size (fst s') = fd_size (fst s) \<and> slave_r (fst s') = slave_r (fst s)
    \<and> slave_w (fst s') = slave_w (fst s) \<and> resolution_jobs (fst s') = resolution_jobs (fst s)"
proof -
  let ?i = "next_client (snd s)" and ?c = "fresh_client fd addr"
  let ?s1 = "record_event (Accept (key_fd key) (Some (fd, addr))) s"
  let ?s2 = "record_event (Set_nio fd 0) ?s1"
  let ?s3 = "record_event (Malloc sizeof_client_data True) ?s2"
  let ?s4 = "set_client ?i ?c (fst ?s3, (snd ?s3)\<lparr>next_client := Suc ?i\<rparr>)"
  let ?s5 = "record_event (Malloc element_size True) ?s4"
  have sys: "sys_accept os (key_fd key) s = (Some (fd, addr), ?s1)" "sys_set_nio os fd ?s1 = (0, ?s2)"
    "sys_malloc os sizeof_client_data ?s2 = (True, ?s3)" "sys_malloc os element_size ?s4 = (True, ?s5)"
    using acc nio mem
    by (simp_all add: sys_accept_def sys_set_nio_def sys_malloc_def selector_fd_set_nio_def mallocs_ok_def Let_def)
  have nc: "next_client (snd ?s2) = ?i" "next_client (snd ?s3) = ?i" by (simp_all add: record_event_def)
  have new: "socksv5_new os fd addr ?s2 = Some (Some ?i, ?s4)"
    using sys(3) nc by (simp add: socksv5_new_def new_client_data_fresh Let_def)
  obtain sel' where sel': "selector_register True (fst ?s5) fd (Some SOCKS5_HANDLER) OP_READ (Some (Client ?i))
      = Some (SELECTOR_SUCCESS, sel')" "sel_inv sel'"
    "registered sel' = (registered (fst s))(fd \<mapsto> new_item fd (Some SOCKS5_HANDLER) OP_READ (Some (Client ?i)))"
    "fd_size sel' = fd_size (fst s)"
    using selector_register_in_table(2) [of "fst s" fd "Some SOCKS5_HANDLER" True OP_READ "Some (Client ?i)"]
      inv fd free by auto
  let ?s' = "with_metrics more_connections (set_sel sel' ?s5)"
  have "register os fd SOCKS5_HANDLER OP_READ (Some (Client ?i)) ?s4 = Some (SELECTOR_SUCCESS, set_sel sel' ?s5)"
    using sys(4) sel'(1) by (simp add: register_def Let_def)
  then have "socks_v5_passive_accept os key s = Some ?s'"
    using sys(1,2) new by (simp add: socks_v5_passive_accept_def Let_def)
  moreover have "owns ?i ?c ?s'"
    using sel'(2,3) fresh_client_ok [of fd addr] fd(1)
    by (simp add: owns_def holds_def roles_def new_item_def) (simp add: fresh_client_def)
  moreover have "next_client (snd ?s') = Suc ?i"
    by (simp add: record_event_def set_client_def set_sel_def with_metrics_def)
  moreover have other: "client_at j ?s' = client_at j s" if "j \<noteq> ?i" for j
    using that by (simp add: client_at_def record_event_def set_client_def set_sel_def with_metrics_def)
  moreover have "heap_fresh ?s'"
    unfolding heap_fresh_def using fresh other \<open>next_client (snd ?s') = Suc ?i\<close> by (simp add: heap_fresh_def)
  moreover have "metrics_of (snd ?s') = more_connections (metrics_of (snd s))"
    by (simp add: record_event_def set_client_def set_sel_def with_metrics_def)
  moreover have "slave_r sel' = slave_r (fst s) \<and> slave_w sel' = slave_w (fst s)
      \<and> resolution_jobs sel' = resolution_jobs (fst s)"
    using register_slaves [OF sel'(1)] fd(2) by simp
  ultimately show ?thesis using sel'(2-4) by (intro exI [of _ ?s']) simp
qed

end
