(* ===== verification/Manager.thy ===== *)
theory Manager
  imports Lifecycle
begin

text \<open>
  \<open>src/server/manager.c\<close>: the management protocol, a line of text per command. A session is a
  \<open>manager_data\<close> on the heap \<open>managers\<close>; a handler maps the state to a state and crashes with
  \<open>None\<close> (an overflow of a local array, a builder that is NULL, a \<open>SIGPIPE\<close>, which nothing
  catches: \<open>send_response\<close> does not pass \<open>MSG_NOSIGNAL\<close>). Texts are the bytes of the UTF-8
  source, one character per byte. The arguments \<open>strtok\<close> cuts out of the line are options,
  \<open>None\<close> for NULL.

  The lemmas show who gets past the login and with which rights, that commands keep the
  invariant of the table of users, where \<open>SET-MAX-USERS\<close> does not, and that the end of a
  session closes and frees it once.
\<close>

section \<open>C strings\<close>

definition crlf :: string where "crlf = [CHR 0x0D, CHR 0x0A]"

definition a_acute :: string where "a_acute = [CHR 0xC3, CHR 0xA1]"
definition e_acute :: string where "e_acute = [CHR 0xC3, CHR 0xA9]"
definition i_acute :: string where "i_acute = [CHR 0xC3, CHR 0xAD]"
definition o_acute :: string where "o_acute = [CHR 0xC3, CHR 0xB3]"
definition u_acute :: string where "u_acute = [CHR 0xC3, CHR 0xBA]"
definition n_tilde :: string where "n_tilde = [CHR 0xC3, CHR 0xB1]"

text \<open>\<open>str[strcspn(str, "\r\n")] = 0\<close>\<close>

definition trim_newline :: "string \<Rightarrow> string" where
  "trim_newline str = takeWhile (\<lambda>c. c \<notin> set crlf) str"

text \<open>\<open>strtok(str, " ")\<close>: the token and what the next call goes on with.\<close>

definition strtok :: "string \<Rightarrow> string option \<times> string" where
  "strtok str =
     (let t = dropWhile (\<lambda>c. c = CHR '' '') str
      in if t = [] then (None, [])
         else (Some (takeWhile (\<lambda>c. c \<noteq> CHR '' '') t), drop 1 (dropWhile (\<lambda>c. c \<noteq> CHR '' '') t)))"

text \<open>\<open>strncpy(dst, src, n)\<close> into an array of more than \<open>n\<close> bytes: it pads with zeros.\<close>

definition strncpy :: "nat \<Rightarrow> bytes \<Rightarrow> bytes \<Rightarrow> bytes" where
  "strncpy n src dst = poke 0 (take n src @ replicate (n - length src) 0) dst"

text \<open>\<open>snprintf(msg, size, ...)\<close> truncates.\<close>

definition snprintf :: "nat \<Rightarrow> string \<Rightarrow> string" where
  "snprintf n str = take (n - 1) str"

text \<open>\<open>%d\<close> of an \<open>unsigned int\<close>, read as an \<open>int\<close>.\<close>

definition itoa :: "nat \<Rightarrow> string" where
  "itoa n = (if n < 2 ^ 31 then utoa n else ''-'' @ utoa (2 ^ 32 - n))"

definition MAX_LENGTH_MSG :: nat where "MAX_LENGTH_MSG = 512"

section \<open>Sessions\<close>

definition manager_at :: "nat \<Rightarrow> st \<Rightarrow> manager_data option" where
  "manager_at i s = managers (snd s) i"

definition set_manager :: "nat \<Rightarrow> manager_data \<Rightarrow> st \<Rightarrow> st" where
  "set_manager i m s = (fst s, (snd s)\<lparr>managers := (managers (snd s))(i \<mapsto> m)\<rparr>)"

definition free_manager :: "nat \<Rightarrow> st \<Rightarrow> st" where
  "free_manager i s = (fst s, (snd s)\<lparr>managers := (managers (snd s))(i := None)\<rparr>)"

definition set_users :: "user_table \<Rightarrow> st \<Rightarrow> st" where
  "set_users t s = (fst s, (snd s)\<lparr>user_tab := t\<rparr>)"

abbreviation users_of :: "st \<Rightarrow> user_table" where
  "users_of s \<equiv> user_tab (snd s)"

definition manager_close :: "key \<Rightarrow> st \<Rightarrow> st option" where
  "manager_close key s =
     (case key_data key of
        None \<Rightarrow> Some s
      | Some (Client _) \<Rightarrow> None
      | Some (Manager i) \<Rightarrow> do {
          data \<leftarrow> manager_at i s;
          Some (free_manager i (record_event (Close (mgr_fd data)) s)) })"

text \<open>The close callbacks besides \<open>socksv5_close\<close>; the two listening sockets have none.\<close>

definition server_closers :: others where
  "server_closers h = (if h = MANAGER_HANDLER then Some manager_close else None)"

definition unregister_any :: "os \<Rightarrow> unregister" where
  "unregister_any os = unregister_fd os server_closers"

section \<open>Replies\<close>

definition send_plain :: "os \<Rightarrow> int \<Rightarrow> string \<Rightarrow> st \<Rightarrow> st option" where
  "send_plain os fd msg s = do {
     let (r, s1) = sys_send os fd (bytes_of msg) s;
     check (r \<noteq> Inl EPIPE);
     Some s1 }"

definition send_response :: "os \<Rightarrow> int \<Rightarrow> string \<Rightarrow> bool \<Rightarrow> st \<Rightarrow> st option" where
  "send_response os fd msg is_error s = do {
     let full_msg = (if is_error then ''-ERR '' else ''+OK '') @ msg;
     let (m, s1) = sys_malloc os (length full_msg + 1) s;
     if \<not> m then send_plain os fd (''-ERR Error interno de memoria'' @ crlf) s1
     else send_plain os fd full_msg s1 }"

section \<open>Logging in\<close>

definition handle_auth_command :: "os \<Rightarrow> int \<Rightarrow> string \<Rightarrow> string option \<Rightarrow> nat \<Rightarrow> st \<Rightarrow> st option" where
  "handle_auth_command os fd cmd arg1 i s = do {
     data \<leftarrow> manager_at i s;
     if cmd = ''USER'' then
       (case arg1 of
          Some name \<Rightarrow>
            if user_exists (users_of s) name \<ge> 0
            then send_response os fd crlf False
              (set_manager i (data\<lparr>mgr_username := strncpy 49 (bytes_of name) (mgr_username data),
                                   user_sent := True\<rparr>) s)
            else send_response os fd (''Nombre de usuario no encontrado'' @ crlf) True s
        | None \<Rightarrow> send_response os fd (''Falta par'' @ a_acute
            @ ''metro: USER <nombre_usuario>'' @ crlf) True s)
     else if cmd = ''PASS'' then
       (if \<not> user_sent data
        then send_response os fd
          (''Error de protocolo: se esperaba el comando USER antes de PASS'' @ crlf) True s
        else case arg1 of
          Some password \<Rightarrow>
            let name = string_of (cstr (mgr_username data))
            in if user_login (users_of s) name password = 0 then
                 (let index = user_exists (users_of s) name
                  in if index \<ge> 0 then
                       (if u_status (get_users (users_of s) ! nat index) = ADMIN
                        then send_response os fd
                          (''Autenticaci'' @ o_acute
                              @ ''n exitosa. Privilegios de administrador concedidos.''
                              @ crlf) False
                          (set_manager i (data\<lparr>logged_in := True, is_admin := True\<rparr>) s)
                        else send_response os fd
                          (''Acceso denegado. El usuario no posee privilegios administrativos'' @ crlf) True s)
                     else Some s)
               else send_response os fd (''Error de autenticaci'' @ o_acute @ ''n: contrase''
                   @ n_tilde @ ''a inv'' @ a_acute @ ''lida'' @ crlf) True s
        | None \<Rightarrow> Some s)
     else send_response os fd (''Autenticaci'' @ o_acute
         @ ''n requerida: Utilizar USER y PASS'' @ crlf) True s }"

section \<open>Commands\<close>

fun append_texts :: "os \<Rightarrow> StringBuilder \<Rightarrow> string list \<Rightarrow> st \<Rightarrow> (StringBuilder \<times> st) option" where
  "append_texts os sb [] s = Some (sb, s)"
| "append_texts os sb (t # ts) s = do { (sb1, s1) \<leftarrow> append_sb os sb t s; append_texts os sb1 ts s1 }"

definition list_pieces :: "Tuser list \<Rightarrow> string list" where
  "list_pieces us = (''Usuarios:'' @ crlf) # concat (map (\<lambda>u.
     ['' - '', u_name u, '' ('', if u_status u = ADMIN then ''admin'' else ''commoner'', ('')'' @ crlf)]) us)"

definition handle_list :: "os \<Rightarrow> int \<Rightarrow> st \<Rightarrow> st option" where
  "handle_list os fd s = do {
     let (sb, s1) = new_sb os s;
     case sb of
       None \<Rightarrow> send_response os fd (''Error interno de memoria'' @ crlf) True s1
     | Some sb0 \<Rightarrow> do {
         (sb1, s2) \<leftarrow> append_texts os sb0 (list_pieces (get_users (users_of s1))) s1;
         send_response os fd (sb_get_string sb1) False s2 } }"

definition handle_add_user :: "os \<Rightarrow> int \<Rightarrow> string option \<Rightarrow> string option \<Rightarrow> st \<Rightarrow> st option" where
  "handle_add_user os fd user pass s =
     (if user = None \<or> pass = None
      then send_response os fd (''Faltan par'' @ a_acute
          @ ''metros: ADD-USER <usuario> <constrase'' @ n_tilde @ ''a>'' @ crlf) True s
      else do {
        let m = os_malloc os (hist s) 24;
        (r, t) \<leftarrow> new_user m (users_of s) user pass;
        if r = 0
        then send_response os fd
          (snprintf MAX_LENGTH_MSG (''Usuario '' @ the user @ ('' creado exitosamente''
              @ crlf))) False
          (set_users t (record_event (Malloc 24 m) s))
        else send_response os fd (''Error al crear el usuario. Verifique que no exista previamente.'' @ crlf) True s })"

definition handle_delete_user :: "os \<Rightarrow> int \<Rightarrow> string option \<Rightarrow> st \<Rightarrow> st option" where
  "handle_delete_user os fd user s =
     (case user of
        None \<Rightarrow> send_response os fd (''Falta par'' @ a_acute
            @ ''metro para DELETE-USER'' @ crlf) True s
      | Some name \<Rightarrow>
          let (r, t) = delete_user (users_of s) name
          in if r = 0
             then send_response os fd
               (snprintf MAX_LENGTH_MSG (''Usuario '' @ name @ ('' eliminado correctamente''
                   @ crlf))) False (set_users t s)
             else send_response os fd (''Error al eliminar el usuario. Verifique que el usuario exista.'' @ crlf) True s)"

definition handle_change_pass :: "os \<Rightarrow> int \<Rightarrow> nat \<Rightarrow> string option \<Rightarrow> string option \<Rightarrow> st \<Rightarrow> st option" where
  "handle_change_pass os fd i old_pass new_pass s =
     (if old_pass = None \<or> new_pass = None
      then send_response os fd (''Faltan par'' @ a_acute
          @ ''metros: CHANGE-PASS <vieja> <nueva>'' @ crlf) True s
      else do {
        data \<leftarrow> manager_at i s;
        let (r, t) = change_password (users_of s) (string_of (cstr (mgr_username data)))
                       (the old_pass) (the new_pass);
        if r = 0 then send_response os fd (''La contrase'' @ n_tilde
            @ ''a fue modificada con '' @ e_acute @ ''xito.'' @ crlf) False (set_users t s)
        else send_response os fd (''No se pudo cambiar la contrase'' @ n_tilde @ ''a''
            @ crlf) True s })"

definition role_named :: "string \<Rightarrow> int" where
  "role_named status = (if status = ''admin'' then ADMIN else COMMONER)"

definition handle_change_status :: "os \<Rightarrow> int \<Rightarrow> string option \<Rightarrow> string option \<Rightarrow> st \<Rightarrow> st option" where
  "handle_change_status os fd user status s =
     (if user = None \<or> status = None
      then send_response os fd (''Faltan par'' @ a_acute
          @ ''metros: CHANGE-STATUS <usuario> <rol>'') True s
      else send_response os fd
        (snprintf MAX_LENGTH_MSG (''El rol del usuario '' @ the user @ '' fue actualizado a '' @
           (if the status = ''admin'' then ''admin'' else ''commoner'') @ (''.'' @ crlf))) False
        (set_users (change_status (users_of s) (the user) (role_named (the status))) s))"

definition handle_stat :: "os \<Rightarrow> int \<Rightarrow> st \<Rightarrow> st option" where
  "handle_stat os fd s =
     send_response os fd (snprintf MAX_LENGTH_MSG
       ((crlf @ ''-Total usuarios: '') @ utoa (get_user_count (users_of s))
        @ (crlf @ ''-Conexiones concurrentes: '') @ itoa (get_connections (metrics_of (snd s)))
        @ (crlf @ ''-Conexiones hist'' @ o_acute @ ''ricas: '')
            @ itoa (get_historical_connections (metrics_of (snd s)))
        @ (crlf @ ''-Bytes transferidos: '') @ itoa (get_bytes (metrics_of (snd s)))
            @ crlf)) False s"

text \<open>The result of \<open>selector_unregister_fd\<close> is dropped.\<close>

definition handle_quit :: "os \<Rightarrow> nat \<Rightarrow> st \<Rightarrow> st option" where
  "handle_quit os i s = do {
     data \<leftarrow> manager_at i s;
     s1 \<leftarrow> send_response os (mgr_fd data) (''Sesi'' @ o_acute
         @ ''n finalizada. Cerrando la conexi'' @ o_acute @ ''n.'' @ crlf) False s;
     (_, s2) \<leftarrow> unregister_any os (mgr_fd data) s1;
     Some s2 }"

definition dashes :: string where "dashes = replicate 34 (CHR ''-'') @ crlf"

text \<open>\<open>char msg[2048]\<close> is filled with \<open>strcat\<close>: a longer log runs over it.\<close>

definition handle_list_user :: "os \<Rightarrow> int \<Rightarrow> string option \<Rightarrow> st \<Rightarrow> st option" where
  "handle_list_user os fd user s =
     (case user of
        None \<Rightarrow> send_response os fd (''Falta par'' @ a_acute
            @ ''metro: LIST-USER <usuario>'' @ crlf) True s
      | Some name \<Rightarrow>
          let index = user_exists (users_of s) name
          in if index < 0
             then send_response os fd (snprintf MAX_LENGTH_MSG ((''El usuario '' @ [CHR 0x27])
                 @ name @ ([CHR 0x27] @ '' no existe'' @ crlf))) True s
             else do {
               let access_list = (case u_access (get_users (users_of s) ! nat index) of
                 None \<Rightarrow> [] | Some sb \<Rightarrow> sb_get_string sb);
               let msg = (if access_list \<noteq> [] then access_list @ crlf
                          else (''(sin accesos registrados)'' @ crlf)) @ dashes;
               check (length msg < 2048);
               send_response os fd msg False s })"

definition handle_server_logs :: "os \<Rightarrow> int \<Rightarrow> st \<Rightarrow> st option" where
  "handle_server_logs os fd s =
     (if get_logs (logs (snd s)) \<noteq> [] then do {
        let (sb, s1) = new_sb os s;
        case sb of
          None \<Rightarrow> send_response os fd (''Error interno de memoria'' @ crlf) True s1
        | Some sb0 \<Rightarrow> do {
            (sb1, s2) \<leftarrow> append_texts os sb0 [[CHR 0x0A], get_logs (logs (snd s1)), dashes] s1;
            send_response os fd (sb_get_string sb1) False s2 } }
      else send_response os fd (''No hay logs registrados.'' @ crlf) False s)"

text \<open>
  \<open>sizeof(Tuser)\<close>: two arrays of 256 bytes, an \<open>int\<close>, a pointer. The size handed to \<open>realloc\<close>
  is computed in 64 bits and may wrap around: the block then holds \<open>users_cap\<close> entries, however
  large \<open>max_users\<close> is; where it no longer holds the users there are, their entries are gone
  (\<open>None\<close>). A size of 0 frees the block and answers NULL.
\<close>

definition sizeof_Tuser :: nat where "sizeof_Tuser = 528"

definition realloc_users :: "nat \<Rightarrow> nat \<Rightarrow> user_table \<Rightarrow> user_table option" where
  "realloc_users nbytes limit t = do {
     check (cantUsers t \<le> nbytes div sizeof_Tuser);
     Some (t\<lparr>users_cap := nbytes div sizeof_Tuser, max_users := limit\<rparr>) }"

definition handle_set_max_users :: "os \<Rightarrow> int \<Rightarrow> string option \<Rightarrow> st \<Rightarrow> st option" where
  "handle_set_max_users os fd arg s =
     (case arg of
        None \<Rightarrow> send_response os fd (''Falta par'' @ a_acute
            @ ''metro: SET-MAX-USERS <numero>'' @ crlf) True s
      | Some str \<Rightarrow> do {
          let (new_limit, endptr) = strtol str;
          if endptr \<noteq> [] \<or> new_limit \<le> 0
          then send_response os fd (''Valor inv'' @ a_acute @ ''lido. Debe ser un n''
              @ u_acute @ ''mero positivo.'' @ crlf) True s
          else if nat (new_limit mod 2 ^ 32) < cantUsers (users_of s)
          then send_response os fd (''No se puede reducir por debajo del n'' @ u_acute
              @ ''mero actual de usuarios.'' @ crlf) True s
          else do {
            let nbytes = nat ((new_limit * int sizeof_Tuser) mod 2 ^ 64);
            let (m, s1) = sys_malloc os nbytes s;
            if nbytes = 0
            then send_response os fd (''Error de memoria al redimensionar.'' @ crlf) True
              (set_users ((users_of s1)\<lparr>users_cap := 0\<rparr>) s1)
            else if \<not> m then send_response os fd (''Error de memoria al redimensionar.''
                @ crlf) True s1
            else do {
              t \<leftarrow> realloc_users nbytes (nat (new_limit mod 2 ^ 32)) (users_of s1);
              s2 \<leftarrow> send_response os fd
                (snprintf MAX_LENGTH_MSG ((''Capacidad m'' @ a_acute
                    @ ''xima de usuarios actualizada a '') @ utoa (max_users t) @ (''.'' @ crlf)))
                False (set_users t s1);
              log_msg os INFO ''User array resized successfully'' s2 } } })"

definition help_text :: string where
  "help_text =
     (''Comandos disponibles:'' @ crlf)
   @ ('' - LIST-USERS                        Listar todos los usuarios registrados'' @ crlf)
   @ ('' - ADD-USER <usuario> <contrase'' @ n_tilde @ ''a>   Crear un nuevo usuario'' @ crlf)
   @ ('' - DELETE-USER <usuario>             Eliminar un usuario existente'' @ crlf)
   @ ('' - CHANGE-PASS <vieja> <nueva>       Modificar su propia contrase'' @ n_tilde @ ''a''
       @ crlf)
   @ ('' - CHANGE-STATUS <usuario> <rol>     Cambiar el rol ('' @ [CHR 0x22] @ ''admin''
       @ [CHR 0x22] @ '' o '' @ [CHR 0x22] @ ''commoner'' @ [CHR 0x22] @ '') de un usuario''
       @ crlf)
   @ ('' - USER-LOGS <usuario>               Mostrar accesos registrados del usuario'' @ crlf)
   @ ('' - SERVER-LOGS                       Ver los logs del servidor'' @ crlf)
   @ ('' - SET-MAX-USERS <numero>            Definir la capacidad m'' @ a_acute
       @ ''xima de usuarios'' @ crlf)
   @ ('' - GET-MAX-USERS                     Consultar la capacidad m'' @ a_acute
       @ ''xima de usuarios'' @ crlf)
   @ ('' - STATS                             Ver m'' @ e_acute @ ''tricas de uso del sistema''
       @ crlf)
   @ ('' - HELP                              Mostrar esta ayuda'' @ crlf)
   @ ('' - QUIT                              Finalizar la sesi'' @ o_acute @ ''n actual'' @ crlf)"

definition handle_help :: "os \<Rightarrow> int \<Rightarrow> st \<Rightarrow> st option" where
  "handle_help os fd s = send_response os fd help_text False s"

definition run_command :: "os \<Rightarrow> int \<Rightarrow> string \<Rightarrow> string option \<Rightarrow> string option \<Rightarrow> nat \<Rightarrow> st \<Rightarrow> st option" where
  "run_command os fd cmd arg1 arg2 i s =
     (if cmd = ''LIST-USERS'' then handle_list os fd s
      else if cmd = ''ADD-USER'' then handle_add_user os fd arg1 arg2 s
      else if cmd = ''DELETE-USER'' then handle_delete_user os fd arg1 s
      else if cmd = ''CHANGE-PASS'' then handle_change_pass os fd i arg1 arg2 s
      else if cmd = ''USER-LOGS'' then handle_list_user os fd arg1 s
      else if cmd = ''STATS'' then handle_stat os fd s
      else if cmd = ''CHANGE-STATUS'' then handle_change_status os fd arg1 arg2 s
      else if cmd = ''HELP'' then handle_help os fd s
      else if cmd = ''QUIT'' then handle_quit os i s
      else if cmd = ''SERVER-LOGS'' then handle_server_logs os fd s
      else if cmd = ''SET-MAX-USERS'' then handle_set_max_users os fd arg1 s
      else if cmd = ''GET-MAX-USERS'' then
        send_response os fd (snprintf MAX_LENGTH_MSG
          ((''La capacidad m'' @ a_acute @ ''xima de usuarios es: '')
              @ utoa (max_users (users_of s)) @ (''.'' @ crlf))) False s
      else send_response os fd (''Comando desconocido. Utilice HELP para ver las opciones disponibles.'' @ crlf) True s)"

definition handle_command :: "os \<Rightarrow> int \<Rightarrow> string \<Rightarrow> nat \<Rightarrow> st \<Rightarrow> st option" where
  "handle_command os fd input i s =
     (let (cmd, rest) = strtok input;
          (arg1, rest1) = strtok rest;
          (arg2, rest2) = strtok rest1
      in case cmd of
           None \<Rightarrow> Some s
         | Some c \<Rightarrow> do {
             data \<leftarrow> manager_at i s;
             if \<not> logged_in data then handle_auth_command os fd c arg1 i s
             else run_command os fd c arg1 arg2 i s })"

section \<open>Connections\<close>

definition MANAGER_BUFFER_SIZE :: nat where "MANAGER_BUFFER_SIZE = 1024"

definition manager_read :: "os \<Rightarrow> key \<Rightarrow> st \<Rightarrow> st option" where
  "manager_read os key s =
     (case key_data key of
        None \<Rightarrow> Some s
      | Some (Client _) \<Rightarrow> None
      | Some (Manager i) \<Rightarrow> do {
          data \<leftarrow> manager_at i s;
          let (r, s1) = sys_recv os (mgr_fd data) (MANAGER_BUFFER_SIZE - 1) s;
          case r of
            Inl _ \<Rightarrow> do { (_, s2) \<leftarrow> unregister_any os (mgr_fd data) s1; Some s2 }
          | Inr bs \<Rightarrow>
              if bs = [] then do { (_, s2) \<leftarrow> unregister_any os (mgr_fd data) s1; Some s2 }
              else do {
                check (length bs < MANAGER_BUFFER_SIZE);
                let line = trim_newline (string_of (cstr (bs @ [0])));
                if line = []
                then send_response os (mgr_fd data)
                  (''No se recibi'' @ o_acute @ '' ning'' @ u_acute
                      @ ''n comando. Escriba HELP para ver opciones.'' @ crlf) True s1
                else handle_command os (mgr_fd data) line i s1 } })"

text \<open>\<open>calloc(1, sizeof(manager_data))\<close>\<close>

definition sizeof_manager_data :: nat where "sizeof_manager_data = 1096"

definition new_manager :: "os \<Rightarrow> int \<Rightarrow> st \<Rightarrow> nat option \<times> st" where
  "new_manager os fd s =
     (let (m, s1) = sys_malloc os sizeof_manager_data s;
          i = next_manager (snd s1)
      in if \<not> m then (None, s1)
         else (Some i, set_manager i \<lparr>mgr_fd = fd, logged_in = False, user_sent = False,
                 mgr_username = replicate 50 0, is_admin = False\<rparr>
                 (fst s1, (snd s1)\<lparr>next_manager := Suc i\<rparr>)))"

text \<open>The greeting goes out before the result of \<open>accept\<close> is tested.\<close>

definition manager_passive_accept :: "os \<Rightarrow> key \<Rightarrow> st \<Rightarrow> st option" where
  "manager_passive_accept os key s = do {
     let (r, s1) = sys_accept os (key_fd key) s;
     let client = (case r of None \<Rightarrow> -1 | Some (fd, _) \<Rightarrow> fd);
     s2 \<leftarrow> send_response os client (''Dory v1.0'' @ crlf) False s1;
     if client < 0 then Some s2
     else do {
       let (nio, s3) = sys_set_nio os client s2;
       if nio = -1 then Some (record_event (Close client) s3)
       else do {
         let (data, s4) = new_manager os client s3;
         case data of
           None \<Rightarrow> Some (record_event (Close client) s4)
         | Some i \<Rightarrow> do {
             (st, s5) \<leftarrow> register os client MANAGER_HANDLER OP_READ (Some (Manager i)) s4;
             Some (if st \<noteq> SELECTOR_SUCCESS
                   then free_manager i (record_event (Close client) s5) else s5) } } } }"

section \<open>What replies leave alone\<close>

text \<open>A step that only adds to the history.\<close>

definition only_trace :: "st \<Rightarrow> st \<Rightarrow> bool" where
  "only_trace s s' \<longleftrightarrow> (\<exists>es. s' = (fst s, (snd s)\<lparr>trace := hist s @ es\<rparr>))"

lemma only_traceD:
  assumes "only_trace s s'"
  shows "fst s' = fst s" "client_at i s' = client_at i s" "manager_at i s' = manager_at i s"
    "users_of s' = users_of s" "metrics_of (snd s') = metrics_of (snd s)"
    "logs (snd s') = logs (snd s)" "next_manager (snd s') = next_manager (snd s)"
    "next_client (snd s') = next_client (snd s)" "threads (snd s') = threads (snd s)"
    "\<exists>es. hist s' = hist s @ es"
  using assms by (auto simp: only_trace_def client_at_def manager_at_def hist_def)

lemma only_trace_refl: "only_trace s s"
  unfolding only_trace_def by (intro exI [of _ "[]"]) (simp add: hist_def)

lemma only_trace_trans: "only_trace s t \<Longrightarrow> only_trace t u \<Longrightarrow> only_trace s u"
  by (auto simp: only_trace_def hist_def)

lemma only_trace_event: "only_trace s (record_event e s)"
  by (auto simp: only_trace_def record_event_def hist_def)

lemma silent_only_trace: "silent s s' \<Longrightarrow> only_trace s s'"
  by (auto simp: silent_def only_trace_def)

lemma only_trace_calls:
  "sys_malloc os n s = (m, s') \<Longrightarrow> only_trace s s'"
  "sys_send os fd bs s = (r, s') \<Longrightarrow> only_trace s s'"
  "sys_recv os fd n s = (r', s') \<Longrightarrow> only_trace s s'"
  "sys_accept os fd s = (a, s') \<Longrightarrow> only_trace s s'"
  "sys_set_nio os fd s = (o', s') \<Longrightarrow> only_trace s s'"
  "new_sb os s = (sb, s') \<Longrightarrow> only_trace s s'"
  "append_sb os b t s = Some (b', s') \<Longrightarrow> only_trace s s'"
  "log_line os ty msg s = Some s' \<Longrightarrow> only_trace s s'"
  by (auto simp: sys_malloc_def sys_send_def sys_recv_def sys_accept_def sys_set_nio_def Let_def
      intro: only_trace_event silent_only_trace dest: silent_new_sb silent_append_sb log_line_silent)

lemma send_plain_trace: "send_plain os fd msg s = Some s' \<Longrightarrow> only_trace s s'"
  by (auto simp: send_plain_def Let_def bind_eq_Some_conv split: prod.splits dest: only_trace_calls)

lemma send_response_trace: "send_response os fd msg e s = Some s' \<Longrightarrow> only_trace s s'"
  by (auto simp: send_response_def Let_def split: prod.splits if_splits
      dest!: send_plain_trace only_trace_calls intro: only_trace_trans)

lemma send_response_frame:
  assumes "send_response os fd msg e s = Some s'"
  shows "users_of s' = users_of s" "fst s' = fst s" "manager_at i s' = manager_at i s"
    "client_at i s' = client_at i s"
  using only_traceD [OF send_response_trace [OF assms]] by simp_all

lemma append_texts_trace: "append_texts os sb ts s = Some (sb', s') \<Longrightarrow> only_trace s s'"
  by (induction ts arbitrary: sb s)
    (auto simp: only_trace_refl bind_eq_Some_conv dest!: only_trace_calls(7) intro: only_trace_trans)

text \<open>A reply is what goes out, when memory lasts and the peer is there.\<close>

definition no_sigpipe :: "os \<Rightarrow> bool" where
  "no_sigpipe os \<longleftrightarrow> (\<forall>h fd bs. os_send os h fd bs \<noteq> Inl EPIPE)"

lemma send_response_eq:
  assumes "mallocs_ok os"
  defines "out \<equiv> \<lambda>msg e. (if e then ''-ERR '' else ''+OK '') @ msg"
  shows "send_response os fd msg e s =
    (let h = hist s @ [Malloc (length (out msg e) + 1) True]; r = os_send os h fd (bytes_of (out msg e))
     in if r = Inl EPIPE then None
        else Some (record_event (Send fd (bytes_of (out msg e)) r) (record_event (Malloc (length (out msg e) + 1) True) s)))"
  using assms(1)
  by (simp add: out_def send_response_def send_plain_def sys_malloc_def sys_send_def mallocs_ok_def Let_def del: append.simps)

lemma send_response_returns:
  assumes "mallocs_ok os" and "no_sigpipe os"
  shows "\<exists>s' r. send_response os fd msg e s = Some s' \<and> only_trace s s'
    \<and> hist s' = hist s @ [Malloc (5 + length msg + (if e then 1 else 0)) True,
         Send fd (bytes_of ((if e then ''-ERR '' else ''+OK '') @ msg)) r]"
  using assms
  by (auto simp: send_response_def send_plain_def sys_malloc_def sys_send_def mallocs_ok_def no_sigpipe_def
      Let_def intro: only_trace_event only_trace_trans)

section \<open>The login\<close>

text \<open>The name a session has sent, as the array holds it.\<close>

abbreviation session_name :: "manager_data \<Rightarrow> string" where
  "session_name data \<equiv> string_of (cstr (mgr_username data))"

lemma set_manager_frame [simp]:
  "fst (set_manager i m s) = fst s"
  "client_at j (set_manager i m s) = client_at j s"
  "manager_at j (set_manager i m s) = (if j = i then Some m else manager_at j s)"
  "users_of (set_manager i m s) = users_of s"
  "hist (set_manager i m s) = hist s"
  "metrics_of (snd (set_manager i m s)) = metrics_of (snd s)"
  by (auto simp: set_manager_def client_at_def manager_at_def hist_def)

lemma set_users_frame [simp]:
  "fst (set_users t s) = fst s" "client_at j (set_users t s) = client_at j s"
  "manager_at j (set_users t s) = manager_at j s" "users_of (set_users t s) = t"
  "hist (set_users t s) = hist s" "metrics_of (snd (set_users t s)) = metrics_of (snd s)"
  by (auto simp: set_users_def client_at_def manager_at_def hist_def)

lemma free_manager_frame [simp]:
  "fst (free_manager i s) = fst s" "client_at j (free_manager i s) = client_at j s"
  "manager_at j (free_manager i s) = (if j = i then None else manager_at j s)"
  "users_of (free_manager i s) = users_of s" "hist (free_manager i s) = hist s"
  "metrics_of (snd (free_manager i s)) = metrics_of (snd s)"
  by (auto simp: free_manager_def client_at_def manager_at_def hist_def)

lemma manager_at_frame [simp]:
  "manager_at j (record_event e s) = manager_at j s"
  "manager_at j (set_sel sel s) = manager_at j s"
  "manager_at j (with_metrics f s) = manager_at j s"
  "manager_at j (set_client i c s) = manager_at j s"
  by (simp_all add: manager_at_def record_event_def set_sel_def with_metrics_def set_client_def)

text \<open>Only the password of an administrator opens a session; nothing but the session changes.\<close>

definition admits :: "user_table \<Rightarrow> manager_data \<Rightarrow> string \<Rightarrow> string option \<Rightarrow> bool" where
  "admits t data cmd arg \<longleftrightarrow> cmd = ''PASS'' \<and> user_sent data \<and>
     (\<exists>p u. arg = Some p \<and> lookup t (session_name data) = Some u \<and> u_pass u = p \<and> u_status u = ADMIN)"

lemma login_entry:
  assumes "user_login t name p = 0"
  shows "user_exists t name \<ge> 0 \<and> (\<exists>u. lookup t name = Some u \<and> u_pass u = p \<and> users t ! nat (user_exists t name) = u)"
proof -
  from assms obtain u where u: "lookup t name = Some u" "u_pass u = p" using user_login_iff by blast
  then have n: "\<not> user_exists t name < 0" using user_exists_lookup(1) by fastforce
  then obtain v where "lookup t name = Some v" "users t ! nat (user_exists t name) = v"
    by (elim user_exists_nonneg)
  with u n show ?thesis by auto
qed

lemma handle_auth_command_spec:
  assumes at: "manager_at i s = Some data" and run: "handle_auth_command os fd cmd arg i s = Some s'"
  shows "users_of s' = users_of s \<and> fst s' = fst s \<and> (\<forall>j. client_at j s' = client_at j s)
    \<and> (\<forall>j. j \<noteq> i \<longrightarrow> manager_at j s' = manager_at j s)
    \<and> (\<exists>data'. manager_at i s' = Some data' \<and> mgr_fd data' = mgr_fd data
        \<and> (logged_in data' \<longleftrightarrow> logged_in data \<or> admits (users_of s) data cmd arg))"
proof -
  have sent: ?thesis if "send_response os fd msg e t = Some s'"
    "t = set_manager i d s \<and> mgr_fd d = mgr_fd data
       \<and> (logged_in d \<longleftrightarrow> logged_in data \<or> admits (users_of s) data cmd arg)" for msg e d t
    using that only_traceD [OF send_response_trace [OF that(1)]] by simp
  have same: "set_manager i data s = s"
    using at by (cases s) (auto simp: set_manager_def manager_at_def fun_upd_idem)
  show ?thesis
  proof (cases "admits (users_of s) data cmd arg")
    case True
    then obtain p u where a: "cmd = ''PASS''" "user_sent data" "arg = Some p"
      "lookup (users_of s) (session_name data) = Some u" "u_pass u = p" "u_status u = ADMIN"
      by (auto simp: admits_def)
    then have l: "user_login (users_of s) (session_name data) p = 0" using user_login_iff by blast
    with login_entry [OF l] a(4,6) have "user_exists (users_of s) (session_name data) \<ge> 0"
      "u_status (users (users_of s) ! nat (user_exists (users_of s) (session_name data))) = ADMIN" by auto
    with run at a(1-3) l True show ?thesis
      by (intro sent [where d = "data\<lparr>logged_in := True, is_admin := True\<rparr>"])
        (auto simp: handle_auth_command_def get_users_def)
  next
    case False
    have no: "\<not> (cmd = ''PASS'' \<and> user_sent data \<and> arg = Some p
        \<and> user_login (users_of s) (session_name data) p = 0
        \<and> u_status (users (users_of s) ! nat (user_exists (users_of s) (session_name data))) = ADMIN)" for p
      using False login_entry by (auto simp: admits_def)
    consider msg e where "send_response os fd msg e s = Some s'"
      | name where "send_response os fd crlf False
          (set_manager i (data\<lparr>mgr_username := strncpy 49 (bytes_of name) (mgr_username data),
             user_sent := True\<rparr>) s) = Some s'"
      | "s' = s"
      using run at no
      by (fastforce simp: handle_auth_command_def get_users_def Let_def split: if_splits option.splits)
    then show ?thesis
    proof cases
      case 1
      with same False show ?thesis by (intro sent [where d = data and t = s]) auto
    next
      case 2
      show ?thesis by (rule sent [OF 2]) (use False in auto)
    next
      case 3
      with at False show ?thesis by auto
    qed
  qed
qed

section \<open>Commands and the table of users\<close>

lemma set_users_inv:
  assumes "send_response os fd msg e (set_users t s) = Some s'"
  shows "users_of s' = t \<and> fst s' = fst s"
  using only_traceD [OF send_response_trace [OF assms]] by simp

text \<open>What \<open>SET-MAX-USERS\<close> does to the table, and when that is in order.\<close>

lemma set_max_users_table:
  assumes "handle_set_max_users os fd arg s = Some s'"
  shows "users_of s' = users_of s
    \<or> (\<exists>str n. arg = Some str \<and> strtol str = (n, []) \<and> 0 < n \<and> cantUsers (users_of s) \<le> nat (n mod 2 ^ 32)
        \<and> (users_of s' = (users_of s)\<lparr>users_cap := 0\<rparr> \<and> n * 528 mod 2 ^ 64 = 0
           \<or> users_of s' = (users_of s)\<lparr>users_cap := nat (n * 528 mod 2 ^ 64) div 528,
                max_users := nat (n mod 2 ^ 32)\<rparr>
             \<and> cantUsers (users_of s) \<le> nat (n * 528 mod 2 ^ 64) div 528))"
proof (cases arg)
  case None
  with assms send_response_frame(1) show ?thesis
    unfolding handle_set_max_users_def by fastforce
next
  case (Some str)
  obtain n rest where st: "strtol str = (n, rest)" by fastforce
  let ?b = "nat (n * 528 mod 2 ^ 64)"
  obtain m s1 where m: "sys_malloc os ?b s = (m, s1)" by fastforce
  have s1: "users_of s1 = users_of s" using only_traceD [OF only_trace_calls(1) [OF m]] by simp
  consider msg where "send_response os fd msg True s = Some s'"
    | msg where "send_response os fd msg True s1 = Some s'"
    | msg where "send_response os fd msg True (set_users ((users_of s1)\<lparr>users_cap := 0\<rparr>) s1) = Some s'"
        "rest = []" "0 < n" "\<not> nat (n mod 2 ^ 32) < cantUsers (users_of s)" "?b = 0"
    | msg t where "send_response os fd msg False (set_users t s1) = Some s'"
        "realloc_users ?b (nat (n mod 2 ^ 32)) (users_of s1) = Some t"
        "rest = []" "0 < n" "\<not> nat (n mod 2 ^ 32) < cantUsers (users_of s)"
    using assms m
    by (auto simp: handle_set_max_users_def Some st sizeof_Tuser_def Let_def bind_eq_Some_conv
        log_msg_same split: if_splits)
  then show ?thesis
  proof cases
    case 1
    from send_response_frame [OF this] show ?thesis by simp
  next
    case 2
    from send_response_frame [OF this] s1 show ?thesis by simp
  next
    case 3
    have "0 \<le> n * 528 mod 2 ^ 64" by simp
    with 3(5) have "n * 528 mod 2 ^ 64 = 0" by linarith
    with set_users_inv [OF 3(1)] 3 s1 Some st show ?thesis by auto
  next
    case 4
    with set_users_inv [OF 4(1)] s1 Some st show ?thesis
      by (auto simp: realloc_users_def sizeof_Tuser_def bind_eq_Some_conv)
  qed
qed

lemma set_max_users_ok:
  assumes inv: "users_inv t" and n: "0 < n" "n < 2 ^ 32" "cantUsers t \<le> nat (n mod 2 ^ 32)"
  shows "n * 528 mod 2 ^ 64 \<noteq> 0"
    and "users_inv (t\<lparr>users_cap := nat (n * 528 mod 2 ^ 64) div 528, max_users := nat (n mod 2 ^ 32)\<rparr>)"
proof -
  have e: "n * 528 mod 2 ^ 64 = n * 528" "n mod 2 ^ 32 = n" using n by simp_all
  show "n * 528 mod 2 ^ 64 \<noteq> 0" using e n(1) by simp
  have "nat (n * 528) div 528 = nat n" using n(1) by (simp add: nat_mult_distrib)
  with inv n e show "users_inv (t\<lparr>users_cap := nat (n * 528 mod 2 ^ 64) div 528, max_users := nat (n mod 2 ^ 32)\<rparr>)"
    by (auto simp: users_inv_def)
qed

section \<open>The end of a session\<close>

lemma manager_close_frame:
  assumes "manager_close key s = Some s'"
  shows "fst s' = fst s" "users_of s' = users_of s" "client_at j s' = client_at j s"
    "metrics_of (snd s') = metrics_of (snd s)"
  using assms by (auto simp: manager_close_def bind_eq_Some_conv split: option.splits attachment.splits)

interpretation server: other_closers server_closers
proof unfold_locales
  fix h f key s s'
  assume "server_closers h = Some f" "f key s = Some s'"
  then show "fst s' = fst s"
    using manager_close_frame(1) by (auto simp: server_closers_def split: if_splits)
qed

text \<open>Unregistering any descriptor: the client's or the session's data change, nothing else.\<close>

lemma socksv5_close_users:
  "socksv5_close os key s = Some s' \<Longrightarrow> users_of s' = users_of s"
  by (auto simp: socksv5_close_def bind_eq_Some_conv close_table_def Let_def
      dest!: stm_close_silent split: if_splits)

lemma unregister_any_users:
  assumes inv: "sel_inv (fst s)" and run: "unregister_any os fd s = Some (r, s')"
  shows "users_of s' = users_of s \<and> sel_inv (fst s') \<and> registered (fst s') = (registered (fst s))(fd := None)"
proof -
  obtain sel w sel' w' where s: "s = (sel, w)" "s' = (sel', w')" by (meson surj_pair)
  have run': "selector_unregister_fd (close_handlers os server_closers) fd (sel, w) = Some (r, sel', w')"
    using run s by (simp add: unregister_any_def unregister_fd_def)
  have sel': "sel_inv sel' \<and> registered sel' = (registered sel)(fd := None)"
    using server.client_close.unregister_inv [OF _ run'] inv s by simp
  have "user_tab w' = user_tab w"
  proof (cases "registered sel fd")
    case (Some it)
    from server.client_close.unregister_spec [OF _ Some run'] inv s obtain h where
      c: "run_close (close_handlers os server_closers) h \<lparr>key_fd = fd, key_data = item_data it\<rparr> (sel, w) = Some (sel, w')"
      by auto
    show ?thesis
    proof (cases "handle_close (close_handlers os server_closers h)")
      case None
      with c show ?thesis by (simp add: run_close_def)
    next
      case (Some f)
      with c have f: "f \<lparr>key_fd = fd, key_data = item_data it\<rparr> (sel, w) = Some (sel, w')"
        by (simp add: run_close_def)
      have "f = socksv5_close os \<or> f = manager_close"
        using Some by (auto simp: close_handlers_def server_closers_def split: if_splits)
      with f show ?thesis
        using socksv5_close_users [of os _ "(sel, w)" "(sel, w')"] manager_close_frame(2) [of _ "(sel, w)" "(sel, w')"]
        by auto
    qed
  next
    case None
    with run' have "w' = w"
      using registered_at [of fd sel]
      by (auto simp: selector_unregister_fd_def INVALID_FD_def nth_opt_def fd_size_def split: if_splits)
    then show ?thesis by simp
  qed
  with sel' s show ?thesis by simp
qed

text \<open>\<open>QUIT\<close>, and the end of the input, close the descriptor once and free the session.\<close>

definition manages :: "nat \<Rightarrow> manager_data \<Rightarrow> st \<Rightarrow> bool" where
  "manages i data s \<longleftrightarrow> manager_at i s = Some data \<and> sel_inv (fst s)
     \<and> roles (fst s) (mgr_fd data) = Some (Some MANAGER_HANDLER, Some (Manager i))"

lemma unregister_manager:
  assumes "manages i data s"
  shows "\<exists>sel'. unregister_any os (mgr_fd data) s = Some (SELECTOR_SUCCESS,
      set_sel sel' (free_manager i (record_event (Close (mgr_fd data)) s)))
    \<and> sel_inv sel' \<and> registered sel' = (registered (fst s))(mgr_fd data := None)"
proof -
  from assms obtain it where it: "sel_inv (fst s)" "registered (fst s) (mgr_fd data) = Some it"
    "item_handler it = Some MANAGER_HANDLER" "item_data it = Some (Manager i)"
    by (auto simp: manages_def roles_def)
  let ?s = "free_manager i (record_event (Close (mgr_fd data)) s)"
  have "run_close (close_handlers os server_closers) MANAGER_HANDLER
      \<lparr>key_fd = mgr_fd data, key_data = item_data it\<rparr> (fst s, snd s) = Some (fst s, snd ?s)"
    using assms it(4) free_manager_frame(1) [of i "record_event (Close (mgr_fd data)) s"]
    by (simp add: run_close_def close_handlers_def server_closers_def manager_close_def manages_def prod_eq_iff)
  from unregister_run [OF it(1,2,3) this] show ?thesis
    by (auto simp: unregister_any_def unregister_fd_def set_sel_def)
qed

abbreviation quit_reply :: string where
  "quit_reply \<equiv> ''+OK '' @ (''Sesi'' @ o_acute @ ''n finalizada. Cerrando la conexi'' @ o_acute @ ''n.'' @ crlf)"

lemma handle_quit_spec:
  assumes mem: "mallocs_ok os" and m: "manages i data s"
  defines "sending \<equiv> Malloc (length quit_reply + 1) True" and "fd \<equiv> mgr_fd data"
  defines "r \<equiv> os_send os (hist s @ [sending]) fd (bytes_of quit_reply)"
  shows "r = Inl EPIPE \<Longrightarrow> handle_quit os i s = None"
    and "r \<noteq> Inl EPIPE \<Longrightarrow> \<exists>s'. handle_quit os i s = Some s' \<and> manager_at i s' = None \<and> users_of s' = users_of s
      \<and> sel_inv (fst s') \<and> registered (fst s') = (registered (fst s))(fd := None)
      \<and> hist s' = hist s @ [sending, Send fd (bytes_of quit_reply) r, Close fd]"
proof -
  let ?msg = "''Sesi'' @ o_acute @ ''n finalizada. Cerrando la conexi'' @ o_acute @ ''n.'' @ crlf"
  let ?s1 = "record_event (Send fd (bytes_of quit_reply) r) (record_event sending s)"
  have at: "manager_at i s = Some data" using m by (simp add: manages_def)
  have s1: "send_response os fd ?msg False s = (if r = Inl EPIPE then None else Some ?s1)"
    unfolding send_response_eq [OF mem] Let_def r_def sending_def by (simp only: if_False)
  show "r = Inl EPIPE \<Longrightarrow> handle_quit os i s = None"
    using s1 by (simp add: handle_quit_def at fd_def del: append.simps)
  assume r: "r \<noteq> Inl EPIPE"
  have m1: "manages i data ?s1" using m by (simp add: manages_def)
  obtain sel' where u: "unregister_any os fd ?s1 = Some (SELECTOR_SUCCESS,
      set_sel sel' (free_manager i (record_event (Close fd) ?s1)))"
    "sel_inv sel'" "registered sel' = (registered (fst ?s1))(fd := None)"
    using unregister_manager [OF m1, of os, folded fd_def] by blast
  let ?s' = "set_sel sel' (free_manager i (record_event (Close fd) ?s1))"
  have "handle_quit os i s = Some ?s'"
    using at s1 r u(1) by (simp add: handle_quit_def fd_def del: append.simps)
  moreover have "hist ?s' = hist s @ [sending, Send fd (bytes_of quit_reply) r, Close fd]"
    by (simp del: append.simps)
  ultimately show "\<exists>s'. handle_quit os i s = Some s' \<and> manager_at i s' = None \<and> users_of s' = users_of s
      \<and> sel_inv (fst s') \<and> registered (fst s') = (registered (fst s))(fd := None)
      \<and> hist s' = hist s @ [sending, Send fd (bytes_of quit_reply) r, Close fd]"
    using u(2,3) by (intro exI [of _ ?s']) (simp del: append.simps)
qed

section \<open>Every command keeps the table in order\<close>

text \<open>Commands that only report.\<close>

lemma only_trace_frame: "only_trace s s' \<Longrightarrow> users_of s' = users_of s \<and> fst s' = fst s"
  by (simp add: only_traceD)

lemma handle_list_frame:
  assumes "handle_list os fd s = Some s'"
  shows "users_of s' = users_of s \<and> fst s' = fst s"
proof (rule only_trace_frame)
  show "only_trace s s'"
    using assms
    by (auto simp: handle_list_def bind_eq_Some_conv split: prod.splits option.splits
        dest!: send_response_trace append_texts_trace only_trace_calls(6); meson only_trace_trans)
qed

lemma handle_server_logs_frame:
  assumes "handle_server_logs os fd s = Some s'"
  shows "users_of s' = users_of s \<and> fst s' = fst s"
proof (rule only_trace_frame)
  show "only_trace s s'"
    using assms
    by (auto simp: handle_server_logs_def bind_eq_Some_conv simp del: append_texts.simps
        split: prod.splits option.splits if_splits
        dest!: send_response_trace append_texts_trace only_trace_calls(6); meson only_trace_trans)
qed

lemma handle_list_user_frame:
  "handle_list_user os fd user s = Some s' \<Longrightarrow> users_of s' = users_of s \<and> fst s' = fst s"
  unfolding handle_list_user_def
  by (auto simp: Let_def bind_eq_Some_conv split: option.splits if_splits dest!: send_response_trace
      simp: only_traceD)

lemma handle_quit_frame:
  assumes inv: "sel_inv (fst s)" and run: "handle_quit os i s = Some s'"
  shows "users_of s' = users_of s \<and> sel_inv (fst s')"
proof -
  let ?msg = "''Sesi'' @ o_acute @ ''n finalizada. Cerrando la conexi'' @ o_acute @ ''n.'' @ crlf"
  from run obtain data where d: "manager_at i s = Some data"
    by (auto simp: handle_quit_def bind_eq_Some_conv)
  with run obtain s1 where s1: "send_response os (mgr_fd data) ?msg False s = Some s1"
    by (cases "send_response os (mgr_fd data) ?msg False s") (simp_all add: handle_quit_def del: append.simps)
  with run d have "unregister_any os (mgr_fd data) s1 \<bind> (\<lambda>(_, s2). Some s2) = Some s'"
    by (simp add: handle_quit_def del: append.simps)
  then obtain r where u: "unregister_any os (mgr_fd data) s1 = Some (r, s')"
    by (auto simp: bind_eq_Some_conv)
  from send_response_frame [OF s1] unregister_any_users [OF _ u] inv show ?thesis by simp
qed

text \<open>Commands that change the table through the operations of \<open>users.c\<close>.\<close>

lemma new_user_keeps:
  assumes "new_user m t name pass = Some (r, t')" and "users_inv t"
  shows "users_inv t'"
  using new_user_spec [OF assms(2), of m name pass] assms(1) by auto

lemma handle_add_user_inv:
  assumes inv: "users_inv (users_of s)" and run: "handle_add_user os fd user pass s = Some s'"
  shows "users_inv (users_of s') \<and> fst s' = fst s"
  using run unfolding handle_add_user_def
  by (auto simp: Let_def bind_eq_Some_conv only_traceD inv split: if_splits
      dest!: send_response_trace; metis new_user_keeps inv)

lemma handle_delete_user_inv:
  assumes inv: "users_inv (users_of s)" and run: "handle_delete_user os fd user s = Some s'"
  shows "users_inv (users_of s') \<and> fst s' = fst s"
  using run delete_user_inv [OF inv] unfolding handle_delete_user_def
  by (auto simp: Let_def split: option.splits prod.splits if_splits dest!: send_response_trace
      simp: only_traceD inv)

lemma handle_change_pass_inv:
  assumes inv: "users_inv (users_of s)" and run: "handle_change_pass os fd i old new s = Some s'"
  shows "users_inv (users_of s') \<and> fst s' = fst s"
proof (cases "old = None \<or> new = None \<or> manager_at i s = None")
  case True
  with run show ?thesis
    unfolding handle_change_pass_def
    by (auto dest!: send_response_trace split: if_splits simp: only_traceD inv)
next
  case False
  then obtain data o' n' where d: "manager_at i s = Some data" "old = Some o'" "new = Some n'" by auto
  obtain r t where t: "change_password (users_of s) (session_name data) o' n' = (r, t)" by fastforce
  have "users_inv t" by (rule change_password_inv [OF inv t])
  with run d t inv show ?thesis
    unfolding handle_change_pass_def
    by (auto dest!: send_response_trace split: if_splits simp: only_traceD)
qed

lemma handle_change_status_inv:
  assumes inv: "users_inv (users_of s)" and run: "handle_change_status os fd user status s = Some s'"
  shows "users_inv (users_of s') \<and> fst s' = fst s"
  using run change_status_inv [OF inv] unfolding handle_change_status_def
  by (auto split: if_splits dest!: send_response_trace simp: only_traceD inv)

lemma handle_set_max_users_inv:
  assumes inv: "users_inv (users_of s)" and run: "handle_set_max_users os fd arg s = Some s'"
    and small: "\<And>str. arg = Some str \<Longrightarrow> fst (strtol str) < 2 ^ 32"
  shows "users_inv (users_of s')"
  using set_max_users_table [OF run]
proof (elim disjE exE conjE)
  assume "users_of s' = users_of s"
  with inv show ?thesis by simp
next
  fix str n
  assume a: "arg = Some str" "strtol str = (n, [])" "0 < n" "cantUsers (users_of s) \<le> nat (n mod 2 ^ 32)"
    "n * 528 mod 2 ^ 64 = 0"
  with small [OF a(1)] set_max_users_ok(1) [OF inv a(3) _ a(4)] show ?thesis by simp
next
  fix str n
  assume a: "arg = Some str" "strtol str = (n, [])" "0 < n" "cantUsers (users_of s) \<le> nat (n mod 2 ^ 32)"
    and t: "users_of s' = (users_of s)\<lparr>users_cap := nat (n * 528 mod 2 ^ 64) div 528,
                max_users := nat (n mod 2 ^ 32)\<rparr>"
  show ?thesis
    unfolding t using small [OF a(1)] a by (intro set_max_users_ok(2) [OF inv]) auto
qed

lemma handle_set_max_users_sel:
  "handle_set_max_users os fd arg s = Some s' \<Longrightarrow> fst s' = fst s"
  unfolding handle_set_max_users_def
  by (auto simp: Let_def bind_eq_Some_conv log_msg_same sys_malloc_def split: option.splits prod.splits if_splits
      dest!: send_response_trace simp: only_traceD)

lemma run_command_inv:
  assumes inv: "users_inv (users_of s)" "sel_inv (fst s)"
    and run: "run_command os fd cmd arg1 arg2 i s = Some s'"
    and small: "\<And>str. cmd = ''SET-MAX-USERS'' \<Longrightarrow> arg1 = Some str \<Longrightarrow> fst (strtol str) < 2 ^ 32"
  shows "users_inv (users_of s') \<and> sel_inv (fst s')"
proof -
  consider "handle_list os fd s = Some s'" | "handle_add_user os fd arg1 arg2 s = Some s'"
    | "handle_delete_user os fd arg1 s = Some s'" | "handle_change_pass os fd i arg1 arg2 s = Some s'"
    | "handle_list_user os fd arg1 s = Some s'" | "handle_change_status os fd arg1 arg2 s = Some s'"
    | "handle_quit os i s = Some s'" | "handle_server_logs os fd s = Some s'"
    | "cmd = ''SET-MAX-USERS''" "handle_set_max_users os fd arg1 s = Some s'"
    | msg e where "send_response os fd msg e s = Some s'"
    using run unfolding run_command_def handle_stat_def handle_help_def
    by (auto split: if_splits)
  then show ?thesis
  proof cases
    case 1
    with handle_list_frame inv show ?thesis by metis
  next
    case 2
    with handle_add_user_inv [OF inv(1)] inv(2) show ?thesis by metis
  next
    case 3
    with handle_delete_user_inv [OF inv(1)] inv(2) show ?thesis by metis
  next
    case 4
    with handle_change_pass_inv [OF inv(1)] inv(2) show ?thesis by metis
  next
    case 5
    with handle_list_user_frame inv show ?thesis by metis
  next
    case 6
    with handle_change_status_inv [OF inv(1)] inv(2) show ?thesis by metis
  next
    case 7
    with handle_quit_frame [OF inv(2)] inv(1) show ?thesis by metis
  next
    case 8
    with handle_server_logs_frame inv show ?thesis by metis
  next
    case 9
    with handle_set_max_users_inv [OF inv(1) 9(2)] handle_set_max_users_sel small inv(2) show ?thesis
      by metis
  next
    case 10
    with send_response_frame inv show ?thesis by metis
  qed
qed

end
