(* ===== verification/Ownership.thy ===== *)
theory Ownership
  imports Manager
begin

text \<open>
  Who owns which descriptor, across the callbacks of \<open>src/server/socks5.c\<close>, \<open>request.c\<close> and
  \<open>manager.c\<close>: every descriptor in the selector's table belongs to a client or a session that is
  still on its heap and that records this very descriptor, or is one of the two listening
  sockets. So no callback the selector makes is handed a freed object.

  Most handlers are \<open>mild\<close>: they change interests, buffers and parsers, not who owns what.
  The others (closing, connecting, accepting) are treated one by one.
\<close>

section \<open>The invariant\<close>

abbreviation fds_of :: "client_data \<Rightarrow> int \<times> int" where
  "fds_of c \<equiv> (client_fd c, origin_fd c)"

text \<open>The table \<open>selector_new(1024)\<close> makes; it has a place for each descriptor that is let in.\<close>

definition table_ok :: "sel \<Rightarrow> bool" where
  "table_ok sel \<longleftrightarrow> sel_inv sel \<and> fd_size sel = ITEMS_MAX_SIZE + 1"

definition owner_alive :: "st \<Rightarrow> int \<Rightarrow> handler_id option \<times> attachment option \<Rightarrow> bool" where
  "owner_alive s fd r \<longleftrightarrow>
     (\<exists>i c. r = (Some SOCKS5_HANDLER, Some (Client i)) \<and> client_at i s = Some c
        \<and> (fd = client_fd c \<or> fd = origin_fd c))
   \<or> (\<exists>i m. r = (Some MANAGER_HANDLER, Some (Manager i)) \<and> manager_at i s = Some m \<and> fd = mgr_fd m)
   \<or> r = (Some PASSIVE_SOCKS, None) \<or> r = (Some PASSIVE_MANAGER, None)"

definition attached :: "st \<Rightarrow> bool" where
  "attached s \<longleftrightarrow> (\<forall>fd r. roles (fst s) fd = Some r \<longrightarrow> owner_alive s fd r)"

definition heaps_ok :: "st \<Rightarrow> bool" where
  "heaps_ok s \<longleftrightarrow> heap_fresh s \<and> (\<forall>i \<ge> next_manager (snd s). manager_at i s = None)
     \<and> (\<forall>i c. client_at i s = Some c \<longrightarrow> machine_ok c)"

definition server_inv :: "st \<Rightarrow> bool" where
  "server_inv s \<longleftrightarrow> table_ok (fst s) \<and> attached s \<and> heaps_ok s"

section \<open>Steps that leave the owners alone\<close>

definition mild :: "st \<Rightarrow> st \<Rightarrow> bool" where
  "mild s s' \<longleftrightarrow>
     (sel_inv (fst s) \<longrightarrow> sel_inv (fst s') \<and> roles (fst s') = roles (fst s) \<and> fd_size (fst s') = fd_size (fst s))
   \<and> (\<forall>i. map_option fds_of (client_at i s') = map_option fds_of (client_at i s))
   \<and> (\<forall>i c c'. client_at i s = Some c \<longrightarrow> client_at i s' = Some c' \<longrightarrow> machine_ok c \<longrightarrow> machine_ok c')
   \<and> (\<forall>i. map_option mgr_fd (manager_at i s') = map_option mgr_fd (manager_at i s))
   \<and> next_client (snd s') = next_client (snd s) \<and> next_manager (snd s') = next_manager (snd s)"

named_theorems mild_intros

lemma mild_refl [simp]: "mild s s"
  by (simp add: mild_def)

lemma mild_clients:
  assumes "mild s t" and "client_at i s = Some c"
  shows "\<exists>c'. client_at i t = Some c' \<and> fds_of c' = fds_of c \<and> (machine_ok c \<longrightarrow> machine_ok c')"
proof -
  have e: "map_option fds_of (client_at i t) = map_option fds_of (client_at i s)"
    using assms(1) by (simp add: mild_def)
  then obtain c' where "client_at i t = Some c'" "fds_of c' = fds_of c" using assms(2) by auto
  moreover from this assms have "machine_ok c \<longrightarrow> machine_ok c'" unfolding mild_def by blast
  ultimately show ?thesis by blast
qed

lemma mild_trans:
  assumes "mild s t" and "mild t u"
  shows "mild s u"
proof -
  have "machine_ok c'" if "client_at i s = Some c" "client_at i u = Some c'" "machine_ok c" for i c c'
    using mild_clients [OF assms(1) that(1)] mild_clients [OF assms(2)] that(2,3) by fastforce
  with assms show ?thesis unfolding mild_def by simp
qed

lemma mild_owner:
  assumes "mild s s'" and "owner_alive s fd r"
  shows "owner_alive s' fd r"
proof -
  note c = mild_clients [OF assms(1)]
  have m: "\<exists>m'. manager_at i s' = Some m' \<and> mgr_fd m' = mgr_fd m" if "manager_at i s = Some m" for i m
    using assms(1) that by (fastforce simp: mild_def dest!: spec [of _ i])
  from assms(2) c m show ?thesis unfolding owner_alive_def by fastforce
qed

lemma mild_inv:
  assumes "mild s s'" and "server_inv s"
  shows "server_inv s'"
proof -
  have "table_ok (fst s') \<and> roles (fst s') = roles (fst s)"
    using assms by (auto simp: mild_def server_inv_def table_ok_def)
  moreover from this have "attached s'"
    using assms(2) mild_owner [OF assms(1)] by (simp add: server_inv_def attached_def)
  moreover have "client_at i s' = None" if "client_at i s = None" for i
    using that assms(1) by (fastforce simp: mild_def dest!: spec [of _ i])
  moreover have "manager_at i s' = None" if "manager_at i s = None" for i
    using that assms(1) by (fastforce simp: mild_def dest!: spec [of _ i])
  moreover have "machine_ok c'" if "client_at i s' = Some c'" for i c'
  proof -
    from that assms(1) obtain c where c: "client_at i s = Some c"
      by (fastforce simp: mild_def dest!: spec [of _ i])
    then have "machine_ok c" using assms(2) by (auto simp: server_inv_def heaps_ok_def)
    with mild_clients [OF assms(1) c] that show ?thesis by auto
  qed
  moreover have "next_client (snd s') = next_client (snd s)" "next_manager (snd s') = next_manager (snd s)"
    using assms(1) by (simp_all add: mild_def)
  ultimately show ?thesis
    using assms(2) by (simp add: server_inv_def heaps_ok_def heap_fresh_def)
qed

lemma next_frame [simp]:
  "next_client (snd (set_client i c s)) = next_client (snd s)"
  "next_client (snd (record_event e s)) = next_client (snd s)"
  "next_client (snd (set_sel sel s)) = next_client (snd s)"
  "next_client (snd (with_metrics f s)) = next_client (snd s)"
  "next_client (snd (set_manager j m s)) = next_client (snd s)"
  "next_client (snd (set_users t s)) = next_client (snd s)"
  "next_manager (snd (set_client i c s)) = next_manager (snd s)"
  "next_manager (snd (record_event e s)) = next_manager (snd s)"
  "next_manager (snd (set_sel sel s)) = next_manager (snd s)"
  "next_manager (snd (with_metrics f s)) = next_manager (snd s)"
  "next_manager (snd (set_manager j m s)) = next_manager (snd s)"
  "next_manager (snd (set_users t s)) = next_manager (snd s)"
  by (simp_all add: set_client_def record_event_def set_sel_def with_metrics_def set_manager_def set_users_def)

lemma mild_frame [simp]:
  "mild s (record_event e t) = mild s t"
  "mild s (with_metrics f t) = mild s t"
  "mild s (set_users us t) = mild s t"
  by (simp_all add: mild_def)

lemma mild_if [simp]: "mild s (if b then t else u) \<longleftrightarrow> (b \<longrightarrow> mild s t) \<and> (\<not> b \<longrightarrow> mild s u)"
  by simp

text \<open>The client was read in a state \<open>t\<close> along the way, and its descriptors are written back.\<close>

lemma machine_ok_cong: "stm c' = stm c \<Longrightarrow> machine_ok c' = machine_ok c"
  by (simp add: machine_ok_def current_valid_def)

lemma mild_set_machine:
  assumes "mild s t" and "client_at i u = Some c" and "mild s u" and "fds_of c' = fds_of c"
    and "machine_ok c \<Longrightarrow> machine_ok c'"
  shows "mild s (set_client i c' t)"
proof -
  have "map_option fds_of (client_at i u) = map_option fds_of (client_at i s)"
    using assms(3) by (simp add: mild_def)
  with assms(2,4) have fds: "map_option fds_of (client_at i s) = Some (fds_of c')" by simp
  moreover have "machine_ok c'" if "client_at i s = Some d" "machine_ok d" for d
    using mild_clients [OF assms(3) that(1)] that(2) assms(2,5) by auto
  ultimately show ?thesis using assms(1) unfolding mild_def by (auto simp del: map_option_eq_Some)
qed

lemma mild_set_client [mild_intros]:
  "mild s t \<Longrightarrow> client_at i u = Some c \<Longrightarrow> mild s u \<Longrightarrow> fds_of c' = fds_of c \<Longrightarrow> stm c' = stm c \<Longrightarrow>
   mild s (set_client i c' t)"
  using mild_set_machine machine_ok_cong by blast

lemma mild_interest [mild_intros]:
  assumes "set_interest fd op t = Some (r, t')" and "mild s t"
  shows "mild s t'"
  using assms set_interest_roles [of "fst t" fd op r "fst t'"] selector_set_interest_inv [of "fst t" fd op r "fst t'"]
  by (auto simp: set_interest_def bind_eq_Some_conv mild_def)

lemma mild_interest_key [mild_intros]:
  "set_interest_key key op t = Some (r, t') \<Longrightarrow> mild s t \<Longrightarrow> mild s t'"
  using mild_interest [of "key_fd key" op t r t' s]
  by (simp add: set_interest_key_def set_interest_def selector_set_interest_key_eq)

lemma mild_only_trace [mild_intros]:
  assumes "only_trace t t'" and "mild s t"
  shows "mild s t'"
  using only_traceD [OF assms(1)] assms(2) by (simp add: mild_def)

lemma mild_calls [mild_intros]:
  "sys_malloc os n t = (m, t') \<Longrightarrow> mild s t \<Longrightarrow> mild s t'"
  "sys_send os fd bs t = (r, t') \<Longrightarrow> mild s t \<Longrightarrow> mild s t'"
  "sys_recv os fd n t = (r', t') \<Longrightarrow> mild s t \<Longrightarrow> mild s t'"
  "sys_set_nio os fd t = (o', t') \<Longrightarrow> mild s t \<Longrightarrow> mild s t'"
  "sys_accept os fd t = (a, t') \<Longrightarrow> mild s t \<Longrightarrow> mild s t'"
  "log_line os ty msg t = Some t' \<Longrightarrow> mild s t \<Longrightarrow> mild s t'"
  "send_response os fd msg e t = Some t' \<Longrightarrow> mild s t \<Longrightarrow> mild s t'"
  by (auto intro: mild_only_trace dest: only_trace_calls send_response_trace)

lemma mild_socket_calls [mild_intros]:
  "sys_socket os a t = (x, t') \<Longrightarrow> mild s t \<Longrightarrow> mild s t'"
  "sys_connect os fd sa t = (e, t') \<Longrightarrow> mild s t \<Longrightarrow> mild s t'"
  "sys_getsockname os fd t = (n, t') \<Longrightarrow> mild s t \<Longrightarrow> mild s t'"
  "sys_getsockopt os fd t = (k, t') \<Longrightarrow> mild s t \<Longrightarrow> mild s t'"
  by (auto simp: sys_socket_def sys_connect_def sys_getsockname_def sys_getsockopt_def Let_def)

lemma mild_log_msg [mild_intros]:
  "log_msg os ty msg t = Some t' \<Longrightarrow> mild s t \<Longrightarrow> mild s t'"
  by (simp add: log_msg_same)

lemma mild_recv_buf [mild_intros]:
  "recv_buf os fd b n t = Some (r, t') \<Longrightarrow> mild s t \<Longrightarrow> mild s t'"
  by (auto simp: recv_buf_def bind_eq_Some_conv split: prod.splits sum.splits intro: mild_calls)

lemma mild_send_buf [mild_intros]:
  "send_buf os fd b n t = Some (r, t') \<Longrightarrow> mild s t \<Longrightarrow> mild s t'"
  by (auto simp: send_buf_def bind_eq_Some_conv intro: mild_calls)

lemma mild_try_interest [mild_intros]:
  "try_interest fd op t = Some t' \<Longrightarrow> mild s t \<Longrightarrow> mild s t'"
  by (auto simp: try_interest_def intro: mild_interest)

lemma mild_interest_if [mild_intros]:
  "interest_if b fd op t = Some t' \<Longrightarrow> mild s t \<Longrightarrow> mild s t'"
  by (auto simp: interest_if_def intro: mild_try_interest split: if_splits)

section \<open>The handshake is mild\<close>

lemma negotiation_read_init_mild: "post (mild s) (negotiation_read_init st key s)"
  unfolding negotiation_read_init_def by (intro post_intros) (simp_all add: mild_intros)

lemma negotiation_read_mild: "post (\<lambda>(_, s'). mild s s') (negotiation_read os key s)"
  unfolding negotiation_read_def by (intro post_intros) (simp_all add: mild_intros)

lemma negotiation_write_mild: "post (\<lambda>(_, s'). mild s s') (negotiation_write os key s)"
  unfolding negotiation_write_def by (intro post_intros) (simp_all add: mild_intros)

lemma authentication_read_init_mild: "post (mild s) (authentication_read_init st key s)"
  unfolding authentication_read_init_def by (intro post_intros) (simp_all add: mild_intros)

lemma authentication_read_mild: "post (\<lambda>(_, s'). mild s s') (authentication_read os key s)"
  unfolding authentication_read_def by (intro post_intros) (simp_all add: mild_intros)

lemma authentication_write_mild: "post (\<lambda>(_, s'). mild s s') (authentication_write os key s)"
  unfolding authentication_write_def by (intro post_intros) (simp_all add: mild_intros)

lemma request_read_init_mild: "post (mild s) (request_read_init st key s)"
  unfolding request_read_init_def by (intro post_intros) (simp_all add: mild_intros)

lemma req_generate_response_error_mild:
  "post (\<lambda>(_, s'). mild s s') (req_generate_response_error key msg s)"
  unfolding req_generate_response_error_def by (intro post_intros) (simp_all add: mild_intros)

lemma append_sb_mild [mild_intros]:
  "append_sb os sb str t = Some (sb', t') \<Longrightarrow> mild s t \<Longrightarrow> mild s t'"
  using only_trace_calls(7) mild_only_trace by blast

lemma append_pieces_post: "mild s t \<Longrightarrow> post (\<lambda>(_, t'). mild s t') (append_pieces os sb ps t)"
proof (induction ps arbitrary: sb t)
  case (Cons p ps)
  then show ?case by (cases p; simp only: append_pieces.simps; intro post_intros) (simp_all add: mild_intros)
qed (simp add: post_def)

lemma append_pieces_mild [mild_intros]:
  "append_pieces os sb ps t = Some (sb', t') \<Longrightarrow> mild s t \<Longrightarrow> mild s t'"
  using append_pieces_post [of s t os sb ps] by (simp add: post_def)

lemma mild_set_users_raw [simp]: "mild s (fst t, (snd t)\<lparr>user_tab := us\<rparr>) = mild s t"
  using mild_frame(3) [of s us t] by (simp add: set_users_def)

lemma log_access_mild [mild_intros]:
  assumes "log_access os c rp t = Some t'" and "mild s t"
  shows "mild s t'"
proof -
  have "post (\<lambda>(_, u). mild s u) (case get_access (user_tab (snd t)) name of
      Some sb \<Rightarrow> Some (sb, t)
    | None \<Rightarrow> do {
        let (m, s1) = sys_malloc os 24 t;
        (sb, us) \<leftarrow> create_access m (user_tab (snd s1)) name;
        sb0 \<leftarrow> sb;
        Some (sb0, (fst s1, (snd s1)\<lparr>user_tab := us\<rparr>)) })" for name
    by (intro post_intros) (simp_all add: mild_intros assms(2))
  note first = this [unfolded post_def, rule_format]
  have "post (mild s) (log_access os c rp t)"
    unfolding log_access_def
    by (intro post_intros) (auto intro: append_pieces_mild dest!: first)
  with assms(1) show ?thesis by (simp add: post_def)
qed

lemma request_write_mild: "post (\<lambda>(_, s'). mild s s') (request_write os key s)"
  unfolding request_write_def by (intro post_intros) (simp_all add: mild_intros)

section \<open>So is the relay, but for the write event it raises\<close>

lemma fds_put_buf [simp]: "client_fd (put_buf d b c) = client_fd c" "origin_fd (put_buf d b c) = origin_fd c"
  "stm (put_buf d b c) = stm c"
  by (cases d; simp)+

lemma handle_write_data_mild: "post (\<lambda>(_, s'). mild s s') (handle_write_data key i n b fd eof s)"
  unfolding handle_write_data_def by (intro post_intros) (simp_all add: mild_intros)

lemma post_mild: "post (\<lambda>(_, u). mild t u) m \<Longrightarrow> mild s t \<Longrightarrow> post (\<lambda>(_, u). mild s u) m"
  by (auto simp: post_def intro: mild_trans)

lemma copy_write_mild: "post (\<lambda>(_, s'). mild s s') (copy_write os key s)"
  unfolding copy_write_def
  by (intro post_intros) (simp_all add: mild_intros post_mild [OF handle_write_data_mild])

text \<open>A callback that keeps the server's invariant, with and without a result.\<close>

definition keeps_inv :: "(st \<Rightarrow> st option) \<Rightarrow> bool" where
  "keeps_inv f \<longleftrightarrow> (\<forall>s. server_inv s \<longrightarrow> post server_inv (f s))"

definition keeps_inv2 :: "(st \<Rightarrow> ('a \<times> st) option) \<Rightarrow> bool" where
  "keeps_inv2 f \<longleftrightarrow> (\<forall>s. server_inv s \<longrightarrow> post (\<lambda>(_, s'). server_inv s') (f s))"

lemma keeps_inv_mild: "(\<And>s. post (mild s) (f s)) \<Longrightarrow> keeps_inv f"
  unfolding keeps_inv_def post_def by (blast intro: mild_inv)

lemma keeps_inv2_mild: "(\<And>s. post (\<lambda>(_, s'). mild s s') (f s)) \<Longrightarrow> keeps_inv2 f"
  unfolding keeps_inv2_def post_def by (blast intro: mild_inv)

lemma keeps_inv2D: "keeps_inv2 f \<Longrightarrow> server_inv s \<Longrightarrow> post (\<lambda>(_, s'). server_inv s') (f s)"
  by (simp add: keeps_inv2_def)

lemma keeps_invD: "keeps_inv f \<Longrightarrow> server_inv s \<Longrightarrow> post server_inv (f s)"
  by (simp add: keeps_inv_def)

text \<open>A tail call after a mild beginning.\<close>

lemma keeps_inv2_call:
  "keeps_inv2 f \<Longrightarrow> server_inv s \<Longrightarrow> mild s t \<Longrightarrow> post (\<lambda>(_, s'). server_inv s') (f t)"
  using mild_inv by (auto simp: keeps_inv2_def)

lemma handle_read_data_inv:
  assumes "\<And>i key. keeps_inv2 (raise i key)"
  shows "keeps_inv2 (handle_read_data raise key i n b fd eof)"
  unfolding keeps_inv2_def
proof (intro allI impI)
  fix s
  assume inv: "server_inv s"
  have eof: "mild s (set_client i c2 s2)"
    if "client_at i s = Some c" and "(if key_fd key = client_fd c then
          let c1 = c\<lparr>client_eof := True\<rparr>
          in if \<not> buffer_can_read (client_to_sv c1) \<and> \<not> origin_eof c1
             then (c1\<lparr>origin_eof := True\<rparr>, record_event (Shutdown_WR (origin_fd c1))
                     (record_event (Shutdown_RD (key_fd key)) s))
             else (c1, record_event (Shutdown_RD (key_fd key)) s)
        else
          let c1 = c\<lparr>origin_eof := True\<rparr>
          in if \<not> buffer_can_read (sv_to_client c1) \<and> \<not> client_eof c1
             then (c1\<lparr>client_eof := True\<rparr>, record_event (Shutdown_WR (client_fd c1))
                     (record_event (Shutdown_RD (key_fd key)) s))
             else (c1, record_event (Shutdown_RD (key_fd key)) s)) = (c2, s2)" for c c2 s2
    using that by (auto simp: Let_def mild_intros split: if_splits)
  show "post (\<lambda>(_, s'). server_inv s') (handle_read_data raise key i n b fd eof s)"
    unfolding handle_read_data_def
    by (intro post_intros)
      (simp_all add: mild_intros mild_inv [OF _ inv] keeps_inv2_call [OF assms inv] eof)
qed

lemma copy_read_inv:
  assumes "\<And>i key. keeps_inv2 (raise i key)"
  shows "keeps_inv2 (copy_read raise os key)"
  unfolding keeps_inv2_def
proof (intro allI impI)
  fix s
  assume inv: "server_inv s"
  show "post (\<lambda>(_, s'). server_inv s') (copy_read raise os key s)"
    unfolding copy_read_def
    by (intro post_intros)
      (simp_all add: mild_intros inv mild_inv [OF _ inv] keeps_inv2_call [OF handle_read_data_inv [OF assms] inv])
qed

section \<open>Closing\<close>

definition held :: "st \<Rightarrow> nat \<Rightarrow> int set" where
  "held s i = {fd. holds s fd i}"

lemma held_owner:
  assumes "server_inv s" and "fd \<in> held s i"
  shows "0 \<le> fd \<and> (\<exists>c. client_at i s = Some c \<and> (fd = client_fd c \<or> fd = origin_fd c))"
proof -
  from assms(2) have "roles (fst s) fd = Some (Some SOCKS5_HANDLER, Some (Client i))"
    by (simp add: held_def holds_def)
  moreover from this have "0 \<le> fd" by (auto simp: roles_def dest: registered_SomeD)
  ultimately show ?thesis
    using assms(1) unfolding server_inv_def attached_def owner_alive_def by fastforce
qed

text \<open>A client's data may change as long as they still record the descriptors it holds.\<close>

lemma set_client_inv:
  assumes inv: "server_inv s" and at: "client_at i s = Some c"
    and h: "held s i \<subseteq> {client_fd c', origin_fd c'}" and m: "stm c' = stm c"
  shows "server_inv (set_client i c' s)"
proof -
  have "owner_alive (set_client i c' s) fd r" if "roles (fst s) fd = Some r" for fd r
  proof -
    have "owner_alive s fd r" using that inv by (simp add: server_inv_def attached_def)
    moreover have "fd \<in> {client_fd c', origin_fd c'}" if "r = (Some SOCKS5_HANDLER, Some (Client i))"
      using h \<open>roles (fst s) fd = Some r\<close> that by (auto simp: held_def holds_def)
    ultimately show ?thesis unfolding owner_alive_def by auto
  qed
  moreover have "heaps_ok (set_client i c' s)"
    using inv at machine_ok_cong [OF m] by (auto simp: server_inv_def heaps_ok_def heap_fresh_def)
  ultimately show ?thesis using inv by (simp add: server_inv_def attached_def)
qed

text \<open>What closing may do to the clients: a descriptor of theirs becomes -1, or the client goes.\<close>

definition shrunk :: "st \<Rightarrow> st \<Rightarrow> bool" where
  "shrunk s s' \<longleftrightarrow> (\<forall>i c'. client_at i s' = Some c' \<longrightarrow> (\<exists>c. client_at i s = Some c
     \<and> client_fd c' \<in> {client_fd c, -1} \<and> origin_fd c' \<in> {origin_fd c, -1}))"

lemma socksv5_close_run:
  assumes "socksv5_close os key s = Some s'"
  obtains i c where "ATTACHMENT key = Some i" "client_at i s = Some c" "s' = after_close i (key_fd key) c s"
proof -
  from assms obtain i where i: "ATTACHMENT key = Some i"
    by (auto simp: socksv5_close_def bind_eq_Some_conv)
  with assms obtain t where "stm_handler_close (close_table os) (client_stm i) key s = Some t"
    by (cases "stm_handler_close (close_table os) (client_stm i) key s") (simp_all add: socksv5_close_def)
  then have m: "stm_handler_close (close_table os) (client_stm i) key s = Some s"
    using stm_close_silent unfolding close_table_def by metis
  with assms i obtain c where "client_at i s = Some c"
    by (cases "client_at i s") (simp_all add: socksv5_close_def)
  with assms i m show ?thesis
    by (intro that [of i c]) (simp_all add: socksv5_close_def after_close_def dropped_def Let_def)
qed

text \<open>Whoever owned another descriptor still does after a close callback.\<close>

lemma after_close_owner:
  assumes c: "client_at i s = Some c" and x: "x \<noteq> fd" "0 \<le> x" and own: "owner_alive s x r"
  shows "owner_alive (after_close i fd c s) x r"
proof -
  have "x = client_fd (dropped fd c) \<or> x = origin_fd (dropped fd c)" if "x = client_fd c \<or> x = origin_fd c"
    using that x by (auto simp: dropped_def)
  moreover have "manager_at j (after_close i fd c s) = manager_at j s" for j
    by (simp add: after_close_def Let_def manager_at_def with_metrics_def socksv5_destroy_def set_client_def
        record_event_def)
  moreover have "client_at i (after_close i fd c s) = Some (dropped fd c)"
    if "x = client_fd (dropped fd c) \<or> x = origin_fd (dropped fd c)"
    using that x(2) by (auto simp: after_close_def Let_def)
  moreover have "client_at j (after_close i fd c s) = client_at j s" if "j \<noteq> i" for j
    using that by (rule after_close_frame(3))
  ultimately show ?thesis
    using own c unfolding owner_alive_def by (metis option.inject)
qed

lemma after_close_shrunk: "client_at i s = Some c \<Longrightarrow> shrunk s (after_close i fd c s)"
  unfolding shrunk_def after_close_def dropped_def by (auto simp: Let_def split: if_splits)

lemma owner_alive_cong:
  "(\<And>i. client_at i s' = client_at i s) \<Longrightarrow> (\<And>i. manager_at i s' = manager_at i s) \<Longrightarrow>
   owner_alive s' x r = owner_alive s x r"
  by (simp add: owner_alive_def)

lemma shrunk_refl: "(\<And>i. client_at i s' = client_at i s) \<Longrightarrow> shrunk s s'"
  by (simp add: shrunk_def)

lemma dropped_stm [simp]: "stm (dropped fd c) = stm c"
  by (simp add: dropped_def)

lemma after_close_heaps: "heaps_ok s \<Longrightarrow> client_at i s = Some c \<Longrightarrow> heaps_ok (after_close i fd c s)"
  using machine_ok_cong [OF dropped_stm]
  by (auto simp: heaps_ok_def heap_fresh_def after_close_def Let_def with_metrics_def socksv5_destroy_def
      record_event_def set_client_def manager_at_def client_at_def split: if_splits)

text \<open>A close callback, run on the key of a registered descriptor.\<close>

lemma run_close_keeps:
  assumes inv: "server_inv s" and reg: "registered (fst s) fd = Some it" and h: "item_handler it = Some h"
    and run: "run_close (close_handlers os server_closers) h \<lparr>key_fd = fd, key_data = item_data it\<rparr> s = Some s'"
  shows "(\<forall>x r. x \<noteq> fd \<and> roles (fst s) x = Some r \<longrightarrow> owner_alive s' x r) \<and> heaps_ok s' \<and> shrunk s s'"
proof -
  have own: "owner_alive s x r" "0 \<le> x" if "roles (fst s) x = Some r" for x r
    using inv that by (auto simp: server_inv_def attached_def roles_def dest: registered_SomeD)
  have fresh: "heaps_ok s" using inv by (simp add: server_inv_def)
  consider (client) "h = SOCKS5_HANDLER" "socksv5_close os \<lparr>key_fd = fd, key_data = item_data it\<rparr> s = Some s'"
    | (manager) "h = MANAGER_HANDLER" "manager_close \<lparr>key_fd = fd, key_data = item_data it\<rparr> s = Some s'"
    | (none) "s' = s"
    using run by (auto simp: run_close_def close_handlers_def server_closers_def split: if_splits)
  then show ?thesis
  proof cases
    case client
    from client(2) obtain i c where c: "client_at i s = Some c" "s' = after_close i fd c s"
      by (elim socksv5_close_run) simp
    then show ?thesis
      using own fresh after_close_owner [OF c(1)] after_close_shrunk after_close_heaps by auto
  next
    case manager
    have "roles (fst s) fd = Some (Some MANAGER_HANDLER, item_data it)"
      using reg h manager(1) by (simp add: roles_def)
    then obtain i m where m: "item_data it = Some (Manager i)" "manager_at i s = Some m" "mgr_fd m = fd"
      using own(1) unfolding owner_alive_def by fastforce
    with manager(2) have s': "s' = free_manager i (record_event (Close fd) s)"
      by (simp add: manager_close_def)
    have "client_at j s' = client_at j s" "j \<noteq> i \<Longrightarrow> manager_at j s' = manager_at j s" for j
      by (simp_all add: s')
    then have "owner_alive s' x r" if "x \<noteq> fd" "roles (fst s) x = Some r" for x r
      using own(1) [OF that(2)] that(1) m(2,3) unfolding owner_alive_def by (metis option.inject)
    moreover have "heaps_ok s'"
      using fresh by (simp add: s' heaps_ok_def heap_fresh_def free_manager_def client_at_def manager_at_def
          record_event_def)
    ultimately show ?thesis using shrunk_refl [of s' s] by (simp add: s')
  next
    case none
    then show ?thesis using own fresh shrunk_refl by auto
  qed
qed

lemma unregister_any_inv:
  assumes inv: "server_inv s" and run: "unregister_any os fd s = Some (r, s')"
  shows "server_inv s' \<and> registered (fst s') = (registered (fst s))(fd := None) \<and> shrunk s s'"
proof -
  obtain sel w sel' w' where s: "s = (sel, w)" "s' = (sel', w')" by (meson surj_pair)
  have run': "selector_unregister_fd (close_handlers os server_closers) fd (sel, w) = Some (r, sel', w')"
    using run s by (simp add: unregister_any_def unregister_fd_def)
  have sel: "sel_inv sel" "fd_size sel = ITEMS_MAX_SIZE + 1"
    using inv s by (auto simp: server_inv_def table_ok_def)
  show ?thesis
  proof (cases "registered sel fd")
    case (Some it)
    from server.client_close.unregister_spec [OF sel(1) Some run'] obtain h where
      u: "sel_inv sel'" "registered sel' = (registered sel)(fd := None)" "fd_size sel' = fd_size sel"
        "item_handler it = Some h"
        "run_close (close_handlers os server_closers) h \<lparr>key_fd = fd, key_data = item_data it\<rparr> (sel, w) = Some (sel, w')"
      by auto
    have k: "(\<forall>x r. x \<noteq> fd \<and> roles sel x = Some r \<longrightarrow> owner_alive (sel, w') x r)
        \<and> heaps_ok (sel, w') \<and> shrunk s (sel, w')"
      using run_close_keeps [OF inv _ u(4), of fd os "(sel, w')"] Some u(5) by (simp add: s)
    have "owner_alive s' x r" if "roles sel' x = Some r" for x r
    proof -
      from that u(2) have "x \<noteq> fd \<and> roles sel x = Some r" by (auto simp: roles_def split: if_splits)
      with k have "owner_alive (sel, w') x r" by blast
      then show ?thesis
        using owner_alive_cong [of s' "(sel, w')" x r] by (simp add: s client_at_def manager_at_def)
    qed
    moreover have "heaps_ok s'" "shrunk s s'"
      using k by (simp_all add: s heaps_ok_def heap_fresh_def client_at_def manager_at_def shrunk_def)
    ultimately show ?thesis
      using u sel by (simp add: server_inv_def table_ok_def attached_def s)
  next
    case None
    with run' have "s' = s"
      using registered_at [of fd sel]
      by (auto simp: s selector_unregister_fd_def INVALID_FD_def nth_opt_def fd_size_def split: if_splits)
    then show ?thesis using inv None s shrunk_refl by auto
  qed
qed

section \<open>Connecting\<close>

lemma post_unregister: "server_inv s \<Longrightarrow> post (\<lambda>(_, s'). server_inv s') (unregister_any os fd s)"
  using unregister_any_inv by (fastforce simp: post_def)

text \<open>A client that records no origin holds at most its own descriptor.\<close>

lemma held_no_origin:
  assumes "server_inv s" and "client_at i s = Some c" and "origin_fd c = -1"
  shows "held s i \<subseteq> {client_fd c}"
  using held_owner [OF assms(1)] assms(2,3) by fastforce

text \<open>After its origin was unregistered a client can forget it.\<close>

lemma forget_origin:
  assumes inv: "server_inv s" and c: "client_at i s = Some c" and u: "unregister_any os (origin_fd c) s = Some (r, s1)"
    and c1: "client_at i s1 = Some c1"
  shows "held s1 i \<subseteq> {client_fd c1}"
proof
  fix x
  assume x: "x \<in> held s1 i"
  note inv1 = unregister_any_inv [OF inv u]
  from held_owner [of s1 x i] inv1 x c1 have "0 \<le> x" "x = client_fd c1 \<or> x = origin_fd c1" by auto
  moreover have "x \<noteq> origin_fd c"
    using x inv1 by (auto simp: held_def holds_def roles_def)
  moreover have "origin_fd c1 \<in> {origin_fd c, -1}"
    using inv1 c c1 unfolding shrunk_def by fastforce
  ultimately show "x \<in> {client_fd c1}" by auto
qed

text \<open>A client that holds no more than its own descriptor; its record of the origin is free to change.\<close>

definition unconnected :: "nat \<Rightarrow> st \<Rightarrow> bool" where
  "unconnected i s \<longleftrightarrow> server_inv s \<and> (\<exists>c. client_at i s = Some c \<and> held s i \<subseteq> {client_fd c})"

lemma held_frame [simp]:
  "held (record_event e s) i = held s i"
  "held (set_client j c s) i = held s i"
  by (simp_all add: held_def holds_def)

lemma unconnected_inv: "unconnected i s \<Longrightarrow> server_inv s"
  by (simp add: unconnected_def)

lemma unconnected_set:
  "unconnected i s \<Longrightarrow> client_at i s = Some c \<Longrightarrow> client_fd c' = client_fd c \<Longrightarrow> stm c' = stm c \<Longrightarrow> unconnected i (set_client i c' s)"
  using set_client_inv [of s i c c'] by (auto simp: unconnected_def)

lemma unconnected_mild:
  assumes "unconnected i s" and "mild s t"
  shows "unconnected i t"
proof -
  from assms have h: "held t i = held s i"
    by (auto simp: unconnected_def server_inv_def table_ok_def mild_def held_def holds_def)
  obtain c where "client_at i s = Some c" "held s i \<subseteq> {client_fd c}"
    using assms(1) by (auto simp: unconnected_def)
  moreover have "map_option fds_of (client_at i t) = map_option fds_of (client_at i s)"
    using assms(2) by (simp add: mild_def)
  ultimately have "\<exists>c'. client_at i t = Some c' \<and> held t i \<subseteq> {client_fd c'}"
    using h by auto
  with assms mild_inv show ?thesis by (auto simp: unconnected_def)
qed

lemma drop_origin_inv:
  assumes inv: "server_inv s"
  shows "post (unconnected i) (drop_origin (unregister_any os) i s)"
  unfolding drop_origin_def
proof (intro post_intros)
  fix c p r s1 c1
  assume c: "client_at i s = Some c" and u: "unregister_any os (origin_fd c) s = Some p" "p = (r, s1)"
    and c1: "client_at i s1 = Some c1"
  let ?s2 = "record_event (Close (origin_fd c1)) s1"
  have "unconnected i s1"
    using forget_origin [OF inv c _ c1] unregister_any_inv [OF inv] u c1 by (auto simp: unconnected_def)
  then have "unconnected i ?s2" by (rule unconnected_mild) simp
  then show "unconnected i (set_client i (c1\<lparr>origin_fd := -1\<rparr>) ?s2)"
    by (rule unconnected_set [where c = c1]) (simp_all add: c1)
next
  fix c
  assume "client_at i s = Some c" "\<not> origin_fd c \<noteq> -1"
  with inv held_no_origin [OF inv] show "unconnected i s" by (simp add: unconnected_def)
qed

text \<open>Registering a descriptor with an owner that records it.\<close>

lemma owner_alive_sel [simp]: "owner_alive (sel, snd s) x q = owner_alive s x q"
  by (rule owner_alive_cong) (simp_all add: client_at_def manager_at_def)

lemma selector_register_server_inv:
  assumes inv: "server_inv s" and own: "owner_alive s fd (Some h, d)"
    and r: "selector_register ok (fst s) fd (Some h) op d = Some (r, sel')"
  shows "server_inv (sel', snd s) \<and> (r \<noteq> SELECTOR_SUCCESS \<longrightarrow> roles sel' = roles (fst s))"
proof -
  have t: "sel_inv (fst s)" "fd_size (fst s) = ITEMS_MAX_SIZE + 1"
    using inv by (auto simp: server_inv_def table_ok_def)
  note reg = selector_register_inv [OF t(1) r]
  have size: "fd_size sel' = fd_size (fst s)"
  proof (cases "r = SELECTOR_SUCCESS")
    case True
    with r have "fd < int ITEMS_MAX_SIZE"
      by (auto simp: selector_register_def INVALID_FD_def split: if_splits)
    with reg True selector_register_in_table(2) [OF t(1), of fd "Some h" ok op d] t(2) r
    show ?thesis by fastforce
  next
    case False
    with r show ?thesis
      by (auto simp: selector_register_def INVALID_FD_def bind_eq_Some_conv Let_def t(2) split: if_splits)
  qed
  have "owner_alive s x q" if "roles sel' x = Some q" for x q
  proof (cases "r = SELECTOR_SUCCESS \<and> x = fd")
    case True
    with reg that have "q = (Some h, d)" by (auto simp: roles_def new_item_def)
    with own True show ?thesis by simp
  next
    case False
    with reg that have "roles (fst s) x = Some q" by (auto simp: roles_def split: if_splits)
    with inv show ?thesis by (simp add: server_inv_def attached_def)
  qed
  then have "attached (sel', snd s)" by (simp add: attached_def)
  moreover have "heaps_ok (sel', snd s)"
    using inv by (simp add: server_inv_def heaps_ok_def heap_fresh_def client_at_def manager_at_def)
  moreover have "table_ok sel'" using reg size t(2) by (simp add: table_ok_def)
  moreover have "roles sel' = roles (fst s)" if "r \<noteq> SELECTOR_SUCCESS"
    using reg that by (auto simp: roles_def)
  ultimately show ?thesis by (simp add: server_inv_def)
qed

lemma register_inv:
  assumes inv: "server_inv s" and own: "owner_alive s fd (Some h, d)"
    and run: "register os fd h op d s = Some (r, s')"
  shows "server_inv s' \<and> (\<forall>i. client_at i s' = client_at i s)
    \<and> (r \<noteq> SELECTOR_SUCCESS \<longrightarrow> roles (fst s') = roles (fst s))"
proof -
  obtain ok s1 where m: "sys_malloc os element_size s = (ok, s1)" by fastforce
  with run obtain sel' where r: "selector_register ok (fst s1) fd (Some h) op d = Some (r, sel')"
    and s': "s' = set_sel sel' s1" by (auto simp: register_def bind_eq_Some_conv)
  have inv1: "server_inv s1" using mild_calls(1) [OF m mild_refl] mild_inv inv by blast
  have s1: "fst s1 = fst s" "client_at i s1 = client_at i s" "manager_at i s1 = manager_at i s" for i
    using only_traceD [OF only_trace_calls(1) [OF m]] by simp_all
  have "owner_alive s1 fd (Some h, d)" using own owner_alive_cong [OF s1(2,3)] by simp
  from selector_register_server_inv [OF inv1 this r] show ?thesis
    by (simp add: s1 s') (simp add: set_sel_def)
qed

lemma next_address_inv:
  assumes "unconnected i s"
  shows "post (unconnected i) (next_address i rest closed s)"
  unfolding next_address_def
proof (intro post_intros)
  fix c
  assume c: "client_at i s = Some c"
  let ?t = "if closed then record_event (Close (origin_fd c)) s else s"
  have "unconnected i ?t" using unconnected_mild [OF assms] by simp
  then show "unconnected i (set_client i (c\<lparr>origin_fd := -1, current_origin_addr := rest\<rparr>) ?t)"
    by (rule unconnected_set [where c = c]) (simp_all add: c)
qed

lemma connected_at_once_mild: "post (\<lambda>(_, s'). mild s s') (connected_at_once os key i s)"
  unfolding connected_at_once_def by (intro post_intros) (simp_all add: mild_intros)

lemma error_reply_inv: "server_inv s \<Longrightarrow> post (\<lambda>(_, s'). server_inv s') (req_generate_response_error key msg s)"
  by (rule keeps_inv2D [OF keeps_inv2_mild [OF req_generate_response_error_mild]])

text \<open>The descriptor of a new socket, recorded and then registered.\<close>

lemma register_origin:
  assumes u: "unconnected i s" and at: "client_at i s = Some c" "origin_fd c = fd"
    and run: "register os fd SOCKS5_HANDLER op (Some (Client i)) s = Some (r, s')"
  shows "server_inv s' \<and> (r \<noteq> SELECTOR_SUCCESS \<longrightarrow> unconnected i s')"
proof -
  have "owner_alive s fd (Some SOCKS5_HANDLER, Some (Client i))" using at by (auto simp: owner_alive_def)
  note r = register_inv [OF unconnected_inv [OF u] this run]
  moreover have "held s' i = held s i" if "r \<noteq> SELECTOR_SUCCESS"
    using r that by (simp add: held_def holds_def)
  ultimately show ?thesis using u by (auto simp: unconnected_def)
qed

lemma initiate_from_inv:
  "server_inv s \<Longrightarrow> post (\<lambda>(_, s'). server_inv s') (initiate_from (unregister_any os) os key i as s)"
proof (induction as arbitrary: s)
  case Nil
  note drop = drop_origin_inv [OF Nil, of i os, unfolded post_def, rule_format]
  have "server_inv (set_client i (c\<lparr>origin_fd := -1\<rparr>) s1)"
    if "drop_origin (unregister_any os) i s = Some s1" "client_at i s1 = Some c" for s1 c
    using unconnected_inv [OF unconnected_set [OF drop [OF that(1)] that(2)]] by simp
  then show ?case
    unfolding initiate_from.simps by (intro post_intros) (simp add: error_reply_inv)
next
  case (Cons a as)
  note drop = drop_origin_inv [OF Cons.prems, of i os, unfolded post_def, rule_format]
  have again: "post (\<lambda>(_, s'). server_inv s') (initiate_from (unregister_any os) os key i as t)"
    if "next_address i as closed u = Some t" "unconnected i u" for closed u t
    using that by (intro Cons.IH unconnected_inv [of i])
      (rule next_address_inv [OF that(2), unfolded post_def, rule_format])
  {
    fix s1 c sock s2 fd nio s4
    assume 1: "drop_origin (unregister_any os) i s = Some s1" and c: "client_at i s1 = Some c"
      and 2: "sys_socket os a s1 = (sock, s2)"
      and 4: "sys_set_nio os fd (set_client i (c\<lparr>origin_fd := fd\<rparr>) s2) = (nio, s4)"
    have u2: "unconnected i s2"
      using unconnected_mild [OF drop [OF 1] mild_socket_calls(1) [OF 2 mild_refl]] .
    have c2: "client_at i s2 = Some c" using 2 c by (auto simp: sys_socket_def Let_def)
    have u4: "unconnected i s4"
      using unconnected_mild [OF unconnected_set [OF u2 c2] mild_calls(4) [OF 4 mild_refl]] by simp
    have c4: "client_at i s4 = Some (c\<lparr>origin_fd := fd\<rparr>)" using 4 by (auto simp: sys_set_nio_def Let_def)
    note u2 u4 c4
  } note facts = this
  have reg: "server_inv s5 \<and> (st \<noteq> SELECTOR_SUCCESS \<longrightarrow> unconnected i s5)"
    if "drop_origin (unregister_any os) i s = Some s1" "client_at i s1 = Some c"
      "sys_socket os a s1 = (sock, s2)"
      "sys_set_nio os fd (set_client i (c\<lparr>origin_fd := fd\<rparr>) s2) = (nio, s4)"
      "register os fd SOCKS5_HANDLER OP_NOOP (Some (Client i)) s4 = Some (st, s5)"
    for s1 c sock s2 fd nio s4 st s5
    using register_origin [OF facts(2,3) _ that(5)] that(1-4) by simp
  show ?case
    unfolding initiate_from.simps
  proof (intro post_intros, simp_all add: again facts reg, goal_cases)
    case (1 s1 c sock s2 t)
    from again [OF 1(5)] unconnected_mild [OF drop [OF 1(1)]] mild_socket_calls(1) [OF 1(3) mild_refl]
    show ?case by blast
  next
    case (2 s1 c sock s2 fd nio s4 p st s5 res s6)
    have "server_inv s5" using reg [OF 2(1,2,3,5,7)] by simp
    then have "server_inv s6" using mild_inv mild_socket_calls(2) [OF 2(10) mild_refl] by blast
    then show ?case by (rule keeps_inv2D [OF keeps_inv2_mild [OF connected_at_once_mild]])
  next
    case (3 s1 c sock s2 fd nio s4 p st s5 res s6 e q st1 s7)
    have "server_inv s5" using reg [OF 3(1,2,3,5,7)] by simp
    moreover have "mild s5 s7" using 3(10,13) by (simp add: mild_intros)
    ultimately show ?case using mild_inv by blast
  next
    case (4 s1 c sock s2 fd nio s4 p st s5 res s6 e q st1 s7 q2 st2 s8)
    have "server_inv s5" using reg [OF 4(1,2,3,5,7)] by simp
    moreover have "mild s5 s8" using 4(10,13,16) by (simp add: mild_intros)
    ultimately show ?case using mild_inv by blast
  next
    case (5 s1 c sock s2 fd nio s4 p st s5 res s6 e c6)
    have "server_inv s5" using reg [OF 5(1,2,3,5,7)] by simp
    moreover have "mild s5 (set_client i (c6\<lparr>current_origin_addr := as\<rparr>) s6)"
      using 5(10,13) by (simp add: mild_intros)
    ultimately have "server_inv (set_client i (c6\<lparr>current_origin_addr := as\<rparr>) s6)" using mild_inv by blast
    then show ?case by (rule Cons.IH)
  qed
qed

lemma initiate_origin_connection_inv: "keeps_inv2 (initiate_origin_connection (unregister_any os) os key)"
  unfolding keeps_inv2_def initiate_origin_connection_def
  by (intro allI impI post_intros) (simp add: initiate_from_inv)

lemma connect_to_ip_inv: "keeps_inv2 (connect_to_ip (unregister_any os) os key i n msg family addr)"
  unfolding keeps_inv2_def
proof (intro allI impI)
  fix s
  assume inv: "server_inv s"
  show "post (\<lambda>(_, s'). server_inv s') (connect_to_ip (unregister_any os) os key i n msg family addr s)"
    unfolding connect_to_ip_def
    by (intro post_intros)
      (simp_all add: mild_intros mild_inv [OF _ inv] error_reply_inv
        keeps_inv2_call [OF initiate_origin_connection_inv inv])
qed

lemma mild_threads [simp]:
  "mild s (sel, w\<lparr>threads := js\<rparr>) = mild s (sel, w)"
  "mild s (fst t, snd (record_event e t)) = mild s t"
  by (simp_all add: mild_def client_at_def manager_at_def record_event_def)

lemma start_resolver_mild: "post (\<lambda>(_, s'). mild s s') (start_resolver os key i s)"
  unfolding start_resolver_def
  by (intro post_intros) (simp_all add: mild_intros post_mild [OF req_generate_response_error_mild])

lemma handle_request_inv: "keeps_inv2 (handle_request (unregister_any os) os key)"
  unfolding keeps_inv2_def handle_request_def
  by (intro allI impI post_intros)
    (simp_all add: keeps_inv2D connect_to_ip_inv keeps_inv2_mild start_resolver_mild)

lemma request_read_inv: "keeps_inv2 (request_read (unregister_any os) os key)"
  unfolding keeps_inv2_def
proof (intro allI impI)
  fix s
  assume inv: "server_inv s"
  show "post (\<lambda>(_, s'). server_inv s') (request_read (unregister_any os) os key s)"
    unfolding request_read_def
    by (intro post_intros)
      (simp_all add: mild_intros mild_inv [OF _ inv] keeps_inv2_call [OF handle_request_inv inv])
qed

lemma request_resolve_inv: "keeps_inv2 (request_resolve (unregister_any os) os key)"
  unfolding keeps_inv2_def request_resolve_def
  by (intro allI impI post_intros)
    (simp_all add: log_msg_same error_reply_inv keeps_inv2D initiate_origin_connection_inv)

lemma post_list [post_intros]:
  "(xs = [] \<Longrightarrow> post P k) \<Longrightarrow> (\<And>y ys. xs = y # ys \<Longrightarrow> post P (l y ys)) \<Longrightarrow>
   post P (case xs of [] \<Rightarrow> k | y # ys \<Rightarrow> l y ys)"
  by (cases xs) simp_all

lemma request_connect_inv: "keeps_inv2 (request_connect (unregister_any os) os key)"
  unfolding keeps_inv2_def
proof (intro allI impI)
  fix s
  assume inv: "server_inv s"
  have closed: "server_inv (set_client i (c2\<lparr>origin_fd := -1\<rparr>) (record_event (Close (origin_fd c2)) s2))"
    if c: "client_at i s = Some c" and k: "sys_getsockopt os (origin_fd c) s = (k, s1)"
      and u: "unregister_any os (origin_fd c) s1 = Some (r, s2)" and c2: "client_at i s2 = Some c2"
    for i c k s1 r s2 c2
  proof -
    have inv1: "server_inv s1" using mild_inv [OF mild_socket_calls(4) [OF k mild_refl] inv] .
    have c1: "client_at i s1 = Some c" using k c by (auto simp: sys_getsockopt_def Let_def)
    have "unconnected i s2"
      using forget_origin [OF inv1 c1 u c2] unregister_any_inv [OF inv1 u] c2 by (auto simp: unconnected_def)
    then have "unconnected i (record_event (Close (origin_fd c2)) s2)" by (rule unconnected_mild) simp
    from unconnected_set [OF this, of c2 "c2\<lparr>origin_fd := -1\<rparr>"] c2 show ?thesis
      by (intro unconnected_inv [of i]) simp
  qed
  show "post (\<lambda>(_, s'). server_inv s') (request_connect (unregister_any os) os key s)"
    unfolding request_connect_def
    by (intro post_intros)
      (simp_all add: mild_intros mild_inv [OF _ inv] error_reply_inv log_msg_same closed
        keeps_inv2D [OF initiate_origin_connection_inv])
qed

section \<open>The events of a client\<close>

lemma nth_opt_mem: "nth_opt xs n = Some x \<Longrightarrow> x \<in> set xs"
  by (auto simp: nth_opt_def split: if_splits)

lemma jump_mild:
  assumes "d \<in> set (client_table os p q u v)" and "on_arrival d = Some f"
  shows "post (mild s) (f st key s)"
proof -
  have "post (mild s) (done_arrival os st key s)" "post (mild s) (error_arrival os st key s)"
    by (auto simp: post_def done_arrival_def error_arrival_def intro: mild_calls(6))
  with assms negotiation_read_init_mild [of s] authentication_read_init_mild [of s]
    request_read_init_mild [of s] show ?thesis
    by (auto simp: client_table_def state_entry_def)
qed

lemma put_stm_mild:
  assumes "mild s t" and "get_stm (client_stm i) t = Some m" and "n \<le> stm_max_state m \<or> n = stm_initial m"
  shows "mild s (put_stm (client_stm i) (m\<lparr>stm_current := Some n\<rparr>) t)"
proof -
  from assms(2) obtain c where c: "client_at i t = Some c" "stm c = m" by (auto simp: client_stm_get)
  have "mild s (set_client i (c\<lparr>stm := m\<lparr>stm_current := Some n\<rparr>\<rparr>) t)"
    by (rule mild_set_machine [OF assms(1) c(1) assms(1)])
      (use c(2) assms(3) in \<open>auto simp: machine_ok_def current_valid_def state_id.simps\<close>)
  with c show ?thesis by (simp add: client_stm_def)
qed

lemma post_mild1: "post (mild t) m \<Longrightarrow> mild s t \<Longrightarrow> post (mild s) m"
  by (auto simp: post_def intro: mild_trans)

lemma notify_mild:
  assumes "nth_opt (client_table os p q u v) n = Some d" and "mild s t"
  shows "post (mild s) (notify (on_arrival d) st key t)" "post (mild s) (notify (on_departure d) st key t)"
proof -
  note d = nth_opt_mem [OF assms(1)]
  have "post (mild t) (notify (on_arrival d) st key t)"
    using jump_mild [OF d] by (cases "on_arrival d") (simp_all add: notify_def post_def)
  then show "post (mild s) (notify (on_arrival d) st key t)"
    using assms(2) by (rule post_mild1)
  show "post (mild s) (notify (on_departure d) st key t)"
    using client_table_departures [OF d] assms(2) by (simp add: notify_def post_def)
qed

lemma handle_first_mild: "post (mild s) (handle_first (client_table os p q u v) (client_stm i) key s)"
  unfolding handle_first_def
  by (intro post_intros) (simp_all add: notify_mild put_stm_mild)

lemma jump_table_mild:
  assumes "mild s t"
  shows "post (mild s) (jump (client_table os p q u v) (client_stm i) n key t)"
proof -
  have left: "x = t" if "(case m of None \<Rightarrow> Some t
      | Some c \<Rightarrow> nth_opt (client_table os p q u v) c \<bind> (\<lambda>d. notify (on_departure d) (sd_state d) key t)) = Some x"
    for m x
    using that client_table_departures [OF nth_opt_mem]
    by (auto simp: bind_eq_Some_conv notify_def split: option.splits)
  show ?thesis
    unfolding jump_def
    by (intro post_intros) (use assms in \<open>auto intro!: notify_mild(1) put_stm_mild dest!: left\<close>)
qed

lemma stm_event_inv:
  assumes "\<And>d f. d \<in> set (client_table os p q u v) \<Longrightarrow> ready d = Some f \<Longrightarrow> keeps_inv2 (f key)"
  shows "keeps_inv2 (stm_handler ready (client_table os p q u v) (client_stm i) key)"
  unfolding keeps_inv2_def
proof (intro allI impI)
  fix s
  assume inv: "server_inv s"
  show "post (\<lambda>(_, s'). server_inv s') (stm_handler ready (client_table os p q u v) (client_stm i) key s)"
    unfolding stm_handler_def
  proof (intro post_intros, clarify)
    fix s1 m c d f ret s2 s3
    assume 1: "handle_first (client_table os p q u v) (client_stm i) key s = Some s1"
      and d: "nth_opt (client_table os p q u v) c = Some d" "ready d = Some f"
      and 2: "f key s1 = Some (ret, s2)"
      and 3: "jump (client_table os p q u v) (client_stm i) ret key s2 = Some s3"
    have "server_inv s1" using handle_first_mild 1 mild_inv [OF _ inv] by (auto simp: post_def)
    moreover have "keeps_inv2 (f key)"
      using assms [OF nth_opt_mem [OF d(1)] d(2)] .
    ultimately have "server_inv s2" using 2 by (auto simp: keeps_inv2_def post_def)
    moreover have "mild s2 s3"
      using jump_table_mild [OF mild_refl, of s2 os p q u v i ret key] 3 by (simp add: post_def)
    ultimately show "server_inv s3" using mild_inv by blast
  qed
qed

text \<open>The handlers of the table, whichever event they serve.\<close>

lemma client_table_handlers:
  assumes "d \<in> set (client_table os p q u v)" and "ready \<in> {on_read_ready, on_write_ready, on_block_ready}"
    and "ready d = Some f" and "keeps_inv2 (p key)" "keeps_inv2 (q key)" "keeps_inv2 (u key)" "keeps_inv2 (v key)"
  shows "keeps_inv2 (f key)"
proof -
  note mild = keeps_inv2_mild [OF negotiation_read_mild] keeps_inv2_mild [OF negotiation_write_mild]
    keeps_inv2_mild [OF authentication_read_mild] keeps_inv2_mild [OF authentication_write_mild]
    keeps_inv2_mild [OF request_write_mild] keeps_inv2_mild [OF copy_write_mild]
  show ?thesis
    using assms by (auto simp: client_table_def state_entry_def mild)
qed

lemma crash_inv: "keeps_inv2 (crash key)"
  by (simp add: keeps_inv2_def crash_def post_def)

lemma unregister_server: "unregister_fd os server_closers = unregister_any os"
  by (simp add: unregister_any_def fun_eq_iff)

lemma write_event_inv: "keeps_inv2 (write_event os server_closers i key)"
  unfolding write_event_def stm_handler_write_def write_table_def unregister_server
  by (rule stm_event_inv, erule client_table_handlers [where ready = on_write_ready])
    (simp_all add: crash_inv request_connect_inv)

lemma client_event_inv:
  assumes "ready \<in> {on_read_ready, on_write_ready, on_block_ready}"
  shows "keeps_inv2 (stm_handler ready (client_actions os server_closers) (client_stm i) key)"
  unfolding client_actions_def unregister_server
  by (rule stm_event_inv, erule client_table_handlers [OF _ assms])
    (auto simp: request_connect_inv request_read_inv request_resolve_inv copy_read_inv write_event_inv)

lemma done_fd_inv: "keeps_inv (done_fd os server_closers fd)"
  unfolding keeps_inv_def done_fd_def unregister_server
  apply (intro allI impI post_intros)
  apply (auto dest: unregister_any_inv)
  done

lemma socksv5_done_inv: "keeps_inv (socksv5_done os server_closers key)"
  unfolding keeps_inv_def
proof (intro allI impI)
  fix s
  assume inv: "server_inv s"
  have d: "post server_inv (done_fd os server_closers fd t)" if "server_inv t" for fd t
    using that done_fd_inv by (simp add: keeps_inv_def)
  show "post server_inv (socksv5_done os server_closers key s)"
    unfolding socksv5_done_def
    by (intro post_intros d) (use d [OF inv] in \<open>auto simp: post_def\<close>)
qed

lemma after_event_inv:
  assumes "keeps_inv2 f"
  shows "keeps_inv (\<lambda>s. do { i \<leftarrow> ATTACHMENT key; r \<leftarrow> f s; after_event os server_closers key r })"
  unfolding keeps_inv_def
proof (intro allI impI post_intros)
  fix s i r
  assume "server_inv s" "f s = Some r"
  with assms have "server_inv (snd r)" unfolding keeps_inv2_def post_def by (metis case_prod_unfold)
  then show "post server_inv (after_event os server_closers key r)"
    unfolding after_event_def using socksv5_done_inv by (intro post_intros) (auto simp: keeps_inv_def)
qed

lemma socksv5_events_inv:
  "keeps_inv (socksv5_read os server_closers key)"
  "keeps_inv (socksv5_write os server_closers key)"
  "keeps_inv (socksv5_block os server_closers key)"
proof -
  note e = after_event_inv [OF client_event_inv]
  have ev: "keeps_inv (\<lambda>s. do { i \<leftarrow> ATTACHMENT key;
      r \<leftarrow> stm_handler ready (client_actions os server_closers) (client_stm i) key s;
      after_event os server_closers key r })" if "ready \<in> {on_read_ready, on_write_ready, on_block_ready}" for ready
    using e [OF that, of key os] by (cases "ATTACHMENT key") (simp_all add: keeps_inv_def post_def)
  show "keeps_inv (socksv5_read os server_closers key)"
    using ev [of on_read_ready] by (simp add: keeps_inv_def socksv5_read_def stm_handler_read_def)
  show "keeps_inv (socksv5_write os server_closers key)"
    using ev [of on_write_ready] by (simp add: keeps_inv_def socksv5_write_def stm_handler_write_def)
  show "keeps_inv (socksv5_block os server_closers key)"
    using ev [of on_block_ready] by (simp add: keeps_inv_def socksv5_block_def stm_handler_block_def)
qed

section \<open>Accepting\<close>

lemma next_client_frame [simp]:
  "client_at j (fst s, (snd s)\<lparr>next_client := n\<rparr>) = client_at j s"
  "manager_at j (fst s, (snd s)\<lparr>next_client := n\<rparr>) = manager_at j s"
  "client_at j (fst s, (snd s)\<lparr>next_manager := n\<rparr>) = client_at j s"
  "manager_at j (fst s, (snd s)\<lparr>next_manager := n\<rparr>) = manager_at j s"
  by (simp_all add: client_at_def manager_at_def)

lemma new_client_inv:
  assumes inv: "server_inv s" and at: "i = next_client (snd s)" and m: "machine_ok c"
  shows "server_inv (set_client i c (fst s, (snd s)\<lparr>next_client := Suc i\<rparr>))"
    and "held (set_client i c (fst s, (snd s)\<lparr>next_client := Suc i\<rparr>)) i = {}"
proof -
  let ?s' = "set_client i c (fst s, (snd s)\<lparr>next_client := Suc i\<rparr>)"
  have none: "client_at i s = None"
    using inv at by (simp add: server_inv_def heaps_ok_def heap_fresh_def)
  have at': "client_at j ?s' = (if j = i then Some c else client_at j s)" "manager_at j ?s' = manager_at j s" for j
    by (auto simp: set_client_def client_at_def manager_at_def)
  show "held ?s' i = {}"
    using held_owner [OF inv, of _ i] none by (fastforce simp: held_def holds_def)
  have "owner_alive ?s' x r" if "owner_alive s x r" for x r
    using that none at' unfolding owner_alive_def by (metis option.distinct(1))
  then have "attached ?s'" using inv by (simp add: server_inv_def attached_def)
  moreover have "next_client (snd ?s') = Suc i" "next_manager (snd ?s') = next_manager (snd s)"
    by (simp_all add: set_client_def)
  then have "heaps_ok ?s'"
    using inv at m by (simp add: server_inv_def heaps_ok_def heap_fresh_def at')
  ultimately show "server_inv ?s'" using inv by (simp add: server_inv_def)
qed

lemma destroy_client_inv:
  assumes inv: "server_inv s" and h: "held s i = {}"
  shows "server_inv (socksv5_destroy i s)"
proof -
  let ?s' = "socksv5_destroy i s"
  have at': "client_at j ?s' = (if j = i then None else client_at j s)" "manager_at j ?s' = manager_at j s" for j
    by (auto simp: socksv5_destroy_def client_at_def manager_at_def)
  have "owner_alive ?s' x r" if "roles (fst s) x = Some r" for x r
  proof -
    have "owner_alive s x r" using inv that by (simp add: server_inv_def attached_def)
    moreover have "r \<noteq> (Some SOCKS5_HANDLER, Some (Client i))" using h that by (auto simp: held_def holds_def)
    ultimately show ?thesis unfolding owner_alive_def at' by auto
  qed
  then have "attached ?s'" by (simp add: attached_def)
  moreover have "next_client (snd ?s') = next_client (snd s)" "next_manager (snd ?s') = next_manager (snd s)"
    by (simp_all add: socksv5_destroy_def)
  then have "heaps_ok ?s'"
    using inv by (simp add: server_inv_def heaps_ok_def heap_fresh_def at')
  ultimately show ?thesis using inv by (simp add: server_inv_def)
qed

lemma socksv5_new_inv:
  assumes inv: "server_inv s" and run: "socksv5_new os fd addr s = Some (x, s')"
  shows "server_inv s' \<and> (\<forall>i. x = Some i \<longrightarrow> held s' i = {} \<and> client_at i s' = Some (fresh_client fd addr))"
proof -
  obtain m s1 where m: "sys_malloc os sizeof_client_data s = (m, s1)" by fastforce
  have "server_inv s1" using mild_inv [OF mild_calls(1) [OF m mild_refl] inv] .
  from new_client_inv [OF this refl, of "fresh_client fd addr"] fresh_client_ok run m this show ?thesis
    by (auto simp: socksv5_new_def new_client_data_fresh Let_def split: if_splits)
qed

lemma passive_accept_inv: "keeps_inv (socks_v5_passive_accept os key)"
  unfolding keeps_inv_def
proof (intro allI impI)
  fix s
  assume inv: "server_inv s"
  have acc: "server_inv (if st \<noteq> SELECTOR_SUCCESS
      then socksv5_destroy i (if fd \<noteq> -1 then record_event (Close fd) s4 else s4)
      else with_metrics more_connections s4)"
    if m: "mild s s2" and n: "socksv5_new os fd addr s2 = Some (Some i, s3)"
      and r: "register os fd SOCKS5_HANDLER OP_READ (Some (Client i)) s3 = Some (st, s4)" for s2 fd addr i s3 st s4
  proof -
    note new = socksv5_new_inv [OF mild_inv [OF m inv] n]
    then have "owner_alive s3 fd (Some SOCKS5_HANDLER, Some (Client i))"
      by (auto simp: owner_alive_def fresh_client_def)
    note reg = register_inv [OF _ this r]
    have "server_inv (with_metrics more_connections s4)"
      using mild_inv [of s4 "with_metrics more_connections s4"] reg new by simp
    moreover have "server_inv (socksv5_destroy i (if fd \<noteq> -1 then record_event (Close fd) s4 else s4))"
      if "st \<noteq> SELECTOR_SUCCESS"
    proof (rule destroy_client_inv)
      show "server_inv (if fd \<noteq> -1 then record_event (Close fd) s4 else s4)"
        using mild_inv [of s4 "record_event (Close fd) s4"] reg new by simp
      show "held (if fd \<noteq> -1 then record_event (Close fd) s4 else s4) i = {}"
        using reg new that by (simp add: held_def holds_def)
    qed
    ultimately show ?thesis by simp
  qed
  have new: "server_inv s3" if "socksv5_new os fd addr s2 = Some (None, s3)" "mild s s2" for s2 fd addr s3
    using socksv5_new_inv [OF mild_inv [OF that(2) inv] that(1)] by simp
  show "post server_inv (socks_v5_passive_accept os key s)"
    unfolding socks_v5_passive_accept_def
  proof (intro post_intros, goal_cases)
    case (4 r s1 z fd addr nio s2 x state s3 i xa st s4)
    then show ?case by (intro acc [of s2 fd addr i s3]) (simp_all add: mild_intros)
  qed (simp_all add: mild_inv [OF _ inv] mild_intros new)
qed

section \<open>Sessions\<close>

lemma mild_set_manager [mild_intros]:
  assumes "mild s t" and "manager_at i u = Some m" and "mild s u" and "mgr_fd m' = mgr_fd m"
  shows "mild s (set_manager i m' t)"
proof -
  have "map_option mgr_fd (manager_at i u) = map_option mgr_fd (manager_at i s)"
    using assms(3) by (simp add: mild_def)
  with assms(2,4) have "map_option mgr_fd (manager_at i s) = Some (mgr_fd m')" by simp
  with assms(1) show ?thesis unfolding mild_def by (auto simp del: map_option_eq_Some)
qed

lemma post_send_response [post_intros]: "mild s t \<Longrightarrow> post (mild s) (send_response os fd msg e t)"
  by (auto simp: post_def intro: mild_calls)

lemma mild_texts [mild_intros]:
  "append_texts os sb ts t = Some (sb', t') \<Longrightarrow> mild s t \<Longrightarrow> mild s t'"
  "new_sb os t = (b, t') \<Longrightarrow> mild s t \<Longrightarrow> mild s t'"
  using append_texts_trace only_trace_calls(6) mild_only_trace by blast+

lemma post_log_msg [post_intros]: "mild s t \<Longrightarrow> post (mild s) (log_msg os ty msg t)"
  by (simp add: post_def log_msg_same)

lemma handle_auth_command_mild: "post (mild s) (handle_auth_command os fd cmd arg i s)"
  unfolding handle_auth_command_def by (intro post_intros) (simp_all add: mild_intros)

lemma handle_list_mild: "post (mild s) (handle_list os fd s)"
  unfolding handle_list_def by (intro post_intros) (simp_all add: mild_intros)

lemma handle_add_user_mild: "post (mild s) (handle_add_user os fd user pass s)"
  unfolding handle_add_user_def by (intro post_intros) (simp_all add: mild_intros)

lemma handle_delete_user_mild: "post (mild s) (handle_delete_user os fd user s)"
  unfolding handle_delete_user_def by (intro post_intros) (simp_all add: mild_intros)

lemma handle_change_pass_mild: "post (mild s) (handle_change_pass os fd i old new s)"
  unfolding handle_change_pass_def by (intro post_intros) (simp_all add: mild_intros)

lemma handle_change_status_mild: "post (mild s) (handle_change_status os fd user status s)"
  unfolding handle_change_status_def by (intro post_intros) (simp_all add: mild_intros)

lemma handle_list_user_mild: "post (mild s) (handle_list_user os fd user s)"
  unfolding handle_list_user_def by (intro post_intros) (simp_all add: mild_intros)

lemma handle_server_logs_mild: "post (mild s) (handle_server_logs os fd s)"
  unfolding handle_server_logs_def
  by (intro post_intros) (simp_all add: mild_intros del: append_texts.simps)

lemma handle_set_max_users_mild: "post (mild s) (handle_set_max_users os fd arg s)"
  unfolding handle_set_max_users_def by (intro post_intros) (simp_all add: mild_intros)

lemma handle_quit_inv: "keeps_inv (handle_quit os i)"
  unfolding keeps_inv_def
proof (intro allI impI)
  fix s
  assume inv: "server_inv s"
  have q: "server_inv s2" if "send_response os fd msg e s = Some s1" "unregister_any os fd' s1 = Some (r, s2)"
    for fd msg e s1 fd' r s2
    using unregister_any_inv [OF mild_inv [OF mild_calls(7) [OF that(1) mild_refl] inv] that(2)] by simp
  show "post server_inv (handle_quit os i s)"
    unfolding handle_quit_def by (intro post_intros) (simp_all add: q)
qed

lemmas command_inv =
  handle_list_mild [THEN keeps_inv_mild] handle_add_user_mild [THEN keeps_inv_mild]
  handle_delete_user_mild [THEN keeps_inv_mild] handle_change_pass_mild [THEN keeps_inv_mild]
  handle_change_status_mild [THEN keeps_inv_mild] handle_list_user_mild [THEN keeps_inv_mild]
  handle_server_logs_mild [THEN keeps_inv_mild] handle_set_max_users_mild [THEN keeps_inv_mild]
  handle_quit_inv

lemma send_response_inv: "keeps_inv (send_response os fd msg e)"
  by (rule keeps_inv_mild) (simp add: post_send_response)

lemma run_command_server_inv: "keeps_inv (run_command os fd cmd arg1 arg2 i)"
  unfolding keeps_inv_def run_command_def handle_stat_def handle_help_def
  by (intro allI impI post_cases(2);
      (rule command_inv [THEN keeps_invD] send_response_inv [THEN keeps_invD]; assumption))

lemma handle_auth_command_inv: "keeps_inv (handle_auth_command os fd cmd arg i)"
  by (rule keeps_inv_mild) (rule handle_auth_command_mild)

lemma handle_command_inv: "keeps_inv (handle_command os fd input i)"
  unfolding keeps_inv_def handle_command_def
  by (intro allI impI post_intros)
    (simp_all add: run_command_server_inv [THEN keeps_invD] handle_auth_command_inv [THEN keeps_invD])

lemma manager_read_inv: "keeps_inv (manager_read os key)"
  unfolding keeps_inv_def
proof (intro allI impI)
  fix s
  assume inv: "server_inv s"
  have c: "server_inv s2" if "unregister_any os fd s1 = Some (r, s2)" "mild s s1" for fd s1 r s2
    using unregister_any_inv [OF mild_inv [OF that(2) inv] that(1)] by simp
  have h: "post server_inv (handle_command os fd line i s1)" "post server_inv (send_response os fd line e s1)"
    if "mild s s1" for fd line i s1 e
    using mild_inv [OF that inv] handle_command_inv send_response_inv by (simp_all add: keeps_inv_def)
  show "post server_inv (manager_read os key s)"
  proof (cases "key_data key")
    case (Some a)
    then show ?thesis
      unfolding manager_read_def
      apply (cases a)
       apply (simp add: post_def)
      apply (simp only: option.case attachment.case)
      apply (intro post_intros)
          apply (simp_all add: mild_intros c h)
      done
  qed (simp add: manager_read_def post_def inv)
qed


lemma new_manager_inv:
  assumes inv: "server_inv s" and run: "new_manager os fd s = (x, s')"
  shows "server_inv s' \<and> (\<forall>i. x = Some i \<longrightarrow>
    (\<exists>m. manager_at i s' = Some m \<and> mgr_fd m = fd) \<and> (\<forall>y. roles (fst s') y \<noteq> Some (Some MANAGER_HANDLER, Some (Manager i))))"
proof -
  obtain b s1 where b: "sys_malloc os sizeof_manager_data s = (b, s1)" by fastforce
  have inv1: "server_inv s1" using mild_inv [OF mild_calls(1) [OF b mild_refl] inv] .
  let ?i = "next_manager (snd s1)"
  let ?m = "\<lparr>mgr_fd = fd, logged_in = False, user_sent = False, mgr_username = replicate 50 0, is_admin = False\<rparr>"
  let ?t = "set_manager ?i ?m (fst s1, (snd s1)\<lparr>next_manager := Suc ?i\<rparr>)"
  have none: "manager_at ?i s1 = None"
    using inv1 by (simp add: server_inv_def heaps_ok_def)
  have at': "client_at j ?t = client_at j s1" "manager_at j ?t = (if j = ?i then Some ?m else manager_at j s1)" for j
    by simp_all
  have "owner_alive ?t y r" if "owner_alive s1 y r" for y r
    using that none at' unfolding owner_alive_def by (metis option.distinct(1))
  then have "attached ?t" using inv1 by (simp add: server_inv_def attached_def)
  moreover have "next_client (snd ?t) = next_client (snd s1)" "next_manager (snd ?t) = Suc ?i"
    by (simp_all add: set_manager_def)
  then have "heaps_ok ?t"
    using inv1 by (simp add: server_inv_def heaps_ok_def heap_fresh_def at')
  ultimately have "server_inv ?t" using inv1 by (simp add: server_inv_def)
  moreover have "roles (fst s1) y \<noteq> Some (Some MANAGER_HANDLER, Some (Manager ?i))" for y
    using inv1 none unfolding server_inv_def attached_def owner_alive_def by fastforce
  ultimately show ?thesis
    using run b inv1 by (auto simp: new_manager_def Let_def split: if_splits)
qed

lemma free_manager_inv:
  assumes inv: "server_inv s" and h: "\<And>y. roles (fst s) y \<noteq> Some (Some MANAGER_HANDLER, Some (Manager i))"
  shows "server_inv (free_manager i s)"
proof -
  have "owner_alive (free_manager i s) x r" if "roles (fst s) x = Some r" for x r
  proof -
    have "owner_alive s x r" using inv that by (simp add: server_inv_def attached_def)
    moreover have "r \<noteq> (Some MANAGER_HANDLER, Some (Manager i))" using h that by auto
    ultimately show ?thesis unfolding owner_alive_def by auto
  qed
  then have "attached (free_manager i s)" by (simp add: attached_def)
  moreover have "next_client (snd (free_manager i s)) = next_client (snd s)"
    "next_manager (snd (free_manager i s)) = next_manager (snd s)"
    by (simp_all add: free_manager_def)
  then have "heaps_ok (free_manager i s)"
    using inv by (simp add: server_inv_def heaps_ok_def heap_fresh_def)
  ultimately show ?thesis using inv by (simp add: server_inv_def)
qed

lemma manager_accept_inv: "keeps_inv (manager_passive_accept os key)"
  unfolding keeps_inv_def
proof (intro allI impI)
  fix s
  assume inv: "server_inv s"
  have acc: "server_inv (if st \<noteq> SELECTOR_SUCCESS then free_manager i (record_event (Close fd) s5) else s5)"
    if n: "new_manager os fd s3 = (Some i, s4)" and m: "mild s s3"
      and r: "register os fd MANAGER_HANDLER OP_READ (Some (Manager i)) s4 = Some (st, s5)" for s3 fd i s4 st s5
  proof -
    note new = new_manager_inv [OF mild_inv [OF m inv] n]
    then have "owner_alive s4 fd (Some MANAGER_HANDLER, Some (Manager i))"
      by (auto simp: owner_alive_def)
    note reg = register_inv [OF _ this r]
    have "server_inv (free_manager i (record_event (Close fd) s5))" if "st \<noteq> SELECTOR_SUCCESS"
    proof (rule free_manager_inv)
      show "server_inv (record_event (Close fd) s5)"
        using mild_inv [of s5 "record_event (Close fd) s5"] reg new by simp
      show "roles (fst (record_event (Close fd) s5)) y \<noteq> Some (Some MANAGER_HANDLER, Some (Manager i))" for y
        using reg new that by simp
    qed
    with reg new show ?thesis by simp
  qed
  have fail: "server_inv (record_event (Close fd) s4)" if "new_manager os fd s3 = (None, s4)" "mild s s3" for fd s3 s4
    using new_manager_inv [OF mild_inv [OF that(2) inv] that(1)] mild_inv [of s4 "record_event (Close fd) s4"] by simp
  show "post server_inv (manager_passive_accept os key s)"
    unfolding manager_passive_accept_def
    by (intro post_intros) (simp_all add: mild_inv [OF _ inv] mild_intros acc fail)
qed

section \<open>The resolver\<close>

lemma fd_size_jobs [simp]: "fd_size (sel\<lparr>resolution_jobs := js\<rparr>) = fd_size sel"
  by (simp add: fd_size_def)

lemma mild_notify [mild_intros]:
  assumes "selector_notify_block m (fst t) fd = (st, sel)" and "mild s t"
  shows "mild s (set_sel sel t)"
proof -
  have sel: "sel = fst t \<or> sel = (fst t)\<lparr>resolution_jobs := fd # resolution_jobs (fst t)\<rparr>"
    using assms(1) by (auto simp: selector_notify_block_def split: if_splits)
  then have "roles sel = roles (fst t)" "sel_inv sel = sel_inv (fst t)" "fd_size sel = fd_size (fst t)"
    by (auto simp: roles_def fun_eq_iff)
  then show ?thesis using assms(2) by (simp add: mild_def)
qed

lemma request_resolve_domain_name_mild: "post (mild s) (request_resolve_domain_name os rs s)"
proof -
  have err: "mild s t" if "(case r of
      Inl msg \<Rightarrow> do {
        let (sb, u2) = new_sb os u;
        sb0 \<leftarrow> sb;
        (sb1, u3) \<leftarrow> append_sb os sb0 (CHR 0x27 # ''getaddrinfo'' @ CHR 0x27 # '' error: '') u2;
        (sb2, u4) \<leftarrow> append_sb os sb1 msg u3;
        log_msg os ERROR (sb_get_string sb2) u4 }
    | Inr _ \<Rightarrow> Some u) = Some t" "mild s u" for r u t
  proof -
    have "post (mild s) (case r of
      Inl msg \<Rightarrow> do {
        let (sb, u2) = new_sb os u;
        sb0 \<leftarrow> sb;
        (sb1, u3) \<leftarrow> append_sb os sb0 (CHR 0x27 # ''getaddrinfo'' @ CHR 0x27 # '' error: '') u2;
        (sb2, u4) \<leftarrow> append_sb os sb1 msg u3;
        log_msg os ERROR (sb_get_string sb2) u4 }
    | Inr _ \<Rightarrow> Some u)"
      by (intro post_intros) (simp_all add: that(2) mild_intros)
    with that(1) show ?thesis by (simp add: post_def)
  qed
  show ?thesis
    unfolding request_resolve_domain_name_def
    by (intro post_intros) (simp_all add: mild_intros err del: append.simps)
qed

lemma resolver_inv: "keeps_inv (resolver_step os k)"
  unfolding keeps_inv_def resolver_step_def
proof (intro allI impI post_intros)
  fix s job
  assume "server_inv s"
  then show "post server_inv (request_resolve_domain_name os job (fst s, (snd s)\<lparr>threads := rest\<rparr>))" for rest
    using mild_inv [of s "(fst s, (snd s)\<lparr>threads := rest\<rparr>)"]
    by (intro keeps_invD [OF keeps_inv_mild]) (simp_all add: request_resolve_domain_name_mild)
qed

end
