(* ===== verification/Args.thy ===== *)
theory Args
  imports C_Library
begin

text \<open>
  \<open>src/shared/args.c\<close>: the command line. \<open>getopt_long\<close> is not part of the program: what it
  answers is the list of options with their arguments, \<open>?\<close> for one it does not know, and the
  words left over. \<open>Inl n\<close> is \<open>exit(n)\<close>; \<open>None\<close> is a write behind the array \<open>users\<close>. The texts
  for the log, which is switched off, and for \<open>stderr\<close> are left out, and with them the crash that a
  failed allocation of such a text is before the \<open>exit\<close>.

  The lemmas show exactly which texts are ports (\<open>port_accepts\<close>) and that the users come out in order; nothing stops
  the eleventh.
\<close>

definition MAX_USERS :: nat where "MAX_USERS = 10"

text \<open>An entry of \<open>users\<close> that was not filled is the two NULL pointers of \<open>memset\<close>.\<close>

record user_arg =
  arg_name :: "string option"
  arg_pass :: "string option"

record socks5args =
  socks_addr :: string
  socks_port :: u16
  mng_addr :: string
  mng_port :: u16
  disectors_enabled :: bool
  arg_users :: "user_arg list"
  cant :: u16

definition default_args :: socks5args where
  "default_args = \<lparr>socks_addr = ''0.0.0.0'', socks_port = 1080, mng_addr = ''127.0.0.1'', mng_port = 1081,
     disectors_enabled = True, arg_users = replicate MAX_USERS \<lparr>arg_name = None, arg_pass = None\<rparr>, cant = 0\<rparr>"

text \<open>
  \<open>end == s\<close> is the case in which \<open>strtol\<close> leaves everything; \<open>LONG_MIN\<close> and \<open>LONG_MAX\<close> are out
  of the range of a port anyway.
\<close>

definition port :: "string \<Rightarrow> nat + u16" where
  "port s =
     (let (sl, rest) = strtol s
      in if rest = s \<or> rest \<noteq> [] \<or> sl < 0 \<or> sl > 65535 then Inl 1 else Inr (word_of_int sl))"

text \<open>\<open>strchr(s, ':')\<close> cuts the argument in two.\<close>

definition split_user :: "string \<Rightarrow> (string \<times> string) option" where
  "split_user s = (case dropWhile (\<lambda>c. c \<noteq> CHR '':'') s of
     [] \<Rightarrow> None | _ # p \<Rightarrow> Some (takeWhile (\<lambda>c. c \<noteq> CHR '':'') s, p))"

definition user :: "string \<Rightarrow> nat \<Rightarrow> socks5args \<Rightarrow> (nat + socks5args) option" where
  "user s k args =
     (case split_user s of
        None \<Rightarrow> Some (Inl 1)
      | Some (name, pass) \<Rightarrow> do {
          check (k < length (arg_users args));
          Some (Inr (args\<lparr>arg_users := (arg_users args)[k := \<lparr>arg_name = Some name, arg_pass = Some pass\<rparr>]\<rparr>)) })"

text \<open>One option. The counter \<open>nusers\<close> of the loop is never incremented.\<close>

definition parse_option :: "nat \<Rightarrow> char \<Rightarrow> string \<Rightarrow> socks5args \<Rightarrow> (nat + socks5args) option" where
  "parse_option nusers c optarg args =
     (if c = CHR ''h'' then Some (Inl 1)
      else if c = CHR ''l'' then Some (Inr (args\<lparr>socks_addr := optarg\<rparr>))
      else if c = CHR ''L'' then Some (Inr (args\<lparr>mng_addr := optarg\<rparr>))
      else if c = CHR ''N'' then Some (Inr (args\<lparr>disectors_enabled := False\<rparr>))
      else if c = CHR ''p'' then Some (case port optarg of
        Inl n \<Rightarrow> Inl n | Inr p \<Rightarrow> Inr (args\<lparr>socks_port := p\<rparr>))
      else if c = CHR ''P'' then Some (case port optarg of
        Inl n \<Rightarrow> Inl n | Inr p \<Rightarrow> Inr (args\<lparr>mng_port := p\<rparr>))
      else if c = CHR ''u'' then
        (if nusers \<ge> MAX_USERS then Some (Inl 1)
         else do {
           r \<leftarrow> user optarg (unat (cant args)) args;
           Some (case r of Inl n \<Rightarrow> Inl n | Inr a \<Rightarrow> Inr (a\<lparr>cant := cant a + 1\<rparr>)) })
      else if c = CHR ''v'' then Some (Inl 0)
      else Some (Inl 1))"

fun parse_options :: "(char \<times> string) list \<Rightarrow> socks5args \<Rightarrow> (nat + socks5args) option" where
  "parse_options [] args = Some (Inr args)"
| "parse_options ((c, optarg) # opts) args = do {
     r \<leftarrow> parse_option 0 c optarg args;
     case r of Inl n \<Rightarrow> Some (Inl n) | Inr a \<Rightarrow> parse_options opts a }"

definition parse_args :: "(char \<times> string) list \<Rightarrow> string list \<Rightarrow> (nat + socks5args) option" where
  "parse_args opts rest = do {
     r \<leftarrow> parse_options opts default_args;
     Some (case r of Inl n \<Rightarrow> Inl n | Inr a \<Rightarrow> if rest \<noteq> [] then Inl 1 else Inr a) }"

section \<open>Ports\<close>

lemma port_range:
  "port s = Inr p \<Longrightarrow> \<exists>n. strtol s = (int n, []) \<and> n < 65536 \<and> unat p = n"
proof -
  assume p: "port s = Inr p"
  obtain sl rest where st: "strtol s = (sl, rest)" by fastforce
  with p have sl: "rest = []" "0 \<le> sl" "sl \<le> 65535" "p = word_of_int sl"
    by (auto simp: port_def split: if_splits)
  then have "unat p = nat sl" by (simp add: unat_word_ariths(1) unsigned_of_int take_bit_int_eq_self)
  with sl st show ?thesis by (intro exI [of _ "nat sl"]) simp
qed

lemma utoa_not_Nil [simp]: "utoa n \<noteq> []"
  by (simp add: utoa_def decimal.simps [of n])

lemma port_iff: "port s = Inr p \<longleftrightarrow> s \<noteq> [] \<and> strtol s = (int (unat p), [])"
proof
  assume p: "port s = Inr p"
  then have "s \<noteq> []" by (auto simp: port_def split: prod.splits if_splits)
  with port_range [OF p] show "s \<noteq> [] \<and> strtol s = (int (unat p), [])" by auto
next
  assume s: "s \<noteq> [] \<and> strtol s = (int (unat p), [])"
  have "unat p < 65536" using unsigned_less [of p, where 'a = nat] by simp
  then have "int (unat p) \<le> 65535" by linarith
  with s show "port s = Inr p" by (auto simp: port_def)
qed

lemma port_rejects: "(\<nexists>p. port s = Inr p) \<longleftrightarrow> port s = Inl 1"
  by (auto simp: port_def Let_def split: prod.splits)

lemma clamp_iff:
  assumes "n < 65536"
  shows "strtol_clamp sign v = int n \<longleftrightarrow> v = n \<and> (sign = ''-'' \<longrightarrow> n = 0)"
  using assms by (auto simp: strtol_clamp_def min_def max_def)

text \<open>What a text looks like that is a port: \<open>-0\<close> is one, and so are blanks before the number.\<close>

definition port_text :: "string \<Rightarrow> nat \<Rightarrow> bool" where
  "port_text s n \<longleftrightarrow> (\<exists>sp sign ds. s = sp @ sign @ ds \<and> list_all is_space sp \<and> sign \<in> {[], ''+'', ''-''}
     \<and> list_all is_digit ds \<and> ds \<noteq> [] \<and> dec_value ds = n \<and> (sign = ''-'' \<longrightarrow> n = 0))"

lemma port_accepts: "port s = Inr p \<longleftrightarrow> port_text s (unat p)"
proof -
  have less: "unat p < 65536" using unsigned_less [of p, where 'a = nat] by simp
  note clamp = clamp_iff [OF less]
  show ?thesis
  proof
    assume "port s = Inr p"
    then have "s \<noteq> []" "strtol s = (int (unat p), [])" unfolding port_iff by blast+
    then obtain sp sign ds where *: "s = sp @ sign @ ds" "list_all is_space sp" "sign \<in> {[], ''+'', ''-''}"
      "list_all is_digit ds" "ds \<noteq> []" "strtol_clamp sign (dec_value ds) = int (unat p)"
      using strtol_whole by metis
    with clamp show "port_text s (unat p)" unfolding port_text_def by blast
  next
    assume "port_text s (unat p)"
    then obtain sp sign ds where *: "s = sp @ sign @ ds" "list_all is_space sp" "sign \<in> {[], ''+'', ''-''}"
      "list_all is_digit ds" "ds \<noteq> []" "dec_value ds = unat p \<and> (sign = ''-'' \<longrightarrow> unat p = 0)"
      unfolding port_text_def by blast
    from strtol_padded [OF *(2,4,5,3)] clamp *(6) have "strtol s = (int (unat p), [])" unfolding *(1) by metis
    with *(1,5) show "port s = Inr p" unfolding port_iff by blast
  qed
qed

text \<open>Blanks, a sign and zeros before the digits.\<close>

lemma dec_value_zeros: "dec_value (replicate z (CHR ''0'') @ ds) = dec_value ds"
  by (induction z) (simp_all add: dec_value_def)

lemma port_reads_back:
  assumes "list_all is_space sp"
  shows "port (sp @ replicate z (CHR ''0'') @ utoa (unat p)) = Inr p
    \<and> port (sp @ ''+'' @ replicate z (CHR ''0'') @ utoa (unat p)) = Inr p"
proof -
  let ?ds = "replicate z (CHR ''0'') @ utoa (unat p)"
  have less: "unat p < 65536" using unsigned_less [of p, where 'a = nat] by simp
  have ds: "list_all is_digit ?ds" "?ds \<noteq> []"
    using decimal_digits [of "unat p"] less by (auto simp: utoa_def decimal.simps [of "unat p"] is_digit_def list_all_iff)
  have "strtol (utoa (unat p)) = (int (unat p), [])" using strtol_utoa [of "unat p"] less by simp
  moreover have "list_all is_digit (utoa (unat p))" using ds(1) by simp
  moreover have "utoa (unat p) \<noteq> []" using decimal.simps [of "unat p"] by (simp add: utoa_def)
  ultimately have "strtol_clamp [] (dec_value (utoa (unat p))) = int (unat p)"
    using strtol_padded [of "[]" "utoa (unat p)" "[]"] by (simp del: of_nat_unat)
  with clamp_iff less have "dec_value (utoa (unat p)) = unat p" by blast
  then have v: "dec_value ?ds = unat p" by (simp add: dec_value_zeros)
  have m: "strtol_clamp [] (unat p) = int (unat p)" "strtol_clamp ''+'' (unat p) = int (unat p)"
    using clamp_iff [OF less] by blast+
  have "strtol (sp @ ?ds) = (int (unat p), [])" "strtol (sp @ ''+'' @ ?ds) = (int (unat p), [])"
    using strtol_padded [OF assms ds, of "[]"] strtol_padded [OF assms ds, of "''+''"] m by (simp_all add: v)
  then show ?thesis using ds(2) by (simp add: port_iff)
qed

section \<open>Users\<close>

text \<open>The users named so far, and the places that are left.\<close>

definition users_parsed :: "socks5args \<Rightarrow> (string \<times> string) list \<Rightarrow> bool" where
  "users_parsed args us \<longleftrightarrow> length us \<le> MAX_USERS \<and> unat (cant args) = length us
     \<and> arg_users args = map (\<lambda>(n, p). \<lparr>arg_name = Some n, arg_pass = Some p\<rparr>) us
         @ replicate (MAX_USERS - length us) \<lparr>arg_name = None, arg_pass = None\<rparr>"

definition user_options :: "(char \<times> string) list \<Rightarrow> (string \<times> string) option list" where
  "user_options opts = map (\<lambda>(c, a). split_user a) (filter (\<lambda>(c, a). c = CHR ''u'') opts)"

lemma user_parsed:
  assumes us: "users_parsed args us" and s: "split_user s = Some (n, p)"
  shows "user s (unat (cant args)) args =
    (if length us < MAX_USERS then Some (Inr (args\<lparr>arg_users :=
       map (\<lambda>(n, p). \<lparr>arg_name = Some n, arg_pass = Some p\<rparr>) (us @ [(n, p)])
         @ replicate (MAX_USERS - Suc (length us)) \<lparr>arg_name = None, arg_pass = None\<rparr>\<rparr>)) else None)"
proof (cases "length us < MAX_USERS")
  case True
  then obtain k where k: "MAX_USERS - length us = Suc k" by (cases "MAX_USERS - length us") auto
  then have "MAX_USERS - Suc (length us) = k" by simp
  with k us s True show ?thesis
    by (simp add: user_def users_parsed_def list_update_append)
next
  case False
  with us s show ?thesis by (simp add: user_def users_parsed_def)
qed

lemma parse_option_users:
  assumes us: "users_parsed args us" and run: "parse_option 0 c a args = Some (Inr args')"
  shows "\<exists>vs. users_parsed args' (us @ vs) \<and> map Some vs = user_options [(c, a)]"
proof (cases "c = CHR ''u''")
  case True
  with run obtain n p where s: "split_user a = Some (n, p)"
    by (cases "split_user a") (auto simp: parse_option_def user_def MAX_USERS_def)
  with True run user_parsed [OF us s] have l: "length us < MAX_USERS"
    by (auto simp: parse_option_def MAX_USERS_def split: if_splits)
  have c: "unat (cant args + 1) = Suc (length us)"
    using us l by (simp add: users_parsed_def MAX_USERS_def unat_word_ariths)
  show ?thesis
    using True run user_parsed [OF us s] l us c
    by (intro exI [of _ "[(n, p)]"]) (auto simp: parse_option_def user_options_def s users_parsed_def MAX_USERS_def)
next
  case False
  with us run show ?thesis
    by (intro exI [of _ "[]"])
      (auto simp: parse_option_def user_options_def users_parsed_def split: if_splits sum.splits)
qed

lemma parse_options_users:
  "users_parsed args us \<Longrightarrow> parse_options opts args = Some (Inr args') \<Longrightarrow>
   \<exists>vs. users_parsed args' (us @ vs) \<and> map Some vs = user_options opts"
proof (induction opts args arbitrary: us rule: parse_options.induct)
  case (1 args)
  then show ?case by (intro exI [of _ "[]"]) (simp add: user_options_def)
next
  case (2 c a opts args)
  then obtain r where r: "parse_option 0 c a args = Some r"
    "(case r of Inl n \<Rightarrow> Some (Inl n) | Inr a \<Rightarrow> parse_options opts a) = Some (Inr args')"
    by (auto simp: bind_eq_Some_conv)
  then obtain args1 where 1: "parse_option 0 c a args = Some (Inr args1)" "parse_options opts args1 = Some (Inr args')"
    by (cases r) auto
  obtain vs where v: "users_parsed args1 (us @ vs)" "map Some vs = user_options [(c, a)]"
    using parse_option_users [OF "2.prems"(1) 1(1)] by blast
  obtain ws where "users_parsed args' ((us @ vs) @ ws)" "map Some ws = user_options opts"
    using "2.IH" [OF 1(1) refl v(1) 1(2)] by blast
  with v show ?case
    by (intro exI [of _ "vs @ ws"]) (auto simp: user_options_def)
qed

lemma default_parsed: "users_parsed default_args []"
  by (simp add: users_parsed_def default_args_def)

lemma parse_args_users:
  assumes "parse_args opts rest = Some (Inr args)"
  shows "\<exists>us. users_parsed args us \<and> map Some us = user_options opts"
proof -
  from assms obtain r where r: "parse_options opts default_args = Some r"
    "(case r of Inl n \<Rightarrow> Inl n | Inr a \<Rightarrow> if rest \<noteq> [] then Inl 1 else Inr a) = Inr args"
    by (auto simp: parse_args_def bind_eq_Some_conv)
  then have "parse_options opts default_args = Some (Inr args)" by (cases r) (auto split: if_splits)
  with parse_options_users [OF default_parsed] show ?thesis by fastforce
qed

text \<open>More users than places: the array is overrun, whatever the message says.\<close>

lemma too_many_users:
  assumes "users_parsed args us" and "\<forall>a \<in> set as. split_user a \<noteq> None" and "MAX_USERS < length us + length as"
  shows "parse_options (map (Pair (CHR ''u'')) as) args = None"
  using assms
proof (induction as arbitrary: args us)
  case (Cons a as)
  then obtain n p where s: "split_user a = Some (n, p)" by auto
  show ?case
  proof (cases "length us < MAX_USERS")
    case True
    with user_parsed [OF Cons.prems(1) s] obtain args1 where 1: "parse_option 0 (CHR ''u'') a args = Some (Inr args1)"
      by (simp add: parse_option_def MAX_USERS_def)
    then obtain vs where "users_parsed args1 (us @ vs)" "map Some vs = user_options [(CHR ''u'', a)]"
      using parse_option_users [OF Cons.prems(1)] by blast
    moreover from this(2) have "length vs = 1" by (simp add: user_options_def flip: length_map [of Some vs])
    ultimately show ?thesis
      using 1 Cons.IH [of args1 "us @ vs"] Cons.prems by simp
  next
    case False
    with user_parsed [OF Cons.prems(1) s] show ?thesis by (simp add: parse_option_def MAX_USERS_def)
  qed
next
  case Nil
  then show ?case by (simp add: users_parsed_def)
qed

end
