(* ===== verification/Connecting.thy ===== *)
theory Connecting
  imports Lifecycle
begin

text \<open>
  The middle of a connection, the handlers of \<open>src/server/request.c\<close> between the request and
  the relay: what the client is told, and what it waits for, when the connection to the origin
  succeeds or is refused, when its name does not resolve, and when the resolver cannot start.
\<close>

section \<open>The reply to an error\<close>

lemma log_msg_id: "log_msg os ty msg s = Some s"
  by (simp add: log_msg_same)

lemma set_interest_here:
  assumes "sel_inv (fst s)" and "registered (fst s) fd = Some it"
  shows "\<exists>sel'. set_interest fd op s = Some (SELECTOR_SUCCESS, set_sel sel' s) \<and> sel_inv sel'
    \<and> registered sel' = (registered (fst s))(fd \<mapsto> it\<lparr>item_interest := op\<rparr>) \<and> roles sel' = roles (fst s)"
proof -
  from selector_set_interest_spec [OF assms, of op] obtain sel' where
    sel': "selector_set_interest (fst s) fd op = Some (SELECTOR_SUCCESS, sel')" "sel_inv sel'"
    "registered sel' = (registered (fst s))(fd \<mapsto> it\<lparr>item_interest := op\<rparr>)" by blast
  with set_interest_roles [OF assms(1) sel'(1)] show ?thesis
    by (intro exI [of _ sel']) (simp add: set_interest_def)
qed

text \<open>On the client's own descriptor the reply is queued; on one that is gone the connection fails.\<close>

lemma error_reply_queued:
  assumes call: "called i key c s" and h: "handshake c = Request rp"
    and b: "contents (sv_to_client c) = []" "22 \<le> room (sv_to_client c)" and msg: "msg \<noteq> CON_SUCCEEDED"
  shows "\<exists>s' c'. req_generate_response_error key msg s = Some (state_id REQ_WRITE, s')
    \<and> keeps i s s' \<and> client_at i s' = Some c' \<and> handshake c' = Request (rp\<lparr>req_state := REQ_ERROR, con_status := msg\<rparr>)
    \<and> reply_fields (contents (sv_to_client c')) = Some (status_code msg, 1, [0, 0, 0, 0], 0)
    \<and> (\<exists>it. registered (fst s') (key_fd key) = Some it \<and> item_interest it = OP_WRITE)
    \<and> hist s' = hist s"
proof -
  let ?rp = "rp\<lparr>req_state := REQ_ERROR, con_status := msg\<rparr>"
  let ?c = "c\<lparr>handshake := Request ?rp\<rparr>"
  have ok: "client_ok c" "ATTACHMENT key = Some i" "client_at i s = Some c" using call by (auto simp: called_def)
  then have ok1: "client_ok ?c" by (auto simp: client_ok_def handshake_ok_def h req_parser_ok_def)
  obtain sel' where s1: "set_interest_key key OP_WRITE (set_client i ?c s) = Some (SELECTOR_SUCCESS, set_sel sel' (set_client i ?c s))"
    "sel_inv sel'" "roles sel' = roles (fst s)"
    "\<exists>it. registered sel' (key_fd key) = Some it \<and> item_interest it = OP_WRITE"
    using set_interest_key_called [OF called_update [OF call ok1], of OP_WRITE] by auto
  obtain b where b': "req_generate_response ?rp (sv_to_client c) dummy_bnd_addr = Some (False, b)" "buffer_inv b"
    "contents b = req_response ?rp dummy_bnd_addr" "buf_limit b = buf_limit (sv_to_client c)"
    using req_generate_response_spec [of "sv_to_client c" ?rp dummy_bnd_addr] ok(1) b by (auto simp: client_ok_def)
  let ?c' = "?c\<lparr>sv_to_client := b\<rparr>"
  let ?s' = "set_client i ?c' (set_sel sel' (set_client i ?c s))"
  have run: "req_generate_response_error key msg s = Some (state_id REQ_WRITE, ?s')"
    using ok h s1(1) b'(1) by (simp add: req_generate_response_error_def the_req_def Let_def)
  have "client_ok ?c'" using ok1 b' by (simp add: client_ok_def)
  moreover have "same_place c ?c'" by (simp add: same_place_def h kind_def)
  ultimately have k: "keeps i s ?s'" by (intro keeps_update [OF call, where c' = ?c']) (simp_all add: s1)
  have "dummy_bnd_addr = Sockaddr_in [0, 0, 0, 0] (htons 0)"
    by (simp add: dummy_bnd_addr_def htons_def numeral_eq_Suc)
  with req_response_fields [of dummy_bnd_addr "[0, 0, 0, 0]" 0 ?rp] b'(3) msg
  have "reply_fields (contents (sv_to_client ?c')) = Some (status_code msg, 1, [0, 0, 0, 0], 0)" by simp
  with run k s1(4) show ?thesis by (intro exI [of _ ?s'] exI [of _ ?c']) simp
qed

lemma error_reply_lost:
  assumes "ATTACHMENT key = Some i" and "client_at i s = Some c" and "handshake c = Request rp"
    and "0 \<le> key_fd key" "nat (key_fd key) < fd_size (fst s)" "registered (fst s) (key_fd key) = None"
  shows "req_generate_response_error key msg s = Some (state_id SOCKS_ERROR,
    set_client i (c\<lparr>handshake := Request (rp\<lparr>req_state := REQ_ERROR, con_status := msg\<rparr>)\<rparr>) s)"
  using assms selector_set_interest_absent [of "key_fd key" "fst s" OP_WRITE]
  by (simp add: req_generate_response_error_def the_req_def set_interest_key_def selector_set_interest_key_eq
      Let_def) (simp add: set_sel_def set_client_def)

section \<open>The outcome of the connection\<close>

text \<open>The origin's descriptor has become writable: the connection was made or has failed.\<close>

definition awaits :: "nat \<Rightarrow> key \<Rightarrow> client_data \<Rightarrow> st \<Rightarrow> bool" where
  "awaits i key c s \<longleftrightarrow> owns i c s \<and> ATTACHMENT key = Some i \<and> key_fd key = origin_fd c \<and> 0 \<le> origin_fd c
     \<and> stm_current (stm c) = Some (state_id REQ_CONNECT) \<and> buffer_inv (sv_to_client c)
     \<and> (\<exists>rp. handshake c = Request rp)"

definition interest_of :: "st \<Rightarrow> int \<Rightarrow> u32 option" where
  "interest_of s fd = map_option item_interest (registered (fst s) fd)"

lemma holds_registered: "holds s fd i \<Longrightarrow> \<exists>it. registered (fst s) fd = Some it"
  by (auto simp: holds_def roles_def)

lemma connect_established_spec:
  assumes aw: "awaits i key c s" and room: "contents (sv_to_client c) = []" "22 \<le> room (sv_to_client c)"
    and ok: "\<forall>h. os_getsockopt os h (origin_fd c) = Some 0" "\<forall>h. os_getsockname os h (origin_fd c) = Some bnd"
    and bnd: "bnd = Sockaddr_in a (htons p) \<and> length a = 4 \<or> bnd = Sockaddr_in6 a (htons p) \<and> length a = 16"
  shows "\<exists>s' c'. request_connect unregister os key s = Some (state_id REQ_WRITE, s') \<and> client_at i s' = Some c'
    \<and> reply_fields (contents (sv_to_client c')) = Some (0, if length a = 4 then 1 else 4, a, p)
    \<and> interest_of s' (client_fd c) = Some OP_WRITE \<and> interest_of s' (origin_fd c) = Some OP_READ
    \<and> roles (fst s') = roles (fst s) \<and> origin_fd c' = origin_fd c \<and> client_fd c' = client_fd c \<and> origin_addr c' = []
    \<and> stm c' = stm c \<and> username c' = username c
    \<and> (\<exists>rp. handshake c = Request rp \<and> handshake c' = Request (rp\<lparr>con_status := CON_SUCCEEDED\<rparr>))
    \<and> client_address c' = client_address c \<and> client_to_sv c' = client_to_sv c \<and> buffer_inv (sv_to_client c')
    \<and> (\<exists>es. hist s' = hist s @ es \<and> (\<forall>e \<in> set es. quiet e)) \<and> user_tab (snd s') = user_tab (snd s) \<and> sel_inv (fst s')
    \<and> (\<forall>j. j \<noteq> i \<longrightarrow> client_at j s' = client_at j s)"
proof -
  from aw obtain rp where h: "handshake c = Request rp" by (auto simp: awaits_def)
  from aw have own: "client_at i s = Some c" "sel_inv (fst s)" "ATTACHMENT key = Some i" "buffer_inv (sv_to_client c)"
    "holds s (client_fd c) i" "origin_fd c \<noteq> client_fd c" "holds s (origin_fd c) i"
    by (auto simp: awaits_def owns_def)
  let ?rp = "rp\<lparr>con_status := CON_SUCCEEDED\<rparr>"
  let ?c1 = "if origin_addr c \<noteq> [] then c\<lparr>handshake := Request ?rp, origin_addr := [], current_origin_addr := []\<rparr>
    else c\<lparr>handshake := Request ?rp\<rparr>"
  obtain b where b: "req_generate_response ?rp (sv_to_client c) bnd = Some (False, b)"
    "contents b = req_response ?rp bnd" "buffer_inv b"
    using req_generate_response_spec [OF own(4) room(2), of ?rp bnd] room(1) by auto
  let ?s2 = "record_event (Getsockname (origin_fd c) (Some bnd)) (set_client i ?c1
    (record_event (Getsockopt (origin_fd c) (Some 0)) s))"
  let ?c' = "?c1\<lparr>sv_to_client := b\<rparr>"
  let ?s3 = "set_client i ?c' ?s2"
  obtain it where it: "registered (fst ?s3) (client_fd c) = Some it" using holds_registered [OF own(5)] by auto
  obtain sel1 where 1: "set_interest (client_fd c) OP_WRITE ?s3 = Some (SELECTOR_SUCCESS, set_sel sel1 ?s3)"
    "sel_inv sel1" "registered sel1 = (registered (fst s))(client_fd c \<mapsto> it\<lparr>item_interest := OP_WRITE\<rparr>)"
    "roles sel1 = roles (fst s)"
    using set_interest_here [of ?s3 "client_fd c" it OP_WRITE] own(2) it by auto
  let ?s4 = "set_sel sel1 ?s3"
  obtain it' where it': "registered (fst ?s4) (origin_fd c) = Some it'"
    using holds_registered [OF own(7)] own(6) 1(3) by auto
  obtain sel2 where 2: "set_interest (origin_fd c) OP_READ ?s4 = Some (SELECTOR_SUCCESS, set_sel sel2 ?s4)"
    "registered sel2 = (registered sel1)(origin_fd c \<mapsto> it'\<lparr>item_interest := OP_READ\<rparr>)" "roles sel2 = roles sel1" "sel_inv sel2"
    using set_interest_here [of ?s4 "origin_fd c" it' OP_READ] 1(2) it' by auto
  let ?s' = "set_sel sel2 ?s4"
  have run: "request_connect unregister os key s = Some (state_id REQ_WRITE, ?s')"
    using own(1,3) ok h b(1) 1(1) 2(1)
    by (simp add: request_connect_def log_msg_id sys_getsockopt_def sys_getsockname_def the_req_def Let_def
        split del: if_split) auto
  have "interest_of ?s' (client_fd c) = Some OP_WRITE" "interest_of ?s' (origin_fd c) = Some OP_READ"
    using 1(3) 2(2) own(6) by (auto simp: interest_of_def)
  moreover have "hist ?s' = hist s @ [Getsockopt (origin_fd c) (Some 0), Getsockname (origin_fd c) (Some bnd)]" by simp
  then have "\<exists>es. hist ?s' = hist s @ es \<and> (\<forall>e \<in> set es. quiet e)"
    by (intro exI [of _ "[Getsockopt (origin_fd c) (Some 0), Getsockname (origin_fd c) (Some bnd)]"]) (simp add: quiet_def)
  moreover note run h b(2,3) req_response_fields [OF bnd, of ?rp] 1(4) 2(3,4)
  ultimately show ?thesis
    by (intro exI [of _ ?s'] exI [of _ ?c']) auto
qed

text \<open>The last address was refused: the descriptor the reply would go through is gone by then.\<close>

lemma connect_refused_run:
  assumes aw: "awaits i key c s" and h: "handshake c = Request rp"
    and no: "\<forall>h. os_getsockopt os h (origin_fd c) = Some e" "e \<noteq> 0" and last: "current_origin_addr c = [a]"
  shows "\<exists>sel'. request_connect (unregister_fd os others) os key s = Some (state_id SOCKS_ERROR,
      set_client i (c\<lparr>origin_fd := -1, handshake := Request (rp\<lparr>req_state := REQ_ERROR, con_status := CON_HOST_UNREACHABLE\<rparr>)\<rparr>)
        (record_event (Close (-1)) (record_event (Close (origin_fd c))
          (record_event (Getsockopt (origin_fd c) (Some e)) (sel', snd s)))))
    \<and> sel_inv sel' \<and> registered sel' = (registered (fst s))(origin_fd c := None)"
proof -
  from aw have own: "client_at i s = Some c" "machine_ok c" "sel_inv (fst s)" "ATTACHMENT key = Some i"
    "key_fd key = origin_fd c" "client_fd c \<noteq> -1" "origin_fd c \<noteq> client_fd c" "origin_fd c \<noteq> -1"
    "holds s (origin_fd c) i" "0 \<le> origin_fd c" by (auto simp: awaits_def owns_def)
  let ?s1 = "record_event (Getsockopt (origin_fd c) (Some e)) s"
  let ?c1 = "c\<lparr>origin_fd := -1\<rparr>"
  have close: "after_close i (origin_fd c) c ?s1 = set_client i ?c1 (record_event (Close (origin_fd c)) ?s1)"
    using own(6,7) by (simp add: after_close_def dropped_def Let_def)
  obtain sel' where 1: "unregister_fd os others (origin_fd c) ?s1 =
      Some (SELECTOR_SUCCESS, set_sel sel' (after_close i (origin_fd c) c ?s1))"
    "sel_inv sel'" "registered sel' = (registered (fst s))(origin_fd c := None)" "fd_size sel' = fd_size (fst s)"
    using unregister_client [of ?s1 "origin_fd c" i c os others] own by (auto simp: holds_def)
  have in_table: "nat (origin_fd c) < fd_size sel'"
    using holds_registered [OF own(9)] registered_SomeD [of "fst s" "origin_fd c"] 1(4) by auto
  let ?s2 = "set_client i ?c1 (record_event (Close (-1)) (set_sel sel' (after_close i (origin_fd c) c ?s1)))"
  have "req_generate_response_error key CON_HOST_UNREACHABLE ?s2 = Some (state_id SOCKS_ERROR, set_client i
      (?c1\<lparr>handshake := Request (rp\<lparr>req_state := REQ_ERROR, con_status := CON_HOST_UNREACHABLE\<rparr>)\<rparr>) ?s2)"
    using error_reply_lost [of key i ?s2 ?c1 rp CON_HOST_UNREACHABLE] own h in_table 1(3) by simp
  moreover have "client_at i (set_sel sel' (after_close i (origin_fd c) c ?s1)) = Some ?c1" by (simp add: close)
  ultimately have "request_connect (unregister_fd os others) os key s = Some (state_id SOCKS_ERROR, set_client i
      (?c1\<lparr>handshake := Request (rp\<lparr>req_state := REQ_ERROR, con_status := CON_HOST_UNREACHABLE\<rparr>)\<rparr>) ?s2)"
    using own(1,4) no 1(1) last by (simp add: request_connect_def log_msg_id sys_getsockopt_def Let_def)
  with 1(2,3) show ?thesis
    by (intro exI [of _ sel']) (simp add: close, simp add: set_client_def record_event_def set_sel_def)
qed

text \<open>A failing handler sends the machine to \<open>SOCKS_ERROR\<close>, and its client is released.\<close>

lemma jump_to_error:
  assumes ok: "mallocs_ok os" and at: "client_at i s = Some c" and m: "machine_ok c"
    and cur: "stm_current (stm c) = Some n" "n \<noteq> state_id SOCKS_ERROR"
  shows "\<exists>s'. jump (client_table os p q u v) (client_stm i) (state_id SOCKS_ERROR) key s = Some s'
    \<and> silent (set_client i (c\<lparr>stm := (stm c)\<lparr>stm_current := Some (state_id SOCKS_ERROR)\<rparr>\<rparr>) s) s'"
proof -
  let ?T = "client_table os p q u v"
  let ?t = "set_client i (c\<lparr>stm := (stm c)\<lparr>stm_current := Some (state_id SOCKS_ERROR)\<rparr>\<rparr>) s"
  have "n < 11" using m cur(1) by (auto simp: machine_ok_def current_valid_def state_id.simps)
  then have "?T ! n \<in> set ?T" by simp
  then have "on_departure (?T ! n) = None" by (rule client_table_departures)
  then have dep: "nth_opt ?T n \<bind> (\<lambda>d. notify (on_departure d) (sd_state d) key s) = Some s"
    using \<open>n < 11\<close> by (simp add: nth_opt_def notify_def)
  obtain t' where "log_line os ERROR ''Error state'' ?t = Some t'" "silent ?t t'"
    using log_line_returns [OF ok, of "''Error state''" ERROR ?t] log_line_silent by auto
  moreover have "stm_max_state (stm c) = state_id SOCKS_ERROR" using m by (simp add: machine_ok_def)
  ultimately show ?thesis
    using at cur dep
    by (simp add: jump_def client_stm_get client_table_nth client_stm_put notify_def error_arrival_def state_entry_def)
qed

lemma client_table_connect:
  "nth_opt (client_table os a b c d) (state_id REQ_CONNECT) = Some ((state_entry REQ_CONNECT)\<lparr>on_write_ready := Some d\<rparr>)"
  by (simp add: client_table_def state_id.simps nth_opt_def)

lemma connect_refused_event:
  assumes ok: "mallocs_ok os" and aw: "awaits i key c s"
    and no: "\<forall>h. os_getsockopt os h (origin_fd c) = Some e" "e \<noteq> 0" and last: "current_origin_addr c = [a]"
  shows "\<exists>s' es. socksv5_write os others key s = Some s' \<and> client_at i s' = None
    \<and> registered (fst s') = (registered (fst s))(client_fd c := None, origin_fd c := None)
    \<and> hist s' = hist s @ es \<and> (\<forall>x \<in> set es. quiet x) \<and> Close (client_fd c) \<in> set es \<and> Close (origin_fd c) \<in> set es
    \<and> (\<forall>j. j \<noteq> i \<longrightarrow> client_at j s' = client_at j s)"
proof -
  from aw obtain rp where h: "handshake c = Request rp" by (auto simp: awaits_def)
  from aw have own: "client_at i s = Some c" "machine_ok c" "ATTACHMENT key = Some i" "holds s (client_fd c) i"
    "stm_current (stm c) = Some (state_id REQ_CONNECT)" "client_fd c \<noteq> -1" "origin_fd c \<noteq> client_fd c"
    by (auto simp: awaits_def owns_def)
  let ?c1 = "c\<lparr>origin_fd := -1, handshake := Request (rp\<lparr>req_state := REQ_ERROR, con_status := CON_HOST_UNREACHABLE\<rparr>)\<rparr>"
  let ?gone = "[Getsockopt (origin_fd c) (Some e), Close (origin_fd c), Close (-1)]"
  obtain sel' where r: "request_connect (unregister_fd os others) os key s = Some (state_id SOCKS_ERROR,
      set_client i ?c1 (record_event (Close (-1)) (record_event (Close (origin_fd c))
        (record_event (Getsockopt (origin_fd c) (Some e)) (sel', snd s)))))"
    "sel_inv sel'" "registered sel' = (registered (fst s))(origin_fd c := None)"
    using connect_refused_run [OF aw h no last] by blast
  define s1 where "s1 = set_client i ?c1 (record_event (Close (-1)) (record_event (Close (origin_fd c))
        (record_event (Getsockopt (origin_fd c) (Some e)) (sel', snd s))))"
  have s1: "client_at i s1 = Some ?c1" "fst s1 = sel'" "hist s1 = hist s @ ?gone"
    "\<And>j. j \<noteq> i \<Longrightarrow> client_at j s1 = client_at j s"
    by (simp_all add: s1_def) (simp_all add: hist_def client_at_def)
  have m1: "machine_ok ?c1" using own(2) by (auto simp: machine_ok_def current_valid_def)
  let ?c2 = "?c1\<lparr>stm := (stm ?c1)\<lparr>stm_current := Some (state_id SOCKS_ERROR)\<rparr>\<rparr>"
  have "stm_current (stm ?c1) = Some (state_id REQ_CONNECT)" "state_id REQ_CONNECT \<noteq> state_id SOCKS_ERROR"
    using own(5) by simp_all
  from jump_to_error [OF ok s1(1) m1 this] obtain s2 where
    s2: "jump (client_actions os others) (client_stm i) (state_id SOCKS_ERROR) key s1 = Some s2"
      "silent (set_client i ?c2 s1) s2"
    unfolding client_actions_def by blast
  have "handle_first (client_actions os others) (client_stm i) key s = Some s"
    using own(1,5) by (simp add: handle_first_def client_stm_get)
  then have ev: "stm_handler_write (client_actions os others) (client_stm i) key s = Some (state_id SOCKS_ERROR, s2)"
    using own(1,5) r(1) s2(1)
    by (simp add: stm_handler_write_def stm_handler_def client_stm_get client_actions_def client_table_connect
        state_entry_def flip: s1_def)
  obtain es where es: "hist s2 = hist s1 @ es" "\<forall>x \<in> set es. quiet x" using silentD(5) [OF s2(2)] by auto
  have "owns i ?c2 s2"
    using silentD(1,2) [OF s2(2)] own s1(2) r(2,3) m1
    by (auto simp: owns_def holds_def roles_def machine_ok_def current_valid_def)
  from socksv5_done_spec [OF own(3) this, of os others] obtain s' where
    s': "socksv5_done os others key s2 = Some s'" "client_at i s' = None"
    "registered (fst s') = (registered (fst s2))(client_fd c := None, -1 := None)"
    "hist s' = hist s2 @ [Close (client_fd c)]" "\<And>j. j \<noteq> i \<Longrightarrow> client_at j s' = client_at j s2" by auto
  have "socksv5_write os others key s = Some s'"
    using own(3) ev s'(1) by (simp add: socksv5_write_def after_event_def)
  moreover have "registered (fst s') = (registered (fst s))(client_fd c := None, origin_fd c := None)"
    using s'(3) silentD(1) [OF s2(2)] s1(2) r(3) by auto
  moreover have "hist s' = hist s @ ?gone @ es @ [Close (client_fd c)]" using s'(4) es(1) s1(3) by simp
  moreover have "client_at j s' = client_at j s" if "j \<noteq> i" for j
    using s'(5) [OF that] silentD(2) [OF s2(2), of j] s1(4) [OF that] that by simp
  ultimately show ?thesis using s'(2) es(2)
    by (intro exI [of _ s'] exI [of _ "?gone @ es @ [Close (client_fd c)]"]) (auto simp: quiet_def)
qed

section \<open>Resolving the name\<close>

text \<open>With memory, the message for a failed \<open>getaddrinfo\<close> is built.\<close>

lemma resolver_message_returns:
  assumes ok: "mallocs_ok os" and msg: "length msg < 2 ^ 20"
  shows "\<exists>sb s1 sb1 s2 sb2 s3. new_sb os s = (Some sb, s1)
    \<and> append_sb os sb (CHR 0x27 # ''getaddrinfo'' @ CHR 0x27 # '' error: '') s1 = Some (sb1, s2)
    \<and> append_sb os sb1 msg s2 = Some (sb2, s3) \<and> silent s s3"
proof -
  let ?sb = "\<lparr>sb_text = [], sb_length = 0, sb_capacity = SB_INITIAL_CAPACITY\<rparr>"
  let ?t = "CHR 0x27 # ''getaddrinfo'' @ CHR 0x27 # '' error: ''"
  have sb: "sb_create True True = Some ?sb" by (simp add: sb_create_def)
  obtain s1 where 1: "new_sb os s = (Some ?sb, s1)"
    using ok sb by (simp add: new_sb_def sys_malloc_def mallocs_ok_def Let_def)
  have m: "sys_malloc os n t = (True, record_event (Malloc n True) t)" for n t
    using ok by (simp add: sys_malloc_def mallocs_ok_def Let_def)
  obtain sb1 where 2: "sb_append True ?sb ?t = Some (0, sb1)" "sb_inv sb1" "sb_length sb1 < 100" "sb_capacity sb1 < 2 ^ 63"
    by (simp add: sb_append_def sb_inv_def SB_INITIAL_CAPACITY_def)
  obtain r sb2 where 3: "sb_append True sb1 msg = Some (r, sb2)"
    using sb_append_spec [OF 2(2), of msg True] 2(3,4) msg by auto
  let ?s2 = "record_event (Malloc (length ?t) True) s1"
  let ?s3 = "record_event (Malloc (length msg) True) ?s2"
  have a: "append_sb os ?sb ?t s1 = Some (sb1, ?s2)" using 2(1) by (simp add: append_sb_def m)
  have b: "append_sb os sb1 msg ?s2 = Some (sb2, ?s3)" using 3 by (simp add: append_sb_def m)
  note silent_new_sb [OF 1] silent_append_sb [OF a] silent_append_sb [OF b]
  then have "silent s ?s3" using silent_trans by blast
  with 1 a b show ?thesis by blast
qed

lemma resolver_step_failed:
  assumes ok: "mallocs_ok os" and job: "nth_opt (threads (snd s)) k = Some \<lparr>rj_client_fd = fd, rj_client = i\<rparr>"
    and at: "client_at i s = Some c" and h: "handshake c = Request rp" "terminated (address_class (req_address rp))"
    and fail: "\<forall>h n p. os_getaddrinfo os h n p = Inl msg" "length msg < 2 ^ 20"
  shows "\<exists>s1. resolver_step os k s = Some s1
    \<and> client_at i s1 = Some (c\<lparr>origin_addr := [], current_origin_addr := []\<rparr>)
    \<and> fst s1 = (fst s)\<lparr>resolution_jobs := fd # resolution_jobs (fst s)\<rparr>
    \<and> (\<forall>j. j \<noteq> i \<longrightarrow> client_at j s1 = client_at j s)"
proof -
  let ?c = "c\<lparr>origin_addr := [], current_origin_addr := []\<rparr>"
  let ?s0 = "(fst s, (snd s)\<lparr>threads := take k (threads (snd s)) @ drop (Suc k) (threads (snd s))\<rparr>)"
  let ?u = "record_event (Getaddrinfo (string_of (addr_dn (req_address rp))) (utoa (unat (req_port rp))) (Inl msg)) ?s0"
  obtain sb s1 sb1 s2 sb2 s3 where m: "new_sb os ?u = (Some sb, s1)"
    "append_sb os sb (CHR 0x27 # ''getaddrinfo'' @ CHR 0x27 # '' error: '') s1 = Some (sb1, s2)"
    "append_sb os sb1 msg s2 = Some (sb2, s3)" "silent ?u s3"
    using resolver_message_returns [OF ok fail(2), of ?u] by blast
  let ?s4 = "record_event (Malloc 16 True) (set_client i ?c s3)"
  let ?s5 = "set_sel ((fst s)\<lparr>resolution_jobs := fd # resolution_jobs (fst s)\<rparr>) ?s4"
  have mal: "sys_malloc os 16 t = (True, record_event (Malloc 16 True) t)" for t
    using ok by (simp add: sys_malloc_def mallocs_ok_def Let_def)
  have s3: "fst s3 = fst s" "\<And>j. client_at j s3 = client_at j s"
    using silentD(1,2) [OF m(4)] by (simp, simp add: client_at_def record_event_def)
  have at0: "client_at i ?s0 = Some c" using at by (simp add: client_at_def)
  have "resolver_step os k s = request_resolve_domain_name os \<lparr>rj_client_fd = fd, rj_client = i\<rparr> ?s0"
    using job by (simp add: resolver_step_def Let_def)
  also have "\<dots> = Some ?s5"
    using at0 h fail(1) m(1-3) s3(1) mal
    by (simp add: request_resolve_domain_name_def the_req_def log_msg_id selector_notify_block_def Let_def
        del: world_frame(2))
  finally show ?thesis using s3(2) by (intro exI [of _ ?s5]) simp
qed

text \<open>The client is told, in the callback that the job then runs, that the host cannot be reached.\<close>

lemma failed_name_answered:
  assumes ok: "mallocs_ok os" and call: "called i key c s"
    and job: "nth_opt (threads (snd s)) k = Some \<lparr>rj_client_fd = key_fd key, rj_client = i\<rparr>"
    and h: "handshake c = Request rp" "terminated (address_class (req_address rp))"
    and fail: "\<forall>h n p. os_getaddrinfo os h n p = Inl msg" "length msg < 2 ^ 20"
    and room: "contents (sv_to_client c) = []" "22 \<le> room (sv_to_client c)"
  shows "\<exists>s1 s2 c2. resolver_step os k s = Some s1 \<and> key_fd key \<in> set (resolution_jobs (fst s1))
    \<and> request_resolve unregister os key s1 = Some (state_id REQ_WRITE, s2) \<and> client_at i s2 = Some c2
    \<and> reply_fields (contents (sv_to_client c2)) = Some (status_code CON_HOST_UNREACHABLE, 1, [0, 0, 0, 0], 0)
    \<and> interest_of s2 (key_fd key) = Some OP_WRITE \<and> roles (fst s2) = roles (fst s)
    \<and> (\<forall>j. j \<noteq> i \<longrightarrow> client_at j s2 = client_at j s)"
proof -
  from call have at: "client_at i s = Some c" "ATTACHMENT key = Some i" "client_ok c"
    "sel_inv (fst s)" "registered (fst s) (key_fd key) \<noteq> None" by (auto simp: called_def)
  let ?c = "c\<lparr>origin_addr := [], current_origin_addr := []\<rparr>"
  obtain s1 where 1: "resolver_step os k s = Some s1" "client_at i s1 = Some ?c"
    "fst s1 = (fst s)\<lparr>resolution_jobs := key_fd key # resolution_jobs (fst s)\<rparr>"
    "\<And>j. j \<noteq> i \<Longrightarrow> client_at j s1 = client_at j s"
    using resolver_step_failed [OF ok job at(1) h fail] by blast
  have "called i key ?c s1" using 1(2,3) at by (simp add: called_def client_ok_def)
  from error_reply_queued [OF this, of rp CON_HOST_UNREACHABLE] h(1) room obtain s2 c2 where
    2: "req_generate_response_error key CON_HOST_UNREACHABLE s1 = Some (state_id REQ_WRITE, s2)" "keeps i s1 s2"
    "client_at i s2 = Some c2"
    "reply_fields (contents (sv_to_client c2)) = Some (status_code CON_HOST_UNREACHABLE, 1, [0, 0, 0, 0], 0)"
    "\<exists>it. registered (fst s2) (key_fd key) = Some it \<and> item_interest it = OP_WRITE" by auto
  have "request_resolve unregister os key s1 = Some (state_id REQ_WRITE, s2)"
    using 1(2) at(2) 2(1) by (simp add: request_resolve_def log_msg_id)
  moreover have "roles (fst s2) = roles (fst s)" using 2(2) 1(3) by (simp add: keeps_def roles_def fun_eq_iff)
  moreover have "client_at j s2 = client_at j s" if "j \<noteq> i" for j using 2(2) 1(4) that by (simp add: keeps_def)
  moreover have "interest_of s2 (key_fd key) = Some OP_WRITE" using 2(5) by (auto simp: interest_of_def)
  ultimately show ?thesis using 1(1,3) 2(3,4) by (intro exI [of _ s1] exI [of _ s2] exI [of _ c2]) simp
qed

text \<open>
  The thread could not be created, which the code does not notice: the client waits in
  \<open>REQ_RESOLVE\<close>, no thread and no job will ever wake it, and its descriptor is in no set.
\<close>

lemma failed_thread_unnoticed:
  assumes ok: "mallocs_ok os" and call: "called i key c s" and h: "handshake c = Request rp" "atyp rp = DN"
    and fail: "\<forall>h. 0 < os_pthread_create os h"
  shows "\<exists>s'. handle_request unregister os key s = Some (state_id REQ_RESOLVE, s') \<and> client_at i s' = Some c
    \<and> threads (snd s') = threads (snd s) \<and> roles (fst s') = roles (fst s)
    \<and> key_fd key \<notin> master_r (fst s') \<and> key_fd key \<notin> master_w (fst s')"
proof -
  let ?s2 = "record_event (Pthread_create (os_pthread_create os (hist s @ [Malloc 24 True])))
    (record_event (Malloc 24 True) s)"
  from call have at: "client_at i s = Some c" "ATTACHMENT key = Some i" by (auto simp: called_def)
  have "called i key c ?s2" using call by simp
  from set_interest_key_called [OF this, of OP_NOOP] obtain sel' it where
    1: "set_interest_key key OP_NOOP ?s2 = Some (SELECTOR_SUCCESS, set_sel sel' ?s2)" "sel_inv sel'"
    "roles sel' = roles (fst s)" "registered sel' (key_fd key) = Some it" "item_interest it = OP_NOOP" by auto
  have mal: "sys_malloc os 24 s = (True, record_event (Malloc 24 True) s)"
    using ok by (simp add: sys_malloc_def mallocs_ok_def Let_def)
  have "os_pthread_create os (hist s @ [Malloc 24 True]) \<noteq> -1" "os_pthread_create os (hist s @ [Malloc 24 True]) \<noteq> 0"
    using fail by (metis less_irrefl neg_0_less_iff_less not_one_less_zero, metis less_irrefl)
  then have "handle_request unregister os key s = Some (state_id REQ_RESOLVE, set_sel sel' ?s2)"
    using at h mal 1(1) by (simp add: handle_request_def the_req_def start_resolver_def Let_def)
  moreover have "key_fd key \<notin> master_r sel'" "key_fd key \<notin> master_w sel'"
    using 1(2,4,5) by (auto simp: sel_inv_def wants_def OP_NOOP_def)
  ultimately show ?thesis
    using 1(3) at(1) by (intro exI [of _ "set_sel sel' ?s2"]) (simp, simp add: set_sel_def record_event_def)
qed

end
