(* ===== verification/Access_Log.thy ===== *)
theory Access_Log
  imports Connecting
begin

text \<open>
  The end of \<open>request_write\<close> in \<open>request.c\<close>: the reply is out, and a line goes to the access
  log of the user, a builder in the table of \<open>users.c\<close>. What the line says, that it is
  appended, and what happens where the table has no such user.
\<close>

section \<open>A run of appends\<close>

primrec piece_text :: "piece \<Rightarrow> string" where
  "piece_text (Text t) = t"
| "piece_text (Number n) = utoa (nat n)"

primrec piece_ok :: "piece \<Rightarrow> bool" where
  "piece_ok (Text t) = True"
| "piece_ok (Number n) = (0 \<le> n \<and> n < 2 ^ 31)"

definition pieces_text :: "piece list \<Rightarrow> string" where
  "pieces_text ps = concat (map piece_text ps)"

lemma pieces_text_simps [simp]:
  "pieces_text [] = []" "pieces_text (p # ps) = piece_text p @ pieces_text ps"
  "pieces_text (ps @ qs) = pieces_text ps @ pieces_text qs"
  by (simp_all add: pieces_text_def)

text \<open>A builder that has doubled its way to its size, and is far from the end of memory.\<close>

definition sb_small :: "StringBuilder \<Rightarrow> bool" where
  "sb_small sb \<longleftrightarrow> sb_inv sb \<and> sb_capacity sb < 2 ^ 63"

lemma sb_append_small:
  assumes "sb_small sb" and "sb_length sb + length str < 2 ^ 62"
  shows "\<exists>sb'. sb_append True sb str = Some (0, sb') \<and> sb_small sb' \<and> sb_text sb' = sb_text sb @ str"
proof -
  let ?need = "sb_length sb + length str + 1"
  have inv: "sb_inv sb" "sb_capacity sb < 2 ^ 63" using assms(1) by (simp_all add: sb_small_def)
  obtain r sb' where sb': "sb_append True sb str = Some (r, sb')" "sb_inv sb'" "r = 0" "sb_text sb' = sb_text sb @ str"
    using sb_append_spec [OF inv(1) _ inv(2), of str True] assms(2) by auto
  have "sb_capacity sb' < 2 ^ 63"
  proof (cases "?need > sb_capacity sb")
    case False
    then show ?thesis using sb'(1) inv assms(2) by (auto simp: sb_append_def Let_def)
  next
    case True
    obtain c where c: "grow_capacity (sb_capacity sb * 2) ?need = Some c"
      "c = sb_capacity sb * 2 \<or> c < 2 * ?need"
      using grow_capacity_total [of "sb_capacity sb * 2" ?need] inv assms(2) by (fastforce simp: sb_inv_def)
    then have "sb_capacity sb' = c" using True sb'(1) inv assms(2) by (auto simp: sb_append_def Let_def)
    with c(2) True assms(2) show ?thesis by auto
  qed
  with sb' show ?thesis by (auto simp: sb_small_def)
qed

lemma append_sb_small:
  assumes "mallocs_ok os" and "sb_small sb" and "sb_length sb + length str < 2 ^ 62"
  shows "\<exists>sb' s'. append_sb os sb str s = Some (sb', s') \<and> silent s s' \<and> sb_small sb'
    \<and> sb_text sb' = sb_text sb @ str"
proof -
  obtain s1 where m: "sys_malloc os (length str) s = (True, s1)"
    using assms(1) by (simp add: sys_malloc_def mallocs_ok_def)
  with sb_append_small [OF assms(2,3)] silent_malloc [OF m] show ?thesis by (auto simp: append_sb_def)
qed

lemma append_number:
  assumes "mallocs_ok os" and "0 \<le> n" and "n < 2 ^ 31"
  shows "append_pieces os sb (Number n # ps) s =
    append_pieces os sb (Text (utoa (nat n)) # ps) (record_event (Malloc 12 True) s)"
proof -
  have "sys_malloc os 12 s = (True, record_event (Malloc 12 True) s)"
    using assms(1) by (simp add: sys_malloc_def mallocs_ok_def)
  moreover have "int_to_string True (\<lambda>_. []) n = Some (Some (utoa (nat n)))"
    using int_to_string_spec [of n "\<lambda>_. []"] assms(2,3)
    by (cases "n = 0") (auto simp: utoa_def int_to_string_def)
  ultimately show ?thesis by simp
qed

lemma append_pieces_spec:
  assumes "mallocs_ok os" and "sb_small sb" and "sb_length sb + length (pieces_text ps) < 2 ^ 62"
    and "list_all piece_ok ps"
  shows "\<exists>sb' s'. append_pieces os sb ps s = Some (sb', s') \<and> silent s s' \<and> sb_small sb'
    \<and> sb_text sb' = sb_text sb @ pieces_text ps"
  using assms(2-4)
proof (induction ps arbitrary: sb s)
  case Nil
  then show ?case by (simp add: silent_refl)
next
  case (Cons p ps)
  have *: "\<exists>sb' s'. append_pieces os sb (Text t # ps) s = Some (sb', s') \<and> silent s s' \<and> sb_small sb'
    \<and> sb_text sb' = sb_text sb @ t @ pieces_text ps"
    if t: "sb_length sb + length (t @ pieces_text ps) < 2 ^ 62" for t s
  proof -
    obtain sb1 s1 where 1: "append_sb os sb t s = Some (sb1, s1)" "silent s s1" "sb_small sb1" "sb_text sb1 = sb_text sb @ t"
      using append_sb_small [OF assms(1) Cons.prems(1), of t s] t by auto
    then have "sb_length sb1 + length (pieces_text ps) < 2 ^ 62"
      using t Cons.prems(1) by (simp add: sb_small_def sb_inv_def)
    with Cons.IH [OF 1(3), of s1] Cons.prems(3) 1 show ?thesis by (auto intro: silent_trans)
  qed
  show ?case
  proof (cases p)
    case (Text t)
    with * [of t s] Cons.prems show ?thesis by simp
  next
    case (Number n)
    have "silent s (record_event (Malloc 12 True) s)" by (rule silent_event) (simp add: quiet_def)
    with * [of "utoa (nat n)" "record_event (Malloc 12 True) s"] Cons.prems Number assms(1) show ?thesis
      by (auto simp: append_number simp del: append_pieces.simps intro: silent_trans)
  qed
qed

section \<open>The line\<close>

lemma terminated_cstr: "length (cstr a) < length a \<Longrightarrow> terminated a"
  by (induction a) (auto simp: terminated_def cstr_def split: if_splits)

definition access_line :: "os \<Rightarrow> string \<Rightarrow> client_data \<Rightarrow> req_parser \<Rightarrow> string" where
  "access_line os timestamp c rp =
     pieces_text (access_pieces os timestamp (string_of (cstr (username c))) (client_address c) rp)"

lemma access_pieces_ok:
  assumes "length (address_class (req_address rp)) = 256"
  shows "list_all piece_ok (access_pieces os t name a rp)"
proof -
  have "uint w < 2147483648" for w :: u8 using uint_lt2p [of w] by simp
  with assms show ?thesis
    by (simp add: access_pieces_def addr_ipv4_def Let_def split: sockaddr.split)
qed

lemma get_access_user:
  "lookup t name = Some u \<Longrightarrow> get_access t name = u_access u"
  using user_exists_lookup(1) [of t name] by (auto simp: get_access_def Let_def elim!: user_exists_nonneg)

lemma log_access_spec:
  assumes mem: "mallocs_ok os" and nm: "terminated (username c)" "name = string_of (cstr (username c))"
    and known: "lookup (user_tab (snd s)) name = Some u" "u_access u = Some sb" "sb_small sb"
    and rp: "atyp rp \<noteq> DN" "length (address_class (req_address rp)) = 256"
    and len: "\<forall>h. sb_length sb + length (access_line os (os_time os h) c rp) < 2 ^ 62"
  shows "\<exists>s' sb' h es. log_access os c rp s = Some s' \<and> sb_small sb'
    \<and> sb_text sb' = sb_text sb @ access_line os (os_time os h) c rp
    \<and> user_tab (snd s') = store_access name sb' (user_tab (snd s)) \<and> fst s' = fst s
    \<and> hist s' = hist s @ es \<and> (\<forall>e \<in> set es. quiet e) \<and> (\<forall>j. client_at j s' = client_at j s)"
proof -
  let ?time = "os_time os (hist s)"
  let ?ps = "access_pieces os ?time name (client_address c) rp"
  let ?s1 = "record_event (Time ?time) s"
  have get: "get_access (user_tab (snd s)) name = Some sb" using get_access_user [OF known(1)] known(2) by simp
  have "sb_length sb + length (pieces_text ?ps) < 2 ^ 62" using len nm(2) by (simp add: access_line_def)
  then obtain sb' s2 where a: "append_pieces os sb ?ps ?s1 = Some (sb', s2)" "silent ?s1 s2" "sb_small sb'"
    "sb_text sb' = sb_text sb @ pieces_text ?ps"
    using append_pieces_spec [OF mem known(3) _ access_pieces_ok [OF rp(2)], of os ?time name "client_address c" ?s1] by auto
  let ?s' = "(fst s2, (snd s2)\<lparr>user_tab := store_access name sb' (user_tab (snd s2))\<rparr>)"
  have run: "log_access os c rp s = Some ?s'"
    using nm get a(1) rp(1) by (simp add: log_access_def Let_def)
  have "silent s s2" using a(2) silent_trans [OF silent_event [of "Time ?time" s] a(2)] by (simp add: quiet_def)
  note sil = silentD [OF this]
  then obtain es where es: "hist s2 = hist s @ es" "\<forall>e \<in> set es. quiet e" by blast
  have "hist ?s' = hist s @ es" "\<forall>j. client_at j ?s' = client_at j s" using es(1) sil(2) by (simp_all add: hist_def client_at_def)
  moreover have "user_tab (snd ?s') = store_access name sb' (user_tab (snd s))" "fst ?s' = fst s" using sil(1,3) by simp_all
  moreover have "sb_text sb' = sb_text sb @ access_line os ?time c rp" using a(4) nm(2) by (simp add: access_line_def)
  ultimately show ?thesis using run a(3) es(2) by blast
qed

lemma log_access_unknown:
  assumes "terminated (username c)" and "user_exists (user_tab (snd s)) (string_of (cstr (username c))) < 0"
  shows "log_access os c rp s = None"
  using assms by (simp add: log_access_def get_access_def create_access_def Let_def sys_malloc_def record_event_def)

text \<open>How long a line gets, with a time stamp and addresses that fit the arrays they are printed to.\<close>

definition prints_ok :: "os \<Rightarrow> bool" where
  "prints_ok os \<longleftrightarrow> (\<forall>h. length (os_time os h) < 32) \<and> (\<forall>bs. length (os_ntop os bs) < 46)"

lemma digit_count_bound: "n < 10 ^ k \<Longrightarrow> digit_count n \<le> k"
proof (induction k arbitrary: n)
  case 0
  then show ?case by (simp add: digit_count.simps)
next
  case (Suc k)
  then have "n div 10 < 10 ^ k" by (simp add: less_mult_imp_div_less mult.commute)
  with Suc.IH show ?case by (subst digit_count.simps) simp
qed

lemma utoa_length: "n < 10 ^ 5 \<Longrightarrow> length (utoa n) \<le> 5"
  using digit_count_bound [of n 5] by (simp add: utoa_def length_decimal)

lemma unat_u16: "unat (w :: u16) < 65536"
  using unsigned_less [of w, where ?'a = nat] by simp

lemma raw_port_length: "length (raw_port p) \<le> 5"
  using utoa_length [of "unat (p ! 0) + 256 * unat (p ! 1)"] unat_u8_less [of "p ! 0"] unat_u8_less [of "p ! 1"]
  by (simp add: raw_port_def)

lemma status_text_length: "length (status_to_string st) \<le> 60"
  by (cases st) simp_all

lemma access_line_length:
  assumes os: "prints_ok os" and u: "length (cstr (username c)) < 256" and rp: "atyp rp \<noteq> DN"
    "length (address_class (req_address rp)) = 256"
  shows "length (access_line os (os_time os h) c rp) < 1000"
proof -
  have b: "length (utoa (unat w)) \<le> 5" for w :: u8
    using utoa_length [of "unat w"] unat_u8_less [of w] by simp
  have q: "length (utoa (unat w)) \<le> 5" for w :: u16
    using utoa_length [of "unat w"] unat_u16 [of w] by simp
  have a: "length (os_ntop os bs) < 46" "length (os_time os h) < 32" for bs using os by (simp_all add: prints_ok_def)
  define peer where "peer = (case client_address c of
        Sockaddr_in ip port \<Rightarrow> [Text (os_ntop os ip), Text [CHR 0x09], Text (raw_port port)]
      | Sockaddr_in6 ip port \<Rightarrow> [Text (os_ntop os ip), Text [CHR 0x09], Text (raw_port port)]
      | Sockaddr_other \<Rightarrow> [])"
  have "length (os_ntop os x) + length (raw_port y) \<le> 59" for x y
    using a(1) [of x] raw_port_length [of y] by simp
  then have "length (pieces_text peer) \<le> 60" by (cases "client_address c") (simp_all add: peer_def)
  moreover define ip where "ip = map (\<lambda>b. Number (int (unat b))) (addr_ipv4 (req_address rp))"
  define dest where "dest = (if atyp rp = IPV4 then [ip ! 0, Text ''.'', ip ! 1, Text ''.'', ip ! 2, Text ''.'', ip ! 3]
         else if atyp rp = IPV6 then [Text (os_ntop os (addr_ipv6 (req_address rp)))]
         else [Text ''There was an error while parsing the destination addr''])"
  have "length (pieces_text dest) \<le> 60"
  proof (cases "atyp rp = IPV4")
    case True
    have "length (piece_text (ip ! k)) \<le> 5" if "k < 4" for k
      using that rp(2) b by (simp add: ip_def addr_ipv4_def)
    from this [of 0] this [of 1] this [of 2] this [of 3] show ?thesis by (simp add: True dest_def)
  next
    case False
    with a(1) [of "addr_ipv6 (req_address rp)"] show ?thesis by (simp add: dest_def)
  qed
  moreover have "access_line os (os_time os h) c rp = os_time os h @ [CHR 0x09] @ string_of (cstr (username c))
    @ [CHR 0x09] @ ''A'' @ [CHR 0x09] @ pieces_text peer @ [CHR 0x09] @ pieces_text dest @ [CHR 0x09]
    @ utoa (unat (req_port rp)) @ [CHR 0x09] @ status_to_string (con_status rp) @ [CHR 0x0A]"
    using rp(1) by (simp add: access_line_def access_pieces_def Let_def peer_def dest_def ip_def)
  ultimately show ?thesis using u a(2) q [of "req_port rp"] status_text_length [of "con_status rp"] by simp
qed

section \<open>The reply has been sent\<close>

lemma request_write_sent:
  assumes at: "client_at i s = Some c" "handshake c = Request rp" "buffer_inv (sv_to_client c)"
    and sel: "sel_inv (fst s)" "holds s fd i"
    and out: "contents (sv_to_client c) = out" "out \<noteq> []" "\<forall>h. os_send os h fd out = Inr (length out)"
    and key: "ATTACHMENT key = Some i" "key_fd key = fd"
  shows "\<exists>b sel'. request_write os key s = log_access os (c\<lparr>sv_to_client := b\<rparr>) rp
        (set_sel sel' (set_client i (c\<lparr>sv_to_client := b\<rparr>) (record_event (Send fd out (Inr (length out))) s)))
        \<bind> (\<lambda>s. Some (state_id COPY, s))
    \<and> buffer_inv b \<and> contents b = [] \<and> buf_limit b = buf_limit (sv_to_client c)
    \<and> sel_inv sel' \<and> roles sel' = roles (fst s)
    \<and> (\<exists>it. registered sel' = (registered (fst s))(fd \<mapsto> it\<lparr>item_interest := OP_READ\<rparr>))"
proof -
  let ?s1 = "record_event (Send fd out (Inr (length out))) s"
  have snd: "send_buf os fd (sv_to_client c) (length out) s = Some (Inr (length out), ?s1)"
    using send_buf_spec [OF at(3), of os fd s] out by simp
  obtain b where b: "buffer_read_adv (sv_to_client c) (int (length out)) = Some b" "buffer_inv b" "contents b = []"
    "buf_limit b = buf_limit (sv_to_client c)"
    using buffer_read_adv_spec [OF at(3), of "length out"] out(1) by auto
  let ?s2 = "set_client i (c\<lparr>sv_to_client := b\<rparr>) ?s1"
  obtain it where it: "registered (fst ?s2) fd = Some it" using holds_registered [OF sel(2)] by auto
  obtain sel' where sel': "set_interest fd OP_READ ?s2 = Some (SELECTOR_SUCCESS, set_sel sel' ?s2)" "sel_inv sel'"
    "registered sel' = (registered (fst s))(fd \<mapsto> it\<lparr>item_interest := OP_READ\<rparr>)" "roles sel' = roles (fst s)"
    using set_interest_here [of ?s2 fd it OP_READ] sel(1) it by auto
  have "set_interest_key key OP_READ ?s2 = Some (SELECTOR_SUCCESS, set_sel sel' ?s2)"
    using sel'(1) key(2) by (simp add: set_interest_key_def set_interest_def selector_set_interest_key_eq)
  moreover have "\<not> buffer_can_read b" using b(2,3) by (simp add: buffer_can_read_iff)
  ultimately have "request_write os key s = log_access os (c\<lparr>sv_to_client := b\<rparr>) rp (set_sel sel' ?s2)
        \<bind> (\<lambda>s. Some (state_id COPY, s))"
    using at key snd out b(1) by (simp add: request_write_def log_msg_id buffer_read_ptr_spec [OF at(3)] the_req_def Let_def)
  with b(2-4) sel' show ?thesis by blast
qed

end
