(* ===== verification/Server.thy ===== *)
theory Server
  imports Ownership Args Access_Log
begin

declare split_paired_Ex [simp del] split_paired_All [simp del]

text \<open>
  \<open>src/server/main.c\<close>: the handlers the selector dispatches to, the start-up, the loop around
  \<open>selector_select\<close>, and the way out. What happens while the loop runs is a list of turns: a
  return of \<open>pselect\<close> with the descriptors that are ready, or the end of a resolver thread,
  which may come between any two returns; the list ends when a signal has set \<open>done\<close>
  (\<open>sigterm_handler\<close>).

  The lemmas show that every turn keeps the ownership invariant, from the state the start-up
  makes to the shutdown, and that the exit status is never 0.
\<close>

section \<open>The handlers\<close>

definition manager_handler :: "os \<Rightarrow> (attachment, st) fd_handler" where
  "manager_handler os = \<lparr>handle_read = Some (manager_read os), handle_write = None, handle_block = None,
     handle_close = Some manager_close\<rparr>"

definition passive_handler :: "(key \<Rightarrow> st \<Rightarrow> st option) \<Rightarrow> (attachment, st) fd_handler" where
  "passive_handler accept = \<lparr>handle_read = Some accept, handle_write = None, handle_block = None,
     handle_close = None\<rparr>"

definition server_handlers :: "os \<Rightarrow> (handler_id, attachment, world) handlers" where
  "server_handlers os h = (case h of
       SOCKS5_HANDLER \<Rightarrow> socks5_handler os server_closers
     | MANAGER_HANDLER \<Rightarrow> manager_handler os
     | PASSIVE_SOCKS \<Rightarrow> passive_handler (socks_v5_passive_accept os)
     | PASSIVE_MANAGER \<Rightarrow> passive_handler (manager_passive_accept os))"

text \<open>
  The close callbacks the handlers themselves reach through \<open>selector_unregister_fd\<close> are those
  of the full set: the knot tied in \<open>socks5.c\<close>'s theory is the right one.
\<close>

lemma server_close_handlers: "handle_close (server_handlers os h) = handle_close (close_handlers os server_closers h)"
  by (cases h) (simp_all add: server_handlers_def close_handlers_def socks5_handler_def manager_handler_def
      passive_handler_def server_closers_def)

lemma unregister_server_handlers: "selector_unregister_fd (server_handlers os) fd s = unregister_any os fd s"
  unfolding unregister_any_def unregister_fd_def selector_unregister_fd_def server_close_handlers ..

section \<open>Start-up\<close>

text \<open>
  \<open>inet_pton\<close>'s answer is the bytes of the address, \<open>None\<close> when it does not parse: then, its
  result not being tested, the zeroed address is used.
\<close>

definition set_server_sock_address :: "(int \<Rightarrow> string \<Rightarrow> bytes option) \<Rightarrow> u16 \<Rightarrow> string \<Rightarrow> sockaddr" where
  "set_server_sock_address inet_pton p sock_addrs =
     (if CHR '':'' \<in> set sock_addrs
      then Sockaddr_in6 (case inet_pton AF_INET6 sock_addrs of Some a \<Rightarrow> a | None \<Rightarrow> replicate 16 0) (htons p)
      else Sockaddr_in (case inet_pton AF_INET sock_addrs of Some a \<Rightarrow> a | None \<Rightarrow> replicate 4 0) (htons p))"

text \<open>What the system answers while the server starts.\<close>

record boot =
  boot_socket :: "bool \<Rightarrow> int"
  boot_bind :: "int \<Rightarrow> sockaddr \<Rightarrow> bool"
  boot_listen :: "int \<Rightarrow> bool"
  boot_set_nio :: "int \<Rightarrow> int"
  boot_sigprocmask :: bool
  boot_sigaction :: bool
  boot_malloc :: "nat \<Rightarrow> bool"
  boot_pton :: "int \<Rightarrow> string \<Rightarrow> bytes option"

text \<open>
  \<open>boot_malloc\<close> answers by the amount. The builder of the log (\<open>create_logs_sb\<close>) takes what that of
  the first message takes (\<open>announce\<close>), so a server that listens has it.
\<close>

text \<open>The users of the command line, added one by one; results are dropped, as in the code.\<close>

fun add_users :: "(nat \<Rightarrow> bool) \<Rightarrow> user_arg list \<Rightarrow> user_table \<Rightarrow> user_table option" where
  "add_users m [] t = Some t"
| "add_users m (u # us) t = do {
     (_, t1) \<leftarrow> new_user (m 24) t (arg_name u) (arg_pass u);
     add_users m us t1 }"

definition initial_logs :: log_state where
  "initial_logs = \<lparr>log_sb = \<lparr>sb_text = [], sb_length = 0, sb_capacity = SB_INITIAL_CAPACITY\<rparr>, current_type = INFO\<rparr>"

definition initial_world :: "user_table \<Rightarrow> world" where
  "initial_world t = \<lparr>clients = Map.empty, next_client = 0, managers = Map.empty, next_manager = 0,
     user_tab = t, metrics_of = init_metrics, logs = initial_logs, threads = [], trace = []\<rparr>"

text \<open>
  How the part of \<open>main\<close> before the loop ends: at \<open>goto finally\<close> with a status, a message and
  the values of \<open>selector\<close>, \<open>server\<close> and \<open>manager\<close> (\<open>None\<close> for an indeterminate one: the jump
  went past its declaration), or at the loop. \<open>setsockopt\<close>'s result is dropped; the status of the
  first registration is overwritten by that of the second.
\<close>

datatype startup =
    Aborted selector_status string "sel option" "int option" "int option"
  | Listening int int sel

definition listen_on :: "boot \<Rightarrow> int \<Rightarrow> sockaddr \<Rightarrow> string option" where
  "listen_on b fd addr =
     (if \<not> boot_bind b fd addr then Some ''Unable to bind socket''
      else if \<not> boot_listen b fd then Some ''Unable to listen'' else None)"

text \<open>
  \<open>Listening on TCP port\<close>, for each of the sockets: the builder and the text of the port are not
  tested either. The message fits in a new builder.
\<close>

definition announce :: "boot \<Rightarrow> u16 \<Rightarrow> unit option" where
  "announce b p = check (boot_malloc b 24 \<and> boot_malloc b SB_INITIAL_CAPACITY \<and> boot_malloc b (length (utoa (unat p)) + 1))"

text \<open>\<open>SIGALRM\<close> and ten seconds.\<close>

definition server_conf :: selector_conf where
  "server_conf = \<lparr>conf_signal = 14, select_timeout = (10, 0)\<rparr>"

definition start_selector :: "boot \<Rightarrow> int \<Rightarrow> int \<Rightarrow> startup option" where
  "start_selector b server manager =
     (if boot_set_nio b server = -1
      then Some (Aborted SELECTOR_SUCCESS ''Unable to set server socket to nonblock'' None (Some server) (Some manager))
      else if fst (selector_init (boot_sigprocmask b) (boot_sigaction b) server_conf no_signals) \<noteq> SELECTOR_SUCCESS
      then Some (Aborted SELECTOR_SUCCESS ''Unable to initialize selector'' None (Some server) (Some manager))
      else do {
        new \<leftarrow> selector_new (boot_malloc b 4096) (boot_malloc b (element_size * ITEMS_MAX_SIZE)) 1024;
        case new of
          None \<Rightarrow> Some (Aborted SELECTOR_SUCCESS ''unable to create selector'' None (Some server) (Some manager))
        | Some sel \<Rightarrow> do {
            (_, sel1) \<leftarrow> selector_register (boot_malloc b element_size) sel server (Some PASSIVE_SOCKS) OP_READ None;
            (st, sel2) \<leftarrow> selector_register (boot_malloc b element_size) sel1 manager (Some PASSIVE_MANAGER) OP_READ None;
            Some (if st \<noteq> SELECTOR_SUCCESS
                  then Aborted st ''Unable to register server socket'' (Some sel2) (Some server) (Some manager)
                  else Listening server manager sel2) } })"

text \<open>Both sockets are IPv4 ones, and both are bound to the address of the proxy.\<close>

definition setup_server :: "boot \<Rightarrow> socks5args \<Rightarrow> startup option" where
  "setup_server b args =
     (let server_addr = set_server_sock_address (boot_pton b) (socks_port args) (socks_addr args);
          server = boot_socket b False
      in if server < 0
         then Some (Aborted SELECTOR_SUCCESS ''Unable to create server socket'' None (Some server) None)
         else case listen_on b server server_addr of
           Some msg \<Rightarrow> Some (Aborted SELECTOR_SUCCESS msg None (Some server) None)
         | None \<Rightarrow> do {
             _ \<leftarrow> announce b (socks_port args);
             let manager_addr = set_server_sock_address (boot_pton b) (mng_port args) (socks_addr args);
                 manager = boot_socket b True
             in if manager < 0
                then Some (Aborted SELECTOR_SUCCESS ''Unable to create manager socket'' None (Some server) (Some manager))
                else case listen_on b manager manager_addr of
                  Some msg \<Rightarrow> Some (Aborted SELECTOR_SUCCESS msg None (Some server) (Some manager))
                | None \<Rightarrow> do { _ \<leftarrow> announce b (mng_port args); start_selector b server manager } })"

section \<open>The loop and the way out\<close>

datatype turn = Wake pselect_result | Resolver nat

fun serve :: "os \<Rightarrow> turn list \<Rightarrow> st \<Rightarrow> (selector_status \<times> st) option" where
  "serve os [] s = Some (SELECTOR_SUCCESS, s)"
| "serve os (Wake answer # turns) s = do {
     (st, s1) \<leftarrow> selector_select (server_handlers os) answer s;
     if st \<noteq> SELECTOR_SUCCESS then Some (st, s1) else serve os turns s1 }"
| "serve os (Resolver k # turns) s = do {
     s1 \<leftarrow> resolver_step os k s;
     serve os turns s1 }"

text \<open>
  The message of a failure of the selector: its builder is not tested. \<open>os_strerror\<close> is the text of
  \<open>errno\<close> after the calls so far.
\<close>

definition report_failure :: "os \<Rightarrow> selector_status \<Rightarrow> string option \<Rightarrow> st \<Rightarrow> st option" where
  "report_failure os st err_msg s = do {
     let (sb, s1) = new_sb os s;
     sb0 \<leftarrow> sb;
     (sb1, s2) \<leftarrow> append_sb os sb0 (case err_msg of None \<Rightarrow> [] | Some msg \<Rightarrow> msg) s1;
     (sb2, s3) \<leftarrow> append_sb os sb1 '': '' s2;
     (sb3, s4) \<leftarrow> append_sb os sb2 (if st = SELECTOR_IO then os_strerror os (hist s3) else selector_error st) s3;
     log_msg os ERROR (sb_get_string sb3) s4 }"

text \<open>
  The block after the label \<open>finally\<close>: the exit status and what was done. The users are freed
  before the callbacks of \<open>selector_destroy\<close> run.
\<close>

definition close_if_open :: "int \<Rightarrow> history \<Rightarrow> history" where
  "close_if_open fd h = (if fd \<ge> 0 then h @ [Close fd] else h)"

definition free_tables :: "st \<Rightarrow> st" where
  "free_tables s = (fst s, (snd s)\<lparr>user_tab := close_users (users_of s), logs := log_free (logs (snd s))\<rparr>)"

definition main_finally ::
  "os \<Rightarrow> selector_status \<Rightarrow> string option \<Rightarrow> bool \<Rightarrow> int option \<Rightarrow> int option \<Rightarrow> nat \<Rightarrow> st \<Rightarrow> (nat \<times> history) option" where
  "main_finally os st err_msg selector server manager ret s = do {
     let ret1 = (if st \<noteq> SELECTOR_SUCCESS then 2 else if err_msg \<noteq> None then 1 else ret);
     let s1 = free_tables s;
     s2 \<leftarrow> (if st \<noteq> SELECTOR_SUCCESS then report_failure os st err_msg s1 else Some s1);
     w \<leftarrow> (if selector then selector_destroy (server_handlers os) s2 else Some (snd s2));
     server_fd \<leftarrow> server;
     manager_fd \<leftarrow> manager;
     Some (ret1, close_if_open manager_fd (close_if_open server_fd (trace w))) }"

definition main_from :: "boot \<Rightarrow> os \<Rightarrow> socks5args \<Rightarrow> user_table \<Rightarrow> turn list \<Rightarrow> (nat \<times> history) option" where
  "main_from b os args t turns = do {
     start \<leftarrow> setup_server b args;
     case start of
       Aborted st msg selector server manager \<Rightarrow>
         main_finally os st (Some msg) (selector \<noteq> None) server manager 0
           (case selector of Some sel \<Rightarrow> sel | None \<Rightarrow> blank_selector, initial_world t)
     | Listening server manager sel \<Rightarrow> do {
         (st, s1) \<leftarrow> serve os turns (sel, initial_world t);
         main_finally os st (Some (if st \<noteq> SELECTOR_SUCCESS then ''Serving'' else ''Closing server'')) True
           (Some server) (Some manager) 0 s1 } }"

definition main :: "boot \<Rightarrow> os \<Rightarrow> (char \<times> string) list \<Rightarrow> string list \<Rightarrow> turn list \<Rightarrow> (nat \<times> history) option" where
  "main b os opts rest turns = do {
     (_, t) \<leftarrow> init_users (boot_malloc b 5280) (boot_malloc b 24) users_globals;
     parsed \<leftarrow> parse_args opts rest;
     case parsed of
       Inl n \<Rightarrow> Some (n, [])
     | Inr args \<Rightarrow> do {
         t1 \<leftarrow> add_users (boot_malloc b) (take (unat (cant args)) (arg_users args)) t;
         main_from b os args t1 turns } }"

text \<open>
  The handler of SIGTERM and SIGINT: the flag \<open>done\<close> and the state. It composes its message with
  \<open>malloc\<close> and does not test what it gets; \<open>signal\<close> is positive.
\<close>

definition sigterm_handler :: "os \<Rightarrow> (nat \<Rightarrow> string) \<Rightarrow> int \<Rightarrow> bool \<times> st \<Rightarrow> (bool \<times> st) option" where
  "sigterm_handler os junk signal = (\<lambda>(stop, s). do {
     let (sb, s1) = new_sb os s;
     sb0 \<leftarrow> sb;
     (sb1, s2) \<leftarrow> append_sb os sb0 ''Signal '' s1;
     let (m, s3) = sys_malloc os (digit_count (nat signal) + 1) s2;
     number \<leftarrow> int_to_string m junk signal;
     str \<leftarrow> number;
     (sb2, s4) \<leftarrow> append_sb os sb1 str s3;
     (sb3, s5) \<leftarrow> append_sb os sb2 '', cleaning up and exiting'' s4;
     s6 \<leftarrow> log_msg os INFO (sb_get_string sb3) s5;
     Some (True, s6) })"

lemma append_sb_fits:
  assumes "mallocs_ok os" and "sb_length sb + length str < sb_capacity sb" and "sb_capacity sb < 2 ^ 64"
  shows "append_sb os sb str s = Some (sb\<lparr>sb_text := take (sb_length sb) (sb_text sb) @ str, sb_length := sb_length sb + length str\<rparr>,
    record_event (Malloc (length str) True) s)"
  using assms by (simp add: append_sb_def sys_malloc_def mallocs_ok_def sb_append_def Let_def)

text \<open>It asks the loop to stop and changes nothing but the history, while memory lasts.\<close>

lemma sigterm_handler_stops:
  assumes os: "mallocs_ok os" and sig: "signal \<in> {2, 15}"
  shows "\<exists>s'. sigterm_handler os junk signal (stop, s) = Some (True, s') \<and> only_trace s s'"
proof -
  have num: "int_to_string True junk signal = Some (Some (decimal (nat signal)))"
    using sig int_to_string_spec [of signal junk] by auto
  have "length (decimal 2) \<le> 2" "length (decimal 15) \<le> 2" by (simp_all add: decimal.simps)
  then have len: "length (decimal (nat signal)) \<le> 2" using sig by auto
  have m: "sys_malloc os k t = (True, record_event (Malloc k True) t)" for k t
    using os by (simp add: sys_malloc_def mallocs_ok_def Let_def)
  have app: "\<exists>sb' t'. append_sb os sb str t = Some (sb', t') \<and> sb_length sb' = sb_length sb + length str
      \<and> sb_capacity sb' = 64 \<and> only_trace t t'" if "sb_length sb + length str < 64" "sb_capacity sb = 64" for sb str t
    using append_sb_fits [OF os, of sb str t] that by (simp add: only_trace_event)
  obtain sb0 s1 where 0: "new_sb os s = (Some sb0, s1)" "sb_length sb0 = 0" "sb_capacity sb0 = 64" "only_trace s s1"
    using m only_trace_trans [OF only_trace_event only_trace_event]
    by (simp add: new_sb_def sb_create_def SB_INITIAL_CAPACITY_def)
  obtain sb1 s2 where 1: "append_sb os sb0 ''Signal '' s1 = Some (sb1, s2)" "sb_length sb1 = 7" "sb_capacity sb1 = 64"
    "only_trace s1 s2" using app [of sb0 "''Signal ''" s1] 0 by auto
  define s3 where "s3 = record_event (Malloc (digit_count (nat signal) + 1) True) s2"
  have 3: "sys_malloc os (digit_count (nat signal) + 1) s2 = (True, s3)" "only_trace s2 s3"
    unfolding s3_def by (rule m, rule only_trace_event)
  obtain sb2 s4 where 4: "append_sb os sb1 (decimal (nat signal)) s3 = Some (sb2, s4)" "sb_length sb2 \<le> 9" "sb_capacity sb2 = 64"
    "only_trace s3 s4" using app [of sb1 "decimal (nat signal)" s3] 1 len by auto
  obtain sb3 s5 where 5: "append_sb os sb2 '', cleaning up and exiting'' s4 = Some (sb3, s5)" "only_trace s4 s5"
    using app [of sb2 "'', cleaning up and exiting''" s4] 4 by auto
  have log: "log_msg os INFO msg t = Some t" for msg t by (simp add: log_msg_same)
  have "sigterm_handler os junk signal (stop, s) = Some (True, s5)"
    by (simp add: sigterm_handler_def 0(1) 1(1) 3(1) [simplified] num 4(1) 5(1) log Let_def)
  moreover have "only_trace s s5" using 0 1 3 4 5 by (blast intro: only_trace_trans)
  ultimately show ?thesis by blast
qed

section \<open>Every turn keeps the ownership invariant\<close>

lemma slave_frame:
  "roles (sel\<lparr>slave_r := r, slave_w := x\<rparr>) = roles sel"
  "table_ok (sel\<lparr>slave_r := r, slave_w := x\<rparr>) = table_ok sel"
  "roles (sel\<lparr>resolution_jobs := js\<rparr>) = roles sel"
  "table_ok (sel\<lparr>resolution_jobs := js\<rparr>) = table_ok sel"
  by (simp_all add: roles_def table_ok_def fd_size_def fun_eq_iff)

lemma inv_same_world:
  assumes "roles sel' = roles sel" and "table_ok sel' = table_ok sel"
  shows "server_inv (sel', w) = server_inv (sel, w)"
  using assms by (simp add: server_inv_def attached_def owner_alive_def heaps_ok_def heap_fresh_def
      client_at_def manager_at_def)

interpretation dispatch: preserving_handlers "server_handlers os" server_inv for os
proof unfold_locales
  fix h f and key :: key and st st' :: st
  assume I: "server_inv st" and f: "f key st = Some st'"
  have k: "server_inv st'" if "keeps_inv (f key)" using that I f by (auto simp: keeps_inv_def post_def)
  show "server_inv st'" if "handle_read (server_handlers os h) = Some f"
    using that by (intro k) (cases h; auto simp: server_handlers_def socks5_handler_def manager_handler_def
      passive_handler_def socksv5_events_inv manager_read_inv passive_accept_inv manager_accept_inv)
  show "server_inv st'" if "handle_write (server_handlers os h) = Some f"
    using that by (intro k) (cases h; auto simp: server_handlers_def socks5_handler_def manager_handler_def
      passive_handler_def socksv5_events_inv)
  show "server_inv st'" if "handle_block (server_handlers os h) = Some f"
    using that by (intro k) (cases h; auto simp: server_handlers_def socks5_handler_def manager_handler_def
      passive_handler_def socksv5_events_inv)
next
  fix sel :: sel and w r x
  show "server_inv (sel\<lparr>slave_r := r, slave_w := x\<rparr>, w) = server_inv (sel, w)"
    by (rule inv_same_world; simp add: slave_frame)
  have "server_inv (sel\<lparr>resolution_jobs := []\<rparr>, w) = server_inv (sel, w)"
    by (rule inv_same_world; simp add: slave_frame)
  then show "server_inv (sel, w) \<Longrightarrow> server_inv (sel\<lparr>resolution_jobs := []\<rparr>, w)" by simp
qed

lemma serve_inv: "server_inv s \<Longrightarrow> serve os turns s = Some (st, s') \<Longrightarrow> server_inv s'"
proof (induction os turns s rule: serve.induct)
  case (2 os answer turns s)
  then obtain st1 s1 where 1: "selector_select (server_handlers os) answer s = Some (st1, s1)"
    by (auto simp: bind_eq_Some_conv)
  have "server_inv s1" using dispatch.select_keeps [of "fst s" "snd s"] 1 "2.prems"(1) by simp
  with 1 2 show ?case by (cases "st1 = SELECTOR_SUCCESS") auto
next
  case (3 os k turns s)
  then show ?case
    using resolver_inv [of os k] by (auto simp: bind_eq_Some_conv keeps_inv_def post_def)
qed simp

section \<open>The start\<close>

lemma new_table:
  assumes "selector_new m c 1024 = Some (Some sel)"
  shows "server_inv (sel, initial_world t) \<and> registered sel = Map.empty"
proof -
  obtain s :: sel where s: "selector_new True True 1024 = Some (Some s)" "sel_inv s" "registered s = Map.empty"
    "1024 < fd_size s" "fd_size s \<le> ITEMS_MAX_SIZE + 1"
    using selector_new_spec [of 1024] by (auto simp: ITEMS_MAX_SIZE_def)
  have "m" "c"
    using assms s(1) by (auto simp: selector_new_def ensure_capacity_def bind_eq_Some_conv blank_selector_def
        fd_size_def split: if_splits)
  with assms s have "sel = s" by simp
  with s show ?thesis
    by (auto simp: server_inv_def table_ok_def attached_def roles_def heaps_ok_def heap_fresh_def client_at_def
        manager_at_def initial_world_def ITEMS_MAX_SIZE_def)
qed

lemma start_selector_inv:
  assumes "start_selector b sv mg = Some (Listening server manager sel)"
  shows "server_inv (sel, initial_world t)"
proof -
  from assms obtain m c k sel0 st1 sel1 st2 where n: "selector_new m c 1024 = Some (Some sel0)"
    and 1: "selector_register k sel0 sv (Some PASSIVE_SOCKS) OP_READ None = Some (st1, sel1)"
    and 2: "selector_register k sel1 mg (Some PASSIVE_MANAGER) OP_READ None = Some (st2, sel)"
    by (auto simp: start_selector_def bind_eq_Some_conv split: if_splits option.splits)
  have "server_inv (sel0, initial_world t)" using new_table [OF n] by simp
  from selector_register_server_inv [OF this _ , of sv PASSIVE_SOCKS None k OP_READ st1 sel1] 1
  have "server_inv (sel1, initial_world t)" by (simp add: owner_alive_def)
  from selector_register_server_inv [OF this _ , of mg PASSIVE_MANAGER None k OP_READ st2 sel] 2
  show ?thesis by (simp add: owner_alive_def)
qed

lemma setup_server_inv:
  "setup_server b args = Some (Listening server manager sel) \<Longrightarrow> server_inv (sel, initial_world t)"
  by (auto simp: setup_server_def Let_def bind_eq_Some_conv split: if_splits option.splits dest: start_selector_inv)

section \<open>The end\<close>

text \<open>The descriptors whose handler has a close callback.\<close>

definition closes :: "st \<Rightarrow> int \<Rightarrow> bool" where
  "closes s fd \<longleftrightarrow> (\<exists>h d. roles (fst s) fd = Some (Some h, d) \<and> h \<in> {SOCKS5_HANDLER, MANAGER_HANDLER})"

lemma unregister_any_returns:
  assumes inv: "server_inv s" and reg: "registered (fst s) fd = Some it"
  shows "\<exists>s'. unregister_any os fd s = Some (SELECTOR_SUCCESS, s') \<and> server_inv s'
    \<and> registered (fst s') = (registered (fst s))(fd := None)
    \<and> hist s' = hist s @ (if closes s fd then [Close fd] else [])"
proof -
  have sel: "sel_inv (fst s)" using inv by (simp add: server_inv_def table_ok_def)
  have r: "roles (fst s) fd = Some (item_handler it, item_data it)" using reg by (simp add: roles_def)
  with inv have own: "owner_alive s fd (item_handler it, item_data it)"
    by (simp add: server_inv_def attached_def)
  have "\<exists>s'. unregister_any os fd s = Some (SELECTOR_SUCCESS, s')
    \<and> hist s' = hist s @ (if closes s fd then [Close fd] else [])"
  proof (cases "closes s fd")
    case True
    with r own consider i c where "holds s fd i" "client_at i s = Some c"
      | i m where "manages i m s" "mgr_fd m = fd"
      using sel by (auto simp: closes_def owner_alive_def holds_def manages_def)
    then show ?thesis
    proof cases
      case (1 i c)
      then have "machine_ok c" using inv by (auto simp: server_inv_def heaps_ok_def)
      from unregister_client [OF sel 1 this, of os server_closers] True show ?thesis
        by (auto simp: unregister_any_def after_close_frame)
    next
      case (2 i m)
      from unregister_manager [OF 2(1), of os] 2(2) True show ?thesis by auto
    qed
  next
    case False
    with r own obtain h where h: "item_handler it = Some h" "h \<in> {PASSIVE_SOCKS, PASSIVE_MANAGER}"
      by (auto simp: closes_def owner_alive_def)
    then have "run_close (close_handlers os server_closers) h \<lparr>key_fd = fd, key_data = item_data it\<rparr> (fst s, snd s)
        = Some (fst s, snd s)"
      by (auto simp: run_close_def close_handlers_def server_closers_def)
    from unregister_run [OF sel reg h(1) this] False show ?thesis
      by (auto simp: unregister_any_def unregister_fd_def hist_def)
  qed
  with unregister_any_inv [OF inv] show ?thesis by blast
qed

lemma destroy_items_returns:
  assumes "server_inv s" and "distinct is" and "\<forall>i \<in> set is. i < ITEMS_MAX_SIZE + 1"
  shows "\<exists>s'. destroy_items (server_handlers os) is s = Some s' \<and> server_inv s'
    \<and> hist s' = hist s @ map (\<lambda>i. Close (int i)) (filter (\<lambda>i. closes s (int i)) is)
    \<and> (\<forall>x. registered (fst s') x = (if x \<in> int ` set is then None else registered (fst s) x))"
  using assms
proof (induction "is" arbitrary: s)
  case (Cons i "is")
  have size: "i < fd_size (fst s)" using Cons.prems by (simp add: server_inv_def table_ok_def)
  then obtain it where it: "nth_opt (fds (fst s)) i = Some it" by (simp add: fd_size_def)
  obtain s1 where s1: "server_inv s1" "registered (fst s1) = (registered (fst s))(int i := None)"
    "hist s1 = hist s @ (if closes s (int i) then [Close (int i)] else [])"
    "destroy_items (server_handlers os) (i # is) s = destroy_items (server_handlers os) is s1"
  proof (cases "ITEM_USED it")
    case True
    with registered_at [of "int i" "fst s"] it size have "registered (fst s) (int i) = Some it" by simp
    from unregister_any_returns [OF Cons.prems(1) this, of os] True it that show ?thesis
      by (auto simp: unregister_server_handlers)
  next
    case False
    with registered_at [of "int i" "fst s"] it size have "registered (fst s) (int i) = None" by simp
    with False it Cons.prems(1) show ?thesis
      by (intro that [of s]) (auto simp: closes_def roles_def)
  qed
  have cl: "closes s1 (int j) = closes s (int j)" if "j \<in> set is" for j
  proof -
    have "j \<noteq> i" using that Cons.prems(2) by auto
    then show ?thesis by (simp add: closes_def roles_def s1(2))
  qed
  obtain s' where s': "destroy_items (server_handlers os) is s1 = Some s'" "server_inv s'"
    "hist s' = hist s1 @ map (\<lambda>i. Close (int i)) (filter (\<lambda>i. closes s1 (int i)) is)"
    "\<forall>x. registered (fst s') x = (if x \<in> int ` set is then None else registered (fst s1) x)"
    using Cons.IH [OF s1(1)] Cons.prems by auto
  have "filter (\<lambda>i. closes s1 (int i)) is = filter (\<lambda>i. closes s (int i)) is"
    by (rule filter_cong) (simp_all add: cl)
  with s' s1 show ?case by auto
qed auto

text \<open>The descriptors the shutdown closes, in the order of the table.\<close>

definition closing_order :: "st \<Rightarrow> event list" where
  "closing_order s = map (\<lambda>i. Close (int i)) (filter (\<lambda>i. closes s (int i)) [0..<ITEMS_MAX_SIZE + 1])"

lemma selector_destroy_returns:
  assumes "server_inv s"
  shows "\<exists>w. selector_destroy (server_handlers os) s = Some w \<and> trace w = hist s @ closing_order s"
proof -
  have n: "fd_size (fst s) = ITEMS_MAX_SIZE + 1" using assms by (simp add: server_inv_def table_ok_def)
  obtain s' where "destroy_items (server_handlers os) [0..<ITEMS_MAX_SIZE + 1] s = Some s'"
    "hist s' = hist s @ closing_order s"
    using destroy_items_returns [OF assms, of "[0..<ITEMS_MAX_SIZE + 1]" os] by (auto simp: closing_order_def)
  with n show ?thesis by (auto simp: selector_destroy_def fd_size_def hist_def)
qed

text \<open>The report of a failure returns and only allocates, while memory lasts; without its builder it crashes.\<close>

definition strerror_ok :: "os \<Rightarrow> bool" where
  "strerror_ok os \<longleftrightarrow> (\<forall>h. length (os_strerror os h) < 1024)"

definition allocated :: "history \<Rightarrow> bool" where
  "allocated es \<longleftrightarrow> (\<forall>e \<in> set es. \<exists>n. e = Malloc n True)"

lemma report_append:
  assumes "mallocs_ok os" and "sb_small sb" and "sb_length sb + length str < 2 ^ 62"
  obtains sb' where "append_sb os sb str s = Some (sb', record_event (Malloc (length str) True) s)" "sb_small sb'"
    "sb_length sb' = sb_length sb + length str"
proof -
  obtain sb' where sb': "sb_append True sb str = Some (0, sb')" "sb_small sb'" "sb_text sb' = sb_text sb @ str"
    using sb_append_small [OF assms(2,3)] by blast
  have "append_sb os sb str s = Some (sb', record_event (Malloc (length str) True) s)"
    using assms(1) sb'(1) by (simp add: append_sb_def sys_malloc_def mallocs_ok_def Let_def)
  moreover have "sb_length sb' = sb_length sb + length str"
    using assms(2) sb'(2,3) by (simp add: sb_small_def sb_inv_def)
  ultimately show ?thesis using that sb'(2) by blast
qed

lemma selector_error_short: "length (selector_error st) < 1024"
  by (cases st) (simp_all add: ERROR_DEFAULT_MSG_def)

lemma report_failure_returns:
  assumes os: "mallocs_ok os" "strerror_ok os" and msg: "length msg < 1024"
  shows "\<exists>s' es. report_failure os st (Some msg) s = Some s' \<and> silent s s' \<and> hist s' = hist s @ es \<and> allocated es"
proof -
  define s1 where "s1 = record_event (Malloc SB_INITIAL_CAPACITY True) (record_event (Malloc 24 True) s)"
  obtain sb0 where sb0: "new_sb os s = (Some sb0, s1)" "sb_small sb0" "sb_length sb0 = 0"
    using os(1) by (simp add: new_sb_def sys_malloc_def mallocs_ok_def sb_create_def s1_def SB_INITIAL_CAPACITY_def
        sb_small_def sb_inv_def Let_def)
  obtain sb1 where sb1: "append_sb os sb0 msg s1 = Some (sb1, record_event (Malloc (length msg) True) s1)" "sb_small sb1"
    "sb_length sb1 = length msg" by (rule report_append [OF os(1) sb0(2), of msg s1]) (use sb0(3) msg in auto)
  define s2 where "s2 = record_event (Malloc (length msg) True) s1"
  define s3 where "s3 = record_event (Malloc (length '': '') True) s2"
  obtain sb2 where sb2: "append_sb os sb1 '': '' s2 = Some (sb2, s3)" "sb_small sb2" "sb_length sb2 = length msg + length '': ''"
    by (rule report_append [OF os(1) sb1(2), of "'': ''" s2]) (use sb1(3) msg in \<open>simp_all add: s3_def\<close>)
  define emsg where "emsg = (if st = SELECTOR_IO then os_strerror os (hist s3) else selector_error st)"
  have short: "length emsg < 1024" using os(2) selector_error_short by (simp add: emsg_def strerror_ok_def)
  define s4 where "s4 = record_event (Malloc (length emsg) True) s3"
  obtain sb3 where sb3: "append_sb os sb2 emsg s3 = Some (sb3, s4)"
    by (rule report_append [OF os(1) sb2(2), of emsg s3]) (use sb2(3) msg short in \<open>auto simp: s4_def\<close>)
  have log: "log_msg os ERROR m t = Some t" for m t by (simp add: log_msg_same)
  have "report_failure os st (Some msg) s = Some s4"
    by (simp add: report_failure_def sb0(1) sb1(1) sb2(1) sb3 log Let_def flip: s2_def emsg_def)
  moreover have "hist s4 = hist s @ [Malloc 24 True, Malloc SB_INITIAL_CAPACITY True, Malloc (length msg) True,
      Malloc (length '': '') True, Malloc (length emsg) True]"
    by (simp add: s4_def s3_def s2_def s1_def)
  moreover have "silent t (record_event (Malloc k True) t)" for k t by (rule silent_event) (simp add: quiet_def)
  then have "silent s s4" unfolding s4_def s3_def s2_def s1_def by (blast intro: silent_trans)
  ultimately show ?thesis unfolding allocated_def by fastforce
qed

lemma report_failure_crashes: "\<not> os_malloc os (hist s) 24 \<Longrightarrow> report_failure os st msg s = None"
  by (simp add: report_failure_def new_sb_def sys_malloc_def sb_create_def Let_def)

lemma finally_returns:
  assumes inv: "server_inv s" and msg: "length msg < 1024"
    and mem: "st = SELECTOR_SUCCESS \<or> mallocs_ok os \<and> strerror_ok os"
  shows "\<exists>es. main_finally os st (Some msg) True (Some server) (Some manager) ret s =
    Some (if st \<noteq> SELECTOR_SUCCESS then 2 else 1,
      close_if_open manager (close_if_open server (hist s @ es @ closing_order s)))
    \<and> allocated es \<and> (st = SELECTOR_SUCCESS \<longrightarrow> es = [])"
proof -
  let ?s = "free_tables s"
  have "mild s ?s" by (simp add: mild_def free_tables_def client_at_def manager_at_def)
  then have inv1: "server_inv ?s" using mild_inv [of s ?s] inv by simp
  have h: "hist ?s = hist s" "closing_order ?s = closing_order s"
    by (simp_all add: free_tables_def hist_def closing_order_def closes_def)
  obtain s2 es where s2: "(if st \<noteq> SELECTOR_SUCCESS then report_failure os st (Some msg) ?s else Some ?s) = Some s2"
    "silent ?s s2" "hist s2 = hist s @ es" "allocated es" "st = SELECTOR_SUCCESS \<longrightarrow> es = []"
  proof (cases "st = SELECTOR_SUCCESS")
    case True
    then show ?thesis using h(1) by (intro that [of ?s "[]"]) (simp_all add: silent_refl allocated_def)
  next
    case False
    with report_failure_returns [OF _ _ msg, of os st ?s] mem h(1) that show ?thesis by auto
  qed
  have fst2: "fst s2 = fst ?s" using silentD(1) [OF s2(2)] .
  have "mild ?s s2" by (rule mild_only_trace [OF silent_only_trace [OF s2(2)] mild_refl])
  then have "server_inv s2" using mild_inv inv1 by blast
  moreover have "closing_order s2 = closing_order s" using fst2 h(2) by (simp add: closing_order_def closes_def)
  ultimately obtain w where w: "selector_destroy (server_handlers os) s2 = Some w" "trace w = hist s @ es @ closing_order s"
    using selector_destroy_returns [of s2 os] s2(3) by auto
  have "main_finally os st (Some msg) True (Some server) (Some manager) ret s =
      Some (if st \<noteq> SELECTOR_SUCCESS then 2 else 1, close_if_open manager (close_if_open server (hist s @ es @ closing_order s)))"
    unfolding main_finally_def Let_def s2(1) by (simp add: w)
  with s2(4,5) show ?thesis by blast
qed

lemma finally_crashes:
  assumes "st \<noteq> SELECTOR_SUCCESS" and "\<not> os_malloc os (hist s) 24"
  shows "main_finally os st msg sel server manager ret s = None"
proof -
  have "hist (free_tables s) = hist s" by (simp add: free_tables_def hist_def)
  with report_failure_crashes [of os "free_tables s"] assms show ?thesis by (simp add: main_finally_def)
qed

lemma finally_status:
  "main_finally os st (Some msg) sel server manager ret s = Some (n, h) \<Longrightarrow> n = 1 \<or> n = 2"
  by (auto simp: main_finally_def bind_eq_Some_conv Let_def split: if_splits)

end
