(* ===== verification/Parser_Engine.thy ===== *)
theory Parser_Engine
  imports C_Library "HOL-Library.Sublist"
begin

text \<open>
  The table-driven parser of \<open>parser.c\<close> and the factory of \<open>parser_utils.c\<close> that builds the
  table of a parser comparing its input with a string, upper and lower case alike.

  A pointer into an array of transitions is the rest of that array. Reading outside an array,
  calling a null function and calling \<open>tolower\<close> outside its domain is \<open>None\<close>.
\<close>

unbundle bit_operations_syntax

section \<open>The engine\<close>

text \<open>The field \<open>next\<close> is null or the address of the second event of the parser.\<close>

record parser_event =
  ev_type :: u32
  ev_data :: bytes
  ev_n :: u8
  ev_next :: bool

type_synonym parser_action = "parser_event \<Rightarrow> u8 \<Rightarrow> parser_event"

record parser_transition =
  tr_when :: int
  tr_dest :: u32
  act1 :: "parser_action option"
  act2 :: "parser_action option"

record parser_definition =
  states_count :: nat
  def_states :: "parser_transition list list option"
  states_n :: "nat list option"
  start_state :: u32

record parser =
  classes :: "u32 list"
  parser_def :: parser_definition
  parser_state :: u32
  e1 :: parser_event
  e2 :: parser_event

definition ANY :: int where "ANY = 2 ^ 9"

definition zero_event :: parser_event where
  "zero_event = \<lparr>ev_type = 0, ev_data = [0, 0, 0], ev_n = 0, ev_next = False\<rparr>"

text \<open>\<open>mem\<close> is whether \<open>malloc\<close> succeeds; the result \<open>None\<close> is the null pointer.\<close>

definition parser_init :: "bool \<Rightarrow> u32 list \<Rightarrow> parser_definition \<Rightarrow> parser option" where
  "parser_init mem cls d =
     (if mem then Some \<lparr>classes = cls, parser_def = d, parser_state = start_state d,
        e1 = zero_event, e2 = zero_event\<rparr> else None)"

definition parser_reset :: "parser \<Rightarrow> parser" where
  "parser_reset p = p\<lparr>parser_state := start_state (parser_def p)\<rparr>"

definition transition_matches :: "u32 \<Rightarrow> u8 \<Rightarrow> parser_transition \<Rightarrow> bool" where
  "transition_matches t c tr =
     (if tr_when tr \<le> 0xFF then int (unat c) = tr_when tr
      else if tr_when tr = ANY then True
      else t AND word_of_int (tr_when tr) \<noteq> 0)"

text \<open>The first of the \<open>n\<close> transitions that matches.\<close>

fun first_match :: "u32 \<Rightarrow> u8 \<Rightarrow> parser_transition list \<Rightarrow> nat \<Rightarrow> parser_transition option option" where
  "first_match t c trs 0 = Some None"
| "first_match t c [] (Suc n) = None"
| "first_match t c (tr # trs) (Suc n) =
     (if transition_matches t c tr then Some (Some tr) else first_match t c trs n)"

definition take_transition :: "parser_transition \<Rightarrow> u8 \<Rightarrow> parser \<Rightarrow> parser option" where
  "take_transition tr c p = do {
     a \<leftarrow> act1 tr;
     let p = p\<lparr>e1 := a (e1 p) c\<rparr>;
     let p = (case act2 tr of None \<Rightarrow> p
              | Some b \<Rightarrow> p\<lparr>e1 := (e1 p)\<lparr>ev_next := True\<rparr>, e2 := b (e2 p) c\<rparr>);
     Some (p\<lparr>parser_state := tr_dest tr\<rparr>)
   }"

text \<open>The event returned is \<open>e1\<close> of the new parser.\<close>

definition parser_feed :: "parser \<Rightarrow> u8 \<Rightarrow> (parser_event \<times> parser) option" where
  "parser_feed p c = do {
     t \<leftarrow> nth_opt (classes p) (unat c);
     let p = p\<lparr>e1 := (e1 p)\<lparr>ev_next := False\<rparr>, e2 := (e2 p)\<lparr>ev_next := False\<rparr>\<rparr>;
     tables \<leftarrow> def_states (parser_def p);
     trs \<leftarrow> nth_opt tables (unat (parser_state p));
     ns \<leftarrow> states_n (parser_def p);
     n \<leftarrow> nth_opt ns (unat (parser_state p));
     m \<leftarrow> first_match t c trs n;
     p \<leftarrow> (case m of None \<Rightarrow> Some p | Some tr \<Rightarrow> take_transition tr c p);
     Some (e1 p, p)
   }"

definition parser_no_classes :: "u32 list" where
  "parser_no_classes = replicate 0xFF 0"

text \<open>A user that feeds one byte after the other and looks at each event.\<close>

fun parser_feeds :: "parser \<Rightarrow> bytes \<Rightarrow> (parser_event list \<times> parser) option" where
  "parser_feeds p [] = Some ([], p)"
| "parser_feeds p (c # cs) = do {
     (e, p) \<leftarrow> parser_feed p c;
     (es, p) \<leftarrow> parser_feeds p cs;
     Some (e # es, p)
   }"

lemma parser_feeds_snoc:
  "parser_feeds p (w @ [c]) =
     do { (es, q) \<leftarrow> parser_feeds p w; (e, r) \<leftarrow> parser_feed q c; Some (es @ [e], r) }"
  by (induction w arbitrary: p) (auto split: Option.bind_splits)

text \<open>
  \<open>parser_no_classes\<close> has 255 entries, so the byte 255 is looked up after its end.
\<close>

lemma no_classes_byte_255: "classes p = parser_no_classes \<Longrightarrow> parser_feed p 255 = None"
  by (simp add: parser_feed_def parser_no_classes_def)

section \<open>Comparing with a string\<close>

datatype string_cmp_event_types = STRING_CMP_MAYEQ | STRING_CMP_EQ | STRING_CMP_NEQ

fun event_code :: "string_cmp_event_types \<Rightarrow> u32" where
  "event_code STRING_CMP_MAYEQ = 0"
| "event_code STRING_CMP_EQ = 1"
| "event_code STRING_CMP_NEQ = 2"

definition parser_utils_strcmpi_event :: "string_cmp_event_types \<Rightarrow> string" where
  "parser_utils_strcmpi_event t = (case t of
      STRING_CMP_MAYEQ \<Rightarrow> ''wait(c)''
    | STRING_CMP_EQ \<Rightarrow> ''eq(c)''
    | STRING_CMP_NEQ \<Rightarrow> ''neq(c)'')"

definition emit :: "string_cmp_event_types \<Rightarrow> parser_action" where
  "emit t ev c = ev\<lparr>ev_type := event_code t, ev_n := 1, ev_data := (ev_data ev)[0 := c]\<rparr>"

definition may_eq :: parser_action where "may_eq = emit STRING_CMP_MAYEQ"
definition eq :: parser_action where "eq = emit STRING_CMP_EQ"
definition neq :: parser_action where "neq = emit STRING_CMP_NEQ"

text \<open>
  \<open>tolower\<close> and \<open>toupper\<close> in the C locale: defined on the values of an \<open>unsigned char\<close> and on
  \<open>EOF\<close> (-1). A \<open>char\<close> is signed, so a byte from 128 on is a negative \<open>int\<close>.
\<close>

definition tolower :: "int \<Rightarrow> int option" where
  "tolower i = (if i < -1 \<or> 255 < i then None else Some (if 65 \<le> i \<and> i \<le> 90 then i + 32 else i))"

definition toupper :: "int \<Rightarrow> int option" where
  "toupper i = (if i < -1 \<or> 255 < i then None else Some (if 97 \<le> i \<and> i \<le> 122 then i - 32 else i))"

definition transition :: "int \<Rightarrow> nat \<Rightarrow> parser_action \<Rightarrow> parser_transition" where
  "transition w d a = \<lparr>tr_when = w, tr_dest = of_nat d, act1 = Some a, act2 = None\<rparr>"

definition zero_transition :: parser_transition where
  "zero_transition = \<lparr>tr_when = 0, tr_dest = 0, act1 = None, act2 = None\<rparr>"

text \<open>The three transitions written for \<open>s[i]\<close> in a string of length \<open>n\<close>.\<close>

definition strcmpi_row :: "nat \<Rightarrow> nat \<Rightarrow> u8 \<Rightarrow> parser_transition list option" where
  "strcmpi_row n i ch = do {
     let d = (if i + 1 = n then n else i + 1);
     let a = (if i + 1 = n then eq else may_eq);
     lo \<leftarrow> tolower (sint ch);
     up \<leftarrow> toupper (sint ch);
     Some [transition lo d a, transition up d a, transition ANY (n + 1) neq]
   }"

fun strcmpi_rows :: "nat \<Rightarrow> nat \<Rightarrow> bytes \<Rightarrow> parser_transition list option" where
  "strcmpi_rows n i [] = Some []"
| "strcmpi_rows n i (ch # s) = do {
     row \<leftarrow> strcmpi_row n i ch;
     rows \<leftarrow> strcmpi_rows n (i + 1) s;
     Some (row @ rows)
   }"

text \<open>\<open>mem\<close> is whether the three calls of \<open>calloc\<close> succeed; \<open>s\<close> is the string without its zero.\<close>

definition parser_utils_strcmpi :: "bool \<Rightarrow> bytes \<Rightarrow> parser_definition option" where
  "parser_utils_strcmpi mem s =
     (if \<not> mem then
        Some \<lparr>states_count = 0, def_states = None, states_n = None, start_state = 0\<rparr>
      else do {
        let n = length s;
        rows \<leftarrow> strcmpi_rows n 0 s;
        let last = [transition ANY (n + 1) neq, zero_transition, zero_transition];
        let transitions = rows @ last @ last;
        Some \<lparr>states_count = n + 2,
          def_states = Some (map (\<lambda>i. drop (3 * i) transitions) [0..<n + 2]),
          states_n = Some (replicate n 3 @ [1, 1]), start_state = 0\<rparr>
      })"

text \<open>What it releases is not modelled, only what it reads to do so.\<close>

definition parser_utils_strcmpi_destroy :: "parser_definition \<Rightarrow> unit option" where
  "parser_utils_strcmpi_destroy d = do { t \<leftarrow> def_states d; _ \<leftarrow> nth_opt t 0; Some () }"

lemma destroy_after_calloc_failure:
  "parser_utils_strcmpi False s = Some d \<Longrightarrow> parser_utils_strcmpi_destroy d = None"
  by (auto simp: parser_utils_strcmpi_def parser_utils_strcmpi_destroy_def)


text \<open>The value a byte is compared by: that of its lower case letter.\<close>

definition lower :: "u8 \<Rightarrow> nat" where
  "lower c = (if 65 \<le> unat c \<and> unat c \<le> 90 then unat c + 32 else unat c)"

text \<open>What the last event says after the text \<open>w\<close>.\<close>

definition compared :: "bytes \<Rightarrow> bytes \<Rightarrow> string_cmp_event_types" where
  "compared s w =
     (if map lower w = map lower s then STRING_CMP_EQ
      else if prefix (map lower w) (map lower s) then STRING_CMP_MAYEQ
      else STRING_CMP_NEQ)"

text \<open>The state the table is in after \<open>w\<close>.\<close>

definition reached :: "bytes \<Rightarrow> bytes \<Rightarrow> nat" where
  "reached s w = (if prefix (map lower w) (map lower s) then length w else length s + 1)"

lemma sint_ascii:
  assumes "unat (ch :: u8) < 128"
  shows "sint ch = int (unat ch)"
proof -
  have "nat (uint ch) < 128" using assms by (simp only: unat_eq_nat_uint)
  then have "uint ch < 128" by linarith
  moreover have "- 128 \<le> uint ch" using uint_ge_0 [of ch] by linarith
  ultimately have "signed_take_bit 7 (uint ch) = uint ch"
    by (intro signed_take_bit_int_eq_self) simp_all
  then have "sint ch = uint ch" by (simp add: sint_uint)
  then show ?thesis by simp
qed

lemma case_ascii:
  assumes "k < 128"
  shows "tolower (int k) = Some (if 65 \<le> k \<and> k \<le> 90 then int k + 32 else int k)"
    "toupper (int k) = Some (if 97 \<le> k \<and> k \<le> 122 then int k - 32 else int k)"
  using assms by (auto simp: tolower_def toupper_def)

lemma case_folding_nat:
  "k < 128 \<Longrightarrow>
    (int j = (if 65 \<le> k \<and> k \<le> 90 then int k + 32 else int k)
      \<or> int j = (if 97 \<le> k \<and> k \<le> 122 then int k - 32 else int k))
    \<longleftrightarrow> (if 65 \<le> j \<and> j \<le> 90 then j + 32 else j) = (if 65 \<le> k \<and> k \<le> 90 then k + 32 else k)"
  by presburger

lemma case_folding:
  assumes "unat ch < 128" and "tolower (sint ch) = Some lo" and "toupper (sint ch) = Some up"
  shows "int (unat c) = lo \<or> int (unat c) = up \<longleftrightarrow> lower c = lower ch"
    and "lo \<le> 255 \<and> up \<le> 255"
proof -
  have lo: "(if 65 \<le> unat ch \<and> unat ch \<le> 90 then int (unat ch) + 32 else int (unat ch)) = lo"
    and up: "(if 97 \<le> unat ch \<and> unat ch \<le> 122 then int (unat ch) - 32 else int (unat ch)) = up"
    using assms(2,3) unfolding sint_ascii [OF assms(1)] case_ascii [OF assms(1)] by blast+
  show "int (unat c) = lo \<or> int (unat c) = up \<longleftrightarrow> lower c = lower ch"
    using case_folding_nat [OF assms(1), of "unat c"] unfolding lo up lower_def .
  show "lo \<le> 255 \<and> up \<le> 255" unfolding lo [symmetric] up [symmetric] using assms(1) by presburger
qed

lemma case_folding_defined:
  assumes "unat (ch :: u8) < 128"
  obtains lo up where "tolower (sint ch) = Some lo" "toupper (sint ch) = Some up"
  using that unfolding sint_ascii [OF assms] case_ascii [OF assms] by blast

lemma strcmpi_rows_defined:
  "\<forall>ch\<in>set s. unat ch < 128 \<Longrightarrow> \<exists>rows. strcmpi_rows n i s = Some rows \<and> length rows = 3 * length s"
proof (induction s arbitrary: i)
  case (Cons ch s)
  from Cons.prems have "unat ch < 128" by simp
  then obtain lo up where "tolower (sint ch) = Some lo" "toupper (sint ch) = Some up"
    by (rule case_folding_defined)
  moreover from Cons obtain rows where "strcmpi_rows n (i + 1) s = Some rows" "length rows = 3 * length s"
    by fastforce
  ultimately show ?case by (simp add: strcmpi_row_def Let_def)
qed simp

lemma strcmpi_rows_at:
  "\<lbrakk>strcmpi_rows n i s = Some rows; k < length s\<rbrakk> \<Longrightarrow>
    \<exists>row rest. strcmpi_row n (i + k) (s ! k) = Some row \<and> drop (3 * k) rows = row @ rest"
proof (induction s arbitrary: i rows k)
  case (Cons ch s)
  from Cons.prems(1) obtain row rows' where
    r: "strcmpi_row n i ch = Some row" "strcmpi_rows n (i + 1) s = Some rows'" "rows = row @ rows'"
    by (auto simp: bind_eq_Some_conv)
  from r(1) have "length row = 3" by (auto simp: strcmpi_row_def Let_def bind_eq_Some_conv)
  with Cons r show ?case by (cases k) fastforce+
qed simp


text \<open>The transition taken in state \<open>k\<close>: the event and the next state.\<close>

definition strcmpi_next :: "bytes \<Rightarrow> nat \<Rightarrow> u8 \<Rightarrow> string_cmp_event_types \<times> nat" where
  "strcmpi_next s k c =
     (if k < length s \<and> lower c = lower (s ! k)
      then (if k + 1 = length s then STRING_CMP_EQ else STRING_CMP_MAYEQ, k + 1)
      else (STRING_CMP_NEQ, length s + 1))"

lemma row_match:
  assumes "unat ch < 128" and "strcmpi_row n i ch = Some row"
  shows "\<exists>tr. first_match t c (row @ rest) 3 = Some (Some tr) \<and> act2 tr = None
    \<and> tr_dest tr = of_nat (if lower c = lower ch then i + 1 else n + 1)
    \<and> act1 tr = Some (emit (if lower c = lower ch then if i + 1 = n then STRING_CMP_EQ else STRING_CMP_MAYEQ
                            else STRING_CMP_NEQ))"
proof -
  let ?d = "if i + 1 = n then n else i + 1" and ?a = "if i + 1 = n then eq else may_eq"
  from assms obtain lo up where c: "tolower (sint ch) = Some lo" "toupper (sint ch) = Some up"
    and row: "row = [transition lo ?d ?a, transition up ?d ?a, transition ANY (n + 1) neq]"
    by (auto simp: strcmpi_row_def Let_def bind_eq_Some_conv)
  note f = case_folding [OF assms(1) c]
  have "first_match t c (row @ rest) 3 = Some (Some
      (if lower c = lower ch then transition (int (unat c)) ?d ?a else transition ANY (n + 1) neq))"
    using f(1) [of c] f(2)
    by (auto simp: row numeral_3_eq_3 transition_matches_def transition_def ANY_def)
  then show ?thesis by (auto simp: transition_def eq_def may_eq_def neq_def)
qed

lemma strcmpi_table:
  assumes d: "parser_utils_strcmpi True s = Some d" and ascii: "\<forall>ch\<in>set s. unat ch < 128"
    and k: "k \<le> length s + 1"
  shows "\<exists>tables ns trs n tr. def_states d = Some tables \<and> nth_opt tables k = Some trs
    \<and> states_n d = Some ns \<and> nth_opt ns k = Some n \<and> first_match t c trs n = Some (Some tr)
    \<and> act2 tr = None \<and> tr_dest tr = of_nat (snd (strcmpi_next s k c))
    \<and> act1 tr = Some (emit (fst (strcmpi_next s k c)))"
proof -
  let ?n = "length s"
  let ?last = "[transition ANY (?n + 1) neq, zero_transition, zero_transition]"
  from strcmpi_rows_defined [OF ascii] obtain rows where
    rows: "strcmpi_rows ?n 0 s = Some rows" "length rows = 3 * ?n" by blast
  let ?tables = "map (\<lambda>i. drop (3 * i) (rows @ ?last @ ?last)) [0..<?n + 2]"
  let ?ns = "replicate ?n 3 @ [1, 1] :: nat list"
  have "parser_utils_strcmpi True s = Some \<lparr>states_count = ?n + 2, def_states = Some ?tables,
      states_n = Some ?ns, start_state = 0\<rparr>"
    by (simp only: parser_utils_strcmpi_def Let_def rows(1) not_True_eq_False if_False bind.bind_lunit)
  then have d': "def_states d = Some ?tables" "states_n d = Some ?ns"
    using d by (simp_all only: option.inject parser_definition.select_convs parser_definition.ext_inject)
  have trs: "nth_opt ?tables k = Some (drop (3 * k) (rows @ ?last @ ?last))"
    using k by (simp add: nth_opt_eq_Some del: upt_Suc)
  show ?thesis
  proof (cases "k < ?n")
    case True
    then have n: "nth_opt ?ns k = Some 3" by (simp add: nth_opt_eq_Some nth_append)
    from strcmpi_rows_at [OF rows(1) True] obtain row rest where
      row: "strcmpi_row ?n k (s ! k) = Some row" "drop (3 * k) rows = row @ rest" by auto
    have "unat (s ! k) < 128" using ascii True by simp
    from row_match [OF this row(1)] obtain tr where
      "first_match t c (row @ rest @ ?last @ ?last) 3 = Some (Some tr)" "act2 tr = None"
      "tr_dest tr = of_nat (if lower c = lower (s ! k) then k + 1 else ?n + 1)"
      "act1 tr = Some (emit (if lower c = lower (s ! k)
         then if k + 1 = ?n then STRING_CMP_EQ else STRING_CMP_MAYEQ else STRING_CMP_NEQ))" by blast
    moreover have "drop (3 * k) (rows @ ?last @ ?last) = row @ rest @ ?last @ ?last"
      using True row(2) rows(2) by simp
    ultimately show ?thesis using d' trs n True by (auto simp: strcmpi_next_def)
  next
    case False
    with k have "k = ?n \<or> k = ?n + 1" by linarith
    then have n: "nth_opt ?ns k = Some 1" by (auto simp: nth_opt_eq_Some nth_append)
    have "\<exists>rest. drop (3 * k) (rows @ ?last @ ?last) = transition ANY (?n + 1) neq # rest"
      using \<open>k = ?n \<or> k = ?n + 1\<close> rows(2) by auto
    then obtain rest where "drop (3 * k) (rows @ ?last @ ?last) = transition ANY (?n + 1) neq # rest" ..
    moreover have "first_match t c (transition ANY (?n + 1) neq # rest) 1
        = Some (Some (transition ANY (?n + 1) neq))"
      by (simp add: transition_matches_def transition_def ANY_def)
    ultimately show ?thesis using d' trs n False
      by (auto simp: strcmpi_next_def transition_def neq_def)
  qed
qed


lemma prefix_snoc_iff:
  "prefix (xs @ [x]) ys \<longleftrightarrow> prefix xs ys \<and> length xs < length ys \<and> ys ! length xs = x"
proof
  assume "prefix (xs @ [x]) ys"
  then show "prefix xs ys \<and> length xs < length ys \<and> ys ! length xs = x"
    by (auto simp: prefix_def)
next
  assume r: "prefix xs ys \<and> length xs < length ys \<and> ys ! length xs = x"
  then obtain zs where "ys = xs @ zs" by (auto simp: prefix_def)
  with r show "prefix (xs @ [x]) ys" by (cases zs) auto
qed

lemma prefix_same_length: "prefix xs ys \<Longrightarrow> length xs = length ys \<Longrightarrow> xs = ys"
  by (auto simp: prefix_def)

lemma lower_prefix_snoc:
  "prefix (map lower (w @ [c])) (map lower s) \<longleftrightarrow>
     prefix (map lower w) (map lower s) \<and> length w < length s \<and> lower c = lower (s ! length w)"
  by (auto simp: prefix_snoc_iff)

lemma equal_iff_prefix: "map lower w = map lower s \<longleftrightarrow> prefix (map lower w) (map lower s) \<and> length w = length s"
  using prefix_same_length [of "map lower w" "map lower s"] by (metis length_map prefix_order.refl)

lemma strcmpi_next_reached:
  "strcmpi_next s (reached s w) c = (compared s (w @ [c]), reached s (w @ [c]))"
  by (simp only: strcmpi_next_def reached_def compared_def equal_iff_prefix lower_prefix_snoc) auto

lemma reached_le: "reached s w \<le> length s + 1"
  using prefix_length_le [of "map lower w" "map lower s"] by (auto simp: reached_def)

text \<open>An event of one character \<open>c\<close>.\<close>

definition says :: "string_cmp_event_types \<Rightarrow> u8 \<Rightarrow> parser_event \<Rightarrow> bool" where
  "says t c e \<longleftrightarrow> ev_type e = event_code t \<and> ev_n e = 1 \<and> ev_data e ! 0 = c \<and> \<not> ev_next e"

text \<open>A parser for \<open>s\<close> that was fed \<open>w\<close>.\<close>

definition fed :: "bytes \<Rightarrow> bytes \<Rightarrow> parser \<Rightarrow> bool" where
  "fed s w p \<longleftrightarrow> parser_utils_strcmpi True s = Some (parser_def p)
     \<and> parser_state p = of_nat (reached s w) \<and> length (ev_data (e1 p)) = 3"

lemma strcmpi_feed_step:
  assumes p: "fed s w p" and ascii: "\<forall>ch\<in>set s. unat ch < 128" and n: "length s + 1 < 2 ^ 32"
    and c: "unat c < length (classes p)"
  shows "\<exists>e q. parser_feed p c = Some (e, q) \<and> says (compared s (w @ [c])) c e
    \<and> fed s (w @ [c]) q \<and> classes q = classes p"
proof -
  have d: "parser_utils_strcmpi True s = Some (parser_def p)" using p by (simp add: fed_def)
  have k: "unat (parser_state p) = reached s w"
    using p n reached_le [of s w] by (simp add: fed_def unat_of_nat take_bit_nat_eq_self)
  from strcmpi_table [OF d ascii reached_le [of s w], where c = c and t = "classes p ! unat c"] obtain tables ns trs m tr where
    t: "def_states (parser_def p) = Some tables" "nth_opt tables (reached s w) = Some trs"
      "states_n (parser_def p) = Some ns" "nth_opt ns (reached s w) = Some m"
      "first_match (classes p ! unat c) c trs m = Some (Some tr)"
    and tr: "act2 tr = None" "tr_dest tr = of_nat (reached s (w @ [c]))"
      "act1 tr = Some (emit (compared s (w @ [c])))"
    unfolding strcmpi_next_reached fst_conv snd_conv by blast
  show ?thesis
    using p c t tr k
    by (auto simp: parser_feed_def take_transition_def says_def fed_def emit_def Let_def)
qed

lemma strcmpi_feeds:
  assumes ascii: "\<forall>ch\<in>set s. unat ch < 128" and n: "length s + 1 < 2 ^ 32"
    and d: "parser_utils_strcmpi True s = Some d" and p: "parser_init True cls d = Some p"
    and cls: "\<forall>c\<in>set w. unat c < length cls"
  shows "\<exists>es q. parser_feeds p w = Some (es, q) \<and> fed s w q \<and> classes q = cls \<and> length es = length w
    \<and> (\<forall>i<length w. says (compared s (take (Suc i) w)) (w ! i) (es ! i))"
  using cls
proof (induction w rule: rev_induct)
  case Nil
  from p d have "parser_def p = d" "parser_state p = start_state d" "classes p = cls" "e1 p = zero_event"
    by (auto simp: parser_init_def)
  moreover have "start_state d = 0"
    using d by (auto simp: parser_utils_strcmpi_def Let_def bind_eq_Some_conv)
  ultimately show ?case using d by (simp add: fed_def reached_def zero_event_def)
next
  case (snoc c w)
  then obtain es q where q: "parser_feeds p w = Some (es, q)" "fed s w q" "classes q = cls"
    "length es = length w" "\<forall>i<length w. says (compared s (take (Suc i) w)) (w ! i) (es ! i)" by auto
  from strcmpi_feed_step [OF q(2) ascii n, of c] snoc.prems q(3) obtain e r where
    r: "parser_feed q c = Some (e, r)" "says (compared s (w @ [c])) c e" "fed s (w @ [c]) r" "classes r = cls"
    by auto
  have "says (compared s (take (Suc i) (w @ [c]))) ((w @ [c]) ! i) ((es @ [e]) ! i)"
    if "i < length (w @ [c])" for i
  proof (cases "i = length w")
    case False
    with that q(4,5) show ?thesis by (simp add: nth_append)
  qed (use q(4) r(2) in \<open>simp add: nth_append\<close>)
  with q r show ?case by (simp add: parser_feeds_snoc)
qed

end
