(* ===== verification/Netutils.thy ===== *)
theory Netutils
  imports World
begin

declare split_paired_Ex [simp del] split_paired_All [simp del]

text \<open>
  \<open>src/server/netutils.c\<close>: an address written out, and the two blocking loops over \<open>send\<close> and
  \<open>recv\<close>. The array an address is written to is a list of bytes, longer perhaps than the
  \<open>buffsize\<close> the function is told; a write past its end is \<open>None\<close>. \<open>errno\<close> is explicit
  (\<open>None\<close> for 0): the loops return it also when nothing has failed. Both loops are partial
  functions: \<open>None\<close> is a loop that does not end.
\<close>

section \<open>Strings in an array\<close>

definition buf_strncpy :: "bytes \<Rightarrow> bytes \<Rightarrow> nat \<Rightarrow> bytes option" where
  "buf_strncpy buff src n = do {
     check (n \<le> length buff);
     Some (poke 0 (take n src @ replicate (n - length src) 0) buff) }"

definition buf_strncat :: "bytes \<Rightarrow> bytes \<Rightarrow> nat \<Rightarrow> bytes option" where
  "buf_strncat buff src n = do {
     check (terminated buff);
     let text = take n src @ [0];
     check (length (cstr buff) + length text \<le> length buff);
     Some (poke (length (cstr buff)) text buff) }"

text \<open>\<open>snprintf(buff + off, n, "%s", text)\<close> with \<open>n\<close> positive.\<close>

definition buf_snprintf :: "bytes \<Rightarrow> nat \<Rightarrow> nat \<Rightarrow> bytes \<Rightarrow> bytes option" where
  "buf_snprintf buff off n text = do {
     let out = take (n - 1) text @ [0];
     check (off + length out \<le> length buff);
     Some (poke off out buff) }"

text \<open>\<open>buff[buffsize - 1] = 0\<close>, the index being a \<open>size_t\<close>.\<close>

definition set_last :: "bytes \<Rightarrow> nat \<Rightarrow> bytes option" where
  "set_last buff n = do { check (0 < n \<and> n \<le> length buff); Some (buff[n - 1 := 0]) }"

text \<open>\<open>inet_ntop\<close>: \<open>ntop\<close> is the text of the address; it is refused when it does not fit.\<close>

definition inet_ntop :: "(bytes \<Rightarrow> string) \<Rightarrow> bytes \<Rightarrow> bytes \<Rightarrow> nat \<Rightarrow> bytes option option" where
  "inet_ntop ntop addr buff n =
     (if length (ntop addr) < n
      then do { check (length (ntop addr) < length buff);
                Some (Some (poke 0 (bytes_of (ntop addr) @ [0]) buff)) }
      else Some None)"

definition sockaddr_to_human :: "(bytes \<Rightarrow> string) \<Rightarrow> bytes \<Rightarrow> nat \<Rightarrow> sockaddr option \<Rightarrow> bytes option" where
  "sockaddr_to_human ntop buff buffsize addr =
     (case addr of
        None \<Rightarrow> buf_strncpy buff (bytes_of ''null'') buffsize
      | Some a \<Rightarrow> do {
          let inet = (case a of Sockaddr_in p port \<Rightarrow> Some (p, port) | Sockaddr_in6 p port \<Rightarrow> Some (p, port)
                      | Sockaddr_other \<Rightarrow> None);
          b1 \<leftarrow> (case inet of
             Some (p, port) \<Rightarrow> do {
               r \<leftarrow> inet_ntop ntop p buff buffsize;
               case r of
                 Some b \<Rightarrow> Some b
               | None \<Rightarrow> do { b \<leftarrow> buf_strncpy buff (bytes_of ''unknown ip'') buffsize; set_last b buffsize } }
           | None \<Rightarrow> buf_strncpy buff (bytes_of ''unknown'') buffsize);
          b2 \<leftarrow> buf_strncat b1 (bytes_of '':'') buffsize;
          b3 \<leftarrow> set_last b2 buffsize;
          let len = length (cstr b3);
          b4 \<leftarrow> (case inet of
             Some (p, port) \<Rightarrow> buf_snprintf b3 len (buffsize - len) (bytes_of (utoa (unat (ntohs port))))
           | None \<Rightarrow> Some b3);
          set_last b4 buffsize })"

section \<open>The blocking loops\<close>

text \<open>The result, the buffer, \<open>errno\<close> and the state.\<close>

partial_function (option) sock_blocking_write ::
  "os \<Rightarrow> int \<Rightarrow> buffer \<Rightarrow> errno option \<Rightarrow> st \<Rightarrow> (errno option \<times> buffer \<times> errno option \<times> st) option" where
  "sock_blocking_write os fd b err s = do {
     (_, n) \<leftarrow> buffer_read_ptr b;
     (r, s1) \<leftarrow> send_buf os fd b n s;
     case r of
       Inl e \<Rightarrow> Some (Some e, b, Some e, s1)
     | Inr k \<Rightarrow>
         if k = 0 then Some (err, b, err, s1)
         else do {
           b1 \<leftarrow> buffer_read_adv b (int k);
           if buffer_can_read b1 then sock_blocking_write os fd b1 err s1 else Some (None, b1, err, s1) } }"

text \<open>The inner loop of the copy: whether it got to the label \<open>error\<close>, with \<open>ret\<close> and \<open>errno\<close>.\<close>

partial_function (option) send_all ::
  "os \<Rightarrow> int \<Rightarrow> bytes \<Rightarrow> errno option \<Rightarrow> st \<Rightarrow> (bool \<times> errno option \<times> errno option \<times> st) option" where
  "send_all os dest bs err s =
     (case sys_send os dest bs s of
        (Inl e, s1) \<Rightarrow> Some (True, Some e, Some e, s1)
      | (Inr k, s1) \<Rightarrow>
          if k = 0 then Some (True, err, err, s1)
          else if drop k bs \<noteq> [] then send_all os dest (drop k bs) err s1
          else Some (False, None, err, s1))"

partial_function (option) sock_blocking_copy ::
  "os \<Rightarrow> int \<Rightarrow> int \<Rightarrow> errno option \<Rightarrow> st \<Rightarrow> (errno option \<times> errno option \<times> st) option" where
  "sock_blocking_copy os source dest err s =
     (case sys_recv os source 4096 s of
        (Inl e, s1) \<Rightarrow> Some (None, Some e, s1)
      | (Inr bs, s1) \<Rightarrow>
          if bs = [] then Some (None, err, s1)
          else do {
            (failed, ret, err1, s2) \<leftarrow> send_all os dest bs err s1;
            if failed then Some (ret, err1, s2) else sock_blocking_copy os source dest err1 s2 })"


section \<open>What the loops promise\<close>

text \<open>POSIX: a \<open>send\<close> of at least one byte takes at least one or fails.\<close>

definition sends_some :: "os \<Rightarrow> bool" where
  "sends_some os \<longleftrightarrow> (\<forall>h fd bs. bs \<noteq> [] \<longrightarrow> os_send os h fd bs \<noteq> Inr 0)"

lemma hist_record: "hist (record_event e s) = hist s @ [e]" by simp

lemma sock_blocking_write_spec:
  assumes "os_ok os" and "sends_some os" and "buffer_inv b" and "contents b \<noteq> []"
  shows "\<exists>ret b' err' s' es. sock_blocking_write os fd b err s = Some (ret, b', err', s')
    \<and> hist s' = hist s @ es \<and> buffer_inv b' \<and> sent fd es @ contents b' = contents b
    \<and> (ret = None \<longleftrightarrow> contents b' = [])"
  using assms(3,4)
proof (induction "length (contents b)" arbitrary: b s rule: less_induct)
  case less
  let ?r = "os_send os (hist s) fd (contents b)"
  let ?s1 = "record_event (Send fd (contents b) ?r) s"
  note step = sock_blocking_write.simps [of os fd b err s]
  have send: "send_buf os fd b (length (contents b)) s = Some (?r, ?s1)" by (rule send_buf_spec [OF less.prems(1)])
  show ?case
  proof (cases ?r)
    case (Inl e)
    then have "sock_blocking_write os fd b err s = Some (Some e, b, Some e, ?s1)"
      using send by (subst step) (simp add: buffer_read_ptr_spec [OF less.prems(1)])
    with Inl less.prems show ?thesis by (intro exI) (auto simp: hist_record)
  next
    case (Inr k)
    then have "k \<noteq> 0" using assms(2) less.prems(2) unfolding sends_some_def by metis
    with Inr assms(1) have k: "0 < k" "k \<le> length (contents b)" by (auto dest: os_send_le)
    from buffer_read_adv_spec [OF less.prems(1) k(2)] obtain b1 where
      b1: "buffer_read_adv b (int k) = Some b1" "buffer_inv b1" "contents b1 = drop k (contents b)" by blast
    have go: "sock_blocking_write os fd b err s =
        (if contents b1 \<noteq> [] then sock_blocking_write os fd b1 err ?s1 else Some (None, b1, err, ?s1))"
      using send Inr k b1 by (subst step) (simp add: buffer_read_ptr_spec [OF less.prems(1)] buffer_can_read_iff)
    show ?thesis
    proof (cases "contents b1 = []")
      case True
      with go b1 Inr k show ?thesis by (intro exI) (auto simp: hist_record)
    next
      case False
      have "length (contents b1) < length (contents b)" using b1(3) k by simp
      from less.hyps [OF this b1(2) False, of ?s1] obtain ret b' err' s' es where
        "sock_blocking_write os fd b1 err ?s1 = Some (ret, b', err', s')" "hist s' = hist ?s1 @ es"
        "buffer_inv b'" "sent fd es @ contents b' = contents b1" "ret = None \<longleftrightarrow> contents b' = []" by blast
      with go False Inr k b1(3) show ?thesis
        by (intro exI [of _ ret] exI [of _ b'] exI [of _ err'] exI [of _ s']
            exI [of _ "Send fd (contents b) (Inr k) # es"]) (simp add: hist_record)
    qed
  qed
qed

text \<open>
  With nothing to send there is one \<open>send\<close> of no bytes, which takes none or fails: the answer is
  the \<open>errno\<close> of the failure, or the stale one.
\<close>

lemma sock_blocking_write_nothing:
  fixes fd :: int and s :: st
  assumes os: "os_ok os" and b: "buffer_inv b" "contents b = []"
  defines "r \<equiv> os_send os (hist s) fd []"
  shows "\<exists>s' ret. sock_blocking_write os fd b err s = Some (ret, b, ret, s') \<and> hist s' = hist s @ [Send fd [] r]
    \<and> ret = (case r of Inl e \<Rightarrow> Some e | Inr _ \<Rightarrow> err)"
proof -
  have "r = Inr k \<Longrightarrow> k = 0" for k using os_send_le [OF os, of "hist s" fd "[]"] by (simp add: r_def)
  then show ?thesis
    using b send_buf_spec [OF b(1), of os fd s]
    by (subst sock_blocking_write.simps) (auto simp: buffer_read_ptr_spec r_def split: sum.split)
qed

text \<open>The \<open>recv\<close> calls on a descriptor so far.\<close>

definition recvs :: "int \<Rightarrow> history \<Rightarrow> nat" where
  "recvs fd h = length (filter (\<lambda>e. case e of Recv f _ \<Rightarrow> f = fd | _ \<Rightarrow> False) h)"

lemma recvs_simps [simp]:
  "recvs fd (g @ h) = recvs fd g + recvs fd h" "recvs fd [] = 0"
  "recvs fd (Recv f r # h) = (if f = fd then 1 else 0) + recvs fd h"
  "recvs fd (Send f bs q # h) = recvs fd h"
  by (simp_all add: recvs_def)

text \<open>
  The inner loop: it has sent everything, or a prefix and then a \<open>send\<close> failed, which was the last
  thing it did.
\<close>

definition sending_failed :: "int \<Rightarrow> history \<Rightarrow> errno option" where
  "sending_failed fd h = (case h of [] \<Rightarrow> None | _ \<Rightarrow>
     (case last h of Send f _ (Inl e) \<Rightarrow> if f = fd then Some e else None | _ \<Rightarrow> None))"

lemma sending_failed_append [simp]: "h \<noteq> [] \<Longrightarrow> sending_failed fd (g @ h) = sending_failed fd h"
  by (cases h; cases g) (auto simp: sending_failed_def split: list.split)

lemma sending_failed_simps [simp]:
  "sending_failed fd [] = None" "sending_failed fd [Send fd bs (Inl e)] = Some e"
  "sending_failed fd [Send fd bs (Inr k)] = None" "sending_failed fd [Recv f q] = None"
  by (simp_all add: sending_failed_def)

lemma sending_failed_Cons [simp]: "h \<noteq> [] \<Longrightarrow> sending_failed fd (e # h) = sending_failed fd h"
  using sending_failed_append [of h fd "[e]"] by simp

lemma send_all_spec:
  assumes "os_ok os" and "sends_some os" and "bs \<noteq> []"
  shows "\<exists>failed ret err' s' es rest. send_all os dest bs err s = Some (failed, ret, err', s')
    \<and> hist s' = hist s @ es \<and> es \<noteq> [] \<and> sent dest es @ rest = bs \<and> ret = sending_failed dest es
    \<and> (failed \<longleftrightarrow> ret \<noteq> None) \<and> (ret = None \<longleftrightarrow> rest = []) \<and> (\<forall>fd. received fd es = [] \<and> recvs fd es = 0)"
  using assms(3)
proof (induction "length bs" arbitrary: bs s rule: less_induct)
  case less
  let ?r = "os_send os (hist s) dest bs"
  let ?s1 = "record_event (Send dest bs ?r) s"
  show ?case
  proof (cases ?r)
    case (Inl e)
    then have "send_all os dest bs err s = Some (True, Some e, Some e, ?s1)"
      by (subst send_all.simps) (simp add: sys_send_def Let_def)
    then have "send_all os dest bs err s = Some (True, Some e, Some e, ?s1) \<and> hist ?s1 = hist s @ [Send dest bs ?r]
        \<and> [Send dest bs ?r] \<noteq> [] \<and> sent dest [Send dest bs ?r] @ bs = bs \<and> Some e = sending_failed dest [Send dest bs ?r]
        \<and> (True \<longleftrightarrow> Some e \<noteq> None) \<and> (Some e = None \<longleftrightarrow> bs = [])
        \<and> (\<forall>fd. received fd [Send dest bs ?r] = [] \<and> recvs fd [Send dest bs ?r] = 0)"
      using Inl less.prems by simp
    then show ?thesis by (intro exI)
  next
    case (Inr k)
    then have "k \<noteq> 0" using assms(2) less.prems unfolding sends_some_def by metis
    with Inr assms(1) have k: "0 < k" "k \<le> length bs" by (auto dest: os_send_le)
    have go: "send_all os dest bs err s =
        (if drop k bs \<noteq> [] then send_all os dest (drop k bs) err ?s1 else Some (False, None, err, ?s1))"
      using Inr k by (subst send_all.simps) (simp add: sys_send_def Let_def)
    show ?thesis
    proof (cases "drop k bs = []")
      case True
      show ?thesis
        by (rule exI [of _ False], rule exI [of _ None], rule exI [of _ err], rule exI [of _ ?s1],
          rule exI [of _ "[Send dest bs ?r]"], rule exI [of _ "[]"])
          (use go Inr k True in \<open>simp add: hist_record\<close>)
    next
      case False
      have "length (drop k bs) < length bs" using k less.prems by simp
      from less.hyps [OF this False, of ?s1] obtain failed ret err' s' es rest where
        r: "send_all os dest (drop k bs) err ?s1 = Some (failed, ret, err', s')" "hist s' = hist ?s1 @ es" "es \<noteq> []"
        "sent dest es @ rest = drop k bs" "ret = sending_failed dest es" "failed \<longleftrightarrow> ret \<noteq> None" "ret = None \<longleftrightarrow> rest = []"
        "\<forall>fd. received fd es = [] \<and> recvs fd es = 0" by (elim exE conjE) (rule that; assumption)
      have sentall: "sent dest (Send dest bs ?r # es) @ rest = bs"
        using r(4) Inr by simp
      have new: "hist s' = hist s @ Send dest bs ?r # es" using r(2) by (simp add: hist_record)
      show ?thesis
        by (rule exI [of _ failed], rule exI [of _ ret], rule exI [of _ err'], rule exI [of _ s'],
          rule exI [of _ "Send dest bs ?r # es"], rule exI [of _ rest])
          (use go False r new sentall in \<open>simp del: not_None_eq\<close>)
    qed
  qed
qed

text \<open>
  The copy of a source that delivers some pieces and then ends or fails: all of them arrive, or a
  \<open>send\<close> failed and what had been taken from the source by then was sent but for its end.
\<close>

lemma sock_blocking_copy_spec:
  assumes os: "os_ok os" "sends_some os" and src: "\<forall>h. os_recv os h source 4096 = script (recvs source h)"
    and stop: "fin = Inr [] \<or> (\<exists>e. fin = Inl e)"
    and "\<forall>i < length chunks. chunks ! i \<noteq> [] \<and> script (recvs source (hist s) + i) = Inr (chunks ! i)"
    and "script (recvs source (hist s) + length chunks) = fin"
  shows "\<exists>ret err' s' es rest n. sock_blocking_copy os source dest err s = Some (ret, err', s')
    \<and> hist s' = hist s @ es \<and> es \<noteq> [] \<and> n \<le> length chunks \<and> received source es = concat (take n chunks)
    \<and> sent dest es @ rest = received source es \<and> ret = sending_failed dest es
    \<and> (ret = None \<longleftrightarrow> rest = []) \<and> (ret = None \<longrightarrow> n = length chunks)"
  using assms(5,6)
proof (induction chunks arbitrary: s err)
  case Nil
  then have r: "os_recv os (hist s) source 4096 = fin" using src by simp
  let ?s1 = "record_event (Recv source fin) s"
  have "\<exists>err'. sock_blocking_copy os source dest err s = Some (None, err', ?s1)"
    using r stop by (subst sock_blocking_copy.simps) (auto simp: sys_recv_def Let_def)
  then obtain err' where "sock_blocking_copy os source dest err s = Some (None, err', ?s1)" ..
  moreover have "received source [Recv source fin] = []" "sent dest [Recv source fin] = []"
    "sending_failed dest [Recv source fin] = None" using stop by auto
  ultimately have "sock_blocking_copy os source dest err s = Some (None, err', ?s1) \<and> hist ?s1 = hist s @ [Recv source fin]
      \<and> [Recv source fin] \<noteq> [] \<and> 0 \<le> length ([] :: bytes list) \<and> received source [Recv source fin] = concat (take 0 [])
      \<and> sent dest [Recv source fin] @ [] = received source [Recv source fin] \<and> None = sending_failed dest [Recv source fin]
      \<and> (None = None \<longleftrightarrow> [] = []) \<and> (None = None \<longrightarrow> 0 = length [])" by simp
  then show ?case by (intro exI)
next
  case (Cons c cs)
  from Cons.prems(1) have c: "c \<noteq> []" "os_recv os (hist s) source 4096 = Inr c"
    using src by (auto dest: spec [of _ 0])
  let ?s1 = "record_event (Recv source (Inr c)) s"
  from send_all_spec [OF os c(1), of dest err ?s1] obtain failed ret2 err2 s2 es2 rest2 where
    s2: "send_all os dest c err ?s1 = Some (failed, ret2, err2, s2)" "hist s2 = hist ?s1 @ es2" "es2 \<noteq> []"
      "sent dest es2 @ rest2 = c" "ret2 = sending_failed dest es2" "failed \<longleftrightarrow> ret2 \<noteq> None" "ret2 = None \<longleftrightarrow> rest2 = []"
      "\<forall>fd. received fd es2 = [] \<and> recvs fd es2 = 0" by (elim exE conjE) (rule that; assumption)
  have go: "sock_blocking_copy os source dest err s =
      (if failed then Some (ret2, err2, s2) else sock_blocking_copy os source dest err2 s2)"
    using c s2(1) by (subst sock_blocking_copy.simps) (simp add: sys_recv_def Let_def)
  show ?case
  proof (cases failed)
    case True
    then have "sock_blocking_copy os source dest err s = Some (ret2, err2, s2)" using go by simp
    moreover have "hist s2 = hist s @ Recv source (Inr c) # es2" using s2(2) by (simp add: hist_record)
    ultimately have new: "sock_blocking_copy os source dest err s = Some (ret2, err2, s2)" "hist s2 = hist s @ Recv source (Inr c) # es2" .
    show ?thesis
      by (rule exI [of _ ret2], rule exI [of _ err2], rule exI [of _ s2],
          rule exI [of _ "Recv source (Inr c) # es2"], rule exI [of _ rest2], rule exI [of _ 1])
        (use True s2(3-8) new in auto)
  next
    case False
    have n: "recvs source (hist s2) = Suc (recvs source (hist s))" using s2(2,8) by (simp add: hist_record)
    have "\<forall>i < length cs. cs ! i \<noteq> [] \<and> script (recvs source (hist s2) + i) = Inr (cs ! i)"
      using Cons.prems(1) n by fastforce
    moreover have "script (recvs source (hist s2) + length cs) = fin" using Cons.prems(2) n by simp
    ultimately have "\<exists>ret err' s' es rest n. sock_blocking_copy os source dest err2 s2 = Some (ret, err', s')
        \<and> hist s' = hist s2 @ es \<and> es \<noteq> [] \<and> n \<le> length cs \<and> received source es = concat (take n cs)
        \<and> sent dest es @ rest = received source es \<and> ret = sending_failed dest es
        \<and> (ret = None \<longleftrightarrow> rest = []) \<and> (ret = None \<longrightarrow> n = length cs)" by (rule Cons.IH)
    then obtain ret err' s' es rest k where
      r: "sock_blocking_copy os source dest err2 s2 = Some (ret, err', s')" "hist s' = hist s2 @ es" "es \<noteq> []" "k \<le> length cs"
      "received source es = concat (take k cs)" "sent dest es @ rest = received source es" "ret = sending_failed dest es"
      "ret = None \<longleftrightarrow> rest = []" "ret = None \<longrightarrow> k = length cs"
      by (elim exE conjE) (rule that; assumption)
    let ?es = "Recv source (Inr c) # es2 @ es"
    have "sent dest es2 = c" using s2(4,6,7) False by simp
    then have "received source ?es = concat (take (Suc k) (c # cs))" "sent dest ?es @ rest = received source ?es"
      using r(5,6) s2(8) by simp_all
    moreover have "hist s' = hist s @ ?es" using r(2) s2(2) by (simp add: hist_record)
    ultimately have new: "received source ?es = concat (take (Suc k) (c # cs))" "sent dest ?es @ rest = received source ?es"
      "hist s' = hist s @ ?es" .
    show ?thesis
      by (rule exI [of _ ret], rule exI [of _ err'], rule exI [of _ s'], rule exI [of _ ?es],
          rule exI [of _ rest], rule exI [of _ "Suc k"])
        (use go False r new in \<open>simp del: take_Suc_Cons\<close>)
  qed
qed


section \<open>The text of an address\<close>

lemma digits_nonzero: "list_all is_digit ds \<Longrightarrow> 0 \<notin> set (bytes_of ds)"
proof (induction ds)
  case (Cons c ds)
  then have "unat (of_char c :: u8) \<noteq> 0" by (simp add: unat_of_char is_digit_def)
  then have "(of_char c :: u8) \<noteq> 0" by (metis unat_0)
  with Cons show ?case by (simp add: bytes_of_def)
qed (simp add: bytes_of_def)

lemma utoa_nonzero: "0 \<notin> set (bytes_of (utoa n))"
proof -
  have "list_all is_digit (utoa n)" by (simp add: utoa_def decimal_digits is_digit_def)
  then show ?thesis by (rule digits_nonzero)
qed

text \<open>Writing a zero at or after the terminator changes no string.\<close>

lemma zero_after:
  assumes "length s \<le> k"
  shows "\<exists>r'. (s @ 0 # r)[k := 0] = s @ 0 # r' \<and> length r' = length r"
  using assms by (cases "k - length s") (auto simp: list_update_append)

lemma set_last_spec:
  assumes "length s < n" and "n \<le> length (s @ 0 # r)"
  shows "\<exists>r'. set_last (s @ 0 # r) n = Some (s @ 0 # r') \<and> length r' = length r"
proof -
  have "length s \<le> n - 1" using assms(1) by simp
  from zero_after [OF this, of r] show ?thesis using assms by (auto simp: set_last_def)
qed

lemma poke_after:
  "length out \<le> Suc (length r) \<Longrightarrow> poke (length s) out (s @ z # r) = s @ out @ drop (length out) (z # r)"
  by (simp add: poke_def)

lemma inet_human:
  assumes a: "a = Sockaddr_in p q \<or> a = Sockaddr_in6 p q" and t: "0 \<notin> set (bytes_of (ntop p))"
    and n: "length (ntop p) + 2 \<le> n" "n \<le> length buff"
  shows "\<exists>r. sockaddr_to_human ntop buff n (Some a) = Some r \<and> length r = length buff
    \<and> cstr r = take (n - 1) (bytes_of (ntop p) @ bytes_of '':'' @ bytes_of (utoa (unat (ntohs q))))"
proof -
  let ?t = "bytes_of (ntop p)" and ?d = "bytes_of (utoa (unat (ntohs q)))"
  have colon: "bytes_of '':'' = [58]" by (simp add: bytes_of_def)
  define r1 where "r1 = drop (length ?t + 1) buff"
  have r1: "length r1 + length ?t + 1 = length buff" using n by (simp add: r1_def)
  have ntop: "inet_ntop ntop p buff n = Some (Some (?t @ 0 # r1))"
    using n by (simp add: inet_ntop_def poke_def r1_def)
  obtain x r2 where x: "r1 = x # r2" using r1 n by (cases r1) auto
  have cat: "buf_strncat (?t @ 0 # r1) (bytes_of '':'') n = Some ((?t @ [58]) @ 0 # r2)"
    using t n r1 cstr_append_zero [OF t, of r1] poke_after [of "[58, 0]" r1 ?t 0]
    by (simp add: buf_strncat_def colon terminated_def x)
  have t58: "0 \<notin> set (?t @ [58])" using t by simp
  obtain r3 where r3: "set_last ((?t @ [58]) @ 0 # r2) n = Some ((?t @ [58]) @ 0 # r3)" "length r3 = length r2"
    using set_last_spec [of "?t @ [58]" n r2] n r1 x by auto
  have len: "length (cstr ((?t @ [58]) @ 0 # r3)) = length ?t + 1"
    using cstr_append_zero [OF t58, of r3] by simp
  let ?k = "n - (length ?t + 1)"
  have fit: "length (take (?k - 1) ?d @ [0 :: u8]) \<le> Suc (length r3)" using n r1 x r3(2) by simp
  obtain r4 where print: "buf_snprintf ((?t @ [58]) @ 0 # r3) (length ?t + 1) ?k ?d
      = Some ((?t @ [58] @ take (?k - 1) ?d) @ 0 # r4)"
    and r4: "length ((?t @ [58] @ take (?k - 1) ?d) @ 0 # r4) = length buff"
    using fit poke_after [OF fit, of "?t @ [58]" 0] n r1 x r3(2) by (auto simp: buf_snprintf_def)
  have fits: "length (?t @ [58] @ take (?k - 1) ?d) < n"
    using n(1) min.cobounded2 [of "length ?d" "?k - 1"] by simp
  obtain r5 where r5: "set_last ((?t @ [58] @ take (?k - 1) ?d) @ 0 # r4) n
      = Some ((?t @ [58] @ take (?k - 1) ?d) @ 0 # r5)" "length r5 = length r4"
    using set_last_spec [of "?t @ [58] @ take (?k - 1) ?d" n r4] fits n(2) unfolding r4 by blast
  have "sockaddr_to_human ntop buff n (Some a) = Some ((?t @ [58] @ take (?k - 1) ?d) @ 0 # r5)"
    using a ntop cat r3(1) len print r5(1)
    by (auto simp: sockaddr_to_human_def Let_def simp del: append_assoc append.simps)
  moreover have "0 \<notin> set (?t @ [58] @ take (?k - 1) ?d)"
    using t utoa_nonzero [of "unat (ntohs q)"] by (auto dest: in_set_takeD)
  then have "cstr ((?t @ [58] @ take (?k - 1) ?d) @ 0 # r5) = ?t @ [58] @ take (?k - 1) ?d"
    by (rule cstr_append_zero)
  moreover have "take (n - 1) (?t @ [58] @ ?d) = ?t @ [58] @ take (?k - 1) ?d"
    using n(1) by (simp add: take_Cons' diff_diff_eq)
  ultimately show ?thesis using r4 r5(2) by (simp add: colon)
qed

text \<open>
  When the text of the address just fits, the colon's terminator goes one byte past the end.
\<close>

lemma inet_human_overflow:
  assumes a: "a = Sockaddr_in p q \<or> a = Sockaddr_in6 p q" and t: "0 \<notin> set (bytes_of (ntop p))"
    and n: "length (ntop p) + 1 = n" "n = length buff"
  shows "sockaddr_to_human ntop buff n (Some a) = None"
proof -
  let ?t = "bytes_of (ntop p)"
  have ntop: "inet_ntop ntop p buff n = Some (Some (?t @ 0 # []))"
    using n by (simp add: inet_ntop_def poke_def)
  have "buf_strncat (?t @ 0 # []) (bytes_of '':'') n = None"
    using n cstr_append_zero [OF t, of "[]"] by (simp add: buf_strncat_def bytes_of_def terminated_def)
  with a ntop show ?thesis by (auto simp: sockaddr_to_human_def Let_def)
qed

end
