(* ===== verification/Client.thy ===== *)
theory Client
  imports World
begin

declare split_paired_Ex [simp del] split_paired_All [simp del]

text \<open>
  \<open>src/client/main.c\<close>: the terminal client of the management protocol. It registers the
  terminal and the socket with the selector of \<open>src/shared/selector.c\<close>, sends every line it
  reads to the server and prints what comes back.

  What the terminal and the socket answer is the record \<open>client_os\<close>; everything the client
  does is recorded in \<open>cw_trace\<close>. The block \<open>client_data\<close> on the heap is \<open>cw_data\<close>, \<open>None\<close>
  when it is freed: using it then is a crash. So is a \<open>send\<close> that fails with \<open>EPIPE\<close>: its flags
  are 0 and nobody ignores SIGPIPE. The list of answers of \<open>pselect\<close> ends when a
  signal sets \<open>done\<close>.
\<close>

section \<open>The program\<close>

datatype client_event =
    Fgets "bytes option"
  | CRecv int "errno + bytes"
  | CSend int bytes "errno + nat"
  | CClose int
  | Print bytes

record client_os =
  co_fgets :: "client_event list \<Rightarrow> nat \<Rightarrow> bytes option"
  co_recv :: "client_event list \<Rightarrow> int \<Rightarrow> nat \<Rightarrow> errno + bytes"
  co_send :: "client_event list \<Rightarrow> int \<Rightarrow> bytes \<Rightarrow> errno + nat"

record client_world =
  cw_data :: "int option"
  cw_done :: bool
  cw_trace :: "client_event list"

datatype client_handler = STDIN_HANDLER | SOCKET_HANDLER

type_synonym csel = "(client_handler, unit) fdselector"
type_synonym cst = "csel \<times> client_world"
type_synonym ckey = "unit selector_key"

definition STDIN_FILENO :: int where "STDIN_FILENO = 0"
definition CLIENT_BUFFER_SIZE :: nat where "CLIENT_BUFFER_SIZE = 1024"
definition DEFAULT_PORT :: int where "DEFAULT_PORT = 1081"

definition does :: "client_event \<Rightarrow> client_world \<Rightarrow> client_world" where
  "does e w = w\<lparr>cw_trace := cw_trace w @ [e]\<rparr>"

definition newline :: string where "newline = [CHR 0x0A]"

definition socket_close :: "ckey \<Rightarrow> cst \<Rightarrow> cst option" where
  "socket_close key s =
     (case key_data key of
        None \<Rightarrow> Some s
      | Some _ \<Rightarrow> do { fd \<leftarrow> cw_data (snd s); Some (fst s, does (CClose fd) (snd s)) })"

text \<open>The close callbacks of the two handlers are all \<open>selector_unregister_fd\<close> calls.\<close>

definition client_closers :: "(client_handler, unit, client_world) handlers" where
  "client_closers h = \<lparr>handle_read = None, handle_write = None, handle_block = None,
     handle_close = (case h of STDIN_HANDLER \<Rightarrow> None | SOCKET_HANDLER \<Rightarrow> Some socket_close)\<rparr>"

definition stdin_read :: "client_os \<Rightarrow> ckey \<Rightarrow> cst \<Rightarrow> cst option" where
  "stdin_read os key s =
     (let line = co_fgets os (cw_trace (snd s)) CLIENT_BUFFER_SIZE;
          w = does (Fgets line) (snd s)
      in case line of
           None \<Rightarrow> do { (_, s1) \<leftarrow> selector_unregister_fd client_closers STDIN_FILENO (fst s, w); Some s1 }
         | Some l \<Rightarrow> do {
             _ \<leftarrow> key_data key;
             fd \<leftarrow> cw_data w;
             let text = cstr (l @ [0]);
             let r = co_send os (cw_trace w) fd text;
             check (r \<noteq> Inl EPIPE);
             Some (fst s, does (CSend fd text r) w) })"

definition closed_message :: bytes where
  "closed_message = bytes_of (newline @ ''Servidor cerr'' @ [CHR 0xC3, CHR 0xB3] @ '' la conexi'' @
     [CHR 0xC3, CHR 0xB3] @ ''n.'' @ newline)"

definition socket_read :: "client_os \<Rightarrow> ckey \<Rightarrow> cst \<Rightarrow> cst option" where
  "socket_read os key s = do {
     _ \<leftarrow> key_data key;
     fd \<leftarrow> cw_data (snd s);
     let r = co_recv os (cw_trace (snd s)) fd (CLIENT_BUFFER_SIZE - 1);
     let w = does (CRecv fd r) (snd s);
     case r of
       Inr (b # bs) \<Rightarrow> do {
         check (length (b # bs) < CLIENT_BUFFER_SIZE);
         Some (fst s, does (Print (cstr (b # bs @ [0]))) w) }
     | _ \<Rightarrow> do {
         (_, s1) \<leftarrow> selector_unregister_fd client_closers fd (fst s, does (Print closed_message) w);
         Some (fst s1, (snd s1)\<lparr>cw_done := True\<rparr>) } }"

definition client_handlers :: "client_os \<Rightarrow> (client_handler, unit, client_world) handlers" where
  "client_handlers os h = (case h of
      STDIN_HANDLER \<Rightarrow> \<lparr>handle_read = Some (stdin_read os), handle_write = None, handle_block = None,
        handle_close = None\<rparr>
    | SOCKET_HANDLER \<Rightarrow> \<lparr>handle_read = Some (socket_read os), handle_write = None, handle_block = None,
        handle_close = Some socket_close\<rparr>)"

text \<open>The loop around \<open>selector_select\<close>.\<close>

fun client_loop :: "client_os \<Rightarrow> pselect_result list \<Rightarrow> cst \<Rightarrow> cst option" where
  "client_loop os [] s = Some s"
| "client_loop os (answer # answers) s =
     (if cw_done (snd s) then Some s
      else do {
        (st, s1) \<leftarrow> selector_select (client_handlers os) answer s;
        if st \<noteq> SELECTOR_SUCCESS
        then Some (fst s1, does (Print (bytes_of (''Error en selector_select'' @ newline))) (snd s1))
        else client_loop os answers s1 })"

text \<open>The way out: status 0.\<close>

definition client_end :: "client_os \<Rightarrow> int \<Rightarrow> cst \<Rightarrow> (nat \<times> client_event list) option" where
  "client_end os sockfd s = do {
     let w = does (Print (bytes_of (newline @ ''Cerrando cliente...'' @ newline))) (snd s);
     (_, s1) \<leftarrow> selector_unregister_fd (client_handlers os) sockfd (fst s, w);
     (_, s2) \<leftarrow> selector_unregister_fd (client_handlers os) STDIN_FILENO s1;
     w1 \<leftarrow> selector_destroy (client_handlers os) s2;
     Some (0, cw_trace (does (CClose sockfd) w1)) }"

text \<open>What the system answers while the client starts.\<close>

record client_boot =
  cb_socket :: int
  cb_connect :: "sockaddr \<Rightarrow> bool"
  cb_set_nio :: int
  cb_sigprocmask :: bool
  cb_sigaction :: bool
  cb_malloc :: "nat \<Rightarrow> bool"

text \<open>\<open>atoi\<close>: the low 32 bits of \<open>strtol\<close>'s result, signed.\<close>

definition atoi :: "string \<Rightarrow> int" where
  "atoi str = sint (word_of_int (fst (strtol str)) :: u32)"

definition print_help :: "string \<Rightarrow> bytes" where
  "print_help progname = bytes_of (''Uso: '' @ progname @ '' [-L host] [-P port] [-h]'' @ newline @
     ''Opciones:'' @ newline @
     ''  -L host     Direcci'' @ [CHR 0xC3, CHR 0xB3] @ ''n IP o hostname del servidor (default: 127.0.0.1)'' @ newline @
     ''  -P port     Puerto del servidor (default: 1081)'' @ newline @
     ''  -h          Muestra esta ayuda y termina'' @ newline)"

text \<open>The options as \<open>getopt\<close> returns them: the exit status, or the port.\<close>

fun client_options :: "(char \<times> string) list \<Rightarrow> int \<Rightarrow> nat + int" where
  "client_options [] p = Inr p"
| "client_options ((c, optarg) # opts) p =
     (if c = CHR ''L'' then client_options opts p
      else if c = CHR ''P'' then client_options opts (atoi optarg)
      else if c = CHR ''h'' then Inl 0
      else Inl 1)"

text \<open>A failure before the selector exists: the message, and the socket closed.\<close>

definition give_up :: "string \<Rightarrow> int \<Rightarrow> (nat \<times> client_event list) option" where
  "give_up msg sockfd = Some (1, [Print (bytes_of msg), CClose sockfd])"

definition client_session :: "client_boot \<Rightarrow> client_os \<Rightarrow> pselect_result list \<Rightarrow> int \<Rightarrow> (nat \<times> client_event list) option" where
  "client_session b os answers sockfd = do {
     new \<leftarrow> selector_new (cb_malloc b 4096) (cb_malloc b (element_size * ITEMS_MAX_SIZE)) CLIENT_BUFFER_SIZE;
     case new of
       None \<Rightarrow> give_up ''unable to create selector'' sockfd
     | Some sel \<Rightarrow> do {
         check (cb_malloc b 4);
         let w = \<lparr>cw_data = Some sockfd, cw_done = False, cw_trace = []\<rparr>;
         (st_1, sel1) \<leftarrow> selector_register (cb_malloc b element_size) sel sockfd (Some SOCKET_HANDLER) OP_READ (Some ());
         (st_2, sel2) \<leftarrow> selector_register (cb_malloc b element_size) sel1 STDIN_FILENO (Some STDIN_HANDLER) OP_READ (Some ());
         if st_1 \<noteq> SELECTOR_SUCCESS \<or> st_2 \<noteq> SELECTOR_SUCCESS
         then do {
           let w1 = (does (Print (bytes_of ''Unable to register server socket'')) w)\<lparr>cw_data := None\<rparr>;
           w2 \<leftarrow> selector_destroy (client_handlers os) (sel2, w1);
           Some (1, cw_trace (does (CClose sockfd) w2)) }
         else do {
           s \<leftarrow> client_loop os answers (sel2, w);
           client_end os sockfd s } } }"

definition client_conf :: selector_conf where
  "client_conf = \<lparr>conf_signal = 14, select_timeout = (10, 0)\<rparr>"

definition client_main ::
  "client_boot \<Rightarrow> client_os \<Rightarrow> string \<Rightarrow> (char \<times> string) list \<Rightarrow> pselect_result list \<Rightarrow> (nat \<times> client_event list) option" where
  "client_main b os progname opts answers =
     (case client_options opts DEFAULT_PORT of
        Inl n \<Rightarrow> Some (n, [Print (print_help progname)])
      | Inr p \<Rightarrow>
          let sockfd = cb_socket b in
          if sockfd < 0 then Some (1, [Print (bytes_of (newline @ '' Error : Could not create socket '' @ newline))])
          else if \<not> cb_connect b (Sockaddr_in (replicate 4 0) (htons (word_of_int p)))
          then give_up (newline @ '' Error : Connect Failed '' @ newline) sockfd
          else if cb_set_nio b = -1 then give_up ''Unable to set server socket to nonblock'' sockfd
          else if fst (selector_init (cb_sigprocmask b) (cb_sigaction b) client_conf no_signals) \<noteq> SELECTOR_SUCCESS
          then give_up ''Unable to initialize selector'' sockfd
          else client_session b os answers sockfd)"

section \<open>The client's invariant\<close>

definition typed :: "client_event list \<Rightarrow> bytes list" where
  "typed tr = concat (map (\<lambda>e. case e of Fgets (Some l) \<Rightarrow> [cstr (l @ [0])] | _ \<Rightarrow> []) tr)"

definition offered :: "int \<Rightarrow> client_event list \<Rightarrow> bytes list" where
  "offered fd tr = concat (map (\<lambda>e. case e of CSend f t _ \<Rightarrow> (if f = fd then [t] else []) | _ \<Rightarrow> []) tr)"

definition closings :: "int \<Rightarrow> client_event list \<Rightarrow> nat" where
  "closings fd tr = length (filter (\<lambda>e. e = CClose fd) tr)"

lemma trace_simps [simp]:
  "typed (g @ h) = typed g @ typed h" "typed [] = []"
  "typed (e # h) = (case e of Fgets (Some l) \<Rightarrow> [cstr (l @ [0])] | _ \<Rightarrow> []) @ typed h"
  "offered fd (g @ h) = offered fd g @ offered fd h" "offered fd [] = []"
  "offered fd (e # h) = (case e of CSend f t _ \<Rightarrow> (if f = fd then [t] else []) | _ \<Rightarrow> []) @ offered fd h"
  "closings fd (g @ h) = closings fd g + closings fd h" "closings fd [] = 0"
  "closings fd (e # h) = (if e = CClose fd then 1 else 0) + closings fd h"
  by (simp_all add: typed_def offered_def closings_def)

lemma does_simps [simp]:
  "cw_trace (does e w) = cw_trace w @ [e]" "cw_data (does e w) = cw_data w" "cw_done (does e w) = cw_done w"
  by (simp_all add: does_def)

definition client_os_ok :: "client_os \<Rightarrow> bool" where
  "client_os_ok os \<longleftrightarrow> (\<forall>tr fd n bs. co_recv os tr fd n = Inr bs \<longrightarrow> length bs \<le> n)"

text \<open>The server is there to hear what is sent.\<close>

definition server_hears :: "client_os \<Rightarrow> bool" where
  "server_hears os \<longleftrightarrow> (\<forall>tr fd bs. co_send os tr fd bs \<noteq> Inl EPIPE)"

definition client_item :: "int \<Rightarrow> int \<Rightarrow> (client_handler, unit) item" where
  "client_item sockfd fd = new_item fd (Some (if fd = sockfd then SOCKET_HANDLER else STDIN_HANDLER)) OP_READ (Some ())"

definition client_table :: "int \<Rightarrow> csel \<Rightarrow> bool" where
  "client_table sockfd sel \<longleftrightarrow> sel_inv sel \<and> fd_size sel = 1025 \<and> resolution_jobs sel = []
     \<and> (\<forall>it \<in> set (fds sel). OP_WRITE AND item_interest it = 0)
     \<and> (\<forall>fd it. registered sel fd = Some it \<longrightarrow> it = client_item sockfd fd \<and> (fd = sockfd \<or> fd = STDIN_FILENO))"

definition client_inv :: "client_os \<Rightarrow> int \<Rightarrow> cst \<Rightarrow> bool" where
  "client_inv os sockfd s \<longleftrightarrow> client_os_ok os \<and> 0 < sockfd \<and> sockfd < 1024 \<and> client_table sockfd (fst s)
     \<and> cw_data (snd s) = Some sockfd
     \<and> closings sockfd (cw_trace (snd s)) = (if registered (fst s) sockfd = None then 1 else 0)
     \<and> offered sockfd (cw_trace (snd s)) = typed (cw_trace (snd s))"

interpretation closer: closing_handlers client_closers
proof unfold_locales
  fix h f key s w s' w'
  assume "handle_close (client_closers h) = Some f" and "f key (s, w) = Some (s', w')"
  then show "s' = s"
    by (cases h) (auto simp: client_closers_def socket_close_def bind_eq_Some_conv split: option.splits)
qed

lemma client_close_handlers: "handle_close (client_handlers os h) = handle_close (client_closers h)"
  by (cases h) (simp_all add: client_handlers_def client_closers_def)

lemma unregister_client_handlers:
  "selector_unregister_fd (client_handlers os) fd s = selector_unregister_fd client_closers fd s"
  unfolding selector_unregister_fd_def client_close_handlers ..

lemma client_table_unregister:
  assumes "client_table sockfd sel" and "sel_inv sel'" and "registered sel' = (registered sel)(fd := None)"
    and "fd_size sel' = fd_size sel" and "selector_unregister_fd client_closers fd (sel, w) = Some (r, sel', w')"
  shows "client_table sockfd sel'"
proof -
  have "OP_WRITE AND item_interest item_init = 0" by (simp add: item_init_def)
  then show ?thesis
    using assms closer.unregister_table [OF assms(5)] by (fastforce simp: client_table_def split: if_splits)
qed

lemma client_unregister:
  assumes inv: "client_inv os sockfd s" and fd: "fd = sockfd \<or> fd = STDIN_FILENO"
  shows "\<exists>r s'. selector_unregister_fd client_closers fd s = Some (r, s') \<and> client_inv os sockfd s'
    \<and> registered (fst s') = (registered (fst s))(fd := None)"
proof -
  obtain sel w where s: "s = (sel, w)" by (cases s)
  have t: "client_table sockfd sel" "sel_inv sel" "0 \<le> fd" "nat fd < fd_size sel" "fd < 1024"
    using inv fd by (auto simp: client_inv_def client_table_def s STDIN_FILENO_def)
  note at = registered_at [OF t(3,4)]
  show ?thesis
  proof (cases "registered sel fd")
    case None
    then have "selector_unregister_fd client_closers fd s = Some (SELECTOR_IARGS, s)"
      using at t(3,5) by (auto simp: selector_unregister_fd_def s INVALID_FD_def ITEMS_MAX_SIZE_def)
    with None inv show ?thesis by (auto simp: s)
  next
    case (Some it)
    then have it: "it = client_item sockfd fd" using t(1) by (auto simp: client_table_def)
    let ?h = "if fd = sockfd then SOCKET_HANDLER else STDIN_HANDLER"
    let ?w = "if fd = sockfd then does (CClose sockfd) w else w"
    have h: "item_handler it = Some ?h" "item_data it = Some ()" by (simp_all add: it client_item_def new_item_def)
    have "run_close client_closers ?h \<lparr>key_fd = fd, key_data = item_data it\<rparr> (sel, w) = Some (sel, ?w)"
      using inv h by (simp add: run_close_def client_closers_def socket_close_def client_inv_def s)
    from unregister_run [OF t(2) Some h(1) this] obtain sel' where
      u: "selector_unregister_fd client_closers fd (sel, w) = Some (SELECTOR_SUCCESS, sel', ?w)" "sel_inv sel'"
        "registered sel' = (registered sel)(fd := None)" "fd_size sel' = fd_size sel" by blast
    have "client_inv os sockfd (sel', ?w)"
      using inv Some client_table_unregister [OF t(1) u(2,3,4,1)] u(3) by (auto simp: client_inv_def s)
    with u show ?thesis by (auto simp: s)
  qed
qed

lemma stdin_read_inv:
  assumes "client_inv os sockfd s" and "key_data key \<noteq> None"
  shows "server_hears os \<Longrightarrow> \<exists>s'. stdin_read os key s = Some s'"
    and "stdin_read os key s = Some s' \<Longrightarrow> client_inv os sockfd s'"
proof -
  have "(\<exists>s'. stdin_read os key s = Some s') \<and> (\<forall>s'. stdin_read os key s = Some s' \<longrightarrow> client_inv os sockfd s')"
    if "co_fgets os (cw_trace (snd s)) CLIENT_BUFFER_SIZE = None"
  proof -
    have "client_inv os sockfd (fst s, does (Fgets None) (snd s))"
      using assms(1) by (simp add: client_inv_def)
    from client_unregister [OF this, of STDIN_FILENO] that show ?thesis
      by (auto simp: stdin_read_def Let_def)
  qed
  moreover have "(server_hears os \<longrightarrow> (\<exists>s'. stdin_read os key s = Some s'))
      \<and> (\<forall>s'. stdin_read os key s = Some s' \<longrightarrow> client_inv os sockfd s')"
    if "co_fgets os (cw_trace (snd s)) CLIENT_BUFFER_SIZE = Some l" for l
  proof -
    let ?w = "does (Fgets (Some l)) (snd s)" and ?t = "cstr (l @ [0])"
    let ?r = "co_send os (cw_trace ?w) sockfd ?t"
    have "stdin_read os key s = (if ?r = Inl EPIPE then None else Some (fst s, does (CSend sockfd ?t ?r) ?w))"
      using assms that by (auto simp: stdin_read_def Let_def client_inv_def)
    moreover have "client_inv os sockfd (fst s, does (CSend sockfd ?t ?r) ?w)"
      using assms(1) by (simp add: client_inv_def)
    ultimately show ?thesis by (auto simp: server_hears_def)
  qed
  ultimately show "server_hears os \<Longrightarrow> \<exists>s'. stdin_read os key s = Some s'"
    and "stdin_read os key s = Some s' \<Longrightarrow> client_inv os sockfd s'"
    by (cases "co_fgets os (cw_trace (snd s)) CLIENT_BUFFER_SIZE"; blast)+
qed

lemma socket_read_returns:
  assumes inv: "client_inv os sockfd s" and key: "key_data key \<noteq> None"
  shows "\<exists>s'. socket_read os key s = Some s' \<and> client_inv os sockfd s'"
proof -
  let ?r = "co_recv os (cw_trace (snd s)) sockfd (CLIENT_BUFFER_SIZE - 1)"
  have fd: "cw_data (snd s) = Some sockfd" using inv by (simp add: client_inv_def)
  have "\<exists>s'. socket_read os key s = Some s' \<and> client_inv os sockfd s'" if "\<nexists>b bs. ?r = Inr (b # bs)"
  proof -
    let ?w = "does (Print closed_message) (does (CRecv sockfd ?r) (snd s))"
    have i: "client_inv os sockfd (fst s, ?w)" using inv by (simp add: client_inv_def)
    obtain r s1 where s1: "selector_unregister_fd client_closers sockfd (fst s, ?w) = Some (r, s1)"
      "client_inv os sockfd s1" using client_unregister [OF i, of sockfd] by auto
    have "socket_read os key s = Some (fst s1, (snd s1)\<lparr>cw_done := True\<rparr>)"
      using that key fd s1(1)
      by (cases ?r rule: sum.exhaust; cases "projr ?r") (auto simp: socket_read_def Let_def)
    moreover have "client_inv os sockfd (fst s1, (snd s1)\<lparr>cw_done := True\<rparr>)"
      using s1(2) by (simp add: client_inv_def)
    ultimately show ?thesis by blast
  qed
  moreover have "\<exists>s'. socket_read os key s = Some s' \<and> client_inv os sockfd s'" if "?r = Inr (b # bs)" for b bs
  proof -
    have "length (b # bs) < CLIENT_BUFFER_SIZE"
      using inv that unfolding client_inv_def client_os_ok_def CLIENT_BUFFER_SIZE_def by fastforce
    with that key fd have "socket_read os key s =
        Some (fst s, does (Print (cstr (b # bs @ [0]))) (does (CRecv sockfd ?r) (snd s)))"
      by (auto simp: socket_read_def Let_def)
    with inv show ?thesis by (simp add: client_inv_def)
  qed
  ultimately show ?thesis by blast
qed

lemma stdin_read_key: "stdin_read os key s = Some s' \<Longrightarrow> key_data key = None \<Longrightarrow> client_inv os sockfd s \<Longrightarrow> client_inv os sockfd s'"
  using client_unregister [of os sockfd "(fst s, does (Fgets None) (snd s))" STDIN_FILENO]
  by (auto simp: stdin_read_def Let_def client_inv_def split: option.splits)

text \<open>What holds whenever the client gets on, and, with the server there, that it does.\<close>

interpretation client_run: preserving_handlers "client_handlers os" "client_inv os sockfd" for os sockfd
proof unfold_locales
  fix h :: client_handler and f and key :: ckey and st st' :: cst
  assume I: "client_inv os sockfd st" and run: "f key st = Some st'"
  show "client_inv os sockfd st'" if "handle_read (client_handlers os h) = Some f"
  proof (cases h)
    case STDIN_HANDLER
    with that run I stdin_read_inv(2) [OF I, of key st'] stdin_read_key [of os key st st' sockfd] show ?thesis
      by (cases "key_data key") (auto simp: client_handlers_def)
  next
    case SOCKET_HANDLER
    with that run have r: "socket_read os key st = Some st'" by (simp add: client_handlers_def)
    then have "key_data key \<noteq> None" by (cases "key_data key") (simp_all add: socket_read_def)
    with socket_read_returns [OF I this] r show ?thesis by auto
  qed
  show "client_inv os sockfd st'" if "handle_write (client_handlers os h) = Some f"
    using that by (cases h) (simp_all add: client_handlers_def)
  show "client_inv os sockfd st'" if "handle_block (client_handlers os h) = Some f"
    using that by (cases h) (simp_all add: client_handlers_def)
qed (simp_all add: client_inv_def client_table_def fd_size_def)

definition client_heard :: "client_os \<Rightarrow> int \<Rightarrow> cst \<Rightarrow> bool" where
  "client_heard os sockfd s \<longleftrightarrow> client_inv os sockfd s \<and> server_hears os"

interpretation client: reading_handlers "client_handlers os" "client_heard os sockfd" 1025 for os sockfd
proof unfold_locales
  fix st :: cst and fd and it :: "(client_handler, unit) item" and h
  let ?key = "\<lparr>key_fd = fd, key_data = item_data it\<rparr> :: ckey"
  assume "client_heard os sockfd st" and reg: "registered (fst st) fd = Some it" and h: "item_handler it = Some h"
  then have I: "client_inv os sockfd st" "server_hears os" by (simp_all add: client_heard_def)
  then have it: "it = client_item sockfd fd" using reg by (auto simp: client_inv_def client_table_def)
  then have key: "key_data ?key \<noteq> None" by (simp add: client_item_def new_item_def)
  show "\<exists>f st'. handle_read (client_handlers os h) = Some f \<and> f ?key st = Some st' \<and> client_heard os sockfd st'"
    using stdin_read_inv [OF I(1) key] socket_read_returns [OF I(1) key] I(2)
    by (cases h) (auto simp: client_handlers_def client_heard_def)
qed (simp_all add: client_heard_def client_inv_def client_table_def fd_size_def)

lemma client_loop_inv: "client_loop os answers s = Some s' \<Longrightarrow> client_inv os sockfd s \<Longrightarrow> client_inv os sockfd s'"
proof (induction os answers s rule: client_loop.induct)
  case (2 os answer answers s)
  show ?case
  proof (cases "cw_done (snd s)")
    case False
    with 2(2) obtain st s1 where s1: "selector_select (client_handlers os) answer s = Some (st, s1)"
      by (auto simp: bind_eq_Some_conv)
    then have "client_inv os sockfd s1" using client_run.select_keeps [of os sockfd "fst s" "snd s"] 2(3) by simp
    with 2 s1 False show ?thesis by (cases "st = SELECTOR_SUCCESS") (auto simp: client_inv_def)
  qed (use 2 in auto)
qed auto

lemma client_loop_returns: "client_heard os sockfd s \<Longrightarrow> \<exists>s'. client_loop os answers s = Some s'"
proof (induction os answers s rule: client_loop.induct)
  case (2 os answer answers s)
  show ?case
  proof (cases "cw_done (snd s)")
    case False
    obtain st s1 where s1: "selector_select (client_handlers os) answer s = Some (st, s1)" "client_heard os sockfd s1"
      using client.select_returns [OF 2(2)] by blast
    with 2(1) [OF False s1(1) refl] False show ?thesis by (cases "st = SELECTOR_SUCCESS") auto
  qed (use 2 in auto)
qed auto


text \<open>The start: the table with the two descriptors.\<close>

lemma client_start:
  assumes sel: "sel_inv sel" "registered sel = Map.empty" "fd_size sel = 1025" "resolution_jobs sel = []"
      "set (fds sel) \<subseteq> {item_init}"
    and fd: "0 < sockfd" "sockfd < 1024" and os: "client_os_ok os"
  shows "\<exists>sel1 sel2. selector_register k sel sockfd (Some SOCKET_HANDLER) OP_READ (Some ()) = Some (SELECTOR_SUCCESS, sel1)
    \<and> selector_register k sel1 STDIN_FILENO (Some STDIN_HANDLER) OP_READ (Some ()) = Some (SELECTOR_SUCCESS, sel2)
    \<and> client_inv os sockfd (sel2, \<lparr>cw_data = Some sockfd, cw_done = False, cw_trace = []\<rparr>)"
proof -
  have r1: "0 \<le> sockfd" "sockfd < int ITEMS_MAX_SIZE" "nat sockfd < fd_size sel"
    using fd sel(3) by (simp_all add: ITEMS_MAX_SIZE_def)
  from selector_register_in_table(2) [OF sel(1) r1, of "Some SOCKET_HANDLER" k OP_READ "Some ()"] sel(2,3) obtain sel1 where
    s1: "selector_register k sel sockfd (Some SOCKET_HANDLER) OP_READ (Some ()) = Some (SELECTOR_SUCCESS, sel1)" "sel_inv sel1"
      "registered sel1 = [sockfd \<mapsto> client_item sockfd sockfd]" "fd_size sel1 = 1025"
    by (auto simp: client_item_def)
  have r2: "0 \<le> STDIN_FILENO" "STDIN_FILENO < int ITEMS_MAX_SIZE" "nat STDIN_FILENO < fd_size sel1" "STDIN_FILENO \<noteq> sockfd"
    using fd s1(4) by (simp_all add: ITEMS_MAX_SIZE_def STDIN_FILENO_def)
  from selector_register_in_table(2) [OF s1(2) r2(1,2,3), of "Some STDIN_HANDLER" k OP_READ "Some ()"] s1(3,4) r2(4) obtain sel2 where
    s2: "selector_register k sel1 STDIN_FILENO (Some STDIN_HANDLER) OP_READ (Some ()) = Some (SELECTOR_SUCCESS, sel2)" "sel_inv sel2"
      "registered sel2 = [sockfd \<mapsto> client_item sockfd sockfd, STDIN_FILENO \<mapsto> client_item sockfd STDIN_FILENO]"
      "fd_size sel2 = 1025"
    by (auto simp: client_item_def)
  have read: "OP_WRITE AND item_interest (client_item sockfd x) = 0" "OP_WRITE AND item_interest (item_init :: (client_handler, unit) item) = 0" for x
    by (simp_all add: client_item_def new_item_def item_init_def OP_READ_def OP_WRITE_def)
  have items: "set (fds sel2) \<subseteq> {client_item sockfd STDIN_FILENO, client_item sockfd sockfd, item_init}"
      "resolution_jobs sel2 = []"
    using register_table [OF s1(1) r1(3)] register_table [OF s2(1) r2(3)] sel(4,5) r2(4)
    by (auto simp: client_item_def)
  then have "client_table sockfd sel2"
    using s2 read r2(4) by (auto simp: client_table_def split: if_splits)
  then have "client_inv os sockfd (sel2, \<lparr>cw_data = Some sockfd, cw_done = False, cw_trace = []\<rparr>)"
    using fd os s2(3) by (simp add: client_inv_def)
  with s1(1) s2(1) show ?thesis by blast
qed

text \<open>The end: the socket is closed by its callback and then once more.\<close>

lemma client_end_spec:
  assumes "client_inv os sockfd s"
  shows "\<exists>tr. client_end os sockfd s = Some (0, tr) \<and> closings sockfd tr = 2 \<and> offered sockfd tr = typed tr"
proof -
  let ?w = "does (Print (bytes_of (newline @ ''Cerrando cliente...'' @ newline))) (snd s)"
  have "client_inv os sockfd (fst s, ?w)" using assms by (simp add: client_inv_def)
  from client_unregister [OF this, of sockfd] obtain r1 s1 where s1:
    "selector_unregister_fd client_closers sockfd (fst s, ?w) = Some (r1, s1)" "client_inv os sockfd s1"
    "registered (fst s1) = (registered (fst s))(sockfd := None)" by auto
  from client_unregister [OF s1(2), of STDIN_FILENO] obtain r2 s2 where s2:
    "selector_unregister_fd client_closers STDIN_FILENO s1 = Some (r2, s2)" "client_inv os sockfd s2"
    "registered (fst s2) = (registered (fst s1))(STDIN_FILENO := None)" by auto
  have only: "x = sockfd \<or> x = STDIN_FILENO" if "registered (fst s2) x = Some it" for x it
    using s2(2) that unfolding client_inv_def client_table_def by blast
  have "registered (fst s2) x = None" for x
  proof (rule ccontr)
    assume "registered (fst s2) x \<noteq> None"
    then obtain it where it: "registered (fst s2) x = Some it" by blast
    with only [OF it] show False by (auto simp: s1(3) s2(3) split: if_splits)
  qed
  then have "registered (fst s2) = Map.empty" by blast
  then have "selector_destroy (client_handlers os) s2 = Some (snd s2)"
    using destroy_nothing [of s2 "[0..<fd_size (fst s2)]" "client_handlers os"] by (simp add: selector_destroy_def)
  moreover have "closings sockfd (cw_trace (snd s2)) = 1" "offered sockfd (cw_trace (snd s2)) = typed (cw_trace (snd s2))"
    using s2(2) \<open>registered (fst s2) = Map.empty\<close> by (simp_all add: client_inv_def)
  moreover have "client_end os sockfd s = Some (0, cw_trace (does (CClose sockfd) (snd s2)))"
    if "selector_destroy (client_handlers os) s2 = Some (snd s2)"
    by (simp only: client_end_def Let_def unregister_client_handlers s1(1) s2(1) that bind.bind_lunit prod.case)
  ultimately show ?thesis by simp
qed

lemma client_session_spec:
  assumes "\<forall>n. cb_malloc b n" and "0 < sockfd" "sockfd < 1024" and "client_os_ok os"
  shows "client_session b os answers sockfd = Some (st, tr) \<Longrightarrow>
      st = 0 \<and> closings sockfd tr = 2 \<and> offered sockfd tr = typed tr"
    and "server_hears os \<Longrightarrow> \<exists>st tr. client_session b os answers sockfd = Some (st, tr)"
proof -
  obtain sel :: csel where new: "selector_new True True CLIENT_BUFFER_SIZE = Some (Some sel)" and sel: "sel_inv sel"
    "registered sel = Map.empty" "fd_size sel = 1025" "resolution_jobs sel = []" "set (fds sel) \<subseteq> {item_init}"
    using new_selector_1024 by (auto simp: CLIENT_BUFFER_SIZE_def)
  let ?w = "\<lparr>cw_data = Some sockfd, cw_done = False, cw_trace = []\<rparr>"
  from client_start [OF sel assms(2-4), of True] obtain sel1 sel2 where start:
    "selector_register True sel sockfd (Some SOCKET_HANDLER) OP_READ (Some ()) = Some (SELECTOR_SUCCESS, sel1)"
    "selector_register True sel1 STDIN_FILENO (Some STDIN_HANDLER) OP_READ (Some ()) = Some (SELECTOR_SUCCESS, sel2)"
    "client_inv os sockfd (sel2, ?w)" by blast
  have run: "client_session b os answers sockfd = do { s \<leftarrow> client_loop os answers (sel2, ?w); client_end os sockfd s }"
    using new start(1,2) assms(1) by (simp add: client_session_def)
  show "st = 0 \<and> closings sockfd tr = 2 \<and> offered sockfd tr = typed tr" if "client_session b os answers sockfd = Some (st, tr)"
  proof -
    from that run obtain s where s: "client_loop os answers (sel2, ?w) = Some s" "client_end os sockfd s = Some (st, tr)"
      by (auto simp: bind_eq_Some_conv)
    from client_end_spec [OF client_loop_inv [OF s(1) start(3)]] s(2) show ?thesis by auto
  qed
  show "\<exists>st tr. client_session b os answers sockfd = Some (st, tr)" if "server_hears os"
  proof -
    have "client_heard os sockfd (sel2, ?w)" using start(3) that by (simp add: client_heard_def)
    then obtain s where s: "client_loop os answers (sel2, ?w) = Some s" using client_loop_returns by blast
    from client_end_spec [OF client_loop_inv [OF s start(3)]] run s show ?thesis by auto
  qed
qed

text \<open>A line that is typed after the server has gone kills the client.\<close>

lemma stdin_read_unheard:
  assumes "cw_data (snd s) = Some fd" and "\<forall>tr bs. co_send os tr fd bs = Inl EPIPE"
    and "co_fgets os (cw_trace (snd s)) CLIENT_BUFFER_SIZE = Some l"
  shows "stdin_read os key s = None"
  using assms by (simp add: stdin_read_def Let_def split: option.splits)

end
