(* ===== verification/Sessions.thy ===== *)
theory Sessions
  imports Manager
begin

declare split_paired_Ex [simp del] split_paired_All [simp del]

text \<open>
  What a session of the management protocol may do before it has logged in: one whole read
  event of \<open>manager_read\<close>, from the bytes of the line to the state it leaves.
\<close>

text \<open>The command and the first argument of a line, as \<open>handle_command\<close> cuts them out.\<close>

definition line_of :: "bytes \<Rightarrow> string" where
  "line_of bs = trim_newline (string_of (cstr (bs @ [0])))"

definition command_of :: "bytes \<Rightarrow> string option \<times> string option" where
  "command_of bs = (let (cmd, rest) = strtok (line_of bs) in (cmd, fst (strtok rest)))"

lemma handle_command_logged_out:
  assumes at: "manager_at i s = Some data" and out: "\<not> logged_in data"
    and run: "handle_command os fd (line_of bs) i s = Some s'"
  shows "(case fst (command_of bs) of
      None \<Rightarrow> s' = s | Some cmd \<Rightarrow> handle_auth_command os fd cmd (snd (command_of bs)) i s = Some s')"
  using run at out by (auto simp: handle_command_def command_of_def Let_def split: prod.splits option.splits)

lemma manager_read_logged_out:
  assumes m: "manages i data s" and out: "\<not> logged_in data" and key: "key_data key = Some (Manager i)"
    and run: "manager_read os key s = Some s'"
  shows "users_of s' = users_of s \<and> (\<forall>j. client_at j s' = client_at j s)
    \<and> (\<forall>j. j \<noteq> i \<longrightarrow> manager_at j s' = manager_at j s)
    \<and> (\<forall>data'. manager_at i s' = Some data' \<and> logged_in data' \<longrightarrow>
        (\<exists>bs cmd. os_recv os (hist s) (mgr_fd data) 1023 = Inr bs \<and> fst (command_of bs) = Some cmd
          \<and> admits (users_of s) data cmd (snd (command_of bs))))"
proof -
  let ?r = "os_recv os (hist s) (mgr_fd data) 1023"
  let ?s1 = "record_event (Recv (mgr_fd data) ?r) s"
  have at: "manager_at i s = Some data" using m by (simp add: manages_def)
  have recv: "sys_recv os (mgr_fd data) (MANAGER_BUFFER_SIZE - 1) s = (?r, ?s1)"
    by (simp add: sys_recv_def MANAGER_BUFFER_SIZE_def Let_def)
  have m1: "manages i data ?s1" using m by (simp add: manages_def)
  obtain sel' where gone: "unregister_any os (mgr_fd data) ?s1 = Some (SELECTOR_SUCCESS,
      set_sel sel' (free_manager i (record_event (Close (mgr_fd data)) ?s1)))"
    using unregister_manager [OF m1, of os] by blast
  show ?thesis
  proof (cases "\<exists>b bs. ?r = Inr (b # bs)")
    case False
    then have "s' = set_sel sel' (free_manager i (record_event (Close (mgr_fd data)) ?s1))"
      using run key at recv gone
      by (cases ?r rule: sum.exhaust; cases "projr ?r") (auto simp: manager_read_def)
    then show ?thesis by simp
  next
    case True
    then obtain bs where bs: "?r = Inr bs" "bs \<noteq> []" by blast
    show ?thesis
    proof (cases "line_of bs = []")
      case True
      with run key at recv bs obtain msg where "send_response os (mgr_fd data) msg True ?s1 = Some s'"
        by (auto simp: manager_read_def line_of_def bind_eq_Some_conv)
      note f = send_response_frame [OF this]
      show ?thesis using f at out by simp
    next
      case False
      with run key at recv bs have "handle_command os (mgr_fd data) (line_of bs) i ?s1 = Some s'"
        by (auto simp: manager_read_def line_of_def bind_eq_Some_conv)
      from handle_command_logged_out [OF _ out this] at have c: "case fst (command_of bs) of None \<Rightarrow> s' = ?s1
        | Some cmd \<Rightarrow> handle_auth_command os (mgr_fd data) cmd (snd (command_of bs)) i ?s1 = Some s'" by simp
      show ?thesis
      proof (cases "fst (command_of bs)")
        case None
        with c at out show ?thesis by simp
      next
        case (Some cmd)
        with c have "handle_auth_command os (mgr_fd data) cmd (snd (command_of bs)) i ?s1 = Some s'" by simp
        moreover have "manager_at i ?s1 = Some data" using at by simp
        ultimately have a: "users_of s' = users_of ?s1" "\<forall>j. client_at j s' = client_at j ?s1"
          "\<forall>j. j \<noteq> i \<longrightarrow> manager_at j s' = manager_at j ?s1"
          "\<exists>data'. manager_at i s' = Some data' \<and> mgr_fd data' = mgr_fd data
            \<and> (logged_in data' \<longleftrightarrow> logged_in data \<or> admits (users_of ?s1) data cmd (snd (command_of bs)))"
          using handle_auth_command_spec by blast+
        then have "\<exists>data'. manager_at i s' = Some data'
            \<and> (logged_in data' \<longrightarrow> admits (users_of s) data cmd (snd (command_of bs)))" using out by auto
        with a(1-3) bs(1) Some show ?thesis by fastforce
      qed
    qed
  qed
qed


text \<open>Such an event always returns.\<close>

lemma handle_auth_command_returns:
  assumes "mallocs_ok os" and "no_sigpipe os" and "manager_at i s = Some data"
  shows "\<exists>s'. handle_auth_command os fd cmd arg i s = Some s'"
proof -
  have send: "\<exists>s'. send_response os fd msg e t = Some s'" for msg e t
    using send_response_returns [OF assms(1,2)] by blast
  show ?thesis
    unfolding handle_auth_command_def assms(3) Let_def bind.bind_lunit
    by (auto simp del: append.simps split: option.split intro: send)
qed

lemma manager_read_logged_out_returns:
  assumes ok: "os_ok os" "mallocs_ok os" "no_sigpipe os" and m: "manages i data s" and out: "\<not> logged_in data"
    and key: "key_data key = Some (Manager i)"
  shows "\<exists>s'. manager_read os key s = Some s'"
proof -
  let ?r = "os_recv os (hist s) (mgr_fd data) 1023"
  let ?s1 = "record_event (Recv (mgr_fd data) ?r) s"
  have at: "manager_at i s = Some data" and m1: "manages i data ?s1" using m by (simp_all add: manages_def)
  have recv: "sys_recv os (mgr_fd data) (MANAGER_BUFFER_SIZE - 1) s = (?r, ?s1)"
    by (simp add: sys_recv_def MANAGER_BUFFER_SIZE_def Let_def)
  obtain r s2 where gone: "unregister_any os (mgr_fd data) ?s1 = Some (r, s2)"
    using unregister_manager [OF m1, of os] by blast
  have auth: "\<exists>s'. handle_command os fd line i ?s1 = Some s'" for fd line
    using handle_auth_command_returns [OF ok(2,3), of i ?s1 data] at out
    by (auto simp: handle_command_def Let_def split: prod.split option.split)
  have send: "\<exists>s'. send_response os fd msg e t = Some s'" for fd msg e t
    using send_response_returns [OF ok(2,3)] by blast
  have len: "length bs < MANAGER_BUFFER_SIZE" if "?r = Inr bs" for bs
  proof -
    have "length bs \<le> 1023" using ok(1) that unfolding os_ok_def by blast
    then show ?thesis by (simp add: MANAGER_BUFFER_SIZE_def)
  qed
  show ?thesis
    unfolding manager_read_def key option.case attachment.case at bind.bind_lunit recv Let_def prod.case
    using gone len auth send by (auto simp del: append.simps split: sum.split)
qed

text \<open>When the peer has gone, the reply to a line that is no login kills the server.\<close>

lemma manager_read_unheard:
  assumes ok: "os_ok os" "mallocs_ok os" and at: "manager_at i s = Some data" and out: "\<not> logged_in data"
    and key: "key_data key = Some (Manager i)" and gone: "\<forall>h bs. os_send os h (mgr_fd data) bs = Inl EPIPE"
    and recv: "os_recv os (hist s) (mgr_fd data) 1023 = Inr bs"
    and cmd: "fst (command_of bs) = Some cmd" "cmd \<noteq> ''USER''" "cmd \<noteq> ''PASS''"
  shows "manager_read os key s = None"
proof -
  let ?s1 = "record_event (Recv (mgr_fd data) (Inr bs)) s"
  have unsent: "send_response os (mgr_fd data) msg e t = None" for msg e t
    unfolding send_response_eq [OF ok(2)] Let_def using gone by simp
  have "length bs \<le> 1023" using ok(1) recv unfolding os_ok_def by blast
  moreover have "line_of bs \<noteq> []" "bs \<noteq> []"
    using cmd(1) by (auto simp: command_of_def strtok_def line_of_def cstr_def string_of_def trim_newline_def)
  moreover have "handle_auth_command os (mgr_fd data) cmd (snd (command_of bs)) i ?s1 = None"
    using at cmd(2,3) by (simp add: handle_auth_command_def unsent)
  then have "handle_command os (mgr_fd data) (line_of bs) i ?s1 = None"
    using at out cmd(1) by (auto simp: handle_command_def command_of_def Let_def split: prod.splits)
  ultimately show ?thesis
    using at key recv by (simp add: manager_read_def sys_recv_def MANAGER_BUFFER_SIZE_def line_of_def Let_def)
qed

section \<open>A limit that wraps around\<close>

text \<open>The number times \<open>sizeof(Tuser)\<close> is 1040 modulo 2^64: one user.\<close>

lemma set_max_users_wraps:
  assumes mem: "mallocs_ok os" and pipe: "no_sigpipe os" and one: "cantUsers (users_of s) = 1"
  shows "\<exists>s'. handle_set_max_users os fd (Some ''34937015291116577'') s = Some s'
    \<and> max_users (users_of s') = 3253763105 \<and> users_cap (users_of s') = 1
    \<and> (\<forall>n p. n \<noteq> [] \<and> p \<noteq> [] \<and> \<not> has_user (users_of s') n \<longrightarrow> new_user ok (users_of s') (Some n) (Some p) = None)"
proof -
  let ?t = "(users_of s)\<lparr>users_cap := 1, max_users := 3253763105\<rparr>"
  let ?s1 = "record_event (Malloc 1040 True) s"
  have "dec_value ''34937015291116577'' = 34937015291116577" by (simp add: dec_value_def)
  then have num: "strtol ''34937015291116577'' = (34937015291116577, [])"
    using strtol_digits [of "''34937015291116577''"] by (simp add: is_digit_def)
  have alloc: "sys_malloc os 1040 s = (True, ?s1)" using mem by (simp add: sys_malloc_def mallocs_ok_def Let_def)
  have grown: "realloc_users 1040 3253763105 (users_of ?s1) = Some ?t"
    using one by (simp add: realloc_users_def sizeof_Tuser_def)
  obtain msg where *: "handle_set_max_users os fd (Some ''34937015291116577'') s = do {
      s2 \<leftarrow> send_response os fd msg False (set_users ?t ?s1); log_msg os INFO ''User array resized successfully'' s2 }"
    using num alloc grown one
    by (simp add: handle_set_max_users_def sizeof_Tuser_def Let_def del: append.simps)
  obtain s2 where s2: "send_response os fd msg False (set_users ?t ?s1) = Some s2" "users_of s2 = ?t"
    using send_response_returns [OF mem pipe, of fd msg False "set_users ?t ?s1"]
    by (auto dest: only_traceD(4))
  have "new_user ok ?t (Some n) (Some p) = None" if "n \<noteq> []" "p \<noteq> []" "\<not> has_user ?t n" for n p
  proof -
    have "\<not> 0 \<le> user_exists ?t n" using that(3) user_exists_iff by blast
    with that one show ?thesis by (simp add: new_user_def)
  qed
  with * s2 show ?thesis by (auto simp: log_msg_same)
qed

end
