(* ===== verification/Connection.thy ===== *)
theory Connection
  imports Ownership Access_Log Netutils
begin

text \<open>
  A whole connection, from the first event of an accepted client to the reply to its request:
  the handlers of \<open>negotiation.c\<close>, \<open>authentication.c\<close> and \<open>request.c\<close>, chained by the state machine
  of \<open>stm.c\<close> through the callbacks of \<open>socks5.c\<close>. Each event of a well-behaved client is one
  lemma from stage to stage; the run is their composition.
\<close>

section \<open>One event\<close>

definition client_key :: "nat \<Rightarrow> int \<Rightarrow> key" where
  "client_key i fd = \<lparr>key_fd = fd, key_data = Some (Client i)\<rparr>"

lemma client_key_simps [simp]:
  "key_fd (client_key i fd) = fd" "key_data (client_key i fd) = Some (Client i)"
  "ATTACHMENT (client_key i fd) = Some i"
  by (simp_all add: client_key_def ATTACHMENT_def)

definition enter :: "socks_v5state \<Rightarrow> client_data \<Rightarrow> client_data" where
  "enter q c = c\<lparr>stm := (stm c)\<lparr>stm_current := Some (state_id q)\<rparr>\<rparr>"

lemma client_table_entries:
  "nth_opt (client_table os a b c d) (state_id NEGOTIATION_READ) = Some ((state_entry NEGOTIATION_READ)
     \<lparr>on_arrival := Some negotiation_read_init, on_read_ready := Some (negotiation_read os)\<rparr>)"
  "nth_opt (client_table os a b c d) (state_id NEGOTIATION_WRITE) = Some ((state_entry NEGOTIATION_WRITE)
     \<lparr>on_write_ready := Some (negotiation_write os)\<rparr>)"
  "nth_opt (client_table os a b c d) (state_id AUTH_READ) = Some ((state_entry AUTH_READ)
     \<lparr>on_arrival := Some authentication_read_init, on_read_ready := Some (authentication_read os)\<rparr>)"
  "nth_opt (client_table os a b c d) (state_id AUTH_WRITE) = Some ((state_entry AUTH_WRITE)
     \<lparr>on_write_ready := Some (authentication_write os)\<rparr>)"
  "nth_opt (client_table os a b c d) (state_id REQ_READ) = Some ((state_entry REQ_READ)
     \<lparr>on_arrival := Some request_read_init, on_read_ready := Some b\<rparr>)"
  "nth_opt (client_table os a b c d) (state_id REQ_WRITE) = Some ((state_entry REQ_WRITE)
     \<lparr>on_write_ready := Some (request_write os)\<rparr>)"
  "nth_opt (client_table os a b c d) (state_id COPY) = Some ((state_entry COPY)
     \<lparr>on_read_ready := Some a, on_write_ready := Some (copy_write os)\<rparr>)"
  by (simp_all add: client_table_def state_id.simps nth_opt_def)

text \<open>A handler that asks for another state: the machine goes there, and that state's arrival runs.\<close>

lemma event_moves:
  assumes at: "client_at i s = Some c" "machine_ok c" "stm_current (stm c) = Some (state_id q)"
    and d: "nth_opt (client_table os u v w x) (state_id q) = Some d" "ready d = Some f"
    and run: "f key s = Some (state_id q', s1)" "client_at i s1 = Some c1" "stm c1 = stm c" "q' \<noteq> q"
    and d': "nth_opt (client_table os u v w x) (state_id q') = Some d'"
    and arr: "notify (on_arrival d') (sd_state d') key (set_client i (enter q' c1) s1) = Some s2"
  shows "stm_handler ready (client_table os u v w x) (client_stm i) key s = Some (state_id q', s2)"
proof -
  let ?T = "client_table os u v w x"
  have "on_departure d = None"
    using d(1) client_table_departures [of d os u v w x] by (auto simp: nth_opt_def split: if_splits)
  moreover have "stm_max_state (stm c1) = state_id SOCKS_ERROR" "stm_current (stm c1) = Some (state_id q)"
    using at(2,3) run(3) by (simp_all add: machine_ok_def)
  moreover have "state_id q' \<le> state_id SOCKS_ERROR" by (cases q') (simp_all add: state_id.simps)
  ultimately have "jump ?T (client_stm i) (state_id q') key s1 = Some s2"
    using run d(1) d' arr
    by (simp add: jump_def client_stm_get client_stm_put notify_def enter_def split: option.splits)
  moreover have "handle_first ?T (client_stm i) key s = Some s"
    using at by (simp add: handle_first_def client_stm_get)
  ultimately show ?thesis using at d run(1) by (simp add: stm_handler_def client_stm_get)
qed

text \<open>The very first event enters the initial state before it is handled.\<close>

lemma first_event:
  assumes at: "client_at i s = Some c" "stm_current (stm c) = None" "stm_initial (stm c) = state_id NEGOTIATION_READ"
    and key: "ATTACHMENT key = Some i" and h: "handshake c = Negotiation np"
  shows "stm_handler ready (client_table os u v w x) (client_stm i) key s =
    stm_handler ready (client_table os u v w x) (client_stm i) key
      (set_client i ((enter NEGOTIATION_READ c)\<lparr>handshake := Negotiation (initialize_negotiation_parser np)\<rparr>) s)"
proof -
  let ?T = "client_table os u v w x"
  let ?s = "set_client i ((enter NEGOTIATION_READ c)\<lparr>handshake := Negotiation (initialize_negotiation_parser np)\<rparr>) s"
  have "handle_first ?T (client_stm i) key s = Some ?s"
    using at key h
    by (simp add: handle_first_def client_stm_get client_stm_put client_table_entries notify_def
        negotiation_read_init_def as_neg_def enter_def state_entry_def)
      (simp add: set_client_def)
  moreover have "handle_first ?T (client_stm i) key ?s = Some ?s"
    by (simp add: handle_first_def client_stm_get enter_def)
  ultimately show ?thesis by (simp add: stm_handler_def)
qed

lemma event_goes_on:
  "q \<noteq> SOCKS_ERROR \<Longrightarrow> q \<noteq> SOCKS_DONE \<Longrightarrow> after_event os others key (state_id q, s) = Some s"
  by (simp add: after_event_def)

section \<open>Stages of the handshake\<close>

definition stands :: "nat \<Rightarrow> int \<Rightarrow> socks_v5state \<Rightarrow> client_data \<Rightarrow> st \<Rightarrow> bool" where
  "stands i fd q c s \<longleftrightarrow> client_at i s = Some c \<and> client_ok c \<and> machine_ok c
     \<and> stm_current (stm c) = Some (state_id q) \<and> client_fd c = fd \<and> origin_fd c = -1
     \<and> contents (client_to_sv c) = [] \<and> sel_inv (fst s) \<and> holds s fd i"

text \<open>Between two states client \<open>i\<close> received \<open>n\<close> times, and sent the bytes \<open>out\<close>.\<close>

definition went :: "nat \<Rightarrow> int \<Rightarrow> nat \<Rightarrow> bytes \<Rightarrow> st \<Rightarrow> st \<Rightarrow> bool" where
  "went i fd n out s s' \<longleftrightarrow> (\<exists>es. hist s' = hist s @ es \<and> recvs fd es = n \<and> sent fd es = out)
     \<and> user_tab (snd s') = user_tab (snd s) \<and> roles (fst s') = roles (fst s) \<and> fd_size (fst s') = fd_size (fst s)
     \<and> (\<forall>j. j \<noteq> i \<longrightarrow> client_at j s' = client_at j s)"

lemma quiet_recvs: "\<forall>e \<in> set h. quiet e \<Longrightarrow> recvs fd h = 0"
  by (induction h) (auto simp: recvs_def quiet_def split: event.splits)

lemma silent_recvs: "silent s s' \<Longrightarrow> recvs fd (hist s') = recvs fd (hist s)"
  using silentD(5) [of s s'] quiet_recvs by auto

lemma postD: "post P m \<Longrightarrow> m = Some x \<Longrightarrow> P x"
  by (simp add: post_def)

lemma stands_called: "stands i fd q c s \<Longrightarrow> called i (client_key i fd) c s"
  using holds_registered [of s fd i] by (auto simp: stands_def called_def)

lemma stands_size: "stands i fd q c s \<Longrightarrow> mild s s' \<Longrightarrow> fd_size (fst s') = fd_size (fst s)"
  by (simp add: stands_def mild_def)

lemma machine_ok_enter [simp]: "machine_ok c \<Longrightarrow> machine_ok (enter q c)"
  by (cases q) (auto simp: machine_ok_def enter_def current_valid_def state_id.simps)

lemma enter_simps [simp]:
  "stm_current (stm (enter q c)) = Some (state_id q)" "client_fd (enter q c) = client_fd c"
  "origin_fd (enter q c) = origin_fd c" "client_to_sv (enter q c) = client_to_sv c"
  "sv_to_client (enter q c) = sv_to_client c" "handshake (enter q c) = handshake c" "username (enter q c) = username c"
  "client_ok (enter q c) = client_ok c" "client_address (enter q c) = client_address c"
  by (simp_all add: enter_def client_ok_def)

lemma stands_next:
  assumes "stands i fd q c s" and "mild s s'" and "client_at i s' = Some c'" and "client_ok c'"
    and "stm c' = (stm c)\<lparr>stm_current := Some (state_id q')\<rparr>" and "client_fd c' = client_fd c"
    and "origin_fd c' = origin_fd c" and "contents (client_to_sv c') = []"
  shows "stands i fd q' c' s'"
proof -
  have "stm c' = stm (enter q' c)" using assms(5) by (simp add: enter_def)
  then have "machine_ok c'" using assms(1) machine_ok_cong [of c' "enter q' c"] by (simp add: stands_def)
  with assms show ?thesis by (simp add: stands_def holds_def mild_def)
qed

lemma mild_enter:
  "mild s s1 \<Longrightarrow> client_at i s1 = Some c1 \<Longrightarrow> mild s (set_client i (enter q' c1) s1)"
  using mild_set_machine [of s s1 i s1 c1 "enter q' c1"] by simp

text \<open>A message has been read, and the next state has no arrival.\<close>

lemma received_event:
  assumes at: "stands i fd q c s"
    and d: "nth_opt (client_actions os others) (state_id q) = Some d" "on_read_ready d = Some f"
    and run: "f (client_key i fd) s = Some (state_id q', s1)" "q' \<notin> {q, SOCKS_ERROR, SOCKS_DONE}" and m: "mild s s1"
    and c1: "client_at i s1 = Some c1" "same_place c (c1\<lparr>handshake := handshake c\<rparr>)" "client_ok c1" "contents (client_to_sv c1) = []"
    and d': "nth_opt (client_actions os others) (state_id q') = Some d'" "on_arrival d' = None"
  shows "\<exists>s'. socksv5_read os others (client_key i fd) s = Some s'
    \<and> stands i fd q' (enter q' c1) s' \<and> hist s' = hist s1
    \<and> user_tab (snd s') = user_tab (snd s1) \<and> fst s' = fst s1 \<and> (\<forall>j. j \<noteq> i \<longrightarrow> client_at j s' = client_at j s1)"
proof -
  let ?s' = "set_client i (enter q' c1) s1"
  from at have c: "client_at i s = Some c" "machine_ok c" "stm_current (stm c) = Some (state_id q)"
    by (auto simp: stands_def)
  have "stm_handler_read (client_actions os others) (client_stm i) (client_key i fd) s = Some (state_id q', ?s')"
    unfolding stm_handler_read_def client_actions_def
    by (rule event_moves [OF c, where f = f and key = "client_key i fd" and ready = on_read_ready,
          OF d(1) [unfolded client_actions_def] d(2) run(1) c1(1) _ _ d'(1) [unfolded client_actions_def]])
      (use run(2) c1(2) d'(2) in \<open>auto simp: notify_def same_place_def\<close>)
  then have ev: "socksv5_read os others (client_key i fd) s = Some ?s'"
    using run(2) by (simp add: socksv5_read_def event_goes_on)
  have "mild s ?s'" by (rule mild_enter [OF m c1(1)])
  then have "stands i fd q' (enter q' c1) ?s'"
    by (rule stands_next [OF at]) (use c1(2-4) in \<open>simp_all add: enter_def client_ok_def same_place_def\<close>)
  with ev show ?thesis by (intro exI [of _ ?s']) simp
qed

lemma hello_event:
  assumes ok: "os_ok os" "mallocs_ok os" and at: "stands i fd NEGOTIATION_READ c s"
    and h: "handshake c = Negotiation (initialize_negotiation_parser np)"
    and sv: "contents (sv_to_client c) = []" "2 \<le> room (sv_to_client c)"
    and ms: "length ms = unat n" "0x2 \<in> set ms"
    and rcv: "\<forall>h. recvs fd h = recvs fd (hist s) \<longrightarrow>
      os_recv os h fd (room (client_to_sv c)) = Inr (SOCKS_VERSION # n # ms)"
  shows "\<exists>s' c'. socksv5_read os others (client_key i fd) s = Some s' \<and> stands i fd NEGOTIATION_WRITE c' s'
    \<and> (\<exists>np'. handshake c' = Negotiation np' \<and> selected_method np' = PASS)
    \<and> contents (sv_to_client c') = [SOCKS_VERSION, 0x2] \<and> room (sv_to_client c) \<le> room (sv_to_client c') + 2
    \<and> room (client_to_sv c) \<le> room (client_to_sv c') + length (SOCKS_VERSION # n # ms) \<and> went i fd 1 [] s s'"
proof -
  let ?bs = "SOCKS_VERSION # n # ms"
  from at have c: "client_at i s = Some c" "client_ok c" "machine_ok c" "stm_current (stm c) = Some (state_id NEGOTIATION_READ)"
    "contents (client_to_sv c) = []" "buffer_inv (sv_to_client c)" "client_fd c = fd" "origin_fd c = -1" "holds s fd i"
    by (auto simp: stands_def client_ok_def)
  have room: "length ?bs \<le> room (client_to_sv c)" using ok(1) rcv unfolding os_ok_def by blast
  obtain np1 where f: "feed_all negotiation_feed is_negotiation_read_done (initialize_negotiation_parser np) ?bs = (np1, [])"
    "neg_state np1 = NEG_DONE" "selected_method np1 = PASS"
    using feed_hello [OF ms(1), of np "[]"] ms(2) by auto
  have fin: "is_negotiation_read_done np1" "\<not> has_errors np1"
    using f(2) by (simp_all add: is_negotiation_read_done_def has_errors_def)
  have rc: "os_recv os (hist s1) fd (room (client_to_sv c)) = Inr ?bs" if "silent s s1" for s1
    using rcv silent_recvs [OF that] by blast
  have "0 < room (client_to_sv c)" using room by simp
  from negotiation_read_spec [OF ok stands_called [OF at] h this]
  obtain s1 b3 sel' err b4 where r: "silent s s1" "buffer_inv b3" "contents b3 = []" "buf_limit b3 = buf_limit (client_to_sv c)"
    "room (client_to_sv c) - length ?bs \<le> room b3" "neg_parser_ok np1"
    "sel_inv sel'" "roles sel' = roles (fst s)"
    "generate_negotiation_response np1 (sv_to_client c) = Some (err, b4)"
    "negotiation_read os (client_key i fd) s = Some (state_id (if err then SOCKS_ERROR else NEGOTIATION_WRITE),
       set_client i (c\<lparr>client_to_sv := b3, handshake := Negotiation np1, sv_to_client := b4\<rparr>)
         (set_sel sel' (set_client i (c\<lparr>client_to_sv := b3, handshake := Negotiation np1\<rparr>)
           (record_event (Recv fd (Inr ?bs)) s1))))"
    by (elim exE conjE) (simp add: rc f(1) fin(1) c(5) Let_def, blast)
  have g: "\<not> err" "buffer_inv b4" "contents b4 = [SOCKS_VERSION, 0x2]" "room b4 = room (sv_to_client c) - 2"
    "buf_limit b4 = buf_limit (sv_to_client c)"
    using generate_negotiation_response_spec [OF c(6) sv(2) fin(2)] r(9) sv(1) f(3) by auto
  let ?c1 = "c\<lparr>client_to_sv := b3, handshake := Negotiation np1, sv_to_client := b4\<rparr>"
  let ?t = "set_sel sel' (set_client i (c\<lparr>client_to_sv := b3, handshake := Negotiation np1\<rparr>)
     (record_event (Recv fd (Inr ?bs)) s1))"
  let ?s1 = "set_client i ?c1 ?t" and ?c' = "enter NEGOTIATION_WRITE ?c1"
  have run: "negotiation_read os (client_key i fd) s = Some (state_id NEGOTIATION_WRITE, ?s1)" using r(10) g(1) by simp
  have m: "mild s ?s1" using postD [OF negotiation_read_mild run] by simp
  have ok1: "client_ok ?c1" using c(2) r g by (simp add: client_ok_def handshake_ok_def)
  have "\<exists>s'. socksv5_read os others (client_key i fd) s = Some s' \<and> stands i fd NEGOTIATION_WRITE ?c' s'
    \<and> hist s' = hist ?s1 \<and> user_tab (snd s') = user_tab (snd ?s1) \<and> fst s' = fst ?s1 \<and> (\<forall>j. j \<noteq> i \<longrightarrow> client_at j s' = client_at j ?s1)"
    by (rule received_event [OF at, where f = "negotiation_read os", OF _ _ run _ m _ _ ok1])
      (use r(3) in \<open>auto simp: client_actions_def client_table_entries state_entry_def same_place_def\<close>)
  then obtain s' where s': "socksv5_read os others (client_key i fd) s = Some s'" "stands i fd NEGOTIATION_WRITE ?c' s'"
    "hist s' = hist ?s1" "user_tab (snd s') = user_tab (snd ?s1)" "fst s' = fst ?s1"
    "\<And>j. j \<noteq> i \<Longrightarrow> client_at j s' = client_at j ?s1" by blast
  have "went i fd 1 [] s s'"
  proof -
    obtain es where "hist s1 = hist s @ es" "\<forall>e \<in> set es. quiet e" using silentD(5) [OF r(1)] by blast
    moreover have "fd_size sel' = fd_size (fst s)" using stands_size [OF at m] by simp
    ultimately show ?thesis
      using silentD(1-3) [OF r(1)] r(8) s'(3-6) quiet_traffic quiet_recvs by (fastforce simp: went_def)
  qed
  then show ?thesis using s'(1,2) f(3) g r(5) sv(2)
    by (intro exI [of _ s'] exI [of _ ?c']) auto
qed

lemma login_event:
  assumes ok: "os_ok os" "mallocs_ok os" and at: "stands i fd AUTH_READ c s"
    and h: "handshake c = Authentication (initialize_auth_parser ap)"
    and zero: "uname ap = replicate 256 0" "passwd ap = replicate 256 0"
    and sv: "contents (sv_to_client c) = []" "2 \<le> room (sv_to_client c)"
    and u: "0 \<notin> set u" "length u = unat n" and p: "0 \<notin> set p" "length p = unat m" "m \<noteq> 0"
    and rcv: "\<forall>h. recvs fd h = recvs fd (hist s) \<longrightarrow>
      os_recv os h fd (room (client_to_sv c)) = Inr (AUTH_VERSION # n # u @ m # p)"
  shows "\<exists>s' c' ap'. socksv5_read os others (client_key i fd) s = Some s' \<and> stands i fd AUTH_WRITE c' s'
    \<and> handshake c' = Authentication ap' \<and> cstr (username c') = u
    \<and> contents (sv_to_client c') = [AUTH_VERSION, auth_status_code
        (if user_login (user_tab (snd s)) (string_of u) (string_of p) = 0 then AUTHENTICATED else ACCESS_DENIED)]
    \<and> room (sv_to_client c) \<le> room (sv_to_client c') + 2
    \<and> room (client_to_sv c) \<le> room (client_to_sv c') + length (AUTH_VERSION # n # u @ m # p) \<and> went i fd 1 [] s s'"
proof -
  let ?k = "client_key i fd" and ?bs = "AUTH_VERSION # n # u @ m # p" and ?ap = "auth_result ap u m p"
  from at have c: "client_at i s = Some c" "client_ok c" "contents (client_to_sv c) = []" "buffer_inv (sv_to_client c)"
    by (auto simp: stands_def client_ok_def)
  have room: "length ?bs \<le> room (client_to_sv c)" using ok(1) rcv unfolding os_ok_def by blast
  have lens: "length u < 256" "length p < 256" using u(2) p(2) unat_u8_less by metis+
  have f: "feed_all auth_feed is_auth_done (initialize_auth_parser ap) ?bs = (?ap, [])"
    using feed_auth_request [of ap u n p m "[]"] zero u p by (simp add: wrap_total_def)
  have strs: "cstr (uname ?ap) = u" "cstr (passwd ?ap) = p"
    using auth_result_strings [of ap u m p] auth_result_passwd [of ap p u m] zero u p lens by auto
  have out: "auth_outcome t ?ap = (if user_login t (string_of u) (string_of p) = 0
      then AUTHENTICATED else ACCESS_DENIED)" for t
    by (auto simp: auth_outcome_def strs user_login_def Let_def)
  have rc: "os_recv os (hist s1) fd (room (client_to_sv c)) = Inr ?bs" if "silent s s1" for s1
    using rcv silent_recvs [OF that] by blast
  have "0 < room (client_to_sv c)" using room by simp
  from authentication_read_spec [OF ok stands_called [OF at] h this]
  obtain s1 b3 sel' err b4 name where r: "silent s s1" "buffer_inv b3" "contents b3 = []" "buf_limit b3 = buf_limit (client_to_sv c)"
    "room (client_to_sv c) - length ?bs \<le> room b3" "auth_parser_ok ?ap" "roles sel' = roles (fst s)"
    "auth_generate_response (sv_to_client c) (auth_outcome (user_tab (snd s)) ?ap) = Some (err, b4)"
    "length name = 256" "cstr name = cstr (uname ?ap)"
    "authentication_read os ?k s = Some (state_id (if err then SOCKS_ERROR else AUTH_WRITE),
       set_sel sel' (set_client i (c\<lparr>client_to_sv := b3, handshake := Authentication ?ap, username := name, sv_to_client := b4\<rparr>)
         (record_event (Recv fd (Inr ?bs)) s1)))"
    by (elim exE conjE) (simp add: rc f c(3) Let_def, blast)
  have g: "\<not> err" "buffer_inv b4" "contents b4 = [AUTH_VERSION, auth_status_code (auth_outcome (user_tab (snd s)) ?ap)]"
    "room b4 = room (sv_to_client c) - 2" "buf_limit b4 = buf_limit (sv_to_client c)"
    using auth_generate_response_spec [OF c(4) sv(2), of "auth_outcome (user_tab (snd s)) ?ap"] r(8) sv(1) by auto
  let ?c1 = "c\<lparr>client_to_sv := b3, handshake := Authentication ?ap, username := name, sv_to_client := b4\<rparr>"
  let ?s1 = "set_sel sel' (set_client i ?c1 (record_event (Recv fd (Inr ?bs)) s1))" and ?c' = "enter AUTH_WRITE ?c1"
  have run: "authentication_read os ?k s = Some (state_id AUTH_WRITE, ?s1)" using r(11) g(1) by simp
  have m: "mild s ?s1" using postD [OF authentication_read_mild run] by simp
  have ok1: "client_ok ?c1" using c(2) r g by (simp add: client_ok_def handshake_ok_def)
  have "\<exists>s'. socksv5_read os others ?k s = Some s' \<and> stands i fd AUTH_WRITE ?c' s'
    \<and> hist s' = hist ?s1 \<and> user_tab (snd s') = user_tab (snd ?s1) \<and> fst s' = fst ?s1 \<and> (\<forall>j. j \<noteq> i \<longrightarrow> client_at j s' = client_at j ?s1)"
    by (rule received_event [OF at, where f = "authentication_read os", OF _ _ run _ m _ _ ok1])
      (use r(3) in \<open>auto simp: client_actions_def client_table_entries state_entry_def same_place_def\<close>)
  then obtain s' where s': "socksv5_read os others ?k s = Some s'" "stands i fd AUTH_WRITE ?c' s'"
    "hist s' = hist ?s1" "user_tab (snd s') = user_tab (snd ?s1)" "fst s' = fst ?s1"
    "\<And>j. j \<noteq> i \<Longrightarrow> client_at j s' = client_at j ?s1" by blast
  have "went i fd 1 [] s s'"
  proof -
    obtain es where "hist s1 = hist s @ es" "\<forall>e \<in> set es. quiet e" using silentD(5) [OF r(1)] by blast
    moreover have "fd_size sel' = fd_size (fst s)" using stands_size [OF at m] by simp
    ultimately show ?thesis
      using silentD(1-3) [OF r(1)] r(7) s'(3-6) quiet_traffic quiet_recvs by (fastforce simp: went_def)
  qed
  then show ?thesis using s'(1,2) g r(5,10) sv(2) strs out
    by (intro exI [of _ s'] exI [of _ ?c'] exI [of _ ?ap]) auto
qed

text \<open>A reply is out, and the next state's parser is initialised on arrival.\<close>

lemma sent_event:
  assumes at: "stands i fd q c s"
    and d: "nth_opt (client_actions os others) (state_id q) = Some d" "on_write_ready d = Some f"
    and run: "f (client_key i fd) s = Some (state_id q', s1)" "q' \<notin> {q, SOCKS_ERROR, SOCKS_DONE}" and m: "mild s s1"
    and c1: "client_at i s1 = Some c1" "c1 = c\<lparr>sv_to_client := b\<rparr>" "client_ok c1"
    and d': "nth_opt (client_actions os others) (state_id q') = Some d'" "on_arrival d' = Some init"
    and init: "\<And>t. client_at i t = Some (enter q' c1) \<Longrightarrow>
      init (sd_state d') (client_key i fd) t = Some (set_client i ((enter q' c1)\<lparr>handshake := h\<rparr>) t)"
    and h: "handshake_ok h"
  shows "\<exists>s'. socksv5_write os others (client_key i fd) s = Some s'
    \<and> stands i fd q' ((enter q' c1)\<lparr>handshake := h\<rparr>) s' \<and> hist s' = hist s1
    \<and> user_tab (snd s') = user_tab (snd s1) \<and> fst s' = fst s1 \<and> (\<forall>j. j \<noteq> i \<longrightarrow> client_at j s' = client_at j s1)"
proof -
  let ?c' = "(enter q' c1)\<lparr>handshake := h\<rparr>"
  let ?t = "set_client i (enter q' c1) s1"
  let ?s' = "set_client i ?c' ?t"
  from at have c: "client_at i s = Some c" "machine_ok c" "stm_current (stm c) = Some (state_id q)"
    by (auto simp: stands_def)
  have "stm_handler_write (client_actions os others) (client_stm i) (client_key i fd) s = Some (state_id q', ?s')"
    unfolding stm_handler_write_def client_actions_def
    by (rule event_moves [OF c, where f = f and key = "client_key i fd" and ready = on_write_ready,
          OF d(1) [unfolded client_actions_def] d(2) run(1) c1(1) _ _ d'(1) [unfolded client_actions_def]])
      (use run(2) c1(2) d'(2) init in \<open>auto simp: notify_def\<close>)
  then have ev: "socksv5_write os others (client_key i fd) s = Some ?s'"
    using run(2) by (simp add: socksv5_write_def event_goes_on)
  have "mild s ?t" by (rule mild_enter [OF m c1(1)])
  then have "mild s ?s'" using mild_set_client [of s ?t i ?t "enter q' c1" ?c'] by simp
  then have "stands i fd q' ?c' ?s'"
    by (rule stands_next [OF at]) (use at c1(2,3) h in \<open>simp_all add: stands_def enter_def client_ok_def\<close>)
  with ev show ?thesis by (intro exI [of _ ?s']) simp
qed

lemma method_sent_event:
  assumes ok: "os_ok os" "mallocs_ok os" and at: "stands i fd NEGOTIATION_WRITE c s"
    and np: "handshake c = Negotiation np" "selected_method np = PASS"
    and out: "contents (sv_to_client c) = out" "out \<noteq> []" "\<forall>h. os_send os h fd out = Inr (length out)"
  shows "\<exists>s' c' ap. socksv5_write os others (client_key i fd) s = Some s' \<and> stands i fd AUTH_READ c' s'
    \<and> handshake c' = Authentication (initialize_auth_parser ap) \<and> uname ap = replicate 256 0 \<and> passwd ap = replicate 256 0
    \<and> contents (sv_to_client c') = [] \<and> room (sv_to_client c) \<le> room (sv_to_client c')
    \<and> client_to_sv c' = client_to_sv c \<and> went i fd 0 out s s'"
proof -
  let ?k = "client_key i fd"
  from negotiation_write_spec [OF ok stands_called [OF at] np(1)] obtain s1 t c1 where
    r: "silent s s1" "negotiation_write os ?k s = Some (state_id AUTH_READ, t)"
      "hist t = hist s1 @ [Send fd out (Inr (length out))]" "user_tab (snd t) = user_tab (snd s)" "keeps i s t"
      "client_at i t = Some c1" "c1 = c\<lparr>sv_to_client := sv_to_client c1\<rparr>"
      "room (sv_to_client c) \<le> room (sv_to_client c1)" "contents (sv_to_client c1) = []"
    using out np(2) by (elim exE conjE) (simp, blast)
  obtain ap where ap: "as_auth (handshake c1) = Some ap" "uname ap = replicate 256 0" "passwd ap = replicate 256 0"
    using r(7) np(1) by (cases c, cases c1) (auto simp: as_auth_def)
  let ?h = "Authentication (initialize_auth_parser ap)"
  have cok: "client_ok c1" using r(5,6) by (auto simp: keeps_def)
  have "auth_parser_ok (initialize_auth_parser ap)"
    using ap(2,3) by (simp add: auth_parser_ok_def initialize_auth_parser_def)
  then have "handshake_ok ?h" by (simp add: handshake_ok_def)
  let ?c' = "(enter AUTH_READ c1)\<lparr>handshake := ?h\<rparr>"
  have m: "mild s t" using postD [OF negotiation_write_mild r(2)] by simp
  have "\<exists>s'. socksv5_write os others ?k s = Some s' \<and> stands i fd AUTH_READ ?c' s'
    \<and> hist s' = hist t \<and> user_tab (snd s') = user_tab (snd t) \<and> fst s' = fst t \<and> (\<forall>j. j \<noteq> i \<longrightarrow> client_at j s' = client_at j t)"
    by (rule sent_event [OF at, where f = "negotiation_write os" and init = authentication_read_init,
          OF _ _ r(2) _ m r(6,7) cok _ _ _ \<open>handshake_ok ?h\<close>])
      (use ap(1) in \<open>auto simp: client_actions_def client_table_entries state_entry_def authentication_read_init_def\<close>)
  then obtain s' where s': "socksv5_write os others ?k s = Some s'" "stands i fd AUTH_READ ?c' s'"
    "hist s' = hist t" "user_tab (snd s') = user_tab (snd t)" "fst s' = fst t" "\<And>j. j \<noteq> i \<Longrightarrow> client_at j s' = client_at j t"
    by blast
  have "went i fd 0 out s s'"
  proof -
    obtain es where "hist s1 = hist s @ es" "\<forall>e \<in> set es. quiet e" using silentD(5) [OF r(1)] by blast
    moreover have "fd_size (fst t) = fd_size (fst s)" using stands_size [OF at m] .
    ultimately show ?thesis
      using r(3-5) s'(3-6) quiet_traffic quiet_recvs by (fastforce simp: went_def keeps_def)
  qed
  moreover have "client_to_sv c1 = client_to_sv c" using arg_cong [OF r(7), of client_to_sv] by simp
  ultimately show ?thesis using s'(1,2) ap(2,3) r(8,9)
    by (intro exI [of _ s'] exI [of _ ?c'] exI [of _ ap]) simp
qed

text \<open>Nothing is asked about what the reply said.\<close>

lemma verdict_sent_event:
  assumes ok: "os_ok os" "mallocs_ok os" and at: "stands i fd AUTH_WRITE c s"
    and ap: "handshake c = Authentication ap"
    and out: "contents (sv_to_client c) = out" "out \<noteq> []" "\<forall>h. os_send os h fd out = Inr (length out)"
  shows "\<exists>s' c' rp. socksv5_write os others (client_key i fd) s = Some s' \<and> stands i fd REQ_READ c' s'
    \<and> handshake c' = Request (initialize_request_parser rp)
    \<and> length (addr_buffer (req_address rp)) = 256 \<and> length (address_class (req_address rp)) = 256
    \<and> contents (sv_to_client c') = [] \<and> room (sv_to_client c) \<le> room (sv_to_client c')
    \<and> client_to_sv c' = client_to_sv c \<and> username c' = username c \<and> went i fd 0 out s s'"
proof -
  let ?k = "client_key i fd"
  from authentication_write_spec [OF ok stands_called [OF at]] obtain s1 t c1 where
    r: "silent s s1" "authentication_write os ?k s = Some (state_id REQ_READ, t)"
      "hist t = hist s1 @ [Send fd out (Inr (length out))]" "user_tab (snd t) = user_tab (snd s)" "keeps i s t"
      "client_at i t = Some c1" "c1 = c\<lparr>sv_to_client := sv_to_client c1\<rparr>"
      "room (sv_to_client c) \<le> room (sv_to_client c1)" "contents (sv_to_client c1) = []"
    using out by (elim exE conjE) (simp, blast)
  have h1: "handshake c1 = Authentication ap" using arg_cong [OF r(7), of handshake] ap by simp
  have cok: "client_ok c1" using r(5,6) by (auto simp: keeps_def)
  then have "length (uname ap) = 256" "length (passwd ap) = 256"
    by (simp_all add: client_ok_def handshake_ok_def h1 auth_parser_ok_def)
  then obtain rp where rp: "as_req (handshake c1) = Some rp" "length (addr_buffer (req_address rp)) = 256"
    "length (address_class (req_address rp)) = 256"
    by (simp add: as_req_def h1 Let_def)
  let ?h = "Request (initialize_request_parser rp)"
  have hok: "handshake_ok ?h" using initialize_request_ok [OF rp(3,2)] by (simp add: handshake_ok_def)
  let ?c' = "(enter REQ_READ c1)\<lparr>handshake := ?h\<rparr>"
  have m: "mild s t" using postD [OF authentication_write_mild r(2)] by simp
  have "\<exists>s'. socksv5_write os others ?k s = Some s' \<and> stands i fd REQ_READ ?c' s'
    \<and> hist s' = hist t \<and> user_tab (snd s') = user_tab (snd t) \<and> fst s' = fst t \<and> (\<forall>j. j \<noteq> i \<longrightarrow> client_at j s' = client_at j t)"
    by (rule sent_event [OF at, where f = "authentication_write os" and init = request_read_init,
          OF _ _ r(2) _ m r(6,7) cok _ _ _ hok])
      (use rp(1) in \<open>auto simp: client_actions_def client_table_entries state_entry_def request_read_init_def\<close>)
  then obtain s' where s': "socksv5_write os others ?k s = Some s'" "stands i fd REQ_READ ?c' s'"
    "hist s' = hist t" "user_tab (snd s') = user_tab (snd t)" "fst s' = fst t" "\<And>j. j \<noteq> i \<Longrightarrow> client_at j s' = client_at j t"
    by blast
  have "went i fd 0 out s s'"
  proof -
    obtain es where "hist s1 = hist s @ es" "\<forall>e \<in> set es. quiet e" using silentD(5) [OF r(1)] by blast
    moreover have "fd_size (fst t) = fd_size (fst s)" using stands_size [OF at m] .
    ultimately show ?thesis
      using r(3-5) s'(3-6) quiet_traffic quiet_recvs by (fastforce simp: went_def keeps_def)
  qed
  moreover have "client_to_sv c1 = client_to_sv c" "username c1 = username c"
    using arg_cong [OF r(7), of client_to_sv] arg_cong [OF r(7), of username] by simp_all
  ultimately show ?thesis using s'(1,2) rp(2,3) r(8,9)
    by (intro exI [of _ s'] exI [of _ ?c'] exI [of _ rp]) simp
qed

section \<open>Connecting to the address asked for\<close>

text \<open>The system lets a socket \<open>fd\<close> be made and connected in the background.\<close>

definition connects :: "os \<Rightarrow> int \<Rightarrow> addrinfo \<Rightarrow> bool" where
  "connects os fd a \<longleftrightarrow> (\<forall>h. os_socket os h (ai_family a) (ai_socktype a) (ai_protocol a) = Some fd)
     \<and> (\<forall>h. \<exists>fl. os_getfd os h fd = Some fl \<and> os_setfl os h fd (fl OR O_NONBLOCK))
     \<and> (\<forall>h. os_connect os h fd (ai_addr a) = Some EINPROGRESS)"

definition vacant :: "int \<Rightarrow> st \<Rightarrow> bool" where
  "vacant fd s \<longleftrightarrow> 0 \<le> fd \<and> fd < int ITEMS_MAX_SIZE \<and> nat fd < fd_size (fst s) \<and> roles (fst s) fd = None"

lemma initiate_in_progress:
  assumes mem: "mallocs_ok os" and con: "connects os fd a" and fd: "vacant fd s"
    and at: "client_at i s = Some c" "origin_fd c = -1" and inv: "sel_inv (fst s)" and key: "roles (fst s) (key_fd key) \<noteq> None"
  shows "\<exists>s' es. initiate_from unregister os key i (a # as) s = Some (state_id REQ_CONNECT, s')
    \<and> client_at i s' = Some (c\<lparr>origin_fd := fd\<rparr>) \<and> sel_inv (fst s')
    \<and> roles (fst s') = (roles (fst s))(fd \<mapsto> (Some SOCKS5_HANDLER, Some (Client i)))
    \<and> interest_of s' fd = Some OP_WRITE \<and> interest_of s' (key_fd key) = Some OP_NOOP
    \<and> hist s' = hist s @ es \<and> (\<forall>e \<in> set es. quiet e) \<and> user_tab (snd s') = user_tab (snd s)
    \<and> (\<forall>j. j \<noteq> i \<longrightarrow> client_at j s' = client_at j s)"
proof -
  let ?r1 = "record_event (Socket (ai_family a) (ai_socktype a) (ai_protocol a) (Some fd)) s"
  let ?s3 = "set_client i (c\<lparr>origin_fd := fd\<rparr>) ?r1"
  let ?s4 = "record_event (Set_nio fd 0) ?s3"
  let ?t4 = "record_event (Malloc element_size True) ?s4"
  have sys: "sys_socket os a s = (Some fd, ?r1)" "sys_set_nio os fd ?s3 = (0, ?s4)"
    "sys_malloc os element_size ?s4 = (True, ?t4)"
    using con mem by (auto simp: connects_def sys_socket_def sys_set_nio_def selector_fd_set_nio_def Let_def
        sys_malloc_def mallocs_ok_def split: option.splits)
      (metis option.inject)+
  have free: "registered (fst s) fd = None" using fd by (simp add: vacant_def roles_def)
  obtain sel5 where 5: "selector_register True (fst s) fd (Some SOCKS5_HANDLER) OP_NOOP (Some (Client i))
      = Some (SELECTOR_SUCCESS, sel5)" "sel_inv sel5"
    "registered sel5 = (registered (fst s))(fd \<mapsto> new_item fd (Some SOCKS5_HANDLER) OP_NOOP (Some (Client i)))"
    using selector_register_in_table(2) [of "fst s" fd "Some SOCKS5_HANDLER" True OP_NOOP "Some (Client i)"]
      inv fd free by (auto simp: vacant_def)
  let ?s5 = "set_sel sel5 ?t4"
  have reg: "register os fd SOCKS5_HANDLER OP_NOOP (Some (Client i)) ?s4 = Some (SELECTOR_SUCCESS, ?s5)"
    using sys(3) 5(1) by (simp add: register_def)
  let ?s6 = "record_event (Connect fd (ai_addr a) (Some EINPROGRESS)) ?s5"
  have con6: "sys_connect os fd (ai_addr a) ?s5 = (Some EINPROGRESS, ?s6)"
    using con by (simp add: connects_def sys_connect_def Let_def)
  obtain sel7 where 7: "set_interest fd OP_WRITE ?s6 = Some (SELECTOR_SUCCESS, set_sel sel7 ?s6)" "sel_inv sel7"
    "registered sel7 = (registered sel5)(fd \<mapsto> (new_item fd (Some SOCKS5_HANDLER) OP_NOOP (Some (Client i)))\<lparr>item_interest := OP_WRITE\<rparr>)"
    "roles sel7 = roles sel5"
    using set_interest_here [of ?s6 fd _ OP_WRITE] 5(2,3) by auto
  let ?s7 = "set_sel sel7 ?s6"
  have kf: "key_fd key \<noteq> fd" using key fd by (auto simp: vacant_def)
  obtain itk where itk: "registered sel7 (key_fd key) = Some itk"
    using key kf 5(3) 7(3) by (auto simp: roles_def)
  obtain sel8 where 8: "set_interest (key_fd key) OP_NOOP ?s7 = Some (SELECTOR_SUCCESS, set_sel sel8 ?s7)" "sel_inv sel8"
    "registered sel8 = (registered sel7)(key_fd key \<mapsto> itk\<lparr>item_interest := OP_NOOP\<rparr>)" "roles sel8 = roles sel7"
    using set_interest_here [of ?s7 "key_fd key" itk OP_NOOP] 7(2) itk by auto
  let ?s8 = "set_sel sel8 ?s7"
  have k8: "set_interest_key key OP_NOOP ?s7 = Some (SELECTOR_SUCCESS, ?s8)"
    using 8(1) by (simp add: set_interest_key_def selector_set_interest_key_eq set_interest_def)
  have "drop_origin unregister i s = Some s" using at by (simp add: drop_origin_def)
  then have "initiate_from unregister os key i (a # as) s = Some (state_id REQ_CONNECT, ?s8)"
    using at(1) sys(1,2) reg con6 7(1) k8 by (simp add: Let_def)
  moreover have "roles sel8 = (roles (fst s))(fd \<mapsto> (Some SOCKS5_HANDLER, Some (Client i)))"
    unfolding 8(4) 7(4) by (simp add: roles_def 5(3) new_item_def fun_eq_iff)
  moreover have "interest_of ?s8 fd = Some OP_WRITE" "interest_of ?s8 (key_fd key) = Some OP_NOOP"
    using 7(3) 8(3) kf by (auto simp: interest_of_def)
  ultimately show ?thesis using 8(2)
    by (intro exI [of _ ?s8] exI [of _ "[Socket (ai_family a) (ai_socktype a) (ai_protocol a) (Some fd), Set_nio fd 0,
        Malloc element_size True, Connect fd (ai_addr a) (Some EINPROGRESS)]"]) (simp add: quiet_def)
qed

text \<open>The address a request for type \<open>t\<close>, bytes \<open>a\<close> and port \<open>p\<close> is connected to.\<close>

definition target :: "u32 \<Rightarrow> bytes \<Rightarrow> u16 \<Rightarrow> addrinfo" where
  "target t a p = \<lparr>ai_family = (if t = IPV4 then AF_INET else AF_INET6), ai_socktype = SOCK_STREAM, ai_protocol = 0,
     ai_addr = (if t = IPV4 then Sockaddr_in a (htons p) else Sockaddr_in6 a (htons p))\<rparr>"

lemma handle_request_ip:
  assumes mem: "mallocs_ok os" and key: "ATTACHMENT key = Some i" and at: "client_at i s = Some c"
    and h: "handshake c = Request rp" "request_read_as rp t a p"
    and t: "(t = IPV4 \<and> length a = 4) \<or> (t = IPV6 \<and> length a = 16)"
  shows "\<exists>s' es. handle_request unregister os key s = initiate_from unregister os key i [target t a p] s'
    \<and> client_at i s' = Some (c\<lparr>origin_addr := [target t a p], current_origin_addr := [target t a p]\<rparr>)
    \<and> fst s' = fst s \<and> hist s' = hist s @ es \<and> (\<forall>e \<in> set es. quiet e) \<and> user_tab (snd s') = user_tab (snd s)
    \<and> (\<forall>j. j \<noteq> i \<longrightarrow> client_at j s' = client_at j s)"
proof -
  let ?c = "c\<lparr>origin_addr := [target t a p], current_origin_addr := [target t a p]\<rparr>"
  let ?n = "if t = IPV4 then 16 else 28 :: nat"
  let ?s' = "set_client i ?c (record_event (Malloc 48 True) (record_event (Malloc ?n True) s))"
  have mal: "sys_malloc os n t = (True, record_event (Malloc n True) t)" for n t
    using mem by (simp add: sys_malloc_def mallocs_ok_def Let_def)
  have "t \<noteq> IPV4 \<Longrightarrow> t = IPV6" using t by blast
  then have "handle_request unregister os key s = initiate_from unregister os key i [target t a p] ?s'"
    using h t key at mal
    by (auto simp: handle_request_def connect_to_ip_def initiate_origin_connection_def the_req_def Let_def target_def
        request_read_as_def addr_ipv4_def addr_ipv6_def simp del: initiate_from.simps)
  then show ?thesis
    by (intro exI [of _ ?s'] exI [of _ "[Malloc ?n True, Malloc 48 True]"]) (simp add: quiet_def)
qed

lemma request_event:
  assumes ok: "os_ok os" "mallocs_ok os" and at: "stands i fd REQ_READ c s"
    and h: "handshake c = Request (initialize_request_parser rp)"
    and len: "length (addr_buffer (req_address rp)) = 256" "length (address_class (req_address rp)) = 256"
    and t: "(t = IPV4 \<and> length a = 4) \<or> (t = IPV6 \<and> length a = 16)"
    and con: "connects os ofd (target t a p)" and free: "vacant ofd s"
    and rcv: "\<forall>h. recvs fd h = recvs fd (hist s) \<longrightarrow> os_recv os h fd (room (client_to_sv c))
      = Inr (PROTOCOL_VERSION # CONNECT # RSV # ucast t # a @ htons p)"
  shows "\<exists>s' c' es rp'. socksv5_read os others (client_key i fd) s = Some s' \<and> awaits i (client_key i ofd) c' s'
    \<and> client_fd c' = fd \<and> origin_fd c' = ofd \<and> sv_to_client c' = sv_to_client c \<and> username c' = username c
    \<and> interest_of s' ofd = Some OP_WRITE \<and> interest_of s' fd = Some OP_NOOP
    \<and> handshake c' = Request rp' \<and> request_read_as rp' t a p \<and> length (address_class (req_address rp')) = 256
    \<and> client_address c' = client_address c
    \<and> hist s' = hist s @ es \<and> recvs fd es = 1 \<and> sent fd es = [] \<and> user_tab (snd s') = user_tab (snd s)
    \<and> (\<forall>j. j \<noteq> i \<longrightarrow> client_at j s' = client_at j s)"
proof -
  let ?k = "client_key i fd" and ?bs = "PROTOCOL_VERSION # CONNECT # RSV # ucast t # a @ htons p"
  let ?un = "unregister_fd os others"
  from at have c: "client_at i s = Some c" "machine_ok c" "stm_current (stm c) = Some (state_id REQ_READ)"
    "client_ok c" "contents (client_to_sv c) = []" "buffer_inv (client_to_sv c)" "client_fd c = fd" "origin_fd c = -1"
    "holds s fd i" "sel_inv (fst s)" by (auto simp: stands_def client_ok_def)
  have room: "length ?bs \<le> room (client_to_sv c)" using ok(1) rcv unfolding os_ok_def by blast
  let ?s1 = "record_event (Recv fd (Inr ?bs)) s"
  have rc: "os_recv os (hist s) fd (room (client_to_sv c)) = Inr ?bs" using rcv by blast
  obtain b1 b2 where b: "recv_buf os fd (client_to_sv c) (room (client_to_sv c)) s = Some (Inr (length ?bs, b1), ?s1)"
    "buffer_write_adv b1 (int (length ?bs)) = Some b2" "buffer_inv b2" "contents b2 = ?bs"
    "buf_limit b2 = buf_limit (client_to_sv c)"
    using recv_buf_spec [OF ok(1) c(6), of fd s] rc c(5) by auto
  obtain rp1 where f: "feed_all req_feed is_req_done (initialize_request_parser rp) ?bs = (rp1, [])" "request_read_as rp1 t a p"
    using feed_request_ip [OF len t, of p "[]"] by auto
  obtain b3 where b3: "req_parse (initialize_request_parser rp) b2 = Some (rp1, b3)" "buffer_inv b3" "contents b3 = []"
    "buf_limit b3 = buf_limit (client_to_sv c)"
    using req.loop_result [OF b(3), of "initialize_request_parser rp" rp1 "[]"] f(1) b(4,5) by auto
  have "req_parser_ok (initialize_request_parser rp)" using len by (simp add: initialize_request_ok)
  then have rok: "req_parser_ok rp1"
    using req.loop_invariant [of req_parser_ok, OF _ b(3) _ b3(1)] req_feed_ok by blast
  have fin: "is_req_done rp1" "\<not> req_has_error rp1"
    using f(2) by (auto simp: request_read_as_def is_req_done_def req_has_error_def)
  let ?c1 = "c\<lparr>client_to_sv := b3, handshake := Request rp1\<rparr>"
  let ?s2 = "set_client i ?c1 ?s1"
  have "buffer_can_write (client_to_sv c)" using room by (simp add: buffer_can_write_iff)
  then have rd: "request_read ?un os ?k s = handle_request ?un os ?k ?s2"
    using c(1) b(1,2) b3(1) fin h
    by (simp add: request_read_def log_msg_id buffer_write_ptr_spec [OF c(6)] the_req_def Let_def)
  obtain s3 es3 where s3: "handle_request ?un os ?k ?s2 = initiate_from ?un os ?k i [target t a p] s3"
    "client_at i s3 = Some (?c1\<lparr>origin_addr := [target t a p], current_origin_addr := [target t a p]\<rparr>)"
    "fst s3 = fst ?s2" "hist s3 = hist ?s2 @ es3" "\<forall>e \<in> set es3. quiet e" "user_tab (snd s3) = user_tab (snd ?s2)"
    "\<And>j. j \<noteq> i \<Longrightarrow> client_at j s3 = client_at j ?s2"
    using handle_request_ip [where key = ?k and c = ?c1 and s = ?s2 and unregister = ?un, OF ok(2) client_key_simps(3) _ _ f(2) t] by auto
  let ?c3 = "?c1\<lparr>origin_addr := [target t a p], current_origin_addr := [target t a p]\<rparr>"
  have "vacant ofd s3" using free s3(3) by (simp add: vacant_def)
  moreover have "roles (fst s3) (key_fd ?k) \<noteq> None" using c(9) s3(3) by (simp add: holds_def)
  ultimately obtain s4 es4 where s4: "initiate_from ?un os ?k i [target t a p] s3 = Some (state_id REQ_CONNECT, s4)"
    "client_at i s4 = Some (?c3\<lparr>origin_fd := ofd\<rparr>)" "sel_inv (fst s4)"
    "roles (fst s4) = (roles (fst s3))(ofd \<mapsto> (Some SOCKS5_HANDLER, Some (Client i)))"
    "interest_of s4 ofd = Some OP_WRITE" "interest_of s4 fd = Some OP_NOOP"
    "hist s4 = hist s3 @ es4" "\<forall>e \<in> set es4. quiet e" "user_tab (snd s4) = user_tab (snd s3)"
    "\<And>j. j \<noteq> i \<Longrightarrow> client_at j s4 = client_at j s3"
    using initiate_in_progress [where unregister = ?un and key = ?k and as = "[]", OF ok(2) con _ s3(2)] c(8,10) s3(3) by fastforce
  let ?c4 = "?c3\<lparr>origin_fd := ofd\<rparr>"
  let ?c' = "enter REQ_CONNECT ?c4" and ?s' = "set_client i (enter REQ_CONNECT ?c4) s4"
  have run: "request_read ?un os ?k s = Some (state_id REQ_CONNECT, s4)" using rd s3(1) s4(1) by simp
  have "stm_handler_read (client_actions os others) (client_stm i) ?k s = Some (state_id REQ_CONNECT, ?s')"
    unfolding stm_handler_read_def client_actions_def
    by (rule event_moves [OF c(1-3), where f = "request_read ?un os" and key = ?k, OF _ _ run s4(2)])
      (auto simp: client_table_entries client_table_connect state_entry_def notify_def)
  then have ev: "socksv5_read os others ?k s = Some ?s'" by (simp add: socksv5_read_def event_goes_on)
  have "fd \<noteq> ofd" using free c(9) by (auto simp: vacant_def holds_def)
  moreover have "0 \<le> ofd" using free by (simp add: vacant_def)
  moreover have "0 \<le> fd" using holds_registered [OF c(9)] registered_SomeD [of "fst s" fd] by blast
  moreover have "machine_ok ?c4" using c(2) machine_ok_cong [of ?c4 c] by simp
  ultimately have "awaits i (client_key i ofd) ?c' ?s'"
    using s4(3,4) s3(3) c(4,7,9) by (auto simp: awaits_def owns_def holds_def client_ok_def)
  moreover have "recvs fd (Recv fd (Inr ?bs) # es3 @ es4) = 1" "sent fd (Recv fd (Inr ?bs) # es3 @ es4) = []"
    using s3(5) s4(8) quiet_traffic quiet_recvs by simp_all
  moreover have "hist ?s' = hist s @ Recv fd (Inr ?bs) # es3 @ es4" using s3(4) s4(7) by simp
  moreover have "length (address_class (req_address rp1)) = 256" using rok by (simp add: req_parser_ok_def)
  moreover have "handshake ?c' = Request rp1" by simp
  ultimately show ?thesis using ev s4(5,6,9,10) s3(6,7) c(7) f(2)
    by (intro exI [of _ ?s'] exI [of _ ?c'] exI [of _ "Recv fd (Inr ?bs) # es3 @ es4"] exI [of _ rp1])
      (simp add: interest_of_def)
qed

text \<open>The origin has answered: the reply is queued, and the client is to be written to.\<close>

lemma connected_event:
  assumes aw: "awaits i (client_key i ofd) c s" and h: "handshake c = Request rp"
    and room: "contents (sv_to_client c) = []" "22 \<le> room (sv_to_client c)"
    and ok: "\<forall>h. os_getsockopt os h ofd = Some 0" "\<forall>h. os_getsockname os h ofd = Some bnd"
    and bnd: "bnd = Sockaddr_in a (htons p) \<and> length a = 4 \<or> bnd = Sockaddr_in6 a (htons p) \<and> length a = 16"
  shows "\<exists>s' c' es. socksv5_write os others (client_key i ofd) s = Some s' \<and> client_at i s' = Some c'
    \<and> stm_current (stm c') = Some (state_id REQ_WRITE) \<and> client_fd c' = client_fd c \<and> origin_fd c' = ofd
    \<and> handshake c' = Request (rp\<lparr>con_status := CON_SUCCEEDED\<rparr>) \<and> client_address c' = client_address c \<and> machine_ok c' \<and> buffer_inv (sv_to_client c') \<and> sel_inv (fst s') \<and> roles (fst s') = roles (fst s)
    \<and> username c' = username c \<and> reply_fields (contents (sv_to_client c')) = Some (0, if length a = 4 then 1 else 4, a, p)
    \<and> interest_of s' (client_fd c) = Some OP_WRITE \<and> interest_of s' ofd = Some OP_READ
    \<and> hist s' = hist s @ es \<and> (\<forall>e \<in> set es. quiet e) \<and> user_tab (snd s') = user_tab (snd s)
    \<and> (\<forall>j. j \<noteq> i \<longrightarrow> client_at j s' = client_at j s)"
proof -
  let ?k = "client_key i ofd" and ?un = "unregister_fd os others"
  from aw have c: "client_at i s = Some c" "machine_ok c" "stm_current (stm c) = Some (state_id REQ_CONNECT)"
    "origin_fd c = ofd" by (auto simp: awaits_def owns_def)
  obtain s1 c1 es where r: "request_connect ?un os ?k s = Some (state_id REQ_WRITE, s1)" "client_at i s1 = Some c1"
    "reply_fields (contents (sv_to_client c1)) = Some (0, if length a = 4 then 1 else 4, a, p)"
    "interest_of s1 (client_fd c) = Some OP_WRITE" "interest_of s1 (origin_fd c) = Some OP_READ"
    "origin_fd c1 = origin_fd c" "client_fd c1 = client_fd c" "stm c1 = stm c" "username c1 = username c"
    "handshake c1 = Request (rp\<lparr>con_status := CON_SUCCEEDED\<rparr>)" "client_address c1 = client_address c" "buffer_inv (sv_to_client c1)" "sel_inv (fst s1)" "roles (fst s1) = roles (fst s)"
    "hist s1 = hist s @ es" "\<forall>e \<in> set es. quiet e" "user_tab (snd s1) = user_tab (snd s)"
    "\<And>j. j \<noteq> i \<Longrightarrow> client_at j s1 = client_at j s"
    using connect_established_spec [where os = os and bnd = bnd and unregister = ?un, OF aw room _ _ bnd] ok c(4) h by auto
  let ?s' = "set_client i (enter REQ_WRITE c1) s1"
  have "stm_handler_write (client_actions os others) (client_stm i) ?k s = Some (state_id REQ_WRITE, ?s')"
    unfolding stm_handler_write_def client_actions_def
    by (rule event_moves [OF c(1-3), where f = "request_connect ?un os" and key = ?k, OF _ _ r(1,2,8)])
      (auto simp: client_table_entries client_table_connect state_entry_def notify_def)
  then have "socksv5_write os others ?k s = Some ?s'" by (simp add: socksv5_write_def event_goes_on)
  moreover have "machine_ok c1" using machine_ok_cong [of c1 c] c(2) r(8) by simp
  moreover note r c(4)
  ultimately show ?thesis
    by (intro exI [of _ ?s'] exI [of _ "enter REQ_WRITE c1"] exI [of _ es]) (simp add: interest_of_def)
qed

text \<open>The reply is read by the client, and a line goes to the user's access log.\<close>

definition replies :: "nat \<Rightarrow> int \<Rightarrow> client_data \<Rightarrow> req_parser \<Rightarrow> st \<Rightarrow> bool" where
  "replies i fd c rp s \<longleftrightarrow> client_at i s = Some c \<and> machine_ok c \<and> stm_current (stm c) = Some (state_id REQ_WRITE)
     \<and> handshake c = Request rp \<and> buffer_inv (sv_to_client c) \<and> contents (sv_to_client c) \<noteq> []
     \<and> length (username c) = 256 \<and> length (address_class (req_address rp)) = 256 \<and> atyp rp \<in> {IPV4, IPV6}
     \<and> sel_inv (fst s) \<and> holds s fd i"

lemma relay_event:
  assumes ok: "mallocs_ok os" and at: "replies i fd c rp s" and name: "cstr (username c) = u" "length u < 256"
    and hears: "\<forall>h. os_send os h fd (contents (sv_to_client c)) = Inr (length (contents (sv_to_client c)))"
    and known: "lookup (user_tab (snd s)) (string_of u) = Some v" "u_access v = Some sb" "sb_small sb" "sb_length sb < 2 ^ 61"
    and prints: "prints_ok os"
  shows "\<exists>s' c' es h sb'. socksv5_write os others (client_key i fd) s = Some s' \<and> client_at i s' = Some c'
    \<and> stm_current (stm c') = Some (state_id COPY) \<and> origin_fd c' = origin_fd c \<and> contents (sv_to_client c') = []
    \<and> interest_of s' fd = Some OP_READ \<and> (\<forall>x. x \<noteq> fd \<longrightarrow> interest_of s' x = interest_of s x)
    \<and> hist s' = hist s @ es \<and> sent fd es = contents (sv_to_client c)
    \<and> user_tab (snd s') = store_access (string_of u) sb' (user_tab (snd s))
    \<and> sb_text sb' = sb_text sb @ access_line os (os_time os h) c' rp \<and> cstr (username c') = u
    \<and> (\<forall>j. j \<noteq> i \<longrightarrow> client_at j s' = client_at j s)"
proof -
  let ?k = "client_key i fd" and ?out = "contents (sv_to_client c)"
  from at have c: "client_at i s = Some c" "machine_ok c" "stm_current (stm c) = Some (state_id REQ_WRITE)"
    "handshake c = Request rp" "buffer_inv (sv_to_client c)" "?out \<noteq> []" "length (username c) = 256"
    "length (address_class (req_address rp)) = 256" "atyp rp \<noteq> DN" "sel_inv (fst s)" "holds s fd i"
    by (auto simp: replies_def IPV4_def IPV6_def DN_def)
  have t: "terminated (username c)"
    using name c(7) by (intro terminated_cstr) simp
  have "sb_length sb + length (access_line os (os_time os h) c rp) < 2 ^ 62" for h
    using access_line_length [where h = h, OF prints _ c(9,8), of c] name known(4) by simp
  then have len: "\<forall>h. sb_length sb + length (access_line os (os_time os h) c rp) < 2 ^ 62" ..
  obtain b sel' it where r: "request_write os ?k s = log_access os (c\<lparr>sv_to_client := b\<rparr>) rp
        (set_sel sel' (set_client i (c\<lparr>sv_to_client := b\<rparr>) (record_event (Send fd ?out (Inr (length ?out))) s)))
        \<bind> (\<lambda>s. Some (state_id COPY, s))"
    "contents b = []" "registered sel' = (registered (fst s))(fd \<mapsto> it\<lparr>item_interest := OP_READ\<rparr>)"
    using request_write_sent [where key = ?k, OF c(1,4,5,10,11) refl c(6) hears] by auto
  let ?c1 = "c\<lparr>sv_to_client := b\<rparr>"
  let ?s1 = "set_sel sel' (set_client i ?c1 (record_event (Send fd ?out (Inr (length ?out))) s))"
  have line: "access_line os tm ?c1 rp = access_line os tm c rp" for tm by (simp add: access_line_def)
  obtain s2 sb' h es where l: "log_access os ?c1 rp ?s1 = Some s2"
    "sb_text sb' = sb_text sb @ access_line os (os_time os h) c rp"
    "user_tab (snd s2) = store_access (string_of u) sb' (user_tab (snd s))" "fst s2 = sel'"
    "hist s2 = hist s @ Send fd ?out (Inr (length ?out)) # es" "\<forall>e \<in> set es. quiet e" "\<forall>j. client_at j s2 = client_at j ?s1"
    using log_access_spec [where c = ?c1 and s = ?s1 and name = "string_of u" and u = v and sb = sb, OF ok _ _ _ known(2,3) c(9,8)]
      t name(1) known(1) len by (auto simp: line)
  let ?s' = "set_client i (enter COPY ?c1) s2"
  have at2: "client_at i s2 = Some ?c1" using l(7) by simp
  have run: "request_write os ?k s = Some (state_id COPY, s2)" using r(1) l(1) by simp
  have "stm_handler_write (client_actions os others) (client_stm i) ?k s = Some (state_id COPY, ?s')"
    unfolding stm_handler_write_def client_actions_def
    by (rule event_moves [OF c(1-3), where f = "request_write os" and key = ?k, OF _ _ run at2])
      (auto simp: client_table_entries state_entry_def notify_def)
  then have "socksv5_write os others ?k s = Some ?s'" by (simp add: socksv5_write_def event_goes_on)
  moreover have "interest_of ?s' fd = Some OP_READ" "\<forall>x. x \<noteq> fd \<longrightarrow> interest_of ?s' x = interest_of s x"
    using l(4) r(3) by (simp_all add: interest_of_def)
  moreover have "hist ?s' = hist s @ Send fd ?out (Inr (length ?out)) # es" using l(5) by simp
  moreover have "sent fd (Send fd ?out (Inr (length ?out)) # es) = ?out" using quiet_traffic [OF l(6)] by simp
  moreover have "\<forall>j. j \<noteq> i \<longrightarrow> client_at j ?s' = client_at j s" using l(7) by simp
  moreover have "user_tab (snd ?s') = store_access (string_of u) sb' (user_tab (snd s))" using l(3) by simp
  moreover have "stm_current (stm (enter COPY ?c1)) = Some (state_id COPY)" "origin_fd (enter COPY ?c1) = origin_fd c"
    "contents (sv_to_client (enter COPY ?c1)) = []" "client_at i ?s' = Some (enter COPY ?c1)" using r(2) by simp_all
  moreover have "sb_text sb' = sb_text sb @ access_line os (os_time os h) (enter COPY ?c1) rp"
    "cstr (username (enter COPY ?c1)) = u" using l(2) name(1) by (simp_all add: access_line_def)
  ultimately show ?thesis by blast
qed

text \<open>No such user: \<open>create_access\<close> writes at index -1, and the server is lost.\<close>

lemma stranger_event:
  assumes at: "replies i fd c rp s" and name: "cstr (username c) = u" "length u < 256"
    and hears: "\<forall>h. os_send os h fd (contents (sv_to_client c)) = Inr (length (contents (sv_to_client c)))"
    and unknown: "\<not> has_user (user_tab (snd s)) (string_of u)"
  shows "socksv5_write os others (client_key i fd) s = None"
proof -
  let ?k = "client_key i fd"
  from at have c: "client_at i s = Some c" "stm_current (stm c) = Some (state_id REQ_WRITE)"
    "handshake c = Request rp" "buffer_inv (sv_to_client c)" "contents (sv_to_client c) \<noteq> []" "length (username c) = 256"
    "sel_inv (fst s)" "holds s fd i" by (auto simp: replies_def)
  have t: "terminated (username c)"
    using name c(6) by (intro terminated_cstr) simp
  have "user_exists (user_tab (snd s)) (string_of u) < 0" using unknown by (simp add: user_exists_lookup(1) lookup_None_iff)
  then have "log_access os (c\<lparr>sv_to_client := b\<rparr>) rp (set_sel sel (set_client i d (record_event e s))) = None" for b sel d e
    using t name(1) by (intro log_access_unknown) simp_all
  then have "request_write os ?k s = None"
    using request_write_sent [where key = ?k, OF c(1,3,4,7,8) refl c(5) hears] by auto
  then show ?thesis using c(1,2)
    by (simp add: socksv5_write_def stm_handler_write_def stm_handler_def handle_first_def client_stm_get
        client_actions_def client_table_entries state_entry_def)
qed

section \<open>The whole conversation\<close>

text \<open>The \<open>k\<close>-th call of \<open>recv\<close> on \<open>fd\<close>, from state \<open>s\<close> on, finds the \<open>k\<close>-th message.\<close>

definition speaks :: "os \<Rightarrow> int \<Rightarrow> bytes list \<Rightarrow> st \<Rightarrow> bool" where
  "speaks os fd msgs s \<longleftrightarrow> (\<forall>h n k. k < length msgs \<longrightarrow> recvs fd h = recvs fd (hist s) + k \<longrightarrow>
     os_recv os h fd n = Inr (take n (msgs ! k)))"

text \<open>The events of a connection: a readable client and a writable client in turn, then the writable origin.\<close>

definition connection_run :: "os \<Rightarrow> others \<Rightarrow> nat \<Rightarrow> int \<Rightarrow> int \<Rightarrow> st \<Rightarrow> st option" where
  "connection_run os others i fd ofd s = do {
     s \<leftarrow> socksv5_read os others (client_key i fd) s;
     s \<leftarrow> socksv5_write os others (client_key i fd) s;
     s \<leftarrow> socksv5_read os others (client_key i fd) s;
     s \<leftarrow> socksv5_write os others (client_key i fd) s;
     s \<leftarrow> socksv5_read os others (client_key i fd) s;
     socksv5_write os others (client_key i ofd) s }"

lemma went_trans:
  assumes "went i fd m xs s t" and "went i fd n ys t u"
  shows "went i fd (m + n) (xs @ ys) s u"
proof -
  obtain es es' where "hist t = hist s @ es" "recvs fd es = m" "sent fd es = xs"
    "hist u = hist t @ es'" "recvs fd es' = n" "sent fd es' = ys" using assms by (auto simp: went_def)
  then have "hist u = hist s @ (es @ es')" "recvs fd (es @ es') = m + n" "sent fd (es @ es') = xs @ ys"
    by (simp_all add: recvs_def sent_def)
  then show ?thesis using assms unfolding went_def by metis
qed

lemma went_recvs: "went i fd n out s t \<Longrightarrow> recvs fd (hist t) = recvs fd (hist s) + n"
  by (auto simp: went_def recvs_def)

lemma speaks_next:
  assumes "speaks os fd msgs s" and "recvs fd (hist t) = recvs fd (hist s) + k" and "k < length msgs"
    and "length (msgs ! k) \<le> n"
  shows "\<forall>h. recvs fd h = recvs fd (hist t) \<longrightarrow> os_recv os h fd n = Inr (msgs ! k)"
  using assms unfolding speaks_def by simp

lemma opened:
  assumes at: "client_at i s = Some (fresh_client fd addr)" and s: "sel_inv (fst s)" "holds s fd i"
  shows "\<exists>s0 c0 np. (\<forall>os others. socksv5_read os others (client_key i fd) s = socksv5_read os others (client_key i fd) s0)
    \<and> stands i fd NEGOTIATION_READ c0 s0 \<and> handshake c0 = Negotiation (initialize_negotiation_parser np)
    \<and> contents (sv_to_client c0) = [] \<and> room (sv_to_client c0) = BUFFER_SIZE \<and> room (client_to_sv c0) = BUFFER_SIZE
    \<and> went i fd 0 [] s s0"
proof -
  let ?c = "fresh_client fd addr" and ?np = "\<lparr>selected_method = NOT_ACCEPTABLE, neg_state = NEG_VERSION, method_quantity = 0\<rparr>"
  let ?d = "(enter NEGOTIATION_READ ?c)\<lparr>handshake := Negotiation (initialize_negotiation_parser ?np)\<rparr>"
  let ?t = "set_client i ?d s"
  have "stm_current (stm ?c) = None" "stm_initial (stm ?c) = state_id NEGOTIATION_READ" "handshake ?c = Negotiation ?np"
    by (simp_all add: fresh_client_def)
  from first_event [OF at this(1,2) client_key_simps(3) this(3)]
  have eq: "\<forall>os others. socksv5_read os others (client_key i fd) s = socksv5_read os others (client_key i fd) ?t"
    by (simp add: socksv5_read_def stm_handler_read_def client_actions_def)
  have "machine_ok ?d" using fresh_client_ok [of fd addr] machine_ok_enter [of ?c NEGOTIATION_READ]
      machine_ok_cong [of ?d "enter NEGOTIATION_READ ?c"] by simp
  moreover have "client_ok ?d" using fresh_client_ok [of fd addr]
    by (simp add: client_ok_def enter_def handshake_ok_def neg_parser_ok_def initialize_negotiation_parser_def)
  ultimately have "stands i fd NEGOTIATION_READ ?d ?t" using s
    by (simp add: stands_def holds_def fresh_client_def)
  moreover have "went i fd 0 [] s ?t" by (simp add: went_def)
  moreover have "contents (sv_to_client ?d) = []" "room (sv_to_client ?d) = BUFFER_SIZE" "room (client_to_sv ?d) = BUFFER_SIZE"
    "handshake ?d = Negotiation (initialize_negotiation_parser ?np)"
    by (simp_all add: fresh_client_def)
  ultimately show ?thesis using eq by blast
qed

text \<open>A network that carries the conversation: the client's messages, our replies, and the origin.\<close>

definition network_serves :: "os \<Rightarrow> int \<Rightarrow> bytes list \<Rightarrow> int \<Rightarrow> addrinfo \<Rightarrow> sockaddr \<Rightarrow> st \<Rightarrow> bool" where
  "network_serves os fd msgs ofd dst bnd s \<longleftrightarrow> os_ok os \<and> mallocs_ok os \<and> speaks os fd msgs s
     \<and> (\<forall>h bs. os_send os h fd bs = Inr (length bs)) \<and> connects os ofd dst
     \<and> (\<forall>h. os_getsockopt os h ofd = Some 0) \<and> (\<forall>h. os_getsockname os h ofd = Some bnd)"

text \<open>A client that has just been accepted.\<close>

definition accepted :: "nat \<Rightarrow> int \<Rightarrow> sockaddr \<Rightarrow> st \<Rightarrow> bool" where
  "accepted i fd addr s \<longleftrightarrow> client_at i s = Some (fresh_client fd addr) \<and> sel_inv (fst s) \<and> holds s fd i"

text \<open>What the client says, in the formats of RFC 1928 and RFC 1929.\<close>

definition hello_message :: "bytes \<Rightarrow> bytes" where
  "hello_message ms = SOCKS_VERSION # of_nat (length ms) # ms"

definition login_message :: "bytes \<Rightarrow> bytes \<Rightarrow> bytes" where
  "login_message u p = AUTH_VERSION # of_nat (length u) # u @ of_nat (length p) # p"

definition connect_message :: "u32 \<Rightarrow> bytes \<Rightarrow> u16 \<Rightarrow> bytes" where
  "connect_message t a q = PROTOCOL_VERSION # CONNECT # RSV # ucast t # a @ htons q"

lemma unat_length: "length xs < 256 \<Longrightarrow> unat (of_nat (length xs) :: u8) = length xs"
  by (simp add: unat_of_nat)

theorem conversation:
  assumes acc: "accepted i fd addr s"
    and net: "network_serves os fd [hello_message ms, login_message u p, connect_message t a q] ofd (target t a q) bnd s"
    and ms: "length ms < 256" "0x2 \<in> set ms"
    and u: "0 \<notin> set u" "length u < 256" and p: "0 \<notin> set p" "p \<noteq> []" "length p < 256"
    and t: "(t = IPV4 \<and> length a = 4) \<or> (t = IPV6 \<and> length a = 16)" and free: "vacant ofd s"
    and bnd: "bnd = Sockaddr_in b (htons r) \<and> length b = 4 \<or> bnd = Sockaddr_in6 b (htons r) \<and> length b = 16"
  shows "\<exists>s' c es rp. connection_run os others i fd ofd s = Some s' \<and> replies i fd c rp s'
    \<and> origin_fd c = ofd \<and> cstr (username c) = u
    \<and> request_read_as rp t a q \<and> con_status rp = CON_SUCCEEDED
    \<and> reply_fields (contents (sv_to_client c)) = Some (0, if length b = 4 then 1 else 4, b, r)
    \<and> interest_of s' fd = Some OP_WRITE \<and> interest_of s' ofd = Some OP_READ \<and> fd \<noteq> ofd
    \<and> hist s' = hist s @ es \<and> sent fd es = [SOCKS_VERSION, 0x2, AUTH_VERSION, auth_status_code
        (if user_login (user_tab (snd s)) (string_of u) (string_of p) = 0 then AUTHENTICATED else ACCESS_DENIED)]
    \<and> user_tab (snd s') = user_tab (snd s) \<and> (\<forall>j. j \<noteq> i \<longrightarrow> client_at j s' = client_at j s)"
proof -
  from acc have at: "client_at i s = Some (fresh_client fd addr)" "sel_inv (fst s)" "holds s fd i"
    by (simp_all add: accepted_def)
  from net have ok: "os_ok os" "mallocs_ok os"
    and says: "speaks os fd [hello_message ms, login_message u p, connect_message t a q] s"
    and hears: "\<forall>h bs. os_send os h fd bs = Inr (length bs)" and con: "connects os ofd (target t a q)"
    and up: "\<forall>h. os_getsockopt os h ofd = Some 0" "\<forall>h. os_getsockname os h ofd = Some bnd"
    by (simp_all add: network_serves_def)
  let ?m = "[hello_message ms, login_message u p, connect_message t a q]"
  let ?v = "auth_status_code (if user_login (user_tab (snd s)) (string_of u) (string_of p) = 0 then AUTHENTICATED else ACCESS_DENIED)"
  have len: "length (hello_message ms) \<le> 257" "length (login_message u p) \<le> 513" "length (connect_message t a q) \<le> 22"
    using ms(1) u(2) p(3) t by (auto simp: hello_message_def login_message_def connect_message_def htons_def)
  obtain s\<^sub>0 c\<^sub>0 np where 0: "socksv5_read os others (client_key i fd) s = socksv5_read os others (client_key i fd) s\<^sub>0"
    "stands i fd NEGOTIATION_READ c\<^sub>0 s\<^sub>0" "handshake c\<^sub>0 = Negotiation (initialize_negotiation_parser np)"
    "contents (sv_to_client c\<^sub>0) = []" "room (sv_to_client c\<^sub>0) = 1024" "room (client_to_sv c\<^sub>0) = 1024" "went i fd 0 [] s s\<^sub>0"
    using opened [OF at] unfolding BUFFER_SIZE_def by blast
  have "\<forall>h. recvs fd h = recvs fd (hist s\<^sub>0) \<longrightarrow>
      os_recv os h fd (room (client_to_sv c\<^sub>0)) = Inr (SOCKS_VERSION # of_nat (length ms) # ms)"
    using speaks_next [OF says, of s\<^sub>0 0 "room (client_to_sv c\<^sub>0)"] went_recvs [OF 0(7)] len(1) 0(6)
    by (simp add: hello_message_def)
  then obtain s\<^sub>1 c\<^sub>1 np' where
    1: "socksv5_read os others (client_key i fd) s\<^sub>0 = Some s\<^sub>1" "stands i fd NEGOTIATION_WRITE c\<^sub>1 s\<^sub>1"
    "handshake c\<^sub>1 = Negotiation np'" "selected_method np' = PASS" "contents (sv_to_client c\<^sub>1) = [SOCKS_VERSION, 0x2]"
    "room (sv_to_client c\<^sub>0) \<le> room (sv_to_client c\<^sub>1) + 2"
    "room (client_to_sv c\<^sub>0) \<le> room (client_to_sv c\<^sub>1) + length (hello_message ms)" "went i fd 1 [] s\<^sub>0 s\<^sub>1"
    using hello_event [where n = "of_nat (length ms)" and others = others, OF ok 0(2-4) _ unat_length [OF ms(1), symmetric] ms(2)] 0(5)
    unfolding hello_message_def by auto
  obtain s\<^sub>2 c\<^sub>2 ap where
    2: "socksv5_write os others (client_key i fd) s\<^sub>1 = Some s\<^sub>2" "stands i fd AUTH_READ c\<^sub>2 s\<^sub>2"
    "handshake c\<^sub>2 = Authentication (initialize_auth_parser ap)" "uname ap = replicate 256 0" "passwd ap = replicate 256 0"
    "contents (sv_to_client c\<^sub>2) = []" "room (sv_to_client c\<^sub>1) \<le> room (sv_to_client c\<^sub>2)" "client_to_sv c\<^sub>2 = client_to_sv c\<^sub>1"
    "went i fd 0 [SOCKS_VERSION, 0x2] s\<^sub>1 s\<^sub>2"
    using method_sent_event [where others = others, OF ok 1(2-5)] hears by auto
  have w2: "went i fd 1 [SOCKS_VERSION, 0x2] s s\<^sub>2"
    using went_trans [OF went_trans [OF 0(7) 1(8)] 2(9)] by simp
  have r2: "767 \<le> room (client_to_sv c\<^sub>2)" "2 \<le> room (sv_to_client c\<^sub>2)" using 0(5,6) 1(6,7) 2(7,8) len(1) by auto
  have tab2: "user_tab (snd s\<^sub>2) = user_tab (snd s)" using w2 by (simp add: went_def)
  have "\<forall>h. recvs fd h = recvs fd (hist s\<^sub>2) \<longrightarrow> os_recv os h fd (room (client_to_sv c\<^sub>2))
      = Inr (AUTH_VERSION # of_nat (length u) # u @ of_nat (length p) # p)"
    using speaks_next [OF says went_recvs [OF w2], of "room (client_to_sv c\<^sub>2)"] len(2) r2(1)
    by (simp add: login_message_def)
  moreover have "of_nat (length p) \<noteq> (0 :: u8)" using unat_length [OF p(3)] p(2) by auto
  ultimately obtain s\<^sub>3 c\<^sub>3 ap' where
    3: "socksv5_read os others (client_key i fd) s\<^sub>2 = Some s\<^sub>3" "stands i fd AUTH_WRITE c\<^sub>3 s\<^sub>3"
    "handshake c\<^sub>3 = Authentication ap'" "cstr (username c\<^sub>3) = u" "contents (sv_to_client c\<^sub>3) = [AUTH_VERSION, ?v]"
    "room (sv_to_client c\<^sub>2) \<le> room (sv_to_client c\<^sub>3) + 2"
    "room (client_to_sv c\<^sub>2) \<le> room (client_to_sv c\<^sub>3) + length (login_message u p)" "went i fd 1 [] s\<^sub>2 s\<^sub>3"
    using login_event [where n = "of_nat (length u)" and m = "of_nat (length p)" and others = others,
        OF ok 2(2-6) r2(2) u(1) unat_length [OF u(2), symmetric] p(1) unat_length [OF p(3), symmetric]]
    unfolding login_message_def tab2 by auto
  obtain s\<^sub>4 c\<^sub>4 rp where
    4: "socksv5_write os others (client_key i fd) s\<^sub>3 = Some s\<^sub>4" "stands i fd REQ_READ c\<^sub>4 s\<^sub>4"
    "handshake c\<^sub>4 = Request (initialize_request_parser rp)"
    "length (addr_buffer (req_address rp)) = 256" "length (address_class (req_address rp)) = 256"
    "contents (sv_to_client c\<^sub>4) = []" "room (sv_to_client c\<^sub>3) \<le> room (sv_to_client c\<^sub>4)"
    "client_to_sv c\<^sub>4 = client_to_sv c\<^sub>3" "username c\<^sub>4 = username c\<^sub>3" "went i fd 0 [AUTH_VERSION, ?v] s\<^sub>3 s\<^sub>4"
    using verdict_sent_event [where others = others, OF ok 3(2,3,5)] hears by auto
  have w4: "went i fd 2 [SOCKS_VERSION, 0x2, AUTH_VERSION, ?v] s s\<^sub>4"
    using went_trans [OF went_trans [OF w2 3(8)] 4(10)] by (simp add: numeral_2_eq_2)
  have r4: "22 \<le> room (client_to_sv c\<^sub>4)" "22 \<le> room (sv_to_client c\<^sub>4)"
    using 0(5) 1(6) 2(7) 3(6,7) 4(7,8) r2(1) len(2) by auto
  have "vacant ofd s\<^sub>4" using free w4 by (simp add: vacant_def went_def)
  moreover have "\<forall>h. recvs fd h = recvs fd (hist s\<^sub>4) \<longrightarrow> os_recv os h fd (room (client_to_sv c\<^sub>4))
      = Inr (PROTOCOL_VERSION # CONNECT # RSV # ucast t # a @ htons q)"
    using speaks_next [OF says went_recvs [OF w4], of "room (client_to_sv c\<^sub>4)"] len(3) r4(1)
    by (simp add: connect_message_def)
  ultimately obtain s\<^sub>5 c\<^sub>5 es\<^sub>5 rp' where
    5: "socksv5_read os others (client_key i fd) s\<^sub>4 = Some s\<^sub>5" "awaits i (client_key i ofd) c\<^sub>5 s\<^sub>5"
    "client_fd c\<^sub>5 = fd" "sv_to_client c\<^sub>5 = sv_to_client c\<^sub>4" "username c\<^sub>5 = username c\<^sub>4"
    "hist s\<^sub>5 = hist s\<^sub>4 @ es\<^sub>5" "sent fd es\<^sub>5 = []" "user_tab (snd s\<^sub>5) = user_tab (snd s\<^sub>4)"
    "\<And>j. j \<noteq> i \<Longrightarrow> client_at j s\<^sub>5 = client_at j s\<^sub>4"
    "handshake c\<^sub>5 = Request rp'" "request_read_as rp' t a q" "length (address_class (req_address rp')) = 256"
    using request_event [where others = others, OF ok 4(2-5) t con] by blast
  obtain s\<^sub>6 c\<^sub>6 es\<^sub>6 where
    6: "socksv5_write os others (client_key i ofd) s\<^sub>5 = Some s\<^sub>6" "client_at i s\<^sub>6 = Some c\<^sub>6"
    "stm_current (stm c\<^sub>6) = Some (state_id REQ_WRITE)" "origin_fd c\<^sub>6 = ofd" "username c\<^sub>6 = username c\<^sub>5"
    "reply_fields (contents (sv_to_client c\<^sub>6)) = Some (0, if length b = 4 then 1 else 4, b, r)"
    "interest_of s\<^sub>6 fd = Some OP_WRITE" "interest_of s\<^sub>6 ofd = Some OP_READ"
    "hist s\<^sub>6 = hist s\<^sub>5 @ es\<^sub>6" "\<forall>e \<in> set es\<^sub>6. quiet e" "user_tab (snd s\<^sub>6) = user_tab (snd s\<^sub>5)"
    "\<And>j. j \<noteq> i \<Longrightarrow> client_at j s\<^sub>6 = client_at j s\<^sub>5"
    "handshake c\<^sub>6 = Request (rp'\<lparr>con_status := CON_SUCCEEDED\<rparr>)" "machine_ok c\<^sub>6" "buffer_inv (sv_to_client c\<^sub>6)"
    "sel_inv (fst s\<^sub>6)" "roles (fst s\<^sub>6) = roles (fst s\<^sub>5)" "client_fd c\<^sub>6 = fd"
    using connected_event [where others = others, OF 5(2,10) _ _ up bnd] 4(6) r4(2) 5(3,4) by auto
  obtain es where es: "hist s\<^sub>4 = hist s @ es" "sent fd es = [SOCKS_VERSION, 0x2, AUTH_VERSION, ?v]"
    using w4 by (auto simp: went_def)
  have run: "connection_run os others i fd ofd s = Some s\<^sub>6"
    using 0(1) 1(1) 2(1) 3(1) 4(1) 5(1) 6(1) by (simp add: connection_run_def)
  have "hist s\<^sub>6 = hist s @ (es @ es\<^sub>5 @ es\<^sub>6)" using es(1) 5(6) 6(9) by simp
  moreover have "sent fd (es @ es\<^sub>5 @ es\<^sub>6) = [SOCKS_VERSION, 0x2, AUTH_VERSION, ?v]"
    using es(2) 5(7) 6(10) quiet_traffic by simp
  moreover have "user_tab (snd s\<^sub>6) = user_tab (snd s)" using 6(11) 5(8) w4 by (simp add: went_def)
  moreover have "\<forall>j. j \<noteq> i \<longrightarrow> client_at j s\<^sub>6 = client_at j s" using 6(12) 5(9) w4 by (simp add: went_def)
  moreover have "cstr (username c\<^sub>6) = u" using 6(5) 5(5) 4(9) 3(4) by simp
  moreover have "length (username c\<^sub>6) = 256" using 6(5) 5(5) 4(2) by (simp add: stands_def client_ok_def)
  moreover have "holds s\<^sub>6 fd i" using 5(2,3) 6(17) by (simp add: holds_def awaits_def owns_def)
  moreover have "request_read_as (rp'\<lparr>con_status := CON_SUCCEEDED\<rparr>) t a q"
    "con_status (rp'\<lparr>con_status := CON_SUCCEEDED\<rparr>) = CON_SUCCEEDED"
    "length (address_class (req_address (rp'\<lparr>con_status := CON_SUCCEEDED\<rparr>))) = 256"
    using 5(11,12) by (simp_all add: request_read_as_def)
  moreover have "contents (sv_to_client c\<^sub>6) \<noteq> []" using 6(6) by (auto simp: reply_fields_def)
  moreover have "fd \<noteq> ofd" using free at(3) by (auto simp: vacant_def holds_def)
  moreover have "atyp rp' \<in> {IPV4, IPV6}" using t 5(11) by (auto simp: request_read_as_def)
  ultimately show ?thesis using run 6(2-4,6-8,13-16)
    by (intro exI [of _ s\<^sub>6] exI [of _ c\<^sub>6] exI [of _ "es @ es\<^sub>5 @ es\<^sub>6"] exI [of _ "rp'\<lparr>con_status := CON_SUCCEEDED\<rparr>"])
      (simp add: replies_def)
qed

theorem conversation_relayed:
  assumes acc: "accepted i fd addr s"
    and net: "network_serves os fd [hello_message ms, login_message u p, connect_message t a q] ofd (target t a q) bnd s"
    and ms: "length ms < 256" "0x2 \<in> set ms"
    and u: "0 \<notin> set u" "length u < 256" and p: "0 \<notin> set p" "p \<noteq> []" "length p < 256"
    and t: "(t = IPV4 \<and> length a = 4) \<or> (t = IPV6 \<and> length a = 16)" and free: "vacant ofd s"
    and bnd: "bnd = Sockaddr_in b (htons r) \<and> length b = 4 \<or> bnd = Sockaddr_in6 b (htons r) \<and> length b = 16"
    and known: "lookup (user_tab (snd s)) (string_of u) = Some v" "u_access v = Some sb" "sb_small sb" "sb_length sb < 2 ^ 61"
    and prints: "prints_ok os"
  shows "\<exists>s' c es reply rp sb' now. connection_run os others i fd ofd s \<bind> socksv5_write os others (client_key i fd) = Some s'
    \<and> client_at i s' = Some c \<and> stm_current (stm c) = Some (state_id COPY) \<and> origin_fd c = ofd \<and> cstr (username c) = u
    \<and> interest_of s' fd = Some OP_READ \<and> interest_of s' ofd = Some OP_READ
    \<and> hist s' = hist s @ es \<and> sent fd es = [SOCKS_VERSION, 0x2, AUTH_VERSION, auth_status_code
        (if user_login (user_tab (snd s)) (string_of u) (string_of p) = 0 then AUTHENTICATED else ACCESS_DENIED)] @ reply
    \<and> reply_fields reply = Some (0, if length b = 4 then 1 else 4, b, r)
    \<and> request_read_as rp t a q \<and> con_status rp = CON_SUCCEEDED
    \<and> user_tab (snd s') = store_access (string_of u) sb' (user_tab (snd s))
    \<and> sb_text sb' = sb_text sb @ access_line os now c rp
    \<and> (\<forall>j. j \<noteq> i \<longrightarrow> client_at j s' = client_at j s)"
proof -
  obtain s1 c1 es1 rp where 1: "connection_run os others i fd ofd s = Some s1" "replies i fd c1 rp s1"
    "origin_fd c1 = ofd" "cstr (username c1) = u" "request_read_as rp t a q" "con_status rp = CON_SUCCEEDED"
    "reply_fields (contents (sv_to_client c1)) = Some (0, if length b = 4 then 1 else 4, b, r)"
    "interest_of s1 ofd = Some OP_READ" "fd \<noteq> ofd"
    "hist s1 = hist s @ es1" "sent fd es1 = [SOCKS_VERSION, 0x2, AUTH_VERSION, auth_status_code
        (if user_login (user_tab (snd s)) (string_of u) (string_of p) = 0 then AUTHENTICATED else ACCESS_DENIED)]"
    "user_tab (snd s1) = user_tab (snd s)" "\<And>j. j \<noteq> i \<Longrightarrow> client_at j s1 = client_at j s"
    using conversation [OF acc net ms u p t free bnd, of others] by blast
  have os: "mallocs_ok os" "\<forall>h. os_send os h fd (contents (sv_to_client c1)) = Inr (length (contents (sv_to_client c1)))"
    using net by (auto simp: network_serves_def)
  obtain s' c es h sb' where 2: "socksv5_write os others (client_key i fd) s1 = Some s'" "client_at i s' = Some c"
    "stm_current (stm c) = Some (state_id COPY)" "origin_fd c = origin_fd c1" "cstr (username c) = u"
    "interest_of s' fd = Some OP_READ" "\<forall>x. x \<noteq> fd \<longrightarrow> interest_of s' x = interest_of s1 x"
    "hist s' = hist s1 @ es" "sent fd es = contents (sv_to_client c1)"
    "user_tab (snd s') = store_access (string_of u) sb' (user_tab (snd s1))"
    "sb_text sb' = sb_text sb @ access_line os (os_time os h) c rp" "\<And>j. j \<noteq> i \<Longrightarrow> client_at j s' = client_at j s1"
    using relay_event [OF os(1) 1(2,4) u(2) os(2) _ known(2-4) prints, of others] known(1) 1(12) by auto
  have "hist s' = hist s @ (es1 @ es)" using 1(10) 2(8) by simp
  moreover have "sent fd (es1 @ es) = sent fd es1 @ contents (sv_to_client c1)" using 2(9) by simp
  moreover have "connection_run os others i fd ofd s \<bind> socksv5_write os others (client_key i fd) = Some s'"
    using 1(1) 2(1) by simp
  moreover have "interest_of s' ofd = Some OP_READ" using 1(8,9) 2(7) by simp
  ultimately show ?thesis using 1(3,5-7,11-13) 2(2-6,10-12)
    by (intro exI [of _ s'] exI [of _ c] exI [of _ "es1 @ es"] exI [of _ "contents (sv_to_client c1)"] exI [of _ rp]
        exI [of _ sb'] exI [of _ "os_time os h"]) simp
qed

theorem conversation_stranger:
  assumes acc: "accepted i fd addr s"
    and net: "network_serves os fd [hello_message ms, login_message u p, connect_message t a q] ofd (target t a q) bnd s"
    and ms: "length ms < 256" "0x2 \<in> set ms"
    and u: "0 \<notin> set u" "length u < 256" and p: "0 \<notin> set p" "p \<noteq> []" "length p < 256"
    and t: "(t = IPV4 \<and> length a = 4) \<or> (t = IPV6 \<and> length a = 16)" and free: "vacant ofd s"
    and bnd: "bnd = Sockaddr_in b (htons r) \<and> length b = 4 \<or> bnd = Sockaddr_in6 b (htons r) \<and> length b = 16"
    and unknown: "\<not> has_user (user_tab (snd s)) (string_of u)"
  shows "\<exists>s'. connection_run os others i fd ofd s = Some s' \<and> socksv5_write os others (client_key i fd) s' = None"
proof -
  obtain s1 c1 rp where 1: "connection_run os others i fd ofd s = Some s1" "replies i fd c1 rp s1"
    "cstr (username c1) = u" "user_tab (snd s1) = user_tab (snd s)"
    using conversation [OF acc net ms u p t free bnd, of others] by blast
  have "\<forall>h. os_send os h fd (contents (sv_to_client c1)) = Inr (length (contents (sv_to_client c1)))"
    using net by (auto simp: network_serves_def)
  from stranger_event [OF 1(2,3) u(2) this, of others] unknown 1(1,4) show ?thesis by simp
qed

end
