(* ===== verification/Typing.thy ===== *)
theory Typing
  imports Connection
begin

text \<open>
  The parsers of a client live in one C union, \<open>client_data.handshake\<close> of \<open>socks5.h\<close>: no tag says
  which member holds, only the state of the machine does. A client is well typed where the
  member is the one that the handlers of its state read. Each handler of the handshake,
  with the jump and the arrival that follow it, proceeds and leaves a well-typed client.
\<close>

section \<open>States and members\<close>

primrec member_kind :: "socks_v5state \<Rightarrow> nat option" where
  "member_kind NEGOTIATION_READ = Some 0"
| "member_kind NEGOTIATION_WRITE = Some 0"
| "member_kind AUTH_READ = Some 1"
| "member_kind AUTH_WRITE = Some 1"
| "member_kind REQ_READ = Some 2"
| "member_kind REQ_RESOLVE = Some 2"
| "member_kind REQ_CONNECT = Some 2"
| "member_kind REQ_WRITE = Some 2"
| "member_kind COPY = Some 2"
| "member_kind SOCKS_DONE = None"
| "member_kind SOCKS_ERROR = None"

definition well_typed :: "socks_v5state \<Rightarrow> client_data \<Rightarrow> bool" where
  "well_typed q c \<longleftrightarrow> client_ok c \<and> machine_ok c \<and> stm_current (stm c) = Some (state_id q)
     \<and> (case member_kind q of None \<Rightarrow> True | Some k \<Rightarrow> kind (handshake c) = k)"

text \<open>The states that a handler may ask for.\<close>

primrec successors :: "socks_v5state \<Rightarrow> socks_v5state list" where
  "successors NEGOTIATION_READ = [NEGOTIATION_READ, NEGOTIATION_WRITE, SOCKS_ERROR]"
| "successors NEGOTIATION_WRITE = [NEGOTIATION_WRITE, AUTH_READ, SOCKS_ERROR]"
| "successors AUTH_READ = [AUTH_READ, AUTH_WRITE, SOCKS_ERROR]"
| "successors AUTH_WRITE = [AUTH_WRITE, REQ_READ, SOCKS_ERROR]"
| "successors REQ_READ = [REQ_READ, REQ_RESOLVE, REQ_CONNECT, REQ_WRITE, SOCKS_ERROR]"
| "successors REQ_RESOLVE = [REQ_CONNECT, REQ_WRITE, SOCKS_ERROR]"
| "successors REQ_CONNECT = [REQ_CONNECT, REQ_WRITE, SOCKS_ERROR]"
| "successors REQ_WRITE = [REQ_WRITE, COPY, SOCKS_ERROR]"
| "successors COPY = [COPY, SOCKS_DONE, SOCKS_ERROR]"
| "successors SOCKS_DONE = []"
| "successors SOCKS_ERROR = []"

definition proceeds :: "nat \<Rightarrow> socks_v5state \<Rightarrow> client_data \<Rightarrow> (nat \<times> st) option \<Rightarrow> bool" where
  "proceeds i q c r \<longleftrightarrow> (\<exists>q' s1 c1. r = Some (state_id q', s1) \<and> q' \<in> set (successors q)
     \<and> client_at i s1 = Some c1 \<and> client_ok c1 \<and> stm c1 = stm c \<and> kind (handshake c1) = kind (handshake c))"

lemma proceedsI:
  "r = Some (state_id q', s1) \<Longrightarrow> q' \<in> set (successors q) \<Longrightarrow> client_at i s1 = Some c1 \<Longrightarrow> client_ok c1 \<Longrightarrow>
   stm c1 = stm c \<Longrightarrow> kind (handshake c1) = kind (handshake c) \<Longrightarrow> proceeds i q c r"
  unfolding proceeds_def by blast

lemma proceeds_error:
  "client_at i s1 = Some c \<Longrightarrow> client_ok c \<Longrightarrow> SOCKS_ERROR \<in> set (successors q) \<Longrightarrow> proceeds i q c (Some (state_id SOCKS_ERROR, s1))"
  by (rule proceedsI) simp_all

lemma proceeds_keeps:
  assumes "keeps i s s'" and "client_at i s = Some c" and "q' \<in> set (successors q)"
  shows "proceeds i q c (Some (state_id q', s'))"
proof -
  obtain c' where c': "client_at i s' = Some c'" "client_ok c'" "same_place c c'" using assms(1,2) by (auto simp: keeps_def)
  show ?thesis by (rule proceedsI [OF refl assms(3) c'(1,2)]) (use c'(3) in \<open>simp_all add: same_place_def\<close>)
qed

section \<open>The handlers\<close>

text \<open>A full buffer: nothing is read, and the state stays.\<close>

lemma full_buffer_waits:
  assumes ok: "mallocs_ok os" and call: "called i key c s" and room: "room (client_to_sv c) = 0"
  shows "\<exists>s1. negotiation_read os key s = Some (state_id NEGOTIATION_READ, s1) \<and> silent s s1"
    and "\<exists>s1. authentication_read os key s = Some (state_id AUTH_READ, s1) \<and> silent s s1"
proof -
  have inv: "buffer_inv (client_to_sv c)" using call by (simp add: called_def client_ok_def)
  have full: "\<not> buffer_can_write (client_to_sv c)" using room by (simp add: buffer_can_write_iff)
  note p = buffer_write_ptr_spec [OF inv]
  have "\<exists>s1. log_line os INFO msg s = Some s1 \<and> silent s s1 \<and> client_at i s1 = Some c" if "length msg < 2 ^ 20" for msg
    using log_line_returns [OF ok that, of INFO s] log_line_silent silentD(2) call by (fastforce simp: called_def)
  from this [of "''Negotiation read started''"] this [of "''Authentication read started ''"] full p call
  show "\<exists>s1. negotiation_read os key s = Some (state_id NEGOTIATION_READ, s1) \<and> silent s s1"
    and "\<exists>s1. authentication_read os key s = Some (state_id AUTH_READ, s1) \<and> silent s s1"
    by (auto simp: negotiation_read_def authentication_read_def called_def split: prod.splits)
qed

lemma negotiation_read_proceeds:
  assumes ok: "os_ok os" "mallocs_ok os" and call: "called i key c s" and h: "kind (handshake c) = 0"
  shows "proceeds i NEGOTIATION_READ c (negotiation_read os key s)"
proof -
  obtain np where np: "handshake c = Negotiation np" using h by (cases "handshake c") (auto simp: kind_def)
  from call have c: "client_at i s = Some c" "client_ok c" by (simp_all add: called_def)
  show ?thesis
  proof (cases "room (client_to_sv c) = 0")
    case True
    then obtain s1 where "negotiation_read os key s = Some (state_id NEGOTIATION_READ, s1)" "silent s s1"
      using full_buffer_waits(1) [OF ok(2) call] by blast
    moreover from this(2) have "client_at i s1 = Some c" using silentD(2) c(1) by simp
    ultimately show ?thesis using c(2) by (auto intro: proceedsI)
  next
    case False
    then have room: "0 < room (client_to_sv c)" by simp
    show ?thesis
      using negotiation_read_spec [OF ok call np room]
    proof (elim exE conjE, goal_cases)
      case (1 s1)
      have "client_at i s1 = Some c" using silentD(2) [OF 1(1)] c(1) by simp
      with 1(2) c(2) np show ?case
        by (auto simp: Let_def client_ok_def handshake_ok_def kind_def split: sum.splits if_splits
            elim!: proceedsI intro!: proceeds_error)
    qed
  qed
qed

lemma negotiation_write_proceeds:
  assumes ok: "os_ok os" "mallocs_ok os" and call: "called i key c s" and h: "kind (handshake c) = 0"
  shows "proceeds i NEGOTIATION_WRITE c (negotiation_write os key s)"
proof -
  obtain np where np: "handshake c = Negotiation np" using h by (cases "handshake c") (auto simp: kind_def)
  from call have c: "client_at i s = Some c" "client_ok c" by (simp_all add: called_def)
  show ?thesis
    using negotiation_write_spec [OF ok call np]
  proof (elim exE conjE, goal_cases)
    case (1 s1)
    have at: "client_at i s1 = Some c" using silentD(2) [OF 1(1)] c(1) by simp
    show ?case
    proof (cases "os_send os (hist s1) (key_fd key) (contents (sv_to_client c))")
      case (Inl e)
      with 1(2) at c(2) show ?thesis by (auto intro!: proceeds_error)
    next
      case (Inr k)
      let ?r = "record_event (Send (key_fd key) (contents (sv_to_client c)) (Inr k)) s1"
      from 1(2) Inr obtain ret s' where run: "negotiation_write os key s = Some (ret, s')"
        and r: "k = 0 \<longrightarrow> ret = state_id SOCKS_ERROR \<and> s' = ?r"
          "k \<noteq> 0 \<longrightarrow> keeps i s s' \<and> (\<exists>q' \<in> set (successors NEGOTIATION_WRITE). ret = state_id q')"
        by (simp, elim exE conjE) (simp split: if_splits)
      show ?thesis
      proof (cases "k = 0")
        case True
        then show ?thesis using run r(1) proceeds_error [of i ?r c NEGOTIATION_WRITE] at c(2) by simp
      next
        case False
        then show ?thesis using run r(2) proceeds_keeps [of i s s', OF _ c(1)] by auto
      qed
    qed
  qed
qed

lemma authentication_read_proceeds:
  assumes ok: "os_ok os" "mallocs_ok os" and call: "called i key c s" and h: "kind (handshake c) = 1"
  shows "proceeds i AUTH_READ c (authentication_read os key s)"
proof -
  obtain ap where ap: "handshake c = Authentication ap" using h by (cases "handshake c") (auto simp: kind_def)
  from call have c: "client_at i s = Some c" "client_ok c" by (simp_all add: called_def)
  show ?thesis
  proof (cases "room (client_to_sv c) = 0")
    case True
    then obtain s1 where "authentication_read os key s = Some (state_id AUTH_READ, s1)" "silent s s1"
      using full_buffer_waits(2) [OF ok(2) call] by blast
    moreover from this(2) have "client_at i s1 = Some c" using silentD(2) c(1) by simp
    ultimately show ?thesis using c(2) by (auto intro: proceedsI)
  next
    case False
    then have room: "0 < room (client_to_sv c)" by simp
    show ?thesis
      using authentication_read_spec [OF ok call ap room]
    proof (elim exE conjE, goal_cases)
      case (1 s1)
      have "client_at i s1 = Some c" using silentD(2) [OF 1(1)] c(1) by simp
      with 1(2) c(2) ap show ?case
        by (auto simp: Let_def client_ok_def handshake_ok_def kind_def split: sum.splits if_splits
            elim!: proceedsI intro!: proceeds_error)
    qed
  qed
qed

lemma authentication_write_proceeds:
  assumes ok: "os_ok os" "mallocs_ok os" and call: "called i key c s" and h: "kind (handshake c) = 1"
  shows "proceeds i AUTH_WRITE c (authentication_write os key s)"
proof -
  obtain ap where ap: "handshake c = Authentication ap" using h by (cases "handshake c") (auto simp: kind_def)
  from call have c: "client_at i s = Some c" "client_ok c" by (simp_all add: called_def)
  show ?thesis
    using authentication_write_spec [OF ok call]
  proof (elim exE conjE, goal_cases)
    case (1 s1)
    have at: "client_at i s1 = Some c" using silentD(2) [OF 1(1)] c(1) by simp
    show ?case
    proof (cases "os_send os (hist s1) (key_fd key) (contents (sv_to_client c))")
      case (Inl e)
      with 1(2) at c(2) show ?thesis by (auto intro!: proceeds_error)
    next
      case (Inr k)
      let ?r = "record_event (Send (key_fd key) (contents (sv_to_client c)) (Inr k)) s1"
      from 1(2) Inr obtain ret s' where run: "authentication_write os key s = Some (ret, s')"
        and r: "k = 0 \<longrightarrow> ret = state_id SOCKS_ERROR \<and> s' = ?r"
          "k \<noteq> 0 \<longrightarrow> keeps i s s' \<and> (\<exists>q' \<in> set (successors AUTH_WRITE). ret = state_id q')"
        by (simp, elim exE conjE) (simp split: if_splits)
      show ?thesis
      proof (cases "k = 0")
        case True
        then show ?thesis using run r(1) proceeds_error [of i ?r c AUTH_WRITE] at c(2) by simp
      next
        case False
        then show ?thesis using run r(2) proceeds_keeps [of i s s', OF _ c(1)] by auto
      qed
    qed
  qed
qed

section \<open>The machine\<close>

definition hands_shakes :: "socks_v5state list" where
  "hands_shakes = [NEGOTIATION_READ, NEGOTIATION_WRITE, AUTH_READ, AUTH_WRITE]"

text \<open>The arrival in the next state finds the member that it reinterprets, and sets up its own.\<close>

lemma arrival_typed:
  assumes mem: "mallocs_ok os" and key: "ATTACHMENT key = Some i"
    and q: "q \<in> set hands_shakes" "q' \<in> set (successors q)" "q' \<noteq> q"
    and c: "client_ok c" "machine_ok c" "member_kind q = Some (kind (handshake c))"
    and d: "nth_opt (client_table os u v w x) (state_id q') = Some d"
  shows "\<exists>s2 c2. notify (on_arrival d) (sd_state d) key (set_client i (enter q' c) s) = Some s2
    \<and> client_at i s2 = Some c2 \<and> well_typed q' c2"
proof -
  let ?s = "set_client i (enter q' c) s"
  consider "q' \<in> {NEGOTIATION_WRITE, AUTH_WRITE}" "kind (handshake c) = the (member_kind q')"
    | "q' = AUTH_READ" "kind (handshake c) = 0" | "q' = REQ_READ" "kind (handshake c) = 1" | "q' = SOCKS_ERROR"
    using q c(3) by (cases q) (auto simp: hands_shakes_def)
  then show ?thesis
  proof cases
    case 1
    then have "on_arrival d = None" using d by (auto simp: client_table_entries state_entry_def)
    with 1 c(1,2) show ?thesis
      by (intro exI [of _ ?s] exI [of _ "enter q' c"]) (auto simp: notify_def well_typed_def)
  next
    case 2
    then obtain np where np: "handshake c = Negotiation np" by (cases "handshake c") (auto simp: kind_def)
    let ?c = "(enter q' c)\<lparr>handshake := Authentication (initialize_auth_parser (the (as_auth (handshake c))))\<rparr>"
    have "client_ok ?c"
      using c(1) by (simp add: client_ok_def enter_def handshake_ok_def np as_auth_def auth_parser_ok_def initialize_auth_parser_def)
    moreover have "machine_ok ?c" using machine_ok_enter [OF c(2), of q'] machine_ok_cong [of ?c "enter q' c"] by simp
    ultimately show ?thesis using 2 d key np
      by (intro exI [of _ "set_client i ?c ?s"] exI [of _ ?c])
        (auto simp: notify_def well_typed_def client_table_entries state_entry_def authentication_read_init_def as_auth_def kind_def)
  next
    case 3
    then obtain ap where ap: "handshake c = Authentication ap" by (cases "handshake c") (auto simp: kind_def)
    let ?c = "(enter q' c)\<lparr>handshake := Request (initialize_request_parser (the (as_req (handshake c))))\<rparr>"
    have "length (uname ap) = 256" "length (passwd ap) = 256"
      using c(1) by (simp_all add: client_ok_def handshake_ok_def ap auth_parser_ok_def)
    then have "client_ok ?c"
      using c(1) by (simp add: client_ok_def enter_def handshake_ok_def ap as_req_def Let_def initialize_request_ok)
    moreover have "machine_ok ?c" using machine_ok_enter [OF c(2), of q'] machine_ok_cong [of ?c "enter q' c"] by simp
    ultimately show ?thesis using 3 d key ap
      by (intro exI [of _ "set_client i ?c ?s"] exI [of _ ?c])
        (auto simp: notify_def well_typed_def client_table_entries state_entry_def request_read_init_def as_req_def kind_def Let_def)
  next
    case 4
    then have "on_arrival d = Some (error_arrival os)" using d by (auto simp: client_table_def nth_opt_def state_id.simps state_entry_def)
    moreover obtain s2 where "log_line os ERROR ''Error state'' ?s = Some s2"
      using log_line_returns [OF mem, of "''Error state''" ERROR ?s] by (simp, blast)
    ultimately show ?thesis using 4 c(1,2) log_line_silent [of os ERROR "''Error state''" ?s s2] silentD(2) [of ?s s2]
      by (intro exI [of _ s2] exI [of _ "enter q' c"]) (simp add: notify_def error_arrival_def well_typed_def)
  qed
qed

lemma typed_step:
  assumes mem: "mallocs_ok os" and key: "ATTACHMENT key = Some i" and at: "client_at i s = Some c"
    and q: "q \<in> set hands_shakes" "well_typed q c"
    and d: "nth_opt (client_table os u v w x) (state_id q) = Some d" "ready d = Some f"
    and ans: "proceeds i q c (f key s)"
  shows "\<exists>q' s' c'. stm_handler ready (client_table os u v w x) (client_stm i) key s = Some (state_id q', s')
    \<and> q' \<in> set (successors q) \<and> client_at i s' = Some c' \<and> well_typed q' c'"
proof -
  have c: "machine_ok c" "stm_current (stm c) = Some (state_id q)" "member_kind q = Some (kind (handshake c))"
    using q by (auto simp: well_typed_def hands_shakes_def)
  from ans obtain q' s1 c1 where r: "f key s = Some (state_id q', s1)" "q' \<in> set (successors q)"
    "client_at i s1 = Some c1" "client_ok c1" "stm c1 = stm c" "kind (handshake c1) = kind (handshake c)"
    unfolding proceeds_def by blast
  have m1: "machine_ok c1" using c(1) r(5) machine_ok_cong by blast
  show ?thesis
  proof (cases "q' = q")
    case True
    have "stm_handler ready (client_table os u v w x) (client_stm i) key s = Some (state_id q', s1)"
      using at c r True d m1
      by (simp add: stm_handler_def handle_first_def jump_def client_stm_get machine_ok_def current_valid_def)
    moreover have "well_typed q' c1" using m1 r True c by (simp add: well_typed_def)
    ultimately show ?thesis using r(2,3) by blast
  next
    case False
    obtain d' where d': "nth_opt (client_table os u v w x) (state_id q') = Some d'"
      by (cases q') (simp_all add: client_table_def nth_opt_def state_id.simps)
    obtain s2 c2 where a: "notify (on_arrival d') (sd_state d') key (set_client i (enter q' c1) s1) = Some s2"
      "client_at i s2 = Some c2" "well_typed q' c2"
      using arrival_typed [OF mem key q(1) r(2) False r(4) m1 _ d', of s1] c(3) r(6) by auto
    from event_moves [where f = f and key = key and ready = ready, OF at c(1,2) d r(1,3,5) False d' a(1)] show ?thesis using r(2) a(2,3) by blast
  qed
qed

text \<open>The event that a state of the handshake waits for, at the machine of client \<open>i\<close>.\<close>

definition handshake_event :: "os \<Rightarrow> others \<Rightarrow> socks_v5state \<Rightarrow> nat \<Rightarrow> key \<Rightarrow> st \<Rightarrow> (nat \<times> st) option" where
  "handshake_event os others q i =
     (if q \<in> {NEGOTIATION_READ, AUTH_READ} then stm_handler_read (client_actions os others) (client_stm i)
      else stm_handler_write (client_actions os others) (client_stm i))"

lemma handshake_typed:
  assumes ok: "os_ok os" "mallocs_ok os" and call: "called i key c s"
    and q: "q \<in> set hands_shakes" "well_typed q c"
  shows "\<exists>q' s' c'. handshake_event os others q i key s = Some (state_id q', s')
    \<and> q' \<in> set (successors q) \<and> client_at i s' = Some c' \<and> well_typed q' c'"
proof -
  have key: "ATTACHMENT key = Some i" "client_at i s = Some c" using call by (simp_all add: called_def)
  note step = typed_step [OF ok(2) key q]
  consider "q = NEGOTIATION_READ" | "q = NEGOTIATION_WRITE" | "q = AUTH_READ" | "q = AUTH_WRITE"
    using q(1) by (auto simp: hands_shakes_def)
  then show ?thesis
  proof cases
    case 1
    have "proceeds i q c (negotiation_read os key s)"
      using negotiation_read_proceeds [OF ok call] q(2) 1 by (simp add: well_typed_def)
    note ans = this
    have ev: "handshake_event os others q i = stm_handler on_read_ready (client_actions os others) (client_stm i)"
      by (simp add: 1 handshake_event_def stm_handler_read_def fun_eq_iff)
    show ?thesis unfolding ev client_actions_def
      by (rule step [where f = "negotiation_read os", OF _ _ ans]) (auto simp: 1 client_table_entries state_entry_def)
  next
    case 2
    have "proceeds i q c (negotiation_write os key s)"
      using negotiation_write_proceeds [OF ok call] q(2) 2 by (simp add: well_typed_def)
    note ans = this
    have ev: "handshake_event os others q i = stm_handler on_write_ready (client_actions os others) (client_stm i)"
      by (simp add: 2 handshake_event_def stm_handler_write_def fun_eq_iff)
    show ?thesis unfolding ev client_actions_def
      by (rule step [where f = "negotiation_write os", OF _ _ ans]) (auto simp: 2 client_table_entries state_entry_def)
  next
    case 3
    have "proceeds i q c (authentication_read os key s)"
      using authentication_read_proceeds [OF ok call] q(2) 3 by (simp add: well_typed_def)
    note ans = this
    have ev: "handshake_event os others q i = stm_handler on_read_ready (client_actions os others) (client_stm i)"
      by (simp add: 3 handshake_event_def stm_handler_read_def fun_eq_iff)
    show ?thesis unfolding ev client_actions_def
      by (rule step [where f = "authentication_read os", OF _ _ ans]) (auto simp: 3 client_table_entries state_entry_def)
  next
    case 4
    have "proceeds i q c (authentication_write os key s)"
      using authentication_write_proceeds [OF ok call] q(2) 4 by (simp add: well_typed_def)
    note ans = this
    have ev: "handshake_event os others q i = stm_handler on_write_ready (client_actions os others) (client_stm i)"
      by (simp add: 4 handshake_event_def stm_handler_write_def fun_eq_iff)
    show ?thesis unfolding ev client_actions_def
      by (rule step [where f = "authentication_write os", OF _ _ ans]) (auto simp: 4 client_table_entries state_entry_def)
  qed
qed

text \<open>The reading states do not move while the buffer is full.\<close>

lemma handshake_waits:
  assumes mem: "mallocs_ok os" and call: "called i key c s" and room: "room (client_to_sv c) = 0"
    and q: "q \<in> {NEGOTIATION_READ, AUTH_READ}" "well_typed q c"
  shows "\<exists>s'. handshake_event os others q i key s = Some (state_id q, s') \<and> silent s s' \<and> client_at i s' = Some c"
proof -
  have c: "machine_ok c" "stm_current (stm c) = Some (state_id q)" "client_at i s = Some c"
    using q(2) call by (simp_all add: well_typed_def called_def)
  let ?f = "if q = NEGOTIATION_READ then negotiation_read os else authentication_read os"
  obtain s1 where s1: "?f key s = Some (state_id q, s1)" "silent s s1"
    using full_buffer_waits [OF mem call room] q(1) by auto
  then have at1: "client_at i s1 = Some c" using silentD(2) c(3) by simp
  have "stm_handler_read (client_actions os others) (client_stm i) key s = Some (state_id q, s1)"
    using c q(1) s1(1) at1
    by (auto simp: stm_handler_read_def stm_handler_def handle_first_def jump_def client_stm_get client_actions_def
        client_table_entries state_entry_def machine_ok_def current_valid_def)
  then show ?thesis using q(1) s1(2) at1 by (auto simp: handshake_event_def)
qed

end
