(* ===== verification/Accounts.thy ===== *)
theory Accounts
  imports Ownership
begin

text \<open>
  The table of users, whatever the size of the block behind it: the counts and the bounds of the
  names that every operation keeps, also after \<open>SET-MAX-USERS\<close> has made the block too small for
  its limit. \<open>users_core\<close> is what is left of \<open>users_inv\<close> then.
\<close>

section \<open>What does not depend on the size of the block\<close>

definition users_core :: "user_table \<Rightarrow> bool" where
  "users_core t \<longleftrightarrow> cantUsers t = length (users t) \<and> admins t = admin_count (users t)
     \<and> cantUsers t \<le> max_users t \<and> max_users t < 2 ^ 32
     \<and> (\<forall>u \<in> set (users t). u_name u \<noteq> [] \<and> length (u_name u) \<le> USER_MAX_LENGTH
          \<and> length (u_pass u) \<le> USER_MAX_LENGTH)"

abbreviation roomy :: "user_table \<Rightarrow> user_table" where
  "roomy t \<equiv> t\<lparr>users_cap := max_users t\<rparr>"

lemma users_core_roomy: "users_core t \<longleftrightarrow> users_inv (roomy t)"
  by (auto simp: users_core_def users_inv_def)

lemma users_core_cap [simp]: "users_core (t\<lparr>users_cap := n\<rparr>) = users_core t"
  by (simp add: users_core_def)

lemma users_inv_core: "users_inv t \<Longrightarrow> users_core t"
  by (simp add: users_core_def users_inv_def)

lemma user_exists_cap [simp]: "user_exists (t\<lparr>users_cap := n\<rparr>) name = user_exists t name"
  by (simp add: user_exists_def)

lemma new_user_core:
  assumes "users_core t" and "new_user ok t name pass = Some (r, t')"
  shows "users_core t'"
proof -
  have "new_user ok (roomy t) name pass = Some (r, t'\<lparr>users_cap := max_users t\<rparr>)"
    using assms(2) by (auto simp: new_user_def Let_def bind_eq_Some_conv split: option.splits if_splits)
  then have "users_inv (t'\<lparr>users_cap := max_users t\<rparr>)"
    using new_user_spec [of "roomy t" ok name pass] assms(1) by (auto simp: users_core_roomy)
  then show ?thesis using users_inv_core by fastforce
qed

lemma change_status_core: "users_core t \<Longrightarrow> users_core (change_status t name st)"
proof -
  assume "users_core t"
  then have "users_inv (change_status (roomy t) name st)" by (intro change_status_inv) (simp add: users_core_roomy)
  moreover have "change_status (roomy t) name st = (change_status t name st)\<lparr>users_cap := max_users t\<rparr>"
    by (simp add: change_status_def Let_def)
  ultimately show ?thesis using users_inv_core by fastforce
qed

lemma change_password_core:
  assumes "users_core t" and "change_password t name old new = (r, t')"
  shows "users_core t'"
proof -
  have "change_password (roomy t) name old new = (r, t'\<lparr>users_cap := max_users t\<rparr>)"
    using assms(2) by (auto simp: change_password_def Let_def split: if_splits)
  then have "users_inv (t'\<lparr>users_cap := max_users t\<rparr>)"
    using change_password_inv assms(1) by (simp add: users_core_roomy)
  then show ?thesis using users_inv_core by fastforce
qed

lemma delete_user_core:
  assumes "users_core t" and "delete_user t name = (r, t')"
  shows "users_core t'"
proof -
  have "delete_user (roomy t) name = (r, t'\<lparr>users_cap := max_users t\<rparr>)"
    using assms(2) by (auto simp: delete_user_def Let_def split: if_splits)
  then have "users_inv (t'\<lparr>users_cap := max_users t\<rparr>)"
    using delete_user_inv assms(1) by (simp add: users_core_roomy)
  then show ?thesis using users_inv_core by fastforce
qed

lemma create_access_core:
  assumes "users_core t" and "create_access ok t name = Some (sb, t')"
  shows "users_core t'"
proof -
  have "create_access ok (roomy t) name = Some (sb, t'\<lparr>users_cap := max_users t\<rparr>)"
    using assms(2) by (auto simp: create_access_def Let_def split: if_splits)
  then have "users_inv (t'\<lparr>users_cap := max_users t\<rparr>)"
    using create_access_inv assms(1) by (simp add: users_core_roomy)
  then show ?thesis using users_inv_core by fastforce
qed

text \<open>What goes into an access log changes the entry's builder, whichever entry it is.\<close>

lemma store_access_core:
  assumes "users_core t"
  shows "users_core (store_access name sb t)"
proof -
  let ?i = "nat (user_exists t name)"
  show ?thesis
  proof (cases "?i < length (users t)")
    case True
    let ?u = "(users t ! ?i)\<lparr>u_access := Some sb\<rparr>"
    have "admin_count ((users t)[?i := ?u]) = admin_count (users t)"
      using admin_count_update [OF True, of ?u] by simp
    moreover have "set ((users t)[?i := ?u]) \<subseteq> insert ?u (set (users t))" by (rule set_update_subset_insert)
    moreover have "users t ! ?i \<in> set (users t)" using True by simp
    ultimately show ?thesis using assms by (fastforce simp: users_core_def store_access_def Let_def)
  next
    case False
    then have "store_access name sb t = t" by (simp add: store_access_def Let_def list_update_beyond)
    with assms show ?thesis by simp
  qed
qed

text \<open>Whatever the size computed for the block, the limit itself is one of the table's counts.\<close>

lemma realloc_users_core:
  assumes "users_core t" and "realloc_users n k t = Some t'" and "cantUsers t \<le> k" and "k < 2 ^ 32"
  shows "users_core t'"
  using assms by (auto simp: realloc_users_def users_core_def bind_eq_Some_conv)

section \<open>From the start\<close>

lemma init_users_core:
  assumes "init_users m1 m2 users_globals = Some (r, t)"
  shows "users_core t"
proof -
  have core: "users_core users_globals" by (simp add: users_core_def users_globals_def)
  show ?thesis
  proof (cases "m1 \<and> admins users_globals = 0")
    case True
    with assms obtain t2 x where 2: "new_user m2 (users_globals\<lparr>users_cap := max_users users_globals\<rparr>)
        (Some ''admin'') (Some ''admin'') = Some (x, t2)" "t = change_status t2 ''admin'' ADMIN"
      by (auto simp: init_users_def Let_def bind_eq_Some_conv)
    have "users_core t2" by (rule new_user_core [OF _ 2(1)]) (simp add: core)
    then show ?thesis by (simp add: 2(2) change_status_core)
  qed (use assms core in \<open>auto simp: init_users_def Let_def split: if_splits\<close>)
qed

end
