(* ===== verification/Steps.thy ===== *)
theory Steps
  imports Accounts
begin

text \<open>
  What every callback of the server may do to clients and users, once and for all. A relation
  \<open>R\<close> between states that the operations of \<open>World\<close> respect (locale \<open>stepping\<close>: calls to the
  system and the selector's table are nothing to it, a client is written back as an
  acceptable version of what was read, the table of users only changes as its operations do) is
  respected by every handler of \<open>request.c\<close>, \<open>copy.c\<close>, \<open>manager.c\<close> and the rest. Invariants of the
  server are interpretations: see \<open>Invariants\<close>.
\<close>

declare split_paired_Ex [simp del] split_paired_All [simp del]

section \<open>The contract\<close>

definition obeys :: "(st \<Rightarrow> st \<Rightarrow> bool) \<Rightarrow> (st \<Rightarrow> st option) \<Rightarrow> bool" where
  "obeys R f \<longleftrightarrow> (\<forall>s t. R s t \<longrightarrow> post (R s) (f t))"

definition obeys2 :: "(st \<Rightarrow> st \<Rightarrow> bool) \<Rightarrow> (st \<Rightarrow> ('a \<times> st) option) \<Rightarrow> bool" where
  "obeys2 R f \<longleftrightarrow> (\<forall>s t. R s t \<longrightarrow> post (\<lambda>(_, t'). R s t') (f t))"

named_theorems step_intros

lemma postD2: "post (\<lambda>(_, t'). Q t') m \<Longrightarrow> m = Some (r, t') \<Longrightarrow> Q t'"
  by (simp add: post_def)

lemma kind_simps [simp]:
  "kind (Negotiation np) = 0" "kind (Authentication ap) = 1" "kind (Request rp) = 2"
  "as_neg h = Some np' \<Longrightarrow> kind h = 0" "the_req h = Some rp' \<Longrightarrow> kind h = 2"
  by (auto simp: kind_def as_neg_def the_req_def split: handshake.splits)

lemma put_buf_handshake [simp]: "handshake (put_buf d b c) = handshake c"
  by (cases d) simp_all

text \<open>Two states with the same clients and users.\<close>

definition same_people :: "st \<Rightarrow> st \<Rightarrow> bool" where
  "same_people s t \<longleftrightarrow> users_of t = users_of s \<and> clients (snd t) = clients (snd s)"

locale stepping =
  fixes R :: "st \<Rightarrow> st \<Rightarrow> bool" and sim :: "client_data \<Rightarrow> client_data \<Rightarrow> bool"
  assumes step_refl [simp]: "R s s"
    and step_trans: "R s t \<Longrightarrow> R t u \<Longrightarrow> R s u"
    and step_same: "same_people t t' \<Longrightarrow> R t t'"
    and step_client [step_intros]: "R s t \<Longrightarrow> client_at i u = Some c \<Longrightarrow> R s u \<Longrightarrow> sim c c' \<Longrightarrow> R s (set_client i c' t)"
    and step_gone: "R s (socksv5_destroy i s)"
    and step_users: "(users_core (users_of s) \<Longrightarrow> users_core us) \<Longrightarrow> R s (set_users us s)"
    and sim_same [simp]: "stm c' = stm c \<Longrightarrow> kind (handshake c') = kind (handshake c) \<Longrightarrow> sim c c'"
begin

lemma same_peopleD: "same_people t t' \<Longrightarrow> R t t' \<and> R t' t"
  by (simp add: step_same same_people_def)

lemma step_people: "same_people t t' \<Longrightarrow> R s t' = R s t"
  by (blast dest: same_peopleD intro: step_trans)

lemma step_people_left: "same_people t t' \<Longrightarrow> R t' u = R t u"
  by (blast dest: same_peopleD intro: step_trans)

lemma step_sel: "R s (x, w) = R s (y, w)"
  by (rule step_people) (simp add: same_people_def)

lemma step_frame [simp]:
  "R s (record_event e t) = R s t" "R s (set_sel sel t) = R s t" "R s (with_metrics f t) = R s t"
  "R s (set_manager j m t) = R s t" "R s (free_manager j t) = R s t"
  "R s (sel, w\<lparr>threads := js\<rparr>) = R s (sel, w)" "R s (sel, w\<lparr>next_client := n\<rparr>) = R s (sel, w)"
  "R s (sel, w\<lparr>next_manager := n\<rparr>) = R s (sel, w)" "R s (sel, w\<lparr>logs := lg\<rparr>) = R s (sel, w)"
  "R s (fst t, snd u) = R s u"
  by (rule step_people, simp add: same_people_def record_event_def set_sel_def
      with_metrics_def set_manager_def free_manager_def)+

lemma step_frame_left [simp]: "R (fst t, snd u) s = R u s"
  by (rule step_people_left) (simp add: same_people_def)

lemma step_if [simp]: "R s (if b then t else u) \<longleftrightarrow> (b \<longrightarrow> R s t) \<and> (\<not> b \<longrightarrow> R s u)"
  by simp

lemma step_destroy [simp]: "R s t \<Longrightarrow> R s (socksv5_destroy i t)"
  using step_gone step_trans by blast

lemma step_set_users [step_intros]:
  "R s t \<Longrightarrow> (users_core (users_of t) \<Longrightarrow> users_core us) \<Longrightarrow> R s (set_users us t)"
  "R s t \<Longrightarrow> (users_core (users_of t) \<Longrightarrow> users_core us) \<Longrightarrow> R s (x, (snd t)\<lparr>user_tab := us\<rparr>)"
  "R s (y, w) \<Longrightarrow> (users_core (user_tab w) \<Longrightarrow> users_core us) \<Longrightarrow> R s (x, w\<lparr>user_tab := us\<rparr>)"
proof -
  have set: "R s (set_users us t)" if "R s t" "users_core (users_of t) \<Longrightarrow> users_core us" for t
    using step_trans [OF that(1) step_users] that(2) by blast
  then show "R s t \<Longrightarrow> (users_core (users_of t) \<Longrightarrow> users_core us) \<Longrightarrow> R s (set_users us t)" .
  have any: "R s (x, (snd t)\<lparr>user_tab := us\<rparr>) = R s (set_users us t)" for t
    by (rule step_people) (simp add: same_people_def set_users_def)
  with set show "R s t \<Longrightarrow> (users_core (users_of t) \<Longrightarrow> users_core us) \<Longrightarrow> R s (x, (snd t)\<lparr>user_tab := us\<rparr>)" by simp
  show "R s (y, w) \<Longrightarrow> (users_core (user_tab w) \<Longrightarrow> users_core us) \<Longrightarrow> R s (x, w\<lparr>user_tab := us\<rparr>)"
    using set [of "(y, w)"] any [of "(y, w)"] by simp
qed

lemma step_only_trace: "only_trace t t' \<Longrightarrow> R s t \<Longrightarrow> R s t'"
  using step_people [of t t' s] by (auto simp: only_trace_def same_people_def)

lemma obeysI: "(\<And>s. post (R s) (f s)) \<Longrightarrow> obeys R f"
  unfolding obeys_def post_def by (blast intro: step_trans)

lemma obeys2I: "(\<And>s. post (\<lambda>(_, s'). R s s') (f s)) \<Longrightarrow> obeys2 R f"
  unfolding obeys2_def post_def by (auto intro: step_trans)

lemma obeysD: "obeys R f \<Longrightarrow> R s t \<Longrightarrow> post (R s) (f t)"
  "obeys2 R g \<Longrightarrow> R s t \<Longrightarrow> post (\<lambda>(_, t'). R s t') (g t)"
  by (simp_all add: obeys_def obeys2_def)

lemma obeys_run [step_intros]:
  "f t = Some t' \<Longrightarrow> obeys R f \<Longrightarrow> R s t \<Longrightarrow> R s t'"
  "g t = Some (r, t') \<Longrightarrow> obeys2 R g \<Longrightarrow> R s t \<Longrightarrow> R s t'"
  by (auto simp: obeys_def obeys2_def post_def)

lemma step_calls [step_intros]:
  "sys_malloc os n t = (m, t') \<Longrightarrow> R s t \<Longrightarrow> R s t'"
  "sys_send os fd bs t = (r, t') \<Longrightarrow> R s t \<Longrightarrow> R s t'"
  "sys_recv os fd n t = (r', t') \<Longrightarrow> R s t \<Longrightarrow> R s t'"
  "sys_set_nio os fd t = (o', t') \<Longrightarrow> R s t \<Longrightarrow> R s t'"
  "sys_accept os fd t = (a, t') \<Longrightarrow> R s t \<Longrightarrow> R s t'"
  "log_line os ty msg t = Some t' \<Longrightarrow> R s t \<Longrightarrow> R s t'"
  "new_sb os t = (b, t') \<Longrightarrow> R s t \<Longrightarrow> R s t'"
  "append_sb os sb str t = Some (sb', t') \<Longrightarrow> R s t \<Longrightarrow> R s t'"
  "append_texts os sb ts t = Some (sb', t') \<Longrightarrow> R s t \<Longrightarrow> R s t'"
  "send_response os fd msg e t = Some t' \<Longrightarrow> R s t \<Longrightarrow> R s t'"
  "sys_socket os ad t = (x, t') \<Longrightarrow> R s t \<Longrightarrow> R s t'"
  "sys_connect os fd sa t = (er, t') \<Longrightarrow> R s t \<Longrightarrow> R s t'"
  "sys_getsockname os fd t = (na, t') \<Longrightarrow> R s t \<Longrightarrow> R s t'"
  "sys_getsockopt os fd t = (k, t') \<Longrightarrow> R s t \<Longrightarrow> R s t'"
  by (erule step_only_trace [OF only_trace_calls(1)] step_only_trace [OF only_trace_calls(2)]
        step_only_trace [OF only_trace_calls(3)] step_only_trace [OF only_trace_calls(5)]
        step_only_trace [OF only_trace_calls(4)] step_only_trace [OF only_trace_calls(8)]
        step_only_trace [OF only_trace_calls(6)] step_only_trace [OF only_trace_calls(7)]
        step_only_trace [OF append_texts_trace] step_only_trace [OF send_response_trace], assumption
      | simp add: sys_socket_def sys_connect_def sys_getsockname_def sys_getsockopt_def Let_def; clarify; simp)+

lemma step_log_msg [step_intros]: "log_msg os ty msg t = Some t' \<Longrightarrow> R s t \<Longrightarrow> R s t'"
  by (simp add: log_msg_same)

lemma log_msg_step: "R s t \<Longrightarrow> post (R s) (log_msg os ty msg t)"
  by (simp add: post_def log_msg_same)

lemma step_set_interest: "R s t \<Longrightarrow> post (\<lambda>(_, t'). R s t') (set_interest fd op t)"
  unfolding set_interest_def by (intro post_intros) simp

lemma step_set_interest_key: "R s t \<Longrightarrow> post (\<lambda>(_, t'). R s t') (set_interest_key key op t)"
  unfolding set_interest_key_def by (intro post_intros) simp

lemma step_register: "R s t \<Longrightarrow> post (\<lambda>(_, t'). R s t') (register os fd h i d t)"
  unfolding register_def by (intro post_intros) (simp add: step_intros)

lemma step_selector [step_intros]:
  "set_interest fd op t = Some (r, t') \<Longrightarrow> R s t \<Longrightarrow> R s t'"
  "set_interest_key key op t = Some (r, t') \<Longrightarrow> R s t \<Longrightarrow> R s t'"
  "register os fd h i d t = Some (r', t') \<Longrightarrow> R s t \<Longrightarrow> R s t'"
  by (blast intro: postD2 [OF step_set_interest] postD2 [OF step_set_interest_key] postD2 [OF step_register])+

lemma step_try_interest [step_intros]:
  "try_interest fd op t = Some t' \<Longrightarrow> R s t \<Longrightarrow> R s t'"
  by (auto simp: try_interest_def intro: step_selector)

lemma step_interest_if [step_intros]:
  "interest_if b fd op t = Some t' \<Longrightarrow> R s t \<Longrightarrow> R s t'"
  by (auto simp: interest_if_def intro: step_try_interest split: if_splits)

lemma step_buffers [step_intros]:
  "recv_buf os fd b n t = Some (r, t') \<Longrightarrow> R s t \<Longrightarrow> R s t'"
  "send_buf os fd b n t = Some (r', t') \<Longrightarrow> R s t \<Longrightarrow> R s t'"
  by (auto simp: recv_buf_def send_buf_def bind_eq_Some_conv split: prod.splits sum.splits intro: step_calls)

lemma step_close:
  assumes "handle_close (close_handlers os server_closers h) = Some f" and "R s t"
  shows "post (R s) (f key t)"
proof -
  consider "f = socksv5_close os" | "f = manager_close"
    using assms(1) by (auto simp: close_handlers_def server_closers_def split: if_splits)
  then show ?thesis
  proof cases
    case 1
    have "R s (after_close i fd c t)" if "client_at i t = Some c" for i fd c
      unfolding after_close_def Let_def
      using step_client [OF assms(2) that assms(2), of "dropped fd c"]
        step_client [of s "record_event (Close fd) t", OF _ that assms(2), of "dropped fd c"] assms(2)
      by (simp add: dropped_def)
    then show ?thesis unfolding 1 post_def by (blast elim: socksv5_close_run)
  next
    case 2
    have "same_people t t'" if "manager_close key t = Some t'" for t'
      using manager_close_frame(2,3) [OF that] by (auto simp: same_people_def client_at_def)
    then show ?thesis unfolding 2 post_def using step_people assms(2) by blast
  qed
qed

lemma step_unregister_post: "R s t \<Longrightarrow> post (\<lambda>(_, t'). R s t') (unregister_any os fd t)"
proof -
  assume t: "R s t"
  have close: "R s (sel, w1)" if "(case handle_close (close_handlers os server_closers h) of
      None \<Rightarrow> Some u | Some f \<Rightarrow> f key u) = Some (s1, w1)" "u = t" for h key u s1 w1 sel
  proof -
    have "post (R s) (case handle_close (close_handlers os server_closers h) of None \<Rightarrow> Some u | Some f \<Rightarrow> f key u)"
      using t that(2) by (intro post_intros step_close) simp_all
    with that(1) have "R s (s1, w1)" by (simp add: post_def)
    then show ?thesis by (simp add: step_sel [of s sel w1 s1])
  qed
  show ?thesis
    unfolding unregister_any_def unregister_fd_def selector_unregister_fd_def
    by (intro post_intros) (simp_all add: t close [OF _ refl])
qed

lemma step_unregister [step_intros]:
  "unregister_any os fd t = Some (r, t') \<Longrightarrow> R s t \<Longrightarrow> R s t'"
  by (blast intro: postD2 [OF step_unregister_post])

text \<open>The connections.\<close>

lemma append_pieces_step: "R s t \<Longrightarrow> post (\<lambda>(_, t'). R s t') (append_pieces os sb ps t)"
proof (induction ps arbitrary: sb t)
  case (Cons p ps)
  then show ?case by (cases p; simp only: append_pieces.simps; intro post_intros) (simp_all add: step_intros)
qed (simp add: post_def)

lemma log_access_step [step_intros]:
  assumes "log_access os c rp t = Some t'" and "R s t"
  shows "R s t'"
proof -
  have new: "R s (a, b\<lparr>user_tab := us\<rparr>)" if "sys_malloc os 24 t = (m, a, b)" "create_access m (user_tab b) name = Some (sb, us)"
    for m a b name sb us
    by (rule step_set_users(3) [OF step_calls(1) [OF that(1) assms(2)]]) (rule create_access_core [OF _ that(2)])
  have "post (\<lambda>(_, u). R s u) (case get_access (user_tab (snd t)) name of
      Some sb \<Rightarrow> Some (sb, t)
    | None \<Rightarrow> do {
        let (m, s1) = sys_malloc os 24 t;
        (sb, us) \<leftarrow> create_access m (user_tab (snd s1)) name;
        sb0 \<leftarrow> sb;
        Some (sb0, (fst s1, (snd s1)\<lparr>user_tab := us\<rparr>)) })" for name
    by (intro post_intros) (auto intro: new assms(2))
  note first = this [unfolded post_def, rule_format]
  have "post (R s) (log_access os c rp t)"
    unfolding log_access_def
    by (intro post_intros)
      (auto intro!: step_set_users(2) store_access_core dest!: first postD2 [OF append_pieces_step, rotated])
  with assms(1) show ?thesis by (simp add: post_def)
qed

lemma handshake_step:
  "post (R s) (negotiation_read_init st key s)" "post (\<lambda>(_, s'). R s s') (negotiation_read os key s)"
  "post (\<lambda>(_, s'). R s s') (negotiation_write os key s)" "post (\<lambda>(_, s'). R s s') (authentication_write os key s)"
  "post (\<lambda>(_, s'). R s s') (request_write os key s)"
  unfolding negotiation_read_init_def negotiation_read_def negotiation_write_def authentication_write_def request_write_def
  by (intro post_intros; simp add: step_intros)+

text \<open>\<open>authentication_read\<close> takes the union for a login, whatever it holds.\<close>

lemma authentication_read_step:
  assumes "\<And>t i c c'. ATTACHMENT key = Some i \<Longrightarrow> silent s t \<Longrightarrow> client_at i t = Some c \<Longrightarrow> stm c' = stm c \<Longrightarrow> kind (handshake c') = 1 \<Longrightarrow> sim c c'"
  shows "post (\<lambda>(_, s'). R s s') (authentication_read os key s)"
  unfolding authentication_read_def
proof (rule post_bind)
  fix t
  assume "log_line os INFO ''Authentication read started '' s = Some t"
  then have t: "silent s t" "R s t" using log_line_silent step_calls(6) [OF _ step_refl] by blast+
  note acc = assms [OF _ t(1)]
  show "post (\<lambda>(_, s'). R s s') (do {
     i \<leftarrow> ATTACHMENT key;
     c \<leftarrow> client_at i t;
     (_, bytes_available) \<leftarrow> buffer_write_ptr (client_to_sv c);
     if \<not> buffer_can_write (client_to_sv c) then Some (state_id AUTH_READ, t)
     else do {
       (r, s1) \<leftarrow> recv_buf os (key_fd key) (client_to_sv c) bytes_available t;
       case r of
         Inl _ \<Rightarrow> Some (state_id SOCKS_ERROR, s1)
       | Inr (bytes_read, b1) \<Rightarrow>
           if bytes_read = 0 then Some (state_id SOCKS_ERROR, s1)
           else do {
             b2 \<leftarrow> buffer_write_adv b1 (int bytes_read);
             ap \<leftarrow> as_auth (handshake c);
             (ap1, b3) \<leftarrow> auth_parse ap b2;
             let c1 = c\<lparr>client_to_sv := b3, handshake := Authentication ap1\<rparr>;
             if is_auth_done ap1 then do {
               let login = user_login (user_tab (snd s1)) (string_of (cstr (uname ap1)))
                             (string_of (cstr (passwd ap1)));
               let authenticated = (if login < 0 then ACCESS_DENIED else AUTHENTICATED);
               name \<leftarrow> strcpy (username c1) (uname ap1);
               (err, b4) \<leftarrow> auth_generate_response (sv_to_client c1) authenticated;
               let s2 = set_client i (c1\<lparr>username := name, sv_to_client := b4\<rparr>) s1;
               if err then Some (state_id SOCKS_ERROR, s2)
               else do {
                 (st, s3) \<leftarrow> set_interest_key key OP_WRITE s2;
                 Some (state_id (if st \<noteq> SELECTOR_SUCCESS then SOCKS_ERROR else AUTH_WRITE), s3) } }
             else Some (state_id AUTH_READ, set_client i c1 s1) } } })"
    by (intro post_intros) (simp_all add: step_intros t acc)
qed

lemma handle_write_data_step: "obeys2 R (handle_write_data key i n b fd eof)"
  unfolding handle_write_data_def by (intro obeys2I post_intros) (simp_all add: step_intros)

lemma copy_write_step: "obeys2 R (copy_write os key)"
  unfolding copy_write_def
  by (intro obeys2I post_intros) (simp_all add: step_intros obeysD(2) [OF handle_write_data_step])

lemma handle_read_data_step:
  assumes "\<And>key. obeys2 R (raise i key)"
  shows "obeys2 R (handle_read_data raise key i n b fd eof)"
proof (intro obeys2I)
  fix s
  have eof: "R s (set_client i c2 s2)"
    if "client_at i s = Some c" and "(if key_fd key = client_fd c then
          let c1 = c\<lparr>client_eof := True\<rparr>
          in if \<not> buffer_can_read (client_to_sv c1) \<and> \<not> origin_eof c1
             then (c1\<lparr>origin_eof := True\<rparr>, record_event (Shutdown_WR (origin_fd c1))
                     (record_event (Shutdown_RD (key_fd key)) s))
             else (c1, record_event (Shutdown_RD (key_fd key)) s)
        else
          let c1 = c\<lparr>origin_eof := True\<rparr>
          in if \<not> buffer_can_read (sv_to_client c1) \<and> \<not> client_eof c1
             then (c1\<lparr>client_eof := True\<rparr>, record_event (Shutdown_WR (client_fd c1))
                     (record_event (Shutdown_RD (key_fd key)) s))
             else (c1, record_event (Shutdown_RD (key_fd key)) s)) = (c2, s2)" for c c2 s2
    using that by (auto simp: Let_def step_intros split: if_splits)
  show "post (\<lambda>(_, s'). R s s') (handle_read_data raise key i n b fd eof s)"
    unfolding handle_read_data_def
    by (intro post_intros) (simp_all add: step_intros obeysD(2) [OF assms] eof)
qed

lemma copy_read_step:
  assumes "\<And>i k. ATTACHMENT key = Some i \<Longrightarrow> obeys2 R (raise i k)"
  shows "obeys2 R (copy_read raise os key)"
  unfolding copy_read_def
  by (intro obeys2I post_intros) (simp_all add: step_intros obeysD(2) [OF handle_read_data_step [OF assms]])

text \<open>Connecting.\<close>

lemma error_reply_step: "obeys2 R (req_generate_response_error key msg)"
  unfolding req_generate_response_error_def by (intro obeys2I post_intros) (simp_all add: step_intros)

lemma connected_at_once_step: "obeys2 R (connected_at_once os key i)"
  unfolding connected_at_once_def by (intro obeys2I post_intros) (simp_all add: step_intros)

lemma drop_origin_step: "obeys R (drop_origin (unregister_any os) i)"
  unfolding drop_origin_def by (intro obeysI post_intros) (simp_all add: step_intros)

lemma next_address_step: "obeys R (next_address i as closed)"
  unfolding next_address_def by (intro obeysI post_intros) (simp add: step_intros)

lemma initiate_from_step: "R s t \<Longrightarrow> post (\<lambda>(_, t'). R s t') (initiate_from (unregister_any os) os key i as t)"
proof (induction as arbitrary: t)
  case Nil
  then show ?case
    unfolding initiate_from.simps
    by (intro post_intros obeysD(2) [OF error_reply_step])
      (simp add: step_intros obeys_run(1) [OF _ drop_origin_step])
next
  case (Cons a as)
  show ?case
    unfolding initiate_from.simps
    by (intro post_intros; (intro Cons.IH obeysD(2) [OF connected_at_once_step])?;
        simp add: step_intros Cons.prems obeys_run(1) [OF _ drop_origin_step] obeys_run(1) [OF _ next_address_step])
qed

lemma initiate_origin_connection_step: "obeys2 R (initiate_origin_connection (unregister_any os) os key)"
  unfolding initiate_origin_connection_def by (intro obeys2I post_intros initiate_from_step) simp

lemma connect_to_ip_step: "obeys2 R (connect_to_ip (unregister_any os) os key i n msg family addr)"
  unfolding connect_to_ip_def
  by (intro obeys2I post_intros)
    (simp_all add: step_intros obeysD(2) [OF error_reply_step] obeysD(2) [OF initiate_origin_connection_step])

lemma start_resolver_step: "obeys2 R (start_resolver os key i)"
  unfolding start_resolver_def
  by (intro obeys2I post_intros) (simp_all add: step_intros obeysD(2) [OF error_reply_step])

lemma handle_request_step: "obeys2 R (handle_request (unregister_any os) os key)"
  unfolding handle_request_def
  by (intro obeys2I post_intros)
    (simp_all add: obeysD(2) [OF connect_to_ip_step] obeysD(2) [OF start_resolver_step])

lemma request_read_step: "obeys2 R (request_read (unregister_any os) os key)"
  unfolding request_read_def
  by (intro obeys2I post_intros) (simp_all add: step_intros obeysD(2) [OF handle_request_step])

lemma request_resolve_step: "obeys2 R (request_resolve (unregister_any os) os key)"
  unfolding request_resolve_def
  by (intro obeys2I post_intros)
    (simp_all add: log_msg_same obeysD(2) [OF error_reply_step] obeysD(2) [OF initiate_origin_connection_step])

lemma request_connect_step: "obeys2 R (request_connect (unregister_any os) os key)"
  unfolding request_connect_def
  by (intro obeys2I post_intros)
    (simp_all add: step_intros obeysD(2) [OF error_reply_step] obeysD(2) [OF initiate_origin_connection_step])

lemma new_manager_step: "new_manager os fd t = (r, t') \<Longrightarrow> R s t \<Longrightarrow> R s t'"
  by (auto simp: new_manager_def Let_def split: prod.splits if_splits intro: step_calls(1))

lemma manager_accept_step: "obeys R (manager_passive_accept os key)"
  unfolding manager_passive_accept_def
  by (intro obeysI post_intros) (simp_all add: step_intros new_manager_step)

text \<open>Sessions.\<close>

lemma send_response_step: "obeys R (send_response os fd msg e)"
  by (rule obeysI) (simp add: post_def step_calls(10) [OF _ step_refl])

lemmas answer_step = obeysD(1) [OF send_response_step]

lemma listing_step:
  "obeys R (handle_list os fd)" "obeys R (handle_list_user os fd name)"
  "obeys R (handle_server_logs os fd)" "obeys R (handle_auth_command os fd cmd arg i)"
  "obeys R (handle_stat os fd)" "obeys R (handle_help os fd)" "obeys R (handle_quit os i)"
  unfolding handle_list_def handle_list_user_def handle_server_logs_def handle_auth_command_def
    handle_stat_def handle_help_def handle_quit_def
  by (intro obeysI post_intros; simp add: step_intros answer_step del: append_texts.simps)+

lemma handle_add_user_step: "obeys R (handle_add_user os fd name pass)"
  unfolding handle_add_user_def
  by (intro obeysI post_intros answer_step) (auto intro!: step_set_users(1) intro: new_user_core)

lemma handle_delete_user_step: "obeys R (handle_delete_user os fd name)"
  unfolding handle_delete_user_def
  by (intro obeysI post_intros answer_step) (auto intro: step_set_users(1) delete_user_core)

lemma handle_change_pass_step: "obeys R (handle_change_pass os fd i old new)"
  unfolding handle_change_pass_def
  by (intro obeysI post_intros answer_step) (auto intro: step_set_users(1) change_password_core)

lemma handle_change_status_step: "obeys R (handle_change_status os fd name status)"
  unfolding handle_change_status_def
  by (intro obeysI post_intros answer_step) (auto intro: step_set_users(1) change_status_core)

lemma handle_set_max_users_step: "obeys R (handle_set_max_users os fd arg)"
proof (intro obeysI)
  fix s
  have resized: "R s (set_users t s1)"
    if "sys_malloc os n s = (m, s1)" "realloc_users n (nat (k mod 2 ^ 32)) (users_of s1) = Some t"
      "\<not> nat (k mod 2 ^ 32) < cantUsers (users_of s)" for n m s1 k t
  proof -
    have same: "users_of s1 = users_of s" using only_traceD(4) [OF only_trace_calls(1) [OF that(1)]] .
    have "nat (k mod 2 ^ 32) < 2 ^ 32" by (simp add: nat_less_iff)
    then show ?thesis
      using step_set_users(1) [OF step_calls(1) [OF that(1) step_refl]] realloc_users_core [OF _ that(2)] that(3) same by simp
  qed
  have emptied: "R s (set_users ((users_of s1)\<lparr>users_cap := 0\<rparr>) s1)"
    if "sys_malloc os n s = (m, s1)" for n m s1
    by (rule step_set_users(1) [OF step_calls(1) [OF that step_refl]]) simp
  show "post (R s) (handle_set_max_users os fd arg s)"
    unfolding handle_set_max_users_def
    by (intro post_intros answer_step log_msg_step;
      (rule step_refl emptied step_calls(1) [OF _ step_refl] resized step_calls(10) [OF _ resized]; assumption)?)
qed

lemma run_command_step: "obeys R (run_command os fd cmd arg1 arg2 i)"
  unfolding obeys_def run_command_def
  by (intro allI impI post_cases(2);
      (rule listing_step [THEN obeysD(1)] handle_add_user_step [THEN obeysD(1)]
        handle_delete_user_step [THEN obeysD(1)] handle_change_pass_step [THEN obeysD(1)]
        handle_change_status_step [THEN obeysD(1)] handle_set_max_users_step [THEN obeysD(1)] answer_step; assumption))

lemma handle_command_step: "obeys R (handle_command os fd input i)"
  unfolding handle_command_def
  by (intro obeysI post_intros)
    (simp_all add: run_command_step [THEN obeysD(1)] listing_step(4) [THEN obeysD(1)] answer_step)

lemma manager_read_step: "obeys R (manager_read os key)"
proof (intro obeysI)
  fix s
  show "post (R s) (manager_read os key s)"
  proof (cases "key_data key")
    case (Some a)
    then show ?thesis
      unfolding manager_read_def
      by (cases a, simp add: post_def) (simp only: option.case attachment.case, intro post_intros,
        simp_all add: step_intros handle_command_step [THEN obeysD(1)] answer_step)
  qed (simp add: manager_read_def post_def)
qed

text \<open>The resolver, and the loop.\<close>

lemma resolution_step: "obeys R (request_resolve_domain_name os rs)"
proof (intro obeysI)
  fix s
  have err: "R s t" if "(case r of
      Inl msg \<Rightarrow> do {
        let (sb, u2) = new_sb os u;
        sb0 \<leftarrow> sb;
        (sb1, u3) \<leftarrow> append_sb os sb0 (CHR 0x27 # ''getaddrinfo'' @ CHR 0x27 # '' error: '') u2;
        (sb2, u4) \<leftarrow> append_sb os sb1 msg u3;
        log_msg os ERROR (sb_get_string sb2) u4 }
    | Inr _ \<Rightarrow> Some u) = Some t" "R s u" for r u t
  proof -
    have "post (R s) (case r of
      Inl msg \<Rightarrow> do {
        let (sb, u2) = new_sb os u;
        sb0 \<leftarrow> sb;
        (sb1, u3) \<leftarrow> append_sb os sb0 (CHR 0x27 # ''getaddrinfo'' @ CHR 0x27 # '' error: '') u2;
        (sb2, u4) \<leftarrow> append_sb os sb1 msg u3;
        log_msg os ERROR (sb_get_string sb2) u4 }
    | Inr _ \<Rightarrow> Some u)"
      by (intro post_intros) (simp_all add: that(2) step_intros log_msg_step)
    with that(1) show ?thesis by (simp add: post_def)
  qed
  show "post (R s) (request_resolve_domain_name os rs s)"
    unfolding request_resolve_domain_name_def
    by (intro post_intros log_msg_step; simp only: step_frame;
      erule step_calls(1), rule step_client, erule err, simp, assumption, simp, simp)
qed

lemma resolver_step: "obeys R (resolver_step os k)"
  unfolding resolver_step_def
  by (intro obeysI post_intros obeysD(1) [OF resolution_step]) simp

text \<open>The arrivals that set up no other parser, and the end of a connection.\<close>

lemma arrival_step: "obeys R (done_arrival os st key)" "obeys R (error_arrival os st key)"
  unfolding done_arrival_def error_arrival_def
  by (rule obeysI, simp add: post_def step_calls(6) [OF _ step_refl])+

lemmas handshake_keeps =
  obeysI [OF handshake_step(1)] obeys2I [OF handshake_step(2)] obeys2I [OF handshake_step(3)]
  obeys2I [OF handshake_step(4)] obeys2I [OF handshake_step(5)]

lemma done_fd_step: "obeys R (done_fd os server_closers fd)"
  unfolding done_fd_def unregister_server by (intro obeysI post_intros) (simp_all add: step_intros)

lemma socksv5_done_step: "obeys R (socksv5_done os server_closers key)"
  unfolding socksv5_done_def
  by (intro obeysI post_intros obeysD(1) [OF done_fd_step])
    (simp_all add: obeys_run(1) [OF _ done_fd_step])

lemma after_event_step:
  assumes "R s (snd r)"
  shows "post (R s) (after_event os server_closers key r)"
  unfolding after_event_def
  by (intro post_intros obeysD(1) [OF socksv5_done_step]) (use assms in simp_all)

end

text \<open>A relation that a new client does not disturb.\<close>

locale open_stepping = stepping +
  assumes step_fresh: "R s t \<Longrightarrow> R s (set_client i (fresh_client fd addr) t)"
begin

lemma socksv5_new_step: "obeys2 R (socksv5_new os fd addr)"
  unfolding socksv5_new_def new_client_data_fresh
  by (intro obeys2I post_intros) (auto simp: step_intros intro!: step_fresh)

lemma passive_accept_step: "obeys R (socks_v5_passive_accept os key)"
  unfolding socks_v5_passive_accept_def
  by (intro obeysI post_intros) (simp_all add: step_intros obeys_run(2) [OF _ socksv5_new_step])

end

text \<open>A relation that does not look at the clients' machines and parsers holds of all their events.\<close>

locale free_stepping = open_stepping +
  assumes any: "sim c c'"
begin

lemma step_put_stm [simp]: "R s t \<Longrightarrow> R s (put_stm (client_stm i) m t)"
  by (simp add: client_stm_def step_intros any split: option.split)

lemma reinterpreted_step:
  "obeys R (authentication_read_init st key)" "obeys R (request_read_init st key)" "obeys2 R (authentication_read os key)"
proof -
  show "obeys R (authentication_read_init st key)" "obeys R (request_read_init st key)"
    unfolding authentication_read_init_def request_read_init_def
    by (intro obeysI post_intros; simp add: step_intros any)+
  show "obeys2 R (authentication_read os key)" by (intro obeys2I authentication_read_step) (rule any)
qed

lemma notify_step:
  assumes "nth_opt (client_table os p q u v) n = Some d" and "R s t"
  shows "post (R s) (notify (on_arrival d) st key t)" "post (R s) (notify (on_departure d) st key t)"
proof -
  note d = nth_opt_mem [OF assms(1)]
  have "obeys R f" if "on_arrival d = Some f'" "f = f' st key" for f f'
    using d that handshake_keeps(1) reinterpreted_step(1,2) arrival_step by (auto simp: client_table_def state_entry_def)
  then show "post (R s) (notify (on_arrival d) st key t)"
    using assms(2) by (auto simp: notify_def post_def obeys_def split: option.split)
  show "post (R s) (notify (on_departure d) st key t)"
    using client_table_departures [OF d] assms(2) by (simp add: notify_def post_def)
qed

lemma handle_first_step: "obeys R (handle_first (client_table os p q u v) (client_stm i) key)"
  unfolding handle_first_def by (intro obeysI post_intros) (simp_all add: notify_step)

lemma jump_step: "obeys R (jump (client_table os p q u v) (client_stm i) n key)"
proof (intro obeysI)
  fix t
  have left: "x = t" if "(case m of None \<Rightarrow> Some t
      | Some c \<Rightarrow> nth_opt (client_table os p q u v) c \<bind> (\<lambda>d. notify (on_departure d) (sd_state d) key t)) = Some x"
    for m x
    using that client_table_departures [OF nth_opt_mem]
    by (auto simp: bind_eq_Some_conv notify_def split: option.splits)
  show "post (R t) (jump (client_table os p q u v) (client_stm i) n key t)"
    unfolding jump_def by (intro post_intros) (auto intro!: notify_step(1) dest!: left)
qed

lemma stm_event_step:
  assumes "\<And>d f. d \<in> set (client_table os p q u v) \<Longrightarrow> ready d = Some f \<Longrightarrow> obeys2 R (f key)"
  shows "obeys2 R (stm_handler ready (client_table os p q u v) (client_stm i) key)"
proof (intro obeys2I)
  fix s
  show "post (\<lambda>(_, s'). R s s') (stm_handler ready (client_table os p q u v) (client_stm i) key s)"
    unfolding stm_handler_def
  proof (intro post_intros, clarify)
    fix s1 m c d f ret s2 s3
    assume 1: "handle_first (client_table os p q u v) (client_stm i) key s = Some s1"
      and d: "nth_opt (client_table os p q u v) c = Some d" "ready d = Some f"
      and 2: "f key s1 = Some (ret, s2)"
      and 3: "jump (client_table os p q u v) (client_stm i) ret key s2 = Some s3"
    have "R s s1" by (rule obeys_run(1) [OF 1 handle_first_step step_refl])
    then have "R s s2" by (rule obeys_run(2) [OF 2 assms [OF nth_opt_mem [OF d(1)] d(2)]])
    then show "R s s3" by (rule obeys_run(1) [OF 3 jump_step])
  qed
qed

lemma client_table_step:
  assumes "d \<in> set (client_table os p q u v)" and "ready \<in> {on_read_ready, on_write_ready, on_block_ready}"
    and "ready d = Some f" and "obeys2 R (p key)" "obeys2 R (q key)" "obeys2 R (u key)" "obeys2 R (v key)"
  shows "obeys2 R (f key)"
  using assms handshake_keeps(2-5) reinterpreted_step(3) copy_write_step by (auto simp: client_table_def state_entry_def)

lemma crash_step: "obeys2 R (crash key)"
  by (simp add: obeys2_def crash_def post_def)

lemma write_event_step: "obeys2 R (write_event os server_closers i key)"
  unfolding write_event_def stm_handler_write_def write_table_def unregister_server
  by (rule stm_event_step, erule client_table_step [where ready = on_write_ready])
    (simp_all add: request_connect_step crash_step)

lemma client_event_step:
  assumes "ready \<in> {on_read_ready, on_write_ready, on_block_ready}"
  shows "obeys2 R (stm_handler ready (client_actions os server_closers) (client_stm i) key)"
  unfolding client_actions_def unregister_server
  by (rule stm_event_step, erule client_table_step [OF _ assms])
    (auto simp: request_connect_step request_read_step request_resolve_step copy_read_step write_event_step)

lemma socksv5_events_step:
  "obeys R (socksv5_read os server_closers key)"
  "obeys R (socksv5_write os server_closers key)"
  "obeys R (socksv5_block os server_closers key)"
proof -
  have ev: "R s (snd r)" if "stm_handler ready (client_actions os server_closers) (client_stm i) key s = Some r"
    "ready \<in> {on_read_ready, on_write_ready, on_block_ready}" for ready i s r
    using obeysD(2) [OF client_event_step [OF that(2)] step_refl, of s os i key] that(1)
    by (cases r) (simp add: post_def)
  show "obeys R (socksv5_read os server_closers key)"
    unfolding socksv5_read_def stm_handler_read_def
    by (intro obeysI post_intros after_event_step) (erule ev, simp)
  show "obeys R (socksv5_write os server_closers key)"
    unfolding socksv5_write_def stm_handler_write_def
    by (intro obeysI post_intros after_event_step) (erule ev, simp)
  show "obeys R (socksv5_block os server_closers key)"
    unfolding socksv5_block_def stm_handler_block_def
    by (intro obeysI post_intros after_event_step) (erule ev, simp)
qed

end

end
