(* ===== verification/Invariants.thy ===== *)
theory Invariants
  imports Steps Typing Server
begin

text \<open>
  What holds of the whole server from its start on, through every turn of the loop: the table of
  users stays consistent, and the parser in the union of every client is the one that the state of
  its machine stands for. Both relations are interpretations of the contract of \<open>Steps\<close>.
\<close>

section \<open>From callbacks to the loop\<close>

lemma server_callbacks:
  "handle_read (server_handlers os h) = Some f \<Longrightarrow>
    f \<in> {socksv5_read os server_closers, manager_read os, socks_v5_passive_accept os, manager_passive_accept os}"
  "handle_write (server_handlers os h) = Some f \<Longrightarrow> f = socksv5_write os server_closers"
  "handle_block (server_handlers os h) = Some f \<Longrightarrow> f = socksv5_block os server_closers"
  by (cases h; simp add: server_handlers_def socks5_handler_def manager_handler_def passive_handler_def)+

text \<open>What all callbacks and the resolver keep, and what does not look at the selector, holds all along.\<close>

lemma serve_keeps:
  assumes read: "\<And>key. obeys (\<lambda>s t. P s \<longrightarrow> P t) (socksv5_read os server_closers key)"
    and writes: "\<And>key. obeys (\<lambda>s t. P s \<longrightarrow> P t) (socksv5_write os server_closers key)"
    and block: "\<And>key. obeys (\<lambda>s t. P s \<longrightarrow> P t) (socksv5_block os server_closers key)"
    and manager: "\<And>key. obeys (\<lambda>s t. P s \<longrightarrow> P t) (manager_read os key)"
    and accept: "\<And>key. obeys (\<lambda>s t. P s \<longrightarrow> P t) (socks_v5_passive_accept os key)"
      "\<And>key. obeys (\<lambda>s t. P s \<longrightarrow> P t) (manager_passive_accept os key)"
    and resolver: "\<And>k. obeys (\<lambda>s t. P s \<longrightarrow> P t) (resolver_step os k)"
    and sel: "\<And>x y w. P (x, w) = P (y, w)"
  shows "P s \<Longrightarrow> serve os turns s = Some (st, s') \<Longrightarrow> P s'"
proof -
  have run: "P t" if "obeys (\<lambda>s t. P s \<longrightarrow> P t) f" "P s" "f s = Some t" for f s t
    using that unfolding obeys_def post_def by blast
  have pres: "preserving_handlers (server_handlers os) P"
  proof
    fix h f and key :: key and s s' :: st
    assume P: "P s" and f: "f key s = Some s'"
    show "P s'" if "handle_read (server_handlers os h) = Some f"
    proof -
      have "obeys (\<lambda>s t. P s \<longrightarrow> P t) (f key)"
        using server_callbacks(1) [OF that] read manager accept by blast
      then show ?thesis using P f by (rule run)
    qed
    show "P s'" if "handle_write (server_handlers os h) = Some f"
      using f server_callbacks(2) [OF that] writes P run [of "f key"] by blast
    show "P s'" if "handle_block (server_handlers os h) = Some f"
      using f server_callbacks(3) [OF that] block P run [of "f key"] by blast
  next
    show "P (s, w) \<Longrightarrow> P (s\<lparr>resolution_jobs := []\<rparr>, w)" for s w
      by (subst sel [of _ w s])
  qed (rule sel)
  show "P s \<Longrightarrow> serve os turns s = Some (st, s') \<Longrightarrow> P s'"
  proof (induction turns arbitrary: s)
    case (Cons t turns)
    show ?case
    proof (cases t)
      case (Wake answer)
      with Cons.prems obtain st1 s1 where 1: "selector_select (server_handlers os) answer s = Some (st1, s1)"
        by (auto simp: bind_eq_Some_conv)
      have "P s1" using preserving_handlers.select_keeps [OF pres, of "fst s" "snd s"] Cons.prems(1) 1 by simp
      with 1 Cons Wake show ?thesis by (cases "st1 = SELECTOR_SUCCESS") auto
    next
      case (Resolver k)
      with Cons.prems obtain s1 where 1: "resolver_step os k s = Some s1" "serve os turns s1 = Some (st, s')"
        by (auto simp: bind_eq_Some_conv)
      show ?thesis by (rule Cons.IH [OF run [OF resolver Cons.prems(1) 1(1)] 1(2)])
    qed
  qed simp
qed

section \<open>Users\<close>

interpretation tame: free_stepping "\<lambda>s t. users_core (users_of s) \<longrightarrow> users_core (users_of t)" "\<lambda>_ _. True"
  by unfold_locales (simp_all add: same_people_def socksv5_destroy_def)

lemma serve_users: "users_core (users_of s) \<Longrightarrow> serve os turns s = Some (st, s') \<Longrightarrow> users_core (users_of s')"
  by (rule serve_keeps [where P = "\<lambda>s. users_core (users_of s)"])
    (simp_all only: tame.socksv5_events_step tame.manager_read_step tame.passive_accept_step tame.manager_accept_step
      tame.resolver_step snd_conv)

lemma add_users_core: "users_core t \<Longrightarrow> add_users m us t = Some t' \<Longrightarrow> users_core t'"
proof (induction us arbitrary: t)
  case (Cons u us)
  then obtain x t1 where 1: "new_user (m 24) t (arg_name u) (arg_pass u) = Some (x, t1)" "add_users m us t1 = Some t'"
    by (auto simp: bind_eq_Some_conv)
  show ?case by (rule Cons.IH [OF new_user_core [OF Cons.prems(1) 1(1)] 1(2)])
qed simp

lemma initial_users [simp]: "user_tab (initial_world t) = t"
  by (simp add: initial_world_def)


section \<open>Types\<close>

text \<open>The union holds what the state of the machine reads; a machine without a state is a new one.\<close>

definition union_typed :: "client_data \<Rightarrow> bool" where
  "union_typed c \<longleftrightarrow> (case stm_current (stm c) of None \<Rightarrow> kind (handshake c) = 0
     | Some n \<Rightarrow> (\<exists>q. n = state_id q \<and> (case member_kind q of None \<Rightarrow> True | Some k \<Rightarrow> kind (handshake c) = k)))"

definition all_typed :: "st \<Rightarrow> bool" where
  "all_typed s \<longleftrightarrow> (\<forall>i c. client_at i s = Some c \<longrightarrow> machine_ok c \<and> union_typed c)"

definition same_type :: "client_data \<Rightarrow> client_data \<Rightarrow> bool" where
  "same_type c c' \<longleftrightarrow> stm c' = stm c \<and> kind (handshake c') = kind (handshake c)"

text \<open>While an event of client \<open>i\<close> is handled its machine is in one of a few states.\<close>

definition in_stage :: "nat \<Rightarrow> socks_v5state set \<Rightarrow> nat \<Rightarrow> st \<Rightarrow> bool" where
  "in_stage i Q k s \<longleftrightarrow> all_typed s
     \<and> (\<forall>c. client_at i s = Some c \<longrightarrow> kind (handshake c) = k \<and> (\<exists>q \<in> Q. stm_current (stm c) = Some (state_id q)))"

lemma same_type_ok: "same_type c c' \<Longrightarrow> machine_ok c' = machine_ok c \<and> union_typed c' = union_typed c"
  unfolding same_type_def union_typed_def by (elim conjE, simp only: machine_ok_cong [of c' c])

lemma all_typedD: "all_typed s \<Longrightarrow> client_at i s = Some c \<Longrightarrow> machine_ok c \<and> union_typed c"
  by (simp add: all_typed_def)

lemma all_typed_set: "all_typed s \<Longrightarrow> machine_ok c \<Longrightarrow> union_typed c \<Longrightarrow> all_typed (set_client i c s)"
  by (simp add: all_typed_def)

lemma same_people_clients: "same_people s t \<Longrightarrow> client_at i t = client_at i s"
  by (simp add: same_people_def client_at_def)

lemma destroyed_client: "client_at j (socksv5_destroy i s) = (if j = i then None else client_at j s)"
  by (simp add: socksv5_destroy_def client_at_def)

lemma union_typed_fresh: "union_typed (fresh_client fd addr)" "machine_ok (fresh_client fd addr)"
  by (simp_all add: union_typed_def fresh_client_def machine_ok_def current_valid_def)

interpretation typed: open_stepping "\<lambda>s t. all_typed s \<longrightarrow> all_typed t" same_type
proof unfold_locales
  show "all_typed s \<longrightarrow> all_typed t" if "same_people s t" for s t
    using same_people_clients [OF that] by (simp add: all_typed_def)
  show "all_typed s \<longrightarrow> all_typed (set_client i c' t)"
    if "all_typed s \<longrightarrow> all_typed t" "client_at i u = Some c" "all_typed s \<longrightarrow> all_typed u" "same_type c c'" for s t u i c c'
    using that all_typedD [of u i c] same_type_ok [OF that(4)] all_typed_set [of t c' i] by blast
  show "all_typed s \<longrightarrow> all_typed (set_client i (fresh_client fd addr) t)" if "all_typed s \<longrightarrow> all_typed t" for s t i fd addr
    using that all_typed_set union_typed_fresh by blast
  show "all_typed s \<longrightarrow> all_typed (socksv5_destroy i s)" for s i
    by (simp add: all_typed_def destroyed_client)
  show "all_typed s \<longrightarrow> all_typed (set_users us s)" for s us
    by (simp add: all_typed_def)
qed (blast | simp only: same_type_def simp_thms)+

interpretation stage: stepping "\<lambda>s t. in_stage i Q k s \<longrightarrow> in_stage i Q k t" same_type for i Q k
proof unfold_locales
  show "in_stage i Q k s \<longrightarrow> in_stage i Q k t" if "same_people s t" for s t
    using same_people_clients [OF that] by (simp add: in_stage_def all_typed_def)
  show "in_stage i Q k s \<longrightarrow> in_stage i Q k (set_client j c' t)"
    if "in_stage i Q k s \<longrightarrow> in_stage i Q k t" "client_at j u = Some c" "in_stage i Q k s \<longrightarrow> in_stage i Q k u" "same_type c c'"
    for s t u j c c'
  proof
    assume "in_stage i Q k s"
    with that have t: "in_stage i Q k t" and u: "in_stage i Q k u" by blast+
    then have "all_typed (set_client j c' t)"
      using all_typedD [of u j c] that(2) same_type_ok [OF that(4)] by (intro all_typed_set) (simp_all add: in_stage_def)
    moreover have "kind (handshake c') = k \<and> (\<exists>q \<in> Q. stm_current (stm c') = Some (state_id q))" if "j = i"
      using u that \<open>client_at j u = Some c\<close> \<open>same_type c c'\<close> by (simp add: in_stage_def same_type_def)
    ultimately show "in_stage i Q k (set_client j c' t)" using t by (auto simp: in_stage_def)
  qed
  show "in_stage i Q k s \<longrightarrow> in_stage i Q k (socksv5_destroy j s)" for s j
    by (simp add: in_stage_def all_typed_def destroyed_client)
  show "in_stage i Q k s \<longrightarrow> in_stage i Q k (set_users us s)" for s us
    by (simp add: in_stage_def all_typed_def)
qed (blast | simp only: same_type_def simp_thms)+

section \<open>What the handlers ask for\<close>

definition asks :: "socks_v5state set \<Rightarrow> (nat \<times> st) option \<Rightarrow> bool" where
  "asks Q m \<longleftrightarrow> post (\<lambda>(r, _). r \<in> state_id ` Q) m"

lemma asksI: "post (\<lambda>(r, _). r \<in> state_id ` Q) m \<Longrightarrow> asks Q m"
  by (simp add: asks_def)

lemma asksD: "asks Q m \<Longrightarrow> Q \<subseteq> Q' \<Longrightarrow> post (\<lambda>(r, _). r \<in> state_id ` Q') m"
  unfolding asks_def post_def by blast

lemma handshake_asks:
  "asks {NEGOTIATION_READ, NEGOTIATION_WRITE, SOCKS_ERROR} (negotiation_read os key s)"
  "asks {NEGOTIATION_WRITE, AUTH_READ, SOCKS_ERROR} (negotiation_write os key s)"
  "asks {AUTH_READ, AUTH_WRITE, SOCKS_ERROR} (authentication_read os key s)"
  "asks {AUTH_WRITE, REQ_READ, SOCKS_ERROR} (authentication_write os key s)"
  "asks {REQ_WRITE, COPY, SOCKS_ERROR} (request_write os key s)"
  unfolding negotiation_read_def negotiation_write_def authentication_read_def authentication_write_def request_write_def
  by (intro asksI post_intros; simp)+

lemma error_reply_asks: "asks {REQ_WRITE, SOCKS_ERROR} (req_generate_response_error key msg s)"
  unfolding req_generate_response_error_def by (intro asksI post_intros) simp_all

lemma connected_at_once_asks: "asks {REQ_CONNECT, SOCKS_ERROR} (connected_at_once os key i s)"
  unfolding connected_at_once_def by (intro asksI post_intros) simp_all

lemma initiate_from_asks: "asks {REQ_CONNECT, REQ_WRITE, SOCKS_ERROR} (initiate_from unregister os key i as s)"
proof (induction as arbitrary: s)
  case Nil
  show ?case
    unfolding initiate_from.simps by (intro asksI post_intros asksD [OF error_reply_asks]) simp
next
  case (Cons a as)
  show ?case
    unfolding initiate_from.simps
    by (intro asksI post_intros; (rule asksD [OF connected_at_once_asks] asksD [OF Cons.IH])?) auto
qed

lemma initiate_origin_connection_asks:
  "asks {REQ_CONNECT, REQ_WRITE, SOCKS_ERROR} (initiate_origin_connection unregister os key s)"
  unfolding initiate_origin_connection_def by (intro asksI post_intros asksD [OF initiate_from_asks]) simp

lemma connect_to_ip_asks:
  "asks {REQ_CONNECT, REQ_WRITE, SOCKS_ERROR} (connect_to_ip unregister os key i n msg family addr s)"
  unfolding connect_to_ip_def
  by (intro asksI post_intros; (rule asksD [OF error_reply_asks] asksD [OF initiate_origin_connection_asks])?) auto

lemma start_resolver_asks: "asks {REQ_RESOLVE, REQ_WRITE, SOCKS_ERROR} (start_resolver os key i s)"
  unfolding start_resolver_def
  by (intro asksI post_intros; (rule asksD [OF error_reply_asks])?) auto

lemma handle_request_asks:
  "asks {REQ_RESOLVE, REQ_CONNECT, REQ_WRITE, SOCKS_ERROR} (handle_request unregister os key s)"
  unfolding handle_request_def
  by (intro asksI post_intros; (rule asksD [OF connect_to_ip_asks] asksD [OF start_resolver_asks])?) auto

lemma request_asks:
  "asks {REQ_READ, REQ_RESOLVE, REQ_CONNECT, REQ_WRITE, SOCKS_ERROR} (request_read unregister os key s)"
  "asks {REQ_CONNECT, REQ_WRITE, SOCKS_ERROR} (request_resolve unregister os key s)"
  "asks {REQ_CONNECT, REQ_WRITE, SOCKS_ERROR} (request_connect unregister os key s)"
  unfolding request_read_def request_resolve_def request_connect_def
  by (intro asksI post_intros; (rule asksD [OF handle_request_asks] asksD [OF error_reply_asks]
      asksD [OF initiate_origin_connection_asks])?; auto)+

lemma handle_write_data_asks: "asks {COPY, SOCKS_DONE, SOCKS_ERROR} (handle_write_data key i n b fd eof s)"
  unfolding handle_write_data_def by (intro asksI post_intros) simp_all

lemma copy_write_asks: "asks {COPY, SOCKS_DONE, SOCKS_ERROR} (copy_write os key s)"
  unfolding copy_write_def
  by (intro asksI post_intros; (rule asksD [OF handle_write_data_asks])?) auto

section \<open>Where the machine goes\<close>

lemma jump_enters:
  assumes "jump (client_table os p q u v) (client_stm i) (state_id q') key s = Some s'"
  obtains c where "client_at i s = Some c" "stm_current (stm c) = Some (state_id q')" "s' = s"
    | c d where "client_at i s = Some c" "nth_opt (client_table os p q u v) (state_id q') = Some d"
        "notify (on_arrival d) (sd_state d) key (set_client i (enter q' c) s) = Some s'"
proof -
  obtain c where c: "client_at i s = Some c"
    using assms by (cases "client_at i s") (simp_all add: jump_def client_stm_get)
  have left: "(case m of None \<Rightarrow> Some s
      | Some n \<Rightarrow> nth_opt (client_table os p q u v) n \<bind> (\<lambda>d. notify (on_departure d) (sd_state d) key s)) \<in> {None, Some s}"
    for m
  proof (cases m)
    case (Some n)
    then show ?thesis
      using client_table_departures [OF nth_opt_mem]
      by (cases "nth_opt (client_table os p q u v) n") (simp_all add: notify_def)
  qed simp
  show ?thesis
  proof (cases "stm_current (stm c) = Some (state_id q')")
    case True
    with assms c have "s' = s" by (simp add: jump_def client_stm_get bind_eq_Some_conv)
    with c True show ?thesis by (rule that(1))
  next
    case False
    have "nth_opt (client_table os p q u v) (state_id q') \<bind>
        (\<lambda>d. notify (on_arrival d) (sd_state d) key (set_client i (enter q' c) s)) = Some s'"
      using assms False left [of "stm_current (stm c)"]
      by (cases "state_id q' \<le> stm_max_state (stm c)")
        (auto simp: jump_def client_stm_get client_stm_put c enter_def Let_def)
    then obtain d where "nth_opt (client_table os p q u v) (state_id q') = Some d"
        "notify (on_arrival d) (sd_state d) key (set_client i (enter q' c) s) = Some s'"
      by (auto simp: bind_eq_Some_conv)
    with c show ?thesis by (rule that(2))
  qed
qed

lemma enter_stage:
  assumes "in_stage i Q k s" and "client_at i s = Some c" and "member_kind q' \<in> {None, Some k}"
  shows "in_stage i (insert q' Q) k (set_client i (enter q' c) s)"
proof -
  have c: "machine_ok c" "kind (handshake c) = k" and s: "all_typed s"
    using assms(1,2) all_typedD [of s i c] by (simp_all add: in_stage_def)
  then have "union_typed (enter q' c)" using assms(3) by (auto simp: union_typed_def)
  with c s show ?thesis by (simp add: in_stage_def all_typed_set)
qed

text \<open>A state whose arrival sets up no parser.\<close>

lemma jump_stage:
  assumes "jump (client_table os p q u v) (client_stm i) (state_id q') key s = Some s'" and "in_stage i Q k s"
    and "q' \<notin> {NEGOTIATION_READ, AUTH_READ, REQ_READ}" and "member_kind q' \<in> {None, Some k}"
  shows "in_stage i (insert q' Q) k s'"
  using assms(1)
proof (cases rule: jump_enters)
  case (1 c)
  with assms(2) show ?thesis by (simp add: in_stage_def)
next
  case (2 c d)
  have st: "in_stage i (insert q' Q) k (set_client i (enter q' c) s)" by (rule enter_stage [OF assms(2) 2(1) assms(4)])
  have "on_arrival d = None \<or> on_arrival d = Some (done_arrival os) \<or> on_arrival d = Some (error_arrival os)"
    using 2(2) assms(3) by (cases q') (auto simp: client_table_def nth_opt_def state_entry_def state_id.simps)
  then consider "s' = set_client i (enter q' c) s"
    | "done_arrival os (sd_state d) key (set_client i (enter q' c) s) = Some s'"
    | "error_arrival os (sd_state d) key (set_client i (enter q' c) s) = Some s'"
    using 2(3) unfolding notify_def by (elim disjE) simp_all
  then show ?thesis
  proof cases
    case 1
    with st show ?thesis by simp
  next
    case 2
    from stage.obeys_run(1) [OF 2 stage.arrival_step(1) stage.step_refl] st show ?thesis by blast
  next
    case 3
    from stage.obeys_run(1) [OF 3 stage.arrival_step(2) stage.step_refl] st show ?thesis by blast
  qed
qed

text \<open>A state whose arrival sets up the parser of the client.\<close>

lemma jump_sets_up:
  assumes "jump (client_table os p q u v) (client_stm i) (state_id q') key s = Some s'" and "all_typed s"
    and "ATTACHMENT key = Some i" and "q' \<in> {AUTH_READ, REQ_READ}"
  shows "all_typed s'"
  using assms(1)
proof (cases rule: jump_enters)
  case (1 c)
  with assms(2) show ?thesis by simp
next
  case (2 c d)
  have m: "machine_ok c" using all_typedD [OF assms(2) 2(1)] by simp
  have "\<exists>h. kind h = the (member_kind q') \<and> s' = set_client i ((enter q' c)\<lparr>handshake := h\<rparr>) (set_client i (enter q' c) s)"
    using 2(2,3) assms(3,4)
    by (auto simp: client_table_entries notify_def state_entry_def authentication_read_init_def request_read_init_def
        bind_eq_Some_conv) (rule exI, rule conjI [rotated], rule refl, simp)+
  then obtain h where h: "kind h = the (member_kind q')"
    "s' = set_client i ((enter q' c)\<lparr>handshake := h\<rparr>) (set_client i (enter q' c) s)" by blast
  have "machine_ok ((enter q' c)\<lparr>handshake := h\<rparr>)"
    using machine_ok_enter [OF m, of q'] machine_ok_cong [of "(enter q' c)\<lparr>handshake := h\<rparr>" "enter q' c"] by simp
  moreover have "union_typed ((enter q' c)\<lparr>handshake := h\<rparr>)" using h(1) assms(4) by (auto simp: union_typed_def)
  ultimately show ?thesis using assms(2) by (simp add: h(2) all_typed_def)
qed

section \<open>Events\<close>

lemma stm_handler_run:
  assumes "stm_handler ready T (client_stm i) key s = Some (ret, s')"
    and "client_at i s = Some c" "stm_current (stm c) = Some n"
  obtains d f s2 where "nth_opt T n = Some d" "ready d = Some f" "f key s = Some (ret, s2)"
    "jump T (client_stm i) ret key s2 = Some s'"
  using assms by (auto simp: stm_handler_def handle_first_def client_stm_get bind_eq_Some_conv)

lemma in_stage_at: "in_stage i Q k s \<Longrightarrow> client_at i s = Some c \<Longrightarrow> \<exists>q \<in> Q. stm_current (stm c) = Some (state_id q)"
  by (simp add: in_stage_def)

lemma in_stage_mono: "in_stage i Q k s \<Longrightarrow> Q \<subseteq> Q' \<Longrightarrow> in_stage i Q' k s"
  unfolding in_stage_def by blast

lemma stage_run:
  "obeys2 (\<lambda>s t. in_stage i Q k s \<longrightarrow> in_stage i Q k t) g \<Longrightarrow> g s = Some (r, s') \<Longrightarrow> in_stage i Q k s \<Longrightarrow> in_stage i Q k s'"
  unfolding obeys2_def post_def by blast

abbreviation copies :: "socks_v5state set" where
  "copies \<equiv> {COPY, SOCKS_DONE, SOCKS_ERROR}"

lemma stm_client:
  assumes "stm_handler ready T (client_stm i) key s = Some r"
  obtains c where "client_at i s = Some c"
  using assms by (cases "client_at i s") (simp_all add: stm_handler_def handle_first_def client_stm_get)

text \<open>The write event that \<open>copy_read\<close> raises runs \<open>copy_write\<close>, or nothing.\<close>

lemma write_event_stage:
  assumes st: "in_stage i copies 2 s" and run: "write_event os server_closers i key s = Some (ret, s')"
  shows "in_stage i copies 2 s' \<and> ret \<in> state_id ` copies"
proof -
  let ?T = "write_table os server_closers"
  have run': "stm_handler on_write_ready ?T (client_stm i) key s = Some (ret, s')"
    using run by (simp add: write_event_def stm_handler_write_def)
  then obtain c where c: "client_at i s = Some c" by (rule stm_client)
  obtain q where q: "q \<in> copies" "stm_current (stm c) = Some (state_id q)" using in_stage_at [OF st c] by blast
  from run' c q(2) obtain d f s2 where r: "nth_opt ?T (state_id q) = Some d" "on_write_ready d = Some f"
    "f key s = Some (ret, s2)" "jump ?T (client_stm i) ret key s2 = Some s'" by (rule stm_handler_run)
  have "f = copy_write os"
    using q(1) r(1,2) by (auto simp: write_table_def client_table_nth state_entry_def)
  with r(3) have w: "copy_write os key s = Some (ret, s2)" by simp
  have s2: "in_stage i copies 2 s2" by (rule stage_run [OF stage.copy_write_step w st])
  obtain q' where q': "q' \<in> copies" "ret = state_id q'"
    using copy_write_asks [of os key s] w by (auto simp: asks_def post_def)
  have "jump ?T (client_stm i) (state_id q') key s2 = Some s'" using r(4) q'(2) by simp
  from jump_stage [OF this [unfolded write_table_def] s2] q'(1)
  have "in_stage i (insert q' copies) 2 s'" by auto
  then have "in_stage i copies 2 s'" using q'(1) by (auto simp: insert_absorb)
  with q' show ?thesis by blast
qed

lemma write_event_obeys:
  "obeys2 (\<lambda>s t. in_stage i copies 2 s \<longrightarrow> in_stage i copies 2 t) (write_event os server_closers i key)"
  by (rule stage.obeys2I, unfold post_def, clarify) (drule (1) write_event_stage, simp)

lemma write_event_asks:
  "in_stage i copies 2 s \<Longrightarrow> post (\<lambda>(r, _). r \<in> state_id ` copies) (write_event os server_closers i key s)"
  by (unfold post_def, clarify) (drule (1) write_event_stage, simp)

lemma handle_read_data_asks:
  assumes st: "in_stage i copies 2 s"
  shows "asks copies (handle_read_data (write_event os server_closers) key i n b fd eof s)"
proof -
  have ev: "post (\<lambda>(r, _). r \<in> state_id ` copies) (write_event os server_closers i k t)"
    if "client_at i s = Some c" "try_interest fd' op (set_client i (put_buf d b1 c) s) = Some t" for k t c fd' op d b1
  proof -
    have "same_type c (put_buf d b1 c)" by (simp add: same_type_def)
    note set = stage.step_client [OF stage.step_refl that(1) stage.step_refl this]
    have "in_stage i copies 2 t" using stage.step_try_interest [OF that(2) set] st by blast
    then show ?thesis by (rule write_event_asks)
  qed
  show ?thesis
    unfolding handle_read_data_def by (intro asksI post_intros; (rule ev; assumption)?) simp_all
qed

lemma copy_read_stage:
  assumes st: "in_stage i {COPY} 2 s" and key: "ATTACHMENT key = Some i"
    and run: "copy_read (write_event os server_closers) os key s = Some (ret, s')"
  shows "in_stage i copies 2 s' \<and> ret \<in> state_id ` copies"
proof -
  have s3: "in_stage i copies 2 s" using in_stage_mono [OF st] by simp
  have "obeys2 (\<lambda>s t. in_stage i copies 2 s \<longrightarrow> in_stage i copies 2 t) (copy_read (write_event os server_closers) os key)"
    by (rule stage.copy_read_step) (use key write_event_obeys in simp)
  then have "in_stage i copies 2 s'" using run s3 by (rule stage_run)
  moreover have "asks copies (copy_read (write_event os server_closers) os key s)"
  proof -
    have rd: "post (\<lambda>(r, _). r \<in> state_id ` copies) (handle_read_data (write_event os server_closers) key i n b fd eof t)"
      if "in_stage i copies 2 s \<longrightarrow> in_stage i copies 2 t" for n b fd eof t
      using handle_read_data_asks that s3 by (simp add: asks_def)
    have rd2: "post (\<lambda>(r, _). r \<in> state_id ` copies)
        (handle_read_data (write_event os server_closers) key i n b fd eof (set_client i (put_buf d b1 c) t))"
      if "client_at i s = Some c" "recv_buf os fd' b' n' s = Some (r, t)" for n b fd eof d b1 c t fd' b' n' r
    proof (rule rd)
      have "same_type c (put_buf d b1 c)" by (simp add: same_type_def)
      then show "in_stage i copies 2 s \<longrightarrow> in_stage i copies 2 (set_client i (put_buf d b1 c) t)"
        using stage.step_client [OF stage.step_buffers(1) [OF that(2) stage.step_refl] that(1) stage.step_refl] by blast
    qed
    show ?thesis
      unfolding copy_read_def key bind.bind_lunit
      by (intro asksI post_intros;
          (rule rd [OF stage.step_buffers(1) [OF _ stage.step_refl]] rd2; (assumption | clarify, assumption))?) simp_all
  qed
  ultimately show ?thesis using run unfolding asks_def post_def by blast
qed

text \<open>The handlers of the table, with the event each waits for.\<close>

lemma ready_handlers:
  assumes "nth_opt (client_actions os server_closers) (state_id q) = Some d"
    and "ready \<in> {on_read_ready, on_write_ready, on_block_ready}" and "ready d = Some f"
  shows "(q, f) \<in> {(NEGOTIATION_READ, negotiation_read os), (NEGOTIATION_WRITE, negotiation_write os),
    (AUTH_READ, authentication_read os), (AUTH_WRITE, authentication_write os),
    (REQ_READ, request_read (unregister_any os) os), (REQ_RESOLVE, request_resolve (unregister_any os) os),
    (REQ_CONNECT, request_connect (unregister_any os) os), (REQ_WRITE, request_write os),
    (COPY, copy_read (write_event os server_closers) os), (COPY, copy_write os)}"
  using assms
  by (cases q) (auto simp: client_actions_def unregister_server client_table_def nth_opt_def state_entry_def state_id.simps)

lemma authentication_read_stage:
  assumes st: "in_stage i {AUTH_READ} 1 s" and key: "ATTACHMENT key = Some i"
    and run: "authentication_read os key s = Some (ret, s')"
  shows "in_stage i {AUTH_READ} 1 s'"
proof -
  have "post (\<lambda>(_, s'). in_stage i {AUTH_READ} 1 s \<longrightarrow> in_stage i {AUTH_READ} 1 s') (authentication_read os key s)"
  proof (rule stage.authentication_read_step)
    fix t j and c c' :: client_data
    assume "ATTACHMENT key = Some j" "silent s t" "client_at j t = Some c" "stm c' = stm c" "kind (handshake c') = 1"
    moreover from this have "client_at i s = Some c" using key silentD(2) [of s t] by simp
    then have "kind (handshake c) = 1" using st by (simp add: in_stage_def)
    ultimately show "same_type c c'" by (simp add: same_type_def)
  qed
  with st run show ?thesis unfolding post_def by blast
qed

text \<open>A handler leaves its client in the same stage, and asks for a state that may follow.\<close>

lemma handler_stage:
  assumes d: "nth_opt (client_actions os server_closers) (state_id q) = Some d"
    "ready \<in> {on_read_ready, on_write_ready, on_block_ready}" "ready d = Some f"
    and st: "\<And>k. member_kind q = Some k \<Longrightarrow> in_stage i {q} k s" and key: "ATTACHMENT key = Some i" and run: "f key s = Some (ret, s')"
  shows "\<exists>k q'. member_kind q = Some k \<and> ret = state_id q' \<and> q' \<in> set (successors q)
    \<and> in_stage i (if q = COPY then copies else {q}) k s'"
proof -
  have step: ?thesis if "member_kind q = Some k" "q \<noteq> COPY" "asks Q (f key s)" "Q \<subseteq> set (successors q)"
    "obeys2 (\<lambda>s t. in_stage i {q} k s \<longrightarrow> in_stage i {q} k t) (f key)" for k Q
  proof -
    note w = that
    have "in_stage i {q} k s'" by (rule stage_run [OF w(5) run st [OF w(1)]])
    moreover obtain q' where "q' \<in> Q" "ret = state_id q'" using w(3) run unfolding asks_def post_def by blast
    ultimately show ?thesis using w(1,2,4) by auto
  qed
  from ready_handlers [OF d] consider
      "q = NEGOTIATION_READ" "f = negotiation_read os" | "q = NEGOTIATION_WRITE" "f = negotiation_write os"
    | "q = AUTH_WRITE" "f = authentication_write os" | "q = REQ_WRITE" "f = request_write os"
    | "q = REQ_READ" "f = request_read (unregister_any os) os"
    | "q = REQ_RESOLVE" "f = request_resolve (unregister_any os) os"
    | "q = REQ_CONNECT" "f = request_connect (unregister_any os) os"
    | (login) "q = AUTH_READ" "f = authentication_read os"
    | (copy_write) "q = COPY" "f = copy_write os"
    | (copy_read) "q = COPY" "f = copy_read (write_event os server_closers) os"
    by (auto simp only: insert_iff empty_iff prod.inject)
  then show ?thesis
  proof cases
    case 1
    show ?thesis unfolding 1 by (rule step [unfolded 1, OF _ _ handshake_asks(1) _ stage.handshake_keeps(2)]) simp_all
  next
    case 2
    show ?thesis unfolding 2 by (rule step [unfolded 2, OF _ _ handshake_asks(2) _ stage.handshake_keeps(3)]) simp_all
  next
    case 3
    show ?thesis unfolding 3 by (rule step [unfolded 3, OF _ _ handshake_asks(4) _ stage.handshake_keeps(4)]) simp_all
  next
    case 4
    show ?thesis unfolding 4 by (rule step [unfolded 4, OF _ _ handshake_asks(5) _ stage.handshake_keeps(5)]) simp_all
  next
    case 5
    show ?thesis unfolding 5 by (rule step [unfolded 5, OF _ _ request_asks(1) _ stage.request_read_step]) simp_all
  next
    case 6
    show ?thesis unfolding 6 by (rule step [unfolded 6, OF _ _ request_asks(2) _ stage.request_resolve_step]) simp_all
  next
    case 7
    show ?thesis unfolding 7 by (rule step [unfolded 7, OF _ _ request_asks(3) _ stage.request_connect_step]) simp_all
  next
    case login
    have r: "authentication_read os key s = Some (ret, s')" using run unfolding login(2) .
    have "in_stage i {AUTH_READ} 1 s" using st [of 1] unfolding login(1) by simp
    then have "in_stage i {AUTH_READ} 1 s'" using key r by (rule authentication_read_stage)
    moreover from r have "ret \<in> state_id ` {AUTH_READ, AUTH_WRITE, SOCKS_ERROR}"
      using handshake_asks(3) [of os key s] unfolding asks_def post_def by blast
    ultimately show ?thesis using login(1) by auto
  next
    case copy_write
    have "in_stage i copies 2 s" by (rule in_stage_mono [OF st [of 2]]) (simp_all add: copy_write)
    moreover have r: "copy_write os key s = Some (ret, s')" using run unfolding copy_write(2) .
    ultimately have "in_stage i copies 2 s'" by (intro stage_run [OF stage.copy_write_step r])
    moreover from r have "ret \<in> state_id ` copies" using copy_write_asks [of os key s] unfolding asks_def post_def by blast
    ultimately show ?thesis using copy_write(1) by auto
  next
    case copy_read
    have r: "copy_read (write_event os server_closers) os key s = Some (ret, s')" using run unfolding copy_read(2) .
    have "in_stage i {COPY} 2 s" using st [of 2] unfolding copy_read(1) by simp
    then have "in_stage i copies 2 s' \<and> ret \<in> state_id ` copies" using key r by (rule copy_read_stage)
    with copy_read show ?thesis by auto
  qed
qed

lemma jump_typed:
  assumes run: "jump (client_table os p q u v) (client_stm i) (state_id q') key s = Some s'"
    and st: "member_kind x = Some k" "q' \<in> set (successors x)" "in_stage i (if x = COPY then copies else {x}) k s"
    and key: "ATTACHMENT key = Some i"
  shows "all_typed s'"
proof -
  have t: "all_typed s" using st(3) by (simp add: in_stage_def)
  have "q' = x \<or> q' \<in> {AUTH_READ, REQ_READ} \<or> q' \<notin> {NEGOTIATION_READ, AUTH_READ, REQ_READ} \<and> member_kind q' \<in> {None, Some k}"
    using st(1,2) by (cases x) auto
  then consider (same) "q' = x" "x \<noteq> COPY" | (sets_up) "q' \<in> {AUTH_READ, REQ_READ}"
    | (plain) "q' \<notin> {NEGOTIATION_READ, AUTH_READ, REQ_READ}" "member_kind q' \<in> {None, Some k}"
    using st(1) by auto
  then show ?thesis
  proof cases
    case same
    from run show ?thesis
    proof (cases rule: jump_enters)
      case (2 c d)
      have "stm_current (stm c) = Some (state_id q')" using st(3) same 2(1) by (simp add: in_stage_def)
      then have "s' = s" using run 2(1) by (simp add: jump_def client_stm_get bind_eq_Some_conv)
      with t show ?thesis by simp
    qed (use t in simp)
  next
    case sets_up
    with jump_sets_up [OF run t key] show ?thesis by simp
  next
    case plain
    with jump_stage [OF run st(3)] show ?thesis by (simp add: in_stage_def)
  qed
qed

lemma typed_stage:
  assumes "all_typed s" and "client_at i s = Some c" "stm_current (stm c) = Some (state_id q)" and "member_kind q = Some k"
  shows "in_stage i {q} k s"
  using assms all_typedD [OF assms(1,2)] by (simp add: in_stage_def union_typed_def)

lemma event_typed_at:
  assumes t: "all_typed s" and key: "ATTACHMENT key = Some i" and c: "client_at i s = Some c" "stm_current (stm c) = Some (state_id q)"
    and ready: "ready \<in> {on_read_ready, on_write_ready, on_block_ready}"
    and run: "stm_handler ready (client_actions os server_closers) (client_stm i) key s = Some (ret, s')"
  shows "all_typed s'"
proof -
  obtain d f s2 where r: "nth_opt (client_actions os server_closers) (state_id q) = Some d" "ready d = Some f"
    "f key s = Some (ret, s2)" "jump (client_actions os server_closers) (client_stm i) ret key s2 = Some s'"
    using run c by (rule stm_handler_run)
  have "in_stage i {q} k s" if "member_kind q = Some k" for k by (rule typed_stage [OF t c that])
  from handler_stage [OF r(1) ready r(2) this key r(3)] obtain k q' where h: "member_kind q = Some k" "ret = state_id q'"
    "q' \<in> set (successors q)" "in_stage i (if q = COPY then copies else {q}) k s2" by blast
  show ?thesis
    using jump_typed [OF _ h(1,3,4) key] r(4) h(2) unfolding client_actions_def by blast
qed

text \<open>The very first event finds the machine without a state.\<close>

lemma event_typed:
  assumes t: "all_typed s" and key: "ATTACHMENT key = Some i"
    and ready: "ready \<in> {on_read_ready, on_write_ready, on_block_ready}"
    and run: "stm_handler ready (client_actions os server_closers) (client_stm i) key s = Some (ret, s')"
  shows "all_typed s'"
proof -
  from run obtain c where c: "client_at i s = Some c" by (rule stm_client)
  note ok = all_typedD [OF t c]
  show ?thesis
  proof (cases "stm_current (stm c)")
    case None
    then obtain np where np: "handshake c = Negotiation np" using ok by (cases "handshake c") (simp_all add: union_typed_def)
    let ?c = "(enter NEGOTIATION_READ c)\<lparr>handshake := Negotiation (initialize_negotiation_parser np)\<rparr>"
    have "stm_initial (stm c) = state_id NEGOTIATION_READ" using ok by (simp add: machine_ok_def)
    from first_event [OF c None this key np] run
    have run': "stm_handler ready (client_actions os server_closers) (client_stm i) key (set_client i ?c s) = Some (ret, s')"
      unfolding client_actions_def by simp
    have "machine_ok ?c" using machine_ok_enter ok machine_ok_cong [of ?c "enter NEGOTIATION_READ c"] by simp
    moreover have "union_typed ?c" by (auto simp: union_typed_def intro!: exI [of _ NEGOTIATION_READ])
    ultimately have "all_typed (set_client i ?c s)" using t by (simp add: all_typed_set)
    from event_typed_at [OF this key _ _ ready run', of ?c NEGOTIATION_READ] show ?thesis by simp
  next
    case (Some n)
    then obtain q where "n = state_id q" using ok by (auto simp: union_typed_def)
    with event_typed_at [OF t key c _ ready run] Some show ?thesis by blast
  qed
qed

lemma typed_callback:
  assumes ready: "ready \<in> {on_read_ready, on_write_ready, on_block_ready}"
  shows "obeys (\<lambda>s t. all_typed s \<longrightarrow> all_typed t) (\<lambda>s. do {
     i \<leftarrow> ATTACHMENT key;
     r \<leftarrow> stm_handler ready (client_actions os server_closers) (client_stm i) key s;
     after_event os server_closers key r })"
proof (rule typed.obeysI)
  fix s
  have ev: "all_typed s \<longrightarrow> all_typed (snd r)"
    if "ATTACHMENT key = Some i" "stm_handler ready (client_actions os server_closers) (client_stm i) key s = Some r" for i r
    using event_typed [OF _ that(1) ready, of s os "fst r" "snd r"] that(2) by simp
  show "post (\<lambda>t. all_typed s \<longrightarrow> all_typed t) (do {
     i \<leftarrow> ATTACHMENT key;
     r \<leftarrow> stm_handler ready (client_actions os server_closers) (client_stm i) key s;
     after_event os server_closers key r })"
    by (intro post_intros typed.after_event_step) (rule ev)
qed

lemma serve_typed: "all_typed s \<Longrightarrow> serve os turns s = Some (st, s') \<Longrightarrow> all_typed s'"
proof (rule serve_keeps [where P = all_typed])
  show "obeys (\<lambda>s t. all_typed s \<longrightarrow> all_typed t) (socksv5_read os server_closers key)"
    "obeys (\<lambda>s t. all_typed s \<longrightarrow> all_typed t) (socksv5_write os server_closers key)"
    "obeys (\<lambda>s t. all_typed s \<longrightarrow> all_typed t) (socksv5_block os server_closers key)" for key
    using typed_callback [of _ key os]
    by (simp_all add: socksv5_read_def [abs_def] socksv5_write_def [abs_def] socksv5_block_def [abs_def]
        stm_handler_read_def stm_handler_write_def stm_handler_block_def)
  show "all_typed (x, w) = all_typed (y, w)" for x y w by (simp add: all_typed_def client_at_def)
qed (rule typed.manager_read_step typed.passive_accept_step typed.manager_accept_step typed.resolver_step | assumption)+

lemma initial_typed: "all_typed (sel, initial_world t)"
  by (simp add: all_typed_def initial_world_def client_at_def)

end
