(* ===== verification/Administration.thy ===== *)
theory Administration
  imports Sessions Connection
begin

declare split_paired_Ex [simp del] split_paired_All [simp del]

text \<open>
  A session of \<open>src/server/manager.c\<close> from its first line to a command that is carried out: an
  administrator logs in and adds a user, who can log in to the proxy from then on. Each line is
  one read event; the replies are what the session sees of it.
\<close>

section \<open>Lines and their words\<close>

definition word_ok :: "string \<Rightarrow> bool" where
  "word_ok w \<longleftrightarrow> w \<noteq> [] \<and> CHR '' '' \<notin> set w \<and> set w \<inter> set crlf = {} \<and> 0 \<notin> set (bytes_of w)"

fun words_line :: "string list \<Rightarrow> string" where
  "words_line [] = []"
| "words_line [w] = w"
| "words_line (w # ws) = w @ '' '' @ words_line ws"

lemma strtok_nil [simp]: "strtok [] = (None, [])"
  by (simp add: strtok_def)

lemma token_ends:
  assumes "x \<notin> set w"
  shows "takeWhile (\<lambda>c. c \<noteq> x) w = w" "dropWhile (\<lambda>c. c \<noteq> x) w = []"
    "takeWhile (\<lambda>c. c \<noteq> x) (w @ x # r) = w" "dropWhile (\<lambda>c. c \<noteq> x) (w @ x # r) = x # r"
  using assms by (induction w) auto

lemma strtok_words:
  assumes "word_ok w"
  shows "strtok (words_line (w # ws)) = (Some w, words_line ws)"
proof -
  from assms obtain c w' where w: "w = c # w'" "c \<noteq> CHR '' ''" "CHR '' '' \<notin> set w'"
    by (cases w) (auto simp: word_ok_def)
  then show ?thesis by (cases ws) (simp_all add: strtok_def token_ends [OF w(3)])
qed

lemma words_line_chars:
  "set (words_line ws) \<subseteq> insert (CHR '' '') (\<Union>w \<in> set ws. set w)"
  by (induction ws rule: words_line.induct) auto

lemma words_line_bytes:
  "\<forall>w \<in> set ws. 0 \<notin> set (bytes_of w) \<Longrightarrow> 0 \<notin> set (bytes_of (words_line ws))"
  by (induction ws rule: words_line.induct) (auto simp: bytes_of_def)

lemma line_of_words:
  assumes "\<forall>w \<in> set ws. word_ok w"
  shows "line_of (bytes_of (words_line ws @ crlf)) = words_line ws"
proof -
  have "0 \<notin> set (bytes_of (words_line ws))" using assms words_line_bytes [of ws] by (simp add: word_ok_def)
  then have "0 \<notin> set (bytes_of (words_line ws @ crlf))" by (simp add: bytes_of_def crlf_def)
  from cstr_append_zero [OF this, of "[]"] have "line_of (bytes_of (words_line ws @ crlf)) = trim_newline (words_line ws @ crlf)"
    by (simp add: line_of_def)
  moreover have "\<forall>c \<in> set (words_line ws). c \<notin> set crlf"
    using assms words_line_chars [of ws] by (fastforce simp: word_ok_def crlf_def)
  then have "trim_newline (words_line ws @ crlf) = words_line ws"
    by (simp add: trim_newline_def takeWhile_append crlf_def)
  ultimately show ?thesis by simp
qed

lemma words_line_nonempty: "word_ok w \<Longrightarrow> words_line (w # ws) \<noteq> []"
  by (cases ws) (auto simp: word_ok_def)

text \<open>What the dispatch makes of a line, before and after the login.\<close>

lemma handle_command_words:
  assumes "manager_at i s = Some m" and "word_ok cmd" "word_ok a" "word_ok b"
  shows "\<not> logged_in m \<Longrightarrow> handle_command os fd (words_line [cmd, a]) i s = handle_auth_command os fd cmd (Some a) i s"
    and "logged_in m \<Longrightarrow> handle_command os fd (words_line [cmd, a, b]) i s = run_command os fd cmd (Some a) (Some b) i s"
  using assms(1) strtok_words [OF assms(2), of "[a]"] strtok_words [OF assms(3), of "[]"]
    strtok_words [OF assms(2), of "[a, b]"] strtok_words [OF assms(3), of "[b]"] strtok_words [OF assms(4), of "[]"]
  by (simp_all add: handle_command_def Let_def)

section \<open>One event of a session\<close>

text \<open>Between two states descriptor \<open>fd\<close> was read \<open>n\<close> times and sent \<open>out\<close>; only session \<open>i\<close> may have changed.\<close>

definition talked :: "nat \<Rightarrow> int \<Rightarrow> nat \<Rightarrow> string \<Rightarrow> st \<Rightarrow> st \<Rightarrow> bool" where
  "talked i fd n out s s' \<longleftrightarrow> (\<exists>es. hist s' = hist s @ es \<and> recvs fd es = n \<and> sent fd es = bytes_of out)
     \<and> fst s' = fst s \<and> (\<forall>j. client_at j s' = client_at j s) \<and> (\<forall>j. j \<noteq> i \<longrightarrow> manager_at j s' = manager_at j s)"

lemma talked_trans:
  assumes "talked i fd m out s t" and "talked i fd n out' t u"
  shows "talked i fd (m + n) (out @ out') s u"
proof -
  obtain es es' where "hist t = hist s @ es" "recvs fd es = m" "sent fd es = bytes_of out"
    "hist u = hist t @ es'" "recvs fd es' = n" "sent fd es' = bytes_of out'" using assms by (auto simp: talked_def)
  then have "hist u = hist s @ (es @ es')" "recvs fd (es @ es') = m + n" "sent fd (es @ es') = bytes_of (out @ out')"
    by (simp_all add: recvs_def bytes_of_def)
  then show ?thesis using assms unfolding talked_def by metis
qed

lemma talked_recvs: "talked i fd n out s t \<Longrightarrow> recvs fd (hist t) = recvs fd (hist s) + n"
  by (auto simp: talked_def recvs_def)

text \<open>A system whose memory lasts and whose peers take all that is sent.\<close>

definition hears_all :: "os \<Rightarrow> bool" where
  "hears_all os \<longleftrightarrow> mallocs_ok os \<and> (\<forall>h fd bs. os_send os h fd bs = Inr (length bs))"

lemma hears_no_sigpipe: "hears_all os \<Longrightarrow> no_sigpipe os"
  by (simp add: hears_all_def no_sigpipe_def)

lemma reply_heard:
  assumes os: "hears_all os"
  obtains s' where "send_response os fd msg e s = Some s'" "users_of s' = users_of s"
    "manager_at i s' = manager_at i s" "talked i fd 0 ((if e then ''-ERR '' else ''+OK '') @ msg) s s'"
proof -
  let ?out = "(if e then ''-ERR '' else ''+OK '') @ msg"
  let ?es = "[Malloc (length ?out + 1) True, Send fd (bytes_of ?out) (Inr (length ?out))]"
  let ?s' = "record_event (?es ! 1) (record_event (?es ! 0) s)"
  have run: "send_response os fd msg e s = Some ?s'"
    using os by (simp add: hears_all_def send_response_def send_plain_def sys_malloc_def sys_send_def mallocs_ok_def
        Let_def del: append.simps)
  have "sent fd ?es = bytes_of ?out" by (simp add: sent_def)
  moreover have "hist ?s' = hist s @ ?es" by simp
  moreover have "recvs fd ?es = 0" by (simp add: recvs_def)
  ultimately have "talked i fd 0 ?out s ?s'"
    using send_response_frame [OF run] unfolding talked_def by blast
  with that run send_response_frame [OF run] show ?thesis by blast
qed

lemma line_event:
  assumes at: "manager_at i s = Some m" "mgr_fd m = fd" and key: "key_data key = Some (Manager i)"
    and ws: "\<forall>w \<in> set (w # ws). word_ok w" and short: "length (words_line (w # ws)) \<le> 1021"
    and recv: "\<forall>h. recvs fd h = recvs fd (hist s) \<longrightarrow> os_recv os h fd 1023 = Inr (bytes_of (words_line (w # ws) @ crlf))"
  obtains s1 where "manager_read os key s = handle_command os fd (words_line (w # ws)) i s1"
    "manager_at i s1 = Some m" "users_of s1 = users_of s" "talked i fd 1 [] s s1"
proof -
  let ?e = "Recv fd (Inr (bytes_of (words_line (w # ws) @ crlf)))"
  have ne: "words_line (w # ws) \<noteq> []" using words_line_nonempty [of w ws] ws by simp
  have got: "os_recv os (hist s) fd 1023 = Inr (bytes_of (words_line (w # ws) @ crlf))" using recv by blast
  have "manager_read os key s = handle_command os fd (words_line (w # ws)) i (record_event ?e s)"
    using at key got short line_of_words [OF ws, unfolded line_of_def] ne
    by (simp add: bytes_of_def manager_read_def sys_recv_def MANAGER_BUFFER_SIZE_def Let_def crlf_def)
  moreover have "manager_at i (record_event ?e s) = Some m" "users_of (record_event ?e s) = users_of s"
    using at by (simp_all add: record_event_def manager_at_def)
  moreover have "talked i fd 1 [] s (record_event ?e s)"
    unfolding talked_def by (intro conjI exI [of _ "[?e]"]) (simp_all add: recvs_def bytes_of_def)
  ultimately show ?thesis by (rule that)
qed

section \<open>Logging in and adding a user\<close>

text \<open>The session \<open>new_manager\<close> makes.\<close>

definition new_session :: "int \<Rightarrow> manager_data" where
  "new_session fd = \<lparr>mgr_fd = fd, logged_in = False, user_sent = False, mgr_username = replicate 50 0, is_admin = False\<rparr>"

lemma new_manager_session:
  "mallocs_ok os \<Longrightarrow> \<exists>i s'. new_manager os fd s = (Some i, s') \<and> manager_at i s' = Some (new_session fd)"
  by (simp add: new_manager_def sys_malloc_def mallocs_ok_def new_session_def Let_def)

lemma new_session_out: "\<not> logged_in (new_session fd)" "mgr_fd (new_session fd) = fd"
  by (simp_all add: new_session_def)

lemma session_name_set:
  assumes "length name \<le> 49" and "0 \<notin> set (bytes_of name)"
  shows "string_of (cstr (strncpy 49 (bytes_of name) (replicate 50 0))) = name"
proof -
  have "take 49 (bytes_of name) = bytes_of name" using assms(1) by simp
  then have "strncpy 49 (bytes_of name) (replicate 50 0) = bytes_of name @ 0 # replicate (49 - length name) 0"
    using assms(1) by (simp add: strncpy_def poke_def replicate_append_same)
  with cstr_append_zero [OF assms(2)] show ?thesis by simp
qed

abbreviation greeting_line :: string where
  "greeting_line \<equiv> ''+OK '' @ crlf"

abbreviation welcome_line :: string where
  "welcome_line \<equiv> ''+OK '' @ (''Autenticaci'' @ o_acute @ ''n exitosa. Privilegios de administrador concedidos.'' @ crlf)"

abbreviation added_line :: "string \<Rightarrow> string" where
  "added_line n \<equiv> ''+OK '' @ (''Usuario '' @ n @ '' creado exitosamente'' @ crlf)"

lemma user_accepted:
  assumes os: "hears_all os" and at: "manager_at i s = Some (new_session fd)"
    and a: "length a \<le> 49" "0 \<notin> set (bytes_of a)" "has_user (users_of s) a"
  obtains m s' where "handle_auth_command os fd ''USER'' (Some a) i s = Some s'" "manager_at i s' = Some m"
    "mgr_fd m = fd" "\<not> logged_in m" "user_sent m" "session_name m = a" "users_of s' = users_of s"
    "talked i fd 0 greeting_line s s'"
proof -
  let ?m = "(new_session fd)\<lparr>mgr_username := strncpy 49 (bytes_of a) (mgr_username (new_session fd)), user_sent := True\<rparr>"
  obtain s' where s': "send_response os fd crlf False (set_manager i ?m s) = Some s'"
    "users_of s' = users_of (set_manager i ?m s)" "manager_at i s' = manager_at i (set_manager i ?m s)"
    "talked i fd 0 greeting_line (set_manager i ?m s) s'"
    by (rule reply_heard [OF os, of fd crlf False "set_manager i ?m s" i]) (use that in simp)
  have "handle_auth_command os fd ''USER'' (Some a) i s = Some s'"
    using at a(3) s'(1) user_exists_iff by (simp add: handle_auth_command_def)
  moreover have "session_name ?m = a" using session_name_set [OF a(1,2)] by (simp add: new_session_def)
  moreover have "talked i fd 0 greeting_line s s'" using s'(4) by (simp add: talked_def)
  ultimately show ?thesis using s'(2,3) by (intro that [of s' ?m]) (simp_all add: new_session_def)
qed

lemma password_accepted:
  assumes os: "hears_all os" and m: "manager_at i s = Some m" "mgr_fd m = fd" "user_sent m"
    and u: "lookup (users_of s) (session_name m) = Some u" "u_status u = ADMIN"
  obtains m' s' where "handle_auth_command os fd ''PASS'' (Some (u_pass u)) i s = Some s'" "manager_at i s' = Some m'"
    "mgr_fd m' = fd" "logged_in m'" "users_of s' = users_of s" "talked i fd 0 welcome_line s s'"
proof -
  let ?m = "m\<lparr>logged_in := True, is_admin := True\<rparr>"
  let ?msg = "''Autenticaci'' @ o_acute @ ''n exitosa. Privilegios de administrador concedidos.'' @ crlf"
  obtain s' where s': "send_response os fd ?msg False (set_manager i ?m s) = Some s'"
    "users_of s' = users_of (set_manager i ?m s)" "manager_at i s' = manager_at i (set_manager i ?m s)"
    "talked i fd 0 welcome_line (set_manager i ?m s) s'"
    by (rule reply_heard [OF os, of fd ?msg False "set_manager i ?m s" i]) (use that in simp)
  have l: "user_login (users_of s) (session_name m) (u_pass u) = 0" using u(1) user_login_iff by blast
  with login_entry [OF l] u have "user_exists (users_of s) (session_name m) \<ge> 0"
    "u_status (users (users_of s) ! nat (user_exists (users_of s) (session_name m))) = ADMIN" by auto
  then have "handle_auth_command os fd ''PASS'' (Some (u_pass u)) i s = Some s'"
    using m l s'(1) by (simp add: handle_auth_command_def get_users_def Let_def del: append.simps)
  moreover have "talked i fd 0 welcome_line s s'" using s'(4) by (simp add: talked_def)
  ultimately show ?thesis using m(2) s'(2,3) by (intro that [of s' ?m]) simp_all
qed

lemma user_added:
  assumes os: "hears_all os" and m: "manager_at i s = Some m" and t: "users_inv (users_of s)"
    and n: "n \<noteq> []" "p \<noteq> []" "\<not> has_user (users_of s) n" "cantUsers (users_of s) < max_users (users_of s)" "length n \<le> 255"
  obtains s' where "run_command os fd ''ADD-USER'' (Some n) (Some p) k s = Some s'" "manager_at i s' = Some m"
    "new_user True (users_of s) (Some n) (Some p) = Some (0, users_of s')" "talked i fd 0 (added_line n) s s'"
proof -
  obtain t' where t': "new_user True (users_of s) (Some n) (Some p) = Some (0, t')"
    using new_user_spec [OF t, of True "Some n" "Some p"] n by auto
  let ?s = "set_users t' (record_event (Malloc 24 True) s)" and ?msg = "''Usuario '' @ n @ '' creado exitosamente'' @ crlf"
  obtain s' where s': "send_response os fd ?msg False ?s = Some s'" "users_of s' = users_of ?s"
    "manager_at i s' = manager_at i ?s" "talked i fd 0 (added_line n) ?s s'"
    by (rule reply_heard [OF os, of fd ?msg False ?s i]) (use that in simp)
  have "snprintf MAX_LENGTH_MSG ?msg = ?msg" using n(5) by (simp add: snprintf_def MAX_LENGTH_MSG_def crlf_def)
  then have sent: "send_response os fd (snprintf MAX_LENGTH_MSG ?msg) False ?s = Some s'" using s'(1) by simp
  have mem: "os_malloc os (hist s) 24 = True" using os by (simp add: hears_all_def mallocs_ok_def)
  have "handle_add_user os fd (Some n) (Some p) s = Some s'"
    unfolding handle_add_user_def Let_def mem t' option.sel using sent by (simp del: append.simps)
  then have run: "run_command os fd ''ADD-USER'' (Some n) (Some p) k s = Some s'" by (simp add: run_command_def)
  have "talked i fd 0 [] s ?s"
    unfolding talked_def by (intro conjI exI [of _ "[Malloc 24 True]"]) (simp_all add: recvs_def sent_def bytes_of_def)
  from talked_trans [OF this s'(4)] have talk: "talked i fd 0 (added_line n) s s'" by (simp only: append_Nil add_0)
  have "manager_at i s' = Some m" using m s'(3) by simp
  moreover have "new_user True (users_of s) (Some n) (Some p) = Some (0, users_of s')" using t' s'(2) by simp
  ultimately show ?thesis by (rule that [OF run _ _ talk])
qed

section \<open>The whole session\<close>

text \<open>Read events of one session, one after the other.\<close>

fun session_reads :: "os \<Rightarrow> key \<Rightarrow> nat \<Rightarrow> st \<Rightarrow> st option" where
  "session_reads os key 0 s = Some s"
| "session_reads os key (Suc n) s = do { s1 \<leftarrow> manager_read os key s; session_reads os key n s1 }"

text \<open>The lines of somebody who logs in and adds a user.\<close>

definition add_user_lines :: "string \<Rightarrow> string \<Rightarrow> string \<Rightarrow> string \<Rightarrow> bytes list" where
  "add_user_lines a pw n p = map (\<lambda>ws. bytes_of (words_line ws @ crlf)) [[''USER'', a], [''PASS'', pw], [''ADD-USER'', n, p]]"

lemma command_words: "word_ok ''USER''" "word_ok ''PASS''" "word_ok ''ADD-USER''"
  by (simp_all add: word_ok_def crlf_def bytes_of_def)

lemma add_user_session:
  assumes os: "hears_all os" and at: "manager_at i s = Some (new_session fd)" and key: "key_data key = Some (Manager i)"
    and says: "speaks os fd (add_user_lines a (u_pass u) n p) s"
    and words: "word_ok a" "word_ok (u_pass u)" "word_ok n" "word_ok p"
    and len: "length a \<le> 49" "length n \<le> 255" "length p \<le> 255"
    and t: "users_inv (users_of s)" "lookup (users_of s) a = Some u" "u_status u = ADMIN"
      "\<not> has_user (users_of s) n" "cantUsers (users_of s) < max_users (users_of s)"
  obtains m s' where "session_reads os key 3 s = Some s'" "manager_at i s' = Some m" "mgr_fd m = fd" "logged_in m"
    "new_user True (users_of s) (Some n) (Some p) = Some (0, users_of s')"
    "talked i fd 3 (greeting_line @ welcome_line @ added_line n) s s'"
proof -
  let ?l = "add_user_lines a (u_pass u) n p"
  have pass: "length (u_pass u) \<le> 255"
  proof -
    have "u \<in> set (users (users_of s))" using t(2) by (auto simp: lookup_def find_Some_iff)
    then show ?thesis using t(1) by (simp add: users_inv_def USER_MAX_LENGTH_def)
  qed
  have says_k: "k < 3 \<Longrightarrow> recvs fd (hist t) = recvs fd (hist s) + k \<Longrightarrow> length (?l ! k) \<le> 1023 \<Longrightarrow>
      \<forall>h. recvs fd h = recvs fd (hist t) \<longrightarrow> os_recv os h fd 1023 = Inr (?l ! k)" for k t
    using speaks_next [OF says] by (simp add: add_user_lines_def)
  have l: "?l ! 0 = bytes_of (words_line [''USER'', a] @ crlf)" "?l ! 1 = bytes_of (words_line [''PASS'', u_pass u] @ crlf)"
    "?l ! 2 = bytes_of (words_line [''ADD-USER'', n, p] @ crlf)"
    by (simp_all add: add_user_lines_def del: words_line.simps)
  have len_l: "length (?l ! k) \<le> 1023" if "k < 3" for k
  proof -
    from that have "k = 0 \<or> k = 1 \<or> k = 2" by auto
    with l len pass show ?thesis by (elim disjE) (simp_all add: crlf_def)
  qed
  obtain s1 where s1: "manager_read os key s = handle_command os fd (words_line [''USER'', a]) i s1"
    "manager_at i s1 = Some (new_session fd)" "users_of s1 = users_of s" "talked i fd 1 [] s s1"
    by (rule line_event [OF at _ key, of fd "''USER''" "[a]" os])
      (use command_words words len says_k [of 0 s, unfolded l(1)] len_l [of 0, unfolded l(1)] in \<open>auto simp: new_session_def\<close>)
  have "has_user (users_of s1) a" using t(2) s1(3) lookup_None_iff [of "users_of s" a] by simp
  then obtain m2 s2 where s2: "handle_auth_command os fd ''USER'' (Some a) i s1 = Some s2" "manager_at i s2 = Some m2"
    "mgr_fd m2 = fd" "\<not> logged_in m2" "user_sent m2" "session_name m2 = a" "users_of s2 = users_of s1"
    "talked i fd 0 greeting_line s1 s2"
    using user_accepted [OF os s1(2) len(1)] words(1) unfolding word_ok_def by blast
  have 2: "manager_read os key s = Some s2"
    unfolding s1(1) handle_command_words(1) [OF s1(2) command_words(1) words(1,1) new_session_out(1)] by (rule s2(1))
  note t2 = talked_trans [OF s1(4) s2(8)]
  obtain s3 where s3: "manager_read os key s2 = handle_command os fd (words_line [''PASS'', u_pass u]) i s3"
    "manager_at i s3 = Some m2" "users_of s3 = users_of s2" "talked i fd 1 [] s2 s3"
    by (rule line_event [OF s2(2,3) key, of "''PASS''" "[u_pass u]" os])
      (use command_words words pass says_k [of 1 s2, unfolded l(2)] len_l [of 1, unfolded l(2)] talked_recvs [OF t2] in auto)
  have look: "lookup (users_of s3) (session_name m2) = Some u" using t(2) s1(3) s2(6,7) s3(3) by simp
  obtain m4 s4 where s4: "handle_auth_command os fd ''PASS'' (Some (u_pass u)) i s3 = Some s4" "manager_at i s4 = Some m4"
    "mgr_fd m4 = fd" "logged_in m4" "users_of s4 = users_of s3" "talked i fd 0 welcome_line s3 s4"
    using password_accepted [OF os s3(2) s2(3,5) look t(3)] by blast
  have 4: "manager_read os key s2 = Some s4"
    unfolding s3(1) handle_command_words(1) [OF s3(2) command_words(2) words(2,2) s2(4)] by (rule s4(1))
  note t4 = talked_trans [OF t2 talked_trans [OF s3(4) s4(6)]]
  have same: "users_of s4 = users_of s" using s1(3) s2(7) s3(3) s4(5) by simp
  obtain s5 where s5: "manager_read os key s4 = handle_command os fd (words_line [''ADD-USER'', n, p]) i s5"
    "manager_at i s5 = Some m4" "users_of s5 = users_of s4" "talked i fd 1 [] s4 s5"
    by (rule line_event [OF s4(2,3) key, of "''ADD-USER''" "[n, p]" os])
      (use command_words words len says_k [of 2 s4, unfolded l(3)] len_l [of 2, unfolded l(3)] talked_recvs [OF t4] in auto)
  have ne: "n \<noteq> []" "p \<noteq> []" using words(3,4) by (simp_all add: word_ok_def)
  obtain s6 where s6: "run_command os fd ''ADD-USER'' (Some n) (Some p) i s5 = Some s6" "manager_at i s6 = Some m4"
    "new_user True (users_of s5) (Some n) (Some p) = Some (0, users_of s6)" "talked i fd 0 (added_line n) s5 s6"
    by (rule user_added [OF os s5(2) _ ne _ _ len(2), of fd i]) (use t same s5(3) in auto)
  have 6: "manager_read os key s4 = Some s6"
    unfolding s5(1) handle_command_words(2) [OF s5(2) command_words(3) words(3,4) s4(4)] by (rule s6(1))
  have "session_reads os key 3 s = Some s6" using 2 4 6 by (simp add: eval_nat_numeral)
  moreover have "talked i fd 3 (greeting_line @ welcome_line @ added_line n) s s6"
    using talked_trans [OF t4 talked_trans [OF s5(4) s6(4)]] by (simp only: append_Nil append_assoc) (simp add: numeral_3_eq_3)
  moreover have "new_user True (users_of s) (Some n) (Some p) = Some (0, users_of s6)" using s6(3) s5(3) same by simp
  ultimately show ?thesis using that [of s6 m4] s6(2) s4(3,4) by blast
qed

section \<open>From the listening socket on\<close>

text \<open>Somebody connects on descriptor \<open>fd\<close>, which has room in the table.\<close>

definition arrives :: "os \<Rightarrow> int \<Rightarrow> key \<Rightarrow> st \<Rightarrow> bool" where
  "arrives os fd key s \<longleftrightarrow> (\<exists>addr. os_accept os (hist s) (key_fd key) = Some (fd, addr))
     \<and> (\<forall>h. os_getfd os h fd = Some 0 \<and> os_setfl os h fd O_NONBLOCK)
     \<and> 0 \<le> fd \<and> nat fd < fd_size (fst s) \<and> fd < int ITEMS_MAX_SIZE \<and> registered (fst s) fd = None"

abbreviation version_line :: string where
  "version_line \<equiv> ''+OK '' @ (''Dory v1.0'' @ crlf)"

lemma session_accepted:
  assumes os: "hears_all os" and inv: "sel_inv (fst s)" and new: "arrives os fd key s"
  obtains s' es where "manager_passive_accept os key s = Some s'"
    "manager_at (next_manager (snd s)) s' = Some (new_session fd)" "sel_inv (fst s')"
    "registered (fst s') = (registered (fst s))
       (fd \<mapsto> new_item fd (Some MANAGER_HANDLER) OP_READ (Some (Manager (next_manager (snd s)))))"
    "users_of s' = users_of s" "\<forall>j. client_at j s' = client_at j s"
    "hist s' = hist s @ es" "recvs fd es = 0" "sent fd es = bytes_of version_line"
proof -
  let ?i = "next_manager (snd s)" and ?msg = "''Dory v1.0'' @ crlf"
  obtain addr where acc: "os_accept os (hist s) (key_fd key) = Some (fd, addr)" using new by (auto simp: arrives_def)
  have nio: "\<forall>h. os_getfd os h fd = Some 0 \<and> os_setfl os h fd O_NONBLOCK" and
    fd: "0 \<le> fd" "nat fd < fd_size (fst s)" "fd < int ITEMS_MAX_SIZE" "registered (fst s) fd = None"
    using new by (simp_all add: arrives_def)
  define s1 where "s1 = record_event (Accept (key_fd key) (Some (fd, addr))) s"
  obtain s2 where s2: "send_response os fd ?msg False s1 = Some s2" "talked ?i fd 0 version_line s1 s2"
    by (rule reply_heard [OF os, of fd ?msg False s1 ?i]) (use that in simp)
  note o2 = only_traceD [OF send_response_trace [OF s2(1)]]
  obtain es where es: "hist s2 = hist s @ Accept (key_fd key) (Some (fd, addr)) # es" "recvs fd es = 0" "sent fd es = bytes_of version_line"
    using s2(2) by (auto simp: talked_def s1_def)
  define s3 where "s3 = record_event (Malloc sizeof_manager_data True) (record_event (Set_nio fd 0) s2)"
  define s4 where "s4 = record_event (Malloc element_size True)
    (set_manager ?i (new_session fd) (fst s3, (snd s3)\<lparr>next_manager := Suc ?i\<rparr>))"
  have f3: "next_manager (snd s3) = ?i" "fst s3 = fst s" "users_of s3 = users_of s" "client_at j s3 = client_at j s" for j
    using o2 by (simp_all add: s3_def s1_def record_event_def client_at_def)
  have m: "os_malloc os h k" for h k using os by (simp add: hears_all_def mallocs_ok_def)
  have sys: "sys_accept os (key_fd key) s = (Some (fd, addr), s1)" "sys_set_nio os fd s2 = (0, record_event (Set_nio fd 0) s2)"
    "sys_malloc os sizeof_manager_data (record_event (Set_nio fd 0) s2) = (True, s3)"
    using acc nio m by (simp_all add: sys_accept_def sys_set_nio_def sys_malloc_def selector_fd_set_nio_def s1_def s3_def Let_def)
  have born: "new_manager os fd (record_event (Set_nio fd 0) s2)
      = (Some ?i, set_manager ?i (new_session fd) (fst s3, (snd s3)\<lparr>next_manager := Suc ?i\<rparr>))"
    unfolding new_manager_def sys(3) using f3(1) by (simp add: new_session_def Let_def)
  obtain sel' where sel': "selector_register True (fst s) fd (Some MANAGER_HANDLER) OP_READ (Some (Manager ?i)) = Some (SELECTOR_SUCCESS, sel')"
    "sel_inv sel'" "registered sel' = (registered (fst s))(fd \<mapsto> new_item fd (Some MANAGER_HANDLER) OP_READ (Some (Manager ?i)))"
    using selector_register_in_table(2) [OF inv fd(1,3,2) _ fd(4), of "Some MANAGER_HANDLER" True OP_READ "Some (Manager ?i)"] by blast
  have reg: "register os fd MANAGER_HANDLER OP_READ (Some (Manager ?i))
      (set_manager ?i (new_session fd) (fst s3, (snd s3)\<lparr>next_manager := Suc ?i\<rparr>)) = Some (SELECTOR_SUCCESS, set_sel sel' s4)"
    using sel'(1) m f3(2) by (simp add: register_def sys_malloc_def s4_def Let_def)
  have run: "manager_passive_accept os key s = Some (set_sel sel' s4)"
    using sys(1,2) s2(1) born reg fd(1) by (simp add: manager_passive_accept_def Let_def del: append.simps)
  show ?thesis
  proof (rule that [OF run])
    show "hist (set_sel sel' s4) = hist s @ (Accept (key_fd key) (Some (fd, addr)) # es
        @ [Set_nio fd 0, Malloc sizeof_manager_data True, Malloc element_size True])"
      using es(1) by (simp add: s4_def s3_def hist_def record_event_def set_sel_def set_manager_def)
  qed (use sel' es(2,3) f3 in \<open>simp_all add: s4_def recvs_def sent_def client_at_def record_event_def set_sel_def set_manager_def
      manager_at_def del: append.simps\<close>)
qed

lemma accepted_session_adds:
  assumes os: "hears_all os" "sel_inv (fst s)" "arrives os fd key s"
    and says: "speaks os fd (add_user_lines a (u_pass u) n p) s"
    and words: "word_ok a" "word_ok (u_pass u)" "word_ok n" "word_ok p" "length a \<le> 49" "length n \<le> 255" "length p \<le> 255"
    and t: "users_inv (users_of s)" "lookup (users_of s) a = Some u" "u_status u = ADMIN"
      "\<not> has_user (users_of s) n" "cantUsers (users_of s) < max_users (users_of s)"
  obtains s0 s' m where "manager_passive_accept os key s = Some s0"
    "session_reads os \<lparr>key_fd = fd, key_data = Some (Manager (next_manager (snd s)))\<rparr> 3 s0 = Some s'"
    "sent fd (new_events s s') = bytes_of (version_line @ greeting_line @ welcome_line @ added_line n)"
    "manager_at (next_manager (snd s)) s' = Some m" "logged_in m"
    "users (users_of s') = users (users_of s) @ [\<lparr>u_name = n, u_pass = p, u_status = COMMONER, u_access = sb_create True True\<rparr>]"
    "\<forall>q. user_login (users_of s') n q = 0 \<longleftrightarrow> q = p" "\<forall>j. client_at j s' = client_at j s"
proof -
  let ?i = "next_manager (snd s)"
  let ?k = "\<lparr>key_fd = fd, key_data = Some (Manager ?i)\<rparr>"
  obtain s0 es where s0: "manager_passive_accept os key s = Some s0" "manager_at ?i s0 = Some (new_session fd)"
    "users_of s0 = users_of s" "\<forall>j. client_at j s0 = client_at j s" "hist s0 = hist s @ es" "recvs fd es = 0"
    "sent fd es = bytes_of version_line"
    using session_accepted [OF os] by metis
  have says0: "speaks os fd (add_user_lines a (u_pass u) n p) s0" using says s0(5,6) by (simp add: speaks_def)
  obtain m s' where s': "session_reads os ?k 3 s0 = Some s'" "manager_at ?i s' = Some m" "mgr_fd m = fd" "logged_in m"
    "new_user True (users_of s0) (Some n) (Some p) = Some (0, users_of s')"
    "talked ?i fd 3 (greeting_line @ welcome_line @ added_line n) s0 s'"
    by (rule add_user_session [OF os(1) s0(2) _ says0 words _ _ t(3), of ?k]) (use t s0(3) in auto)
  obtain es' where es': "hist s' = hist s0 @ es'" "sent fd es' = bytes_of (greeting_line @ welcome_line @ added_line n)"
    using s'(6) unfolding talked_def by blast
  have out: "sent fd (new_events s s') = bytes_of (version_line @ greeting_line @ welcome_line @ added_line n)"
  proof -
    have "new_events s s' = es @ es'" using s0(5) es'(1) by (simp add: new_events_def)
    then have "sent fd (new_events s s') = bytes_of version_line @ bytes_of (greeting_line @ welcome_line @ added_line n)"
      using s0(7) es'(2) by (simp only: traffic_simps)
    then show ?thesis by (simp only: bytes_of_def map_append append_assoc)
  qed
  have new: "new_user True (users_of s) (Some n) (Some p) = Some (0, users_of s')" using s'(5) s0(3) by simp
  then have "add_user (users_of s) n p = Some (users_of s')" by (simp add: add_user_def)
  from accounts.add_then_only_password [OF t(1) this words(6,7)]
  have login: "\<forall>q. user_login (users_of s') n q = 0 \<longleftrightarrow> q = p" by (simp add: login_ok_def)
  have tab: "users (users_of s') = users (users_of s) @ [\<lparr>u_name = n, u_pass = p, u_status = COMMONER, u_access = sb_create True True\<rparr>]"
    using new_user_adds [OF t(1) new] words(6,7) by simp
  have "\<forall>j. client_at j s' = client_at j s" using s'(6) s0(4) by (simp add: talked_def)
  from that [OF s0(1) s'(1) out s'(2,4) tab login this] show ?thesis .
qed

end
