(* ===== verification/Sample.thy ===== *)
theory Sample
  imports Manager Typing
begin

text \<open>
  A concrete system and a concrete state on which the properties with hypotheses are
  applied: an operating system whose calls all succeed, a table of users with the
  administrator, a selector with two descriptors of client 0 (4: the client, 5: the origin), and
  that client in any of its states.
\<close>

text \<open>Every \<open>recv\<close> delivers \<open>input\<close> (as far as it fits), every \<open>send\<close> takes everything.\<close>

definition sample_os :: "bytes \<Rightarrow> os" where
  "sample_os input = \<lparr>os_recv = (\<lambda>h fd n. Inr (take n input)), os_send = (\<lambda>h fd bs. Inr (length bs)),
     os_accept = (\<lambda>h fd. Some (6, Sockaddr_in [127, 0, 0, 1] [200, 1])),
     os_getfd = (\<lambda>h fd. Some 0), os_setfl = (\<lambda>h fd fl. True),
     os_socket = (\<lambda>h f t p. Some 7), os_connect = (\<lambda>h fd a. Some EINPROGRESS),
     os_getsockopt = (\<lambda>h fd. Some 111), os_getsockname = (\<lambda>h fd. Some (Sockaddr_in [10, 0, 0, 1] [4, 56])),
     os_getaddrinfo = (\<lambda>h n p. Inr []), os_pthread_create = (\<lambda>h. 11),
     os_malloc = (\<lambda>h n. True), os_time = (\<lambda>h. ''2025-06-30 12:00:00''), os_ntop = (\<lambda>bs. ''127.0.0.1''),
     os_strerror = (\<lambda>h. ''Input/output error'')\<rparr>"

lemma sample_os_ok [simp]: "os_ok (sample_os input)" "mallocs_ok (sample_os input)"
  by (simp_all add: os_ok_def mallocs_ok_def sample_os_def)

lemma sample_os_calls [simp]:
  "os_recv (sample_os input) h fd n = Inr (take n input)"
  "os_send (sample_os input) h fd bs = Inr (length bs)"
  "os_accept (sample_os input) h fd = Some (6, Sockaddr_in [127, 0, 0, 1] [200, 1])"
  "os_getfd (sample_os input) h fd = Some 0" "os_setfl (sample_os input) h fd fl"
  "os_socket (sample_os input) h x y z = Some 7"
  "os_connect (sample_os input) h fd a = Some EINPROGRESS"
  "os_getsockopt (sample_os input) h fd = Some 111"
  "os_getsockname (sample_os input) h fd = Some (Sockaddr_in [10, 0, 0, 1] [4, 56])"
  "os_pthread_create (sample_os input) h = 11"
  by (simp_all add: sample_os_def)

definition sample_item :: "int \<Rightarrow> (handler_id, attachment) item" where
  "sample_item fd = new_item fd (Some SOCKS5_HANDLER) OP_READ (Some (Client 0))"

definition sample_sel :: sel where
  "sample_sel = blank_selector\<lparr>fds := replicate 4 item_init @ [sample_item 4, sample_item 5] @ replicate 4 item_init,
     max_fd := 5, master_r := {4, 5}\<rparr>"

lemma sample_item_facts [simp]:
  "ITEM_USED (sample_item 4)" "ITEM_USED (sample_item 5)" "\<not> ITEM_USED item_init"
  "item_fd (sample_item x) = x" "item_handler (sample_item x) = Some SOCKS5_HANDLER"
  "item_data (sample_item x) = Some (Client 0)"
  "wants OP_READ (sample_item x)" "\<not> wants OP_WRITE (sample_item x)"
  by (simp_all add: sample_item_def new_item_def ITEM_USED_def item_init_def FD_UNUSED_def wants_def
      OP_READ_def OP_WRITE_def)

lemma sample_sel_size [simp]: "fd_size sample_sel = 10"
  by (simp add: sample_sel_def fd_size_def)

lemma sample_registered:
  "registered sample_sel = [4 \<mapsto> sample_item 4, 5 \<mapsto> sample_item 5]"
proof
  fix x :: int
  show "registered sample_sel x = [4 \<mapsto> sample_item 4, 5 \<mapsto> sample_item 5] x"
  proof (cases "0 \<le> x \<and> x < 10")
    case False
    then have "x \<noteq> 4" "x \<noteq> 5" "\<not> (0 \<le> x \<and> nat x < fd_size sample_sel)" by auto
    then show ?thesis by (auto simp: registered_def)
  next
    case True
    then have "x \<in> {0, 1, 2, 3, 4, 5, 6, 7, 8, 9}" by simp presburger
    then show ?thesis
      by (auto simp: registered_def sample_sel_def fd_size_def numeral_eq_Suc)
  qed
qed

lemma sample_sel_inv [simp]: "sel_inv sample_sel"
proof -
  have m: "master_r sample_sel = {4, 5}" "master_w sample_sel = {}" "max_fd sample_sel = 5"
    by (simp_all add: sample_sel_def blank_selector_def)
  show ?thesis
    unfolding sel_inv_def m sample_registered
    by (auto simp: ITEMS_MAX_SIZE_def split: if_splits)
qed

definition sample_buffer :: "bytes \<Rightarrow> buffer" where
  "sample_buffer bs = \<lparr>buf_data = bs @ replicate (BUFFER_SIZE - length bs) 0, buf_limit = BUFFER_SIZE,
     buf_read = 0, buf_write = length bs\<rparr>"

lemma sample_buffer_facts [simp]:
  "length bs \<le> BUFFER_SIZE \<Longrightarrow> buffer_inv (sample_buffer bs)"
  "buf_limit (sample_buffer bs) = BUFFER_SIZE"
  "contents (sample_buffer bs) = bs"
  "room (sample_buffer bs) = BUFFER_SIZE - length bs"
  by (simp_all add: sample_buffer_def buffer_inv_def contents_def room_def seg_def)

text \<open>Client 0 in state \<open>q\<close>, with handshake \<open>h\<close> and what the two buffers hold.\<close>

definition sample_client :: "socks_v5state \<Rightarrow> handshake \<Rightarrow> bytes \<Rightarrow> bytes \<Rightarrow> client_data" where
  "sample_client q h cs sc = \<lparr>stm = \<lparr>stm_initial = state_id NEGOTIATION_READ,
       stm_max_state = state_id SOCKS_ERROR, stm_current = Some (state_id q)\<rparr>,
     handshake = h, client_fd = 4, client_eof = False,
     client_address = Sockaddr_in [127, 0, 0, 1] [200, 1],
     username = bytes_of ''admin'' @ replicate 251 0, client_to_sv = sample_buffer cs,
     origin_fd = 5, origin_eof = False, sv_to_client = sample_buffer sc,
     origin_addr = [], current_origin_addr = []\<rparr>"

definition sample_users :: user_table where
  "sample_users = \<lparr>cantUsers = 1, admins = 1, max_users = 10,
     users = [\<lparr>u_name = ''admin'', u_pass = ''admin'', u_status = ADMIN, u_access = sb_create True True\<rparr>],
     users_cap = 10\<rparr>"

lemma sample_users_inv [simp]: "users_inv sample_users"
  by (simp add: sample_users_def users_inv_def USER_MAX_LENGTH_def)

definition sample_logs :: log_state where
  "sample_logs = \<lparr>log_sb = the (sb_create True True), current_type = INFO\<rparr>"

definition sample_state :: "client_data \<Rightarrow> st" where
  "sample_state c = (sample_sel, \<lparr>clients = [0 \<mapsto> c], next_client = 1, managers = Map.empty, next_manager = 0, user_tab = sample_users,
     metrics_of = init_metrics, logs = sample_logs, threads = [], trace = []\<rparr>)"

definition sample_key :: "int \<Rightarrow> key" where
  "sample_key fd = \<lparr>key_fd = fd, key_data = Some (Client 0)\<rparr>"

lemma sample_frame [simp]:
  "fst (sample_state c) = sample_sel" "client_at 0 (sample_state c) = Some c"
  "hist (sample_state c) = []" "user_tab (snd (sample_state c)) = sample_users"
  "key_fd (sample_key fd) = fd" "ATTACHMENT (sample_key fd) = Some 0"
  by (simp_all add: sample_state_def client_at_def hist_def sample_key_def ATTACHMENT_def)

lemma sample_client_ok [simp]:
  "handshake_ok h \<Longrightarrow> length cs \<le> BUFFER_SIZE \<Longrightarrow> length sc \<le> BUFFER_SIZE \<Longrightarrow>
   client_ok (sample_client q h cs sc)"
  by (simp add: client_ok_def sample_client_def)

lemma sample_called [simp]:
  "client_ok c \<Longrightarrow> called 0 (sample_key 4) c (sample_state c)"
  by (simp add: called_def sample_registered)

lemma sample_roles [simp]:
  "roles sample_sel 4 = Some (Some SOCKS5_HANDLER, Some (Client 0))"
  "roles sample_sel 5 = Some (Some SOCKS5_HANDLER, Some (Client 0))"
  by (simp_all add: roles_def sample_registered)

lemma sample_relaying [simp]:
  "handshake_ok h \<Longrightarrow> length cs \<le> BUFFER_SIZE \<Longrightarrow> length sc \<le> BUFFER_SIZE \<Longrightarrow>
   relaying 0 (sample_client COPY h cs sc) (sample_state (sample_client COPY h cs sc))"
  by (simp add: relaying_def) (simp add: sample_client_def in_copy_def)

lemma sample_copying [simp]:
  "handshake_ok h \<Longrightarrow> length cs \<le> BUFFER_SIZE \<Longrightarrow> length sc \<le> BUFFER_SIZE \<Longrightarrow> fd = 4 \<or> fd = 5 \<Longrightarrow>
   copying 0 (sample_key fd) (sample_client COPY h cs sc) (sample_state (sample_client COPY h cs sc))"
  by (simp add: copying_def) (auto simp add: sample_client_def)

text \<open>Parsers that have just been initialised, over zeroed memory.\<close>

definition zero_neg :: neg_parser where
  "zero_neg = initialize_negotiation_parser \<lparr>selected_method = PASS, neg_state = NEG_VERSION, method_quantity = 0\<rparr>"

definition zero_auth :: auth_parser where
  "zero_auth = \<lparr>auth_state = AUTH_PARSE_VERSION, authenticated = ACCESS_DENIED, auth_length = 0,
     auth_bytes_read = 0, uname = replicate 256 0, passwd = replicate 256 0\<rparr>"

definition zero_req :: req_parser where
  "zero_req = \<lparr>req_state = REQ_VERSION, con_status = CON_SERVER_FAILURE, atyp = 0, addr_len = 0,
     req_bytes_read = 0, req_port = 0, req_address = \<lparr>address_class = replicate 256 0,
       addr_buffer = replicate 256 0\<rparr>\<rparr>"

lemma zero_parsers_ok [simp]: "neg_parser_ok zero_neg" "auth_parser_ok zero_auth" "req_parser_ok zero_req"
  by (simp_all add: zero_neg_def initialize_negotiation_ok zero_auth_def auth_parser_ok_def zero_req_def
      req_parser_ok_def)

section \<open>A step of the relay\<close>

text \<open>The client sends two bytes while one is buffered for the origin; all three go out.\<close>

definition relay_client :: client_data where
  "relay_client = sample_client COPY (Request zero_req) [72] []"

definition relay_begin :: st where
  "relay_begin = sample_state relay_client"

lemma relay_begin_facts:
  "relaying 0 relay_client relay_begin" "copying 0 (sample_key 5) relay_client relay_begin"
  "in_copy relay_client"
  unfolding relay_begin_def relay_client_def
  by (auto intro!: sample_relaying sample_copying simp: handshake_ok_def BUFFER_SIZE_def)
    (simp add: in_copy_def sample_client_def)

definition relay_end :: st where
  "relay_end = snd (the (stm_handler_read (client_actions (sample_os [105, 33]) server_closers)
     (client_stm 0) (sample_key 4) relay_begin))"

lemma relay_step_result:
  "map_option fst (stm_handler_read (client_actions (sample_os [105, 33]) server_closers)
     (client_stm 0) (sample_key 4) relay_begin) = Some (state_id COPY)"
  by code_simp

lemma relay_sample: "relay_run (sample_os [105, 33]) server_closers 0 relay_begin relay_end"
proof -
  obtain ret s' where r: "stm_handler_read (client_actions (sample_os [105, 33]) server_closers)
      (client_stm 0) (sample_key 4) relay_begin = Some (ret, s')"
    using relay_step_result by auto
  with relay_step_result have "ret = state_id COPY" "relay_end = s'" by (simp_all add: relay_end_def)
  with r show ?thesis
    by (intro relay_run.relay_read [OF relay_run.relay_start, of "sample_key 4" 0
        relay_begin relay_client])
      (simp_all add: relay_begin_def, simp add: relay_client_def sample_client_def)
qed

section \<open>Moments of the handshake\<close>

text \<open>A denial waits to be sent.\<close>

definition denied_client :: client_data where
  "denied_client = sample_client AUTH_WRITE (Authentication zero_auth) []
     [AUTH_VERSION, auth_status_code ACCESS_DENIED]"

definition denied_begin :: st where "denied_begin = sample_state denied_client"

lemma sample_called_begin:
  assumes "handshake_ok h" and "length cs \<le> BUFFER_SIZE" and "length sc \<le> BUFFER_SIZE"
  shows "called 0 (sample_key 4) (sample_client q h cs sc) (sample_state (sample_client q h cs sc))"
  by (rule sample_called [OF sample_client_ok [OF assms]])

lemma denied_begin_facts:
  "called 0 (sample_key 4) denied_client denied_begin"
  "contents (sv_to_client denied_client) = [AUTH_VERSION, auth_status_code ACCESS_DENIED]"
  unfolding denied_begin_def denied_client_def
  by (rule sample_called_begin) (simp_all add: handshake_ok_def BUFFER_SIZE_def, simp add: sample_client_def)

text \<open>The user's name and password are about to be read.\<close>

definition login_client :: client_data where
  "login_client = sample_client AUTH_READ (Authentication (initialize_auth_parser zero_auth)) [] []"

definition login_begin :: st where "login_begin = sample_state login_client"

lemma initialize_auth_ok: "auth_parser_ok (initialize_auth_parser zero_auth)"
  by (simp add: auth_parser_ok_def zero_auth_def initialize_auth_parser_def)

lemma login_begin_facts:
  "called 0 (sample_key 4) login_client login_begin"
  "handshake login_client = Authentication (initialize_auth_parser zero_auth)"
  "uname zero_auth = replicate 256 0" "passwd zero_auth = replicate 256 0"
  "contents (client_to_sv login_client) = []" "contents (sv_to_client login_client) = []"
  "room (client_to_sv login_client) = 1024" "room (sv_to_client login_client) = 1024"
  "user_tab (snd login_begin) = sample_users"
  unfolding login_begin_def login_client_def
  by (rule sample_called_begin)
    (simp_all add: handshake_ok_def initialize_auth_ok BUFFER_SIZE_def sample_client_def, simp_all add: zero_auth_def)

text \<open>A hello is about to be read, and a refusal of all methods waits to be sent.\<close>

definition hello_client :: client_data where
  "hello_client = sample_client NEGOTIATION_READ (Negotiation (initialize_negotiation_parser zero_neg)) [] []"

definition hello_begin :: st where "hello_begin = sample_state hello_client"

lemma hello_begin_facts:
  "called 0 (sample_key 4) hello_client hello_begin"
  "handshake hello_client = Negotiation (initialize_negotiation_parser zero_neg)"
  "contents (client_to_sv hello_client) = []" "contents (sv_to_client hello_client) = []"
  "room (client_to_sv hello_client) = 1024" "room (sv_to_client hello_client) = 1024"
  unfolding hello_begin_def hello_client_def
  by (rule sample_called_begin)
    (simp_all add: handshake_ok_def initialize_negotiation_ok BUFFER_SIZE_def sample_client_def)

definition refused_client :: client_data where
  "refused_client = sample_client NEGOTIATION_WRITE (Negotiation zero_neg) [] [5, 0xFF]"

definition refused_begin :: st where "refused_begin = sample_state refused_client"

lemma refused_begin_facts:
  "called 0 (sample_key 4) refused_client refused_begin"
  "handshake refused_client = Negotiation zero_neg"
  "contents (sv_to_client refused_client) = [5, 0xFF]"
  unfolding refused_begin_def refused_client_def
  by (rule sample_called_begin) (simp_all add: handshake_ok_def BUFFER_SIZE_def sample_client_def)

text \<open>The first three bytes of a request have been parsed.\<close>

definition piece_end :: "req_parser \<times> buffer" where
  "piece_end = the (req_parse (initialize_request_parser zero_req) (sample_buffer [5, 1, 0]))"

lemma piece_end_facts:
  "req_parse (initialize_request_parser zero_req) (sample_buffer [5, 1, 0]) = Some (fst piece_end, snd piece_end)"
  "contents (snd piece_end) = []"
proof -
  have "feed_all req_feed is_req_done (initialize_request_parser zero_req) [5, 1, 0]
      = ((initialize_request_parser zero_req)\<lparr>req_state := REQ_ATYP\<rparr>, [])"
    by (simp add: feed_step is_req_done_def initialize_request_parser_def req_feed_def PROTOCOL_VERSION_def
        CONNECT_def RSV_def req_parse_version_def req_parse_cmd_def req_parse_rsv_def)
  then obtain b' where "req_parse (initialize_request_parser zero_req) (sample_buffer [5, 1, 0])
      = Some ((initialize_request_parser zero_req)\<lparr>req_state := REQ_ATYP\<rparr>, b')" "contents b' = []"
    using req.loop_result [of "sample_buffer [5, 1, 0]" "initialize_request_parser zero_req"]
    by (auto simp: BUFFER_SIZE_def)
  then show "req_parse (initialize_request_parser zero_req) (sample_buffer [5, 1, 0]) = Some (fst piece_end, snd piece_end)"
    "contents (snd piece_end) = []"
    by (simp_all add: piece_end_def)
qed

section \<open>Moments of the connection\<close>

text \<open>The connection to the only address is being made.\<close>

definition sample_address :: addrinfo where
  "sample_address = \<lparr>ai_family = AF_INET, ai_socktype = SOCK_STREAM, ai_protocol = 0,
     ai_addr = Sockaddr_in [10, 0, 0, 7] (htons 80)\<rparr>"

definition connecting_client :: client_data where
  "connecting_client = (sample_client REQ_CONNECT (Request zero_req) [] [])
     \<lparr>origin_addr := [sample_address], current_origin_addr := [sample_address]\<rparr>"

definition connecting_begin :: st where "connecting_begin = sample_state connecting_client"

lemma connecting_begin_facts:
  "awaits 0 (sample_key 5) connecting_client connecting_begin"
  "contents (sv_to_client connecting_client) = []" "22 \<le> room (sv_to_client connecting_client)"
  "client_fd connecting_client = 4" "origin_fd connecting_client = 5"
  "current_origin_addr connecting_client = [sample_address]"
  by (simp_all add: connecting_client_def sample_client_def BUFFER_SIZE_def)
    (simp add: awaits_def owns_def holds_def machine_ok_def current_valid_def connecting_begin_def
      connecting_client_def sample_client_def state_id.simps BUFFER_SIZE_def)

text \<open>A name is being resolved by a thread, or is about to be.\<close>

definition resolving_client :: client_data where
  "resolving_client = sample_client REQ_RESOLVE (Request (zero_req\<lparr>atyp := DN\<rparr>)) [] []"

definition resolving_begin :: st where
  "resolving_begin = (fst (sample_state resolving_client),
     (snd (sample_state resolving_client))\<lparr>threads := [\<lparr>rj_client_fd = 4, rj_client = 0\<rparr>]\<rparr>)"

lemma resolving_begin_facts:
  "called 0 (sample_key 4) resolving_client resolving_begin"
  "nth_opt (threads (snd resolving_begin)) 0 = Some \<lparr>rj_client_fd = key_fd (sample_key 4), rj_client = 0\<rparr>"
  "handshake resolving_client = Request (zero_req\<lparr>atyp := DN\<rparr>)"
  "terminated (address_class (req_address (zero_req\<lparr>atyp := DN\<rparr>)))"
  "contents (sv_to_client resolving_client) = []" "22 \<le> room (sv_to_client resolving_client)"
proof -
  have "client_ok resolving_client"
    using zero_parsers_ok(3) unfolding resolving_client_def
    by (intro sample_client_ok) (simp_all add: handshake_ok_def req_parser_ok_def zero_req_def)
  then have "called 0 (sample_key 4) resolving_client (sample_state resolving_client)" by simp
  then show "called 0 (sample_key 4) resolving_client resolving_begin"
    by (simp add: called_def resolving_begin_def client_at_def)
qed (simp_all add: resolving_begin_def nth_opt_def resolving_client_def sample_client_def zero_req_def terminated_def
    BUFFER_SIZE_def)

text \<open>A system on which a client speaks its messages one by one, and descriptor 7 gets connected.\<close>

definition conversing_os :: "bytes list \<Rightarrow> os" where
  "conversing_os msgs = (sample_os [])\<lparr>os_recv := (\<lambda>h fd n. Inr (if recvs fd h < length msgs then take n (msgs ! recvs fd h) else [])),
     os_getsockopt := (\<lambda>h fd. Some 0)\<rparr>"

definition sample_accepted :: st where
  "sample_accepted = sample_state (fresh_client 4 (Sockaddr_in [127, 0, 0, 1] [200, 1]))"

lemma sample_accepted_facts [simp]:
  "accepted 0 4 (Sockaddr_in [127, 0, 0, 1] [200, 1]) sample_accepted" "vacant 7 sample_accepted"
  "user_tab (snd sample_accepted) = sample_users"
  by (simp_all add: sample_accepted_def accepted_def vacant_def holds_def ITEMS_MAX_SIZE_def roles_def sample_registered)

lemma conversing_os_serves:
  "network_serves (conversing_os msgs) 4 msgs 7 a (Sockaddr_in [10, 0, 0, 1] [4, 56]) sample_accepted"
  by (simp add: network_serves_def conversing_os_def sample_os_def os_ok_def mallocs_ok_def speaks_def connects_def
      sample_accepted_def)

lemma conversing_os_prints: "prints_ok (conversing_os msgs)"
  by (simp add: prints_ok_def conversing_os_def sample_os_def)

lemma sample_lookup:
  "lookup sample_users ''admin'' = Some \<lparr>u_name = ''admin'', u_pass = ''admin'', u_status = ADMIN, u_access = sb_create True True\<rparr>"
  "\<not> has_user sample_users ''nobody''"
  by (simp_all add: lookup_def has_user_def sample_users_def)

lemma sample_builder:
  "sb_create True True = Some \<lparr>sb_text = [], sb_length = 0, sb_capacity = 64\<rparr>"
  "sb_small \<lparr>sb_text = [], sb_length = 0, sb_capacity = 64\<rparr>"
  "sb_doubled \<lparr>sb_text = [], sb_length = 0, sb_capacity = 64\<rparr>"
  by (simp_all add: sb_create_def sb_small_def sb_doubled_def sb_inv_def SB_INITIAL_CAPACITY_def exI [of _ 6])

text \<open>A guest that offers the password method, gives a name and a password, and asks for 10.0.0.1:1080.\<close>

definition guest_os :: "string \<Rightarrow> string \<Rightarrow> os" where
  "guest_os u p = conversing_os [hello_message [0x2], login_message (bytes_of u) (bytes_of p),
     connect_message IPV4 [10, 0, 0, 1] 1080]"

lemma guest_network:
  "network_serves (guest_os u p) 4 [hello_message [0x2], login_message (bytes_of u) (bytes_of p),
     connect_message IPV4 [10, 0, 0, 1] 1080] 7 a (Sockaddr_in [10, 0, 0, 1] [4, 56]) sample_accepted"
  unfolding guest_os_def by (rule conversing_os_serves)

lemma guest_facts:
  "0 \<notin> set (bytes_of ''admin'')" "0 \<notin> set (bytes_of ''guess'')" "0 \<notin> set (bytes_of ''nobody'')" "0 \<notin> set (bytes_of ''x'')"
  "bytes_of ''guess'' \<noteq> []" "bytes_of ''x'' \<noteq> []"
  "prints_ok (guest_os u p)" "[4, 56] = htons 1080"
  by (simp_all add: bytes_of_def htons_def guest_os_def conversing_os_prints)

text \<open>The client whose reply to a refused login is about to be sent is well typed; so is one that has sent
  ahead as much as its buffer holds.\<close>

lemma denied_typed: "well_typed AUTH_WRITE denied_client"
proof -
  have "client_ok denied_client" using denied_begin_facts(1) by (simp add: called_def)
  then show ?thesis
    by (simp add: well_typed_def denied_client_def sample_client_def machine_ok_def current_valid_def state_id.simps kind_def)
qed

definition full_client :: client_data where
  "full_client = sample_client AUTH_READ (Authentication zero_auth) (replicate BUFFER_SIZE 1) []"

definition full_begin :: st where "full_begin = sample_state full_client"

lemma full_facts:
  "called 0 (sample_key 4) full_client full_begin" "well_typed AUTH_READ full_client" "room (client_to_sv full_client) = 0"
proof -
  show "called 0 (sample_key 4) full_client full_begin"
    unfolding full_begin_def full_client_def by (rule sample_called_begin) (simp_all add: handshake_ok_def)
  then have "client_ok full_client" by (simp add: called_def)
  then show "well_typed AUTH_READ full_client"
    by (simp add: well_typed_def full_client_def sample_client_def machine_ok_def current_valid_def state_id.simps kind_def)
  show "room (client_to_sv full_client) = 0" by (simp add: full_client_def sample_client_def)
qed

end
