(* ===== verification/Sample_Server.thy ===== *)
theory Sample_Server
  imports Sample Server Sessions Administration Parser_Engine Netutils Client
begin

declare split_paired_Ex [simp del] split_paired_All [simp del]

text \<open>
  Concrete runs for the properties of the whole server and of the programs around it: a system
  on which the server starts with its sockets on descriptors 3 and 4, and one on which the
  client starts.
\<close>

definition sample_boot :: boot where
  "sample_boot = \<lparr>boot_socket = (\<lambda>m. if m then 4 else 3), boot_bind = (\<lambda>fd a. True), boot_listen = (\<lambda>fd. True),
     boot_set_nio = (\<lambda>fd. 0), boot_sigprocmask = True, boot_sigaction = True, boot_malloc = (\<lambda>n. True),
     boot_pton = (\<lambda>f a. Some (replicate (if f = AF_INET then 4 else 16) 0))\<rparr>"

lemma sample_setup:
  "\<exists>sel. setup_server sample_boot default_args = Some (Listening 3 4 sel) \<and> resolution_jobs sel = []
    \<and> registered sel = [3 \<mapsto> new_item 3 (Some PASSIVE_SOCKS) OP_READ None, 4 \<mapsto> new_item 4 (Some PASSIVE_MANAGER) OP_READ None]
    \<and> sel_inv sel \<and> fd_size sel = 1025"
proof -
  obtain sel :: sel where new: "selector_new True True 1024 = Some (Some sel)" "sel_inv sel"
    "registered sel = Map.empty" "fd_size sel = 1025" "resolution_jobs sel = []"
    using new_selector_1024 by blast
  from selector_register_in_table(2) [of sel 3 "Some PASSIVE_SOCKS" True OP_READ None] new obtain sel1 where
    s1: "selector_register True sel 3 (Some PASSIVE_SOCKS) OP_READ None = Some (SELECTOR_SUCCESS, sel1)" "sel_inv sel1"
    "registered sel1 = [3 \<mapsto> new_item 3 (Some PASSIVE_SOCKS) OP_READ None]" "fd_size sel1 = 1025"
    by (auto simp: ITEMS_MAX_SIZE_def)
  from selector_register_in_table(2) [of sel1 4 "Some PASSIVE_MANAGER" True OP_READ None] s1 obtain sel2 where
    s2: "selector_register True sel1 4 (Some PASSIVE_MANAGER) OP_READ None = Some (SELECTOR_SUCCESS, sel2)"
    "registered sel2 = [3 \<mapsto> new_item 3 (Some PASSIVE_SOCKS) OP_READ None, 4 \<mapsto> new_item 4 (Some PASSIVE_MANAGER) OP_READ None]"
    "sel_inv sel2" "fd_size sel2 = 1025"
    by (auto simp: ITEMS_MAX_SIZE_def)
  have "start_selector sample_boot 3 4 = Some (Listening 3 4 sel2)"
    using new(1) s1(1) s2(1) by (simp add: start_selector_def sample_boot_def)
  then have "setup_server sample_boot default_args = Some (Listening 3 4 sel2)"
    by (simp add: setup_server_def sample_boot_def listen_on_def announce_def)
  moreover have "resolution_jobs sel2 = []"
    using register_table [OF s1(1)] register_table [OF s2(1)] new(4,5) s1(4) by simp
  ultimately show ?thesis using s2(2-4) by blast
qed

lemma idle_turn:
  "resolution_jobs sel = [] \<Longrightarrow> \<exists>s'. serve os [Wake (Failed EINTR)] (sel, w) = Some (SELECTOR_SUCCESS, s')"
  by (simp add: selector_select_def handle_block_notifications_def)

text \<open>A turn in which somebody connects to the proxy: a client is born on descriptor 6.\<close>

lemma accepting_turn:
  assumes jobs: "resolution_jobs sel = []" and inv: "sel_inv sel" and size: "fd_size sel = 1025"
    and reg: "registered sel = [3 \<mapsto> new_item 3 (Some PASSIVE_SOCKS) OP_READ None, 4 \<mapsto> new_item 4 (Some PASSIVE_MANAGER) OP_READ None]"
  shows "\<exists>s'. serve (sample_os []) [Wake (Ready {3} {})] (sel, initial_world t) = Some (SELECTOR_SUCCESS, s')
    \<and> client_at 0 s' = Some (fresh_client 6 (Sockaddr_in [127, 0, 0, 1] [200, 1]))"
proof -
  let ?c = "fresh_client 6 (Sockaddr_in [127, 0, 0, 1] [200, 1])"
  let ?hs = "server_handlers (sample_os [])" and ?k = "\<lparr>key_fd = 3, key_data = None\<rparr>"
  define s0 where "s0 = (sel\<lparr>slave_r := {3}, slave_w := {}\<rparr>, initial_world t)"
  have s0: "sel_inv (fst s0)" "fd_size (fst s0) = 1025" "registered (fst s0) = registered sel" "slave_r (fst s0) = {3}"
    "slave_w (fst s0) = {}" "heap_fresh s0" "next_client (snd s0) = 0" "resolution_jobs (fst s0) = []"
    using inv size jobs by (simp_all add: s0_def heap_fresh_def initial_world_def client_at_def fd_size_def)
  have top: "max_fd sel = 4"
  proof -
    have "registered sel 4 \<noteq> None" by (simp add: reg)
    then have "4 \<le> max_fd sel" using inv unfolding sel_inv_def by blast
    moreover have "max_fd sel = 0 \<or> registered sel (max_fd sel) \<noteq> None" using inv unfolding sel_inv_def by blast
    ultimately show ?thesis unfolding reg by (simp split: if_splits)
  qed
  have sys: "os_accept (sample_os []) (hist s0) (key_fd ?k) = Some (6, Sockaddr_in [127, 0, 0, 1] [200, 1])"
    "os_getfd (sample_os []) (hist s0 @ [Accept (key_fd ?k) (Some (6, Sockaddr_in [127, 0, 0, 1] [200, 1]))]) 6 = Some 0"
    "os_setfl (sample_os []) (hist s0 @ [Accept (key_fd ?k) (Some (6, Sockaddr_in [127, 0, 0, 1] [200, 1]))]) 6 (0 OR O_NONBLOCK)"
    by simp_all
  have free: "registered (fst s0) 6 = None" using s0(3) reg by simp
  obtain s1 where s1: "socks_v5_passive_accept (sample_os []) ?k s0 = Some s1" "owns 0 ?c s1"
    "sel_inv (fst s1)" "fd_size (fst s1) = 1025" "slave_r (fst s1) = {3}" "slave_w (fst s1) = {}" "resolution_jobs (fst s1) = []"
    using accept_spec [OF s0(1,6) sys sample_os_ok(2) _ _ _ free] unfolding s0(2,4,5,7,8) ITEMS_MAX_SIZE_def by auto
  have born: "client_at 0 s1 = Some ?c" using s1(2) by (simp add: owns_def holds_def)
  have "registered (fst s0) 3 = Some (new_item 3 (Some PASSIVE_SOCKS) OP_READ None)" using s0(3) reg by simp
  then have at: "nth_opt (fds (fst s0)) 3 = Some (new_item 3 (Some PASSIVE_SOCKS) OP_READ None)"
    "ITEM_USED (new_item 3 (Some PASSIVE_SOCKS) OP_READ None :: (handler_id, attachment) item)"
    using registered_SomeD registered_at [of 3 "fst s0"] s0(2) by fastforce+
  obtain it1 where it1: "nth_opt (fds (fst s1)) 3 = Some it1"
    using registered_at [of 3 "fst s1"] s1(4) by auto
  have three: "handle_item ?hs 3 s0 = Some s1"
    using at it1 s0(4) s1(1,6)
    by (simp add: handle_item_def new_item_def OP_READ_def server_handlers_def passive_handler_def)
  have "handle_items ?hs [0, 1, 2] s0 = Some s0" "handle_items ?hs [4] s1 = Some s1"
    by (rule handle_items_idle; use s0 s1 in simp)+
  then have "handle_items ?hs ([0, 1, 2] @ [3] @ [4]) s0 = Some s1"
    unfolding handle_items_append using three by simp
  moreover have "[0..<nat (max_fd (fst s0) + 1)] = [0, 1, 2] @ [3] @ [4]" by (simp add: s0_def top upt_rec)
  ultimately have "handle_iteration ?hs s0 = Some s1" by (simp add: handle_iteration_def)
  then have "selector_select ?hs (Ready {3} {}) (sel, initial_world t)
      = Some (SELECTOR_SUCCESS, (fst s1)\<lparr>resolution_jobs := []\<rparr>, snd s1)"
    using s1(7) by (cases s1) (simp add: selector_select_def s0_def handle_block_notifications_def)
  moreover have "client_at 0 ((fst s1)\<lparr>resolution_jobs := []\<rparr>, snd s1) = Some ?c"
    using born by (simp add: client_at_def)
  ultimately show ?thesis by simp
qed

definition sample_client_boot :: client_boot where
  "sample_client_boot = \<lparr>cb_socket = 3, cb_connect = (\<lambda>a. True), cb_set_nio = 0, cb_sigprocmask = True, cb_sigaction = True,
     cb_malloc = (\<lambda>n. True)\<rparr>"

text \<open>A terminal on which \<open>LIST\<close> is typed over and over, and a server that answers \<open>+OK\<close>.\<close>

definition sample_client_os :: client_os where
  "sample_client_os = \<lparr>co_fgets = (\<lambda>tr n. Some (bytes_of (''LIST'' @ newline))),
     co_recv = (\<lambda>tr fd n. Inr (take n (bytes_of ''+OK''))), co_send = (\<lambda>tr fd bs. Inr (length bs))\<rparr>"

lemma sample_client_os_ok: "client_os_ok sample_client_os"
  by (simp add: client_os_ok_def sample_client_os_def)


section \<open>A session of the management protocol\<close>

definition sample_manager_data :: manager_data where
  "sample_manager_data = \<lparr>mgr_fd = 4, logged_in = False, user_sent = False, mgr_username = replicate 50 0,
     is_admin = False\<rparr>"

definition sample_manager_key :: key where
  "sample_manager_key = \<lparr>key_fd = 4, key_data = Some (Manager 0)\<rparr>"

definition sample_manager_sel :: sel where
  "sample_manager_sel = blank_selector\<lparr>fds := replicate 4 item_init
       @ [new_item 4 (Some MANAGER_HANDLER) OP_READ (Some (Manager 0))] @ replicate 4 item_init,
     max_fd := 4, master_r := {4}\<rparr>"

lemma sample_manager_registered:
  "registered sample_manager_sel = [4 \<mapsto> new_item 4 (Some MANAGER_HANDLER) OP_READ (Some (Manager 0))]"
proof
  fix x :: int
  show "registered sample_manager_sel x = [4 \<mapsto> new_item 4 (Some MANAGER_HANDLER) OP_READ (Some (Manager 0))] x"
  proof (cases "0 \<le> x \<and> x < 9")
    case False
    then have "x \<noteq> 4" "\<not> (0 \<le> x \<and> nat x < fd_size sample_manager_sel)"
      by (auto simp: sample_manager_sel_def fd_size_def)
    then show ?thesis by (auto simp: registered_def)
  next
    case True
    then have "x \<in> {0, 1, 2, 3, 4, 5, 6, 7, 8}" by simp presburger
    then show ?thesis
      by (auto simp: registered_def sample_manager_sel_def fd_size_def numeral_eq_Suc new_item_def item_init_def
          ITEM_USED_def FD_UNUSED_def)
  qed
qed

lemma sample_manager_inv [simp]: "sel_inv sample_manager_sel"
proof -
  have m: "master_r sample_manager_sel = {4}" "master_w sample_manager_sel = {}" "max_fd sample_manager_sel = 4"
    "fd_size sample_manager_sel = 9"
    by (simp_all add: sample_manager_sel_def blank_selector_def fd_size_def)
  show ?thesis
    unfolding sel_inv_def m sample_manager_registered
    by (auto simp: ITEMS_MAX_SIZE_def new_item_def wants_def OP_READ_def OP_WRITE_def split: if_splits)
qed

definition sample_session :: st where
  "sample_session = (sample_manager_sel, \<lparr>clients = Map.empty, next_client = 0, managers = [0 \<mapsto> sample_manager_data],
     next_manager = 1, user_tab = sample_users, metrics_of = init_metrics, logs = sample_logs, threads = [], trace = []\<rparr>)"

lemma sample_session_facts:
  "manages 0 sample_manager_data sample_session" "\<not> logged_in sample_manager_data"
  "key_data sample_manager_key = Some (Manager 0)"
  by (auto simp: manages_def sample_session_def manager_at_def roles_def sample_manager_registered new_item_def
      sample_manager_data_def sample_manager_key_def)

lemma sample_os_no_sigpipe [simp]: "no_sigpipe (sample_os input)"
  by (simp add: no_sigpipe_def)

lemma sample_change_returns:
  "\<exists>s'. run_command (sample_os []) 4 ''CHANGE-STATUS'' (Some ''admin'') (Some ''commoner'') 0 sample_session = Some s'"
  using send_response_returns [OF sample_os_ok(2) sample_os_no_sigpipe]
  by (simp add: run_command_def handle_change_status_def del: append.simps) blast

text \<open>An administrator connects on descriptor 6 and adds \<open>bob\<close>.\<close>

definition admin_os :: os where
  "admin_os = conversing_os (add_user_lines ''admin'' ''admin'' ''bob'' ''pw'')"

definition listening_key :: key where
  "listening_key = \<lparr>key_fd = 3, key_data = None\<rparr>"

lemma admin_facts:
  "hears_all admin_os" "arrives admin_os 6 listening_key sample_session" "sel_inv (fst sample_session)"
  "speaks admin_os 6 (add_user_lines ''admin'' ''admin'' ''bob'' ''pw'') sample_session"
  "word_ok ''admin''" "word_ok ''bob''" "word_ok ''pw''" "users_of sample_session = sample_users"
  "\<not> has_user sample_users ''bob''" "cantUsers sample_users < max_users sample_users"
  "next_manager (snd sample_session) = 1" "hist sample_session = []"
proof -
  show "arrives admin_os 6 listening_key sample_session"
    by (simp add: arrives_def admin_os_def conversing_os_def sample_os_def listening_key_def ITEMS_MAX_SIZE_def
        sample_session_def sample_manager_registered) (simp add: sample_manager_sel_def fd_size_def)
  show "speaks admin_os 6 (add_user_lines ''admin'' ''admin'' ''bob'' ''pw'') sample_session"
    by (simp add: speaks_def admin_os_def conversing_os_def sample_session_def hist_def)
qed (simp_all add: hears_all_def admin_os_def conversing_os_def sample_os_def mallocs_ok_def word_ok_def crlf_def bytes_of_def
    sample_session_def hist_def has_user_def sample_users_def)

end
