(* ===== verification/Spec2Isabelle.thy ===== *)
theory Spec2Isabelle
  imports Buffer Byte_Parser Negotiation_Parser Auth_Parser Request_Parser C_Library Logger Metrics Users
    Selector Stm World Handshake Copy Request Socks5 Lifecycle Manager Ownership Args Server Parser_Engine
    Netutils Client Sessions Connecting Access_Log Connection Typing Accounts Steps Invariants Administration
    Sample Sample_Server
begin

text \<open>
  A SOCKSv5 proxy (RFC 1928, with the username/password subnegotiation of RFC 1929) in C, with a
  line-based management protocol, and the terminal client of that protocol. Paths are relative to
  \<open>src/src\<close>.

  \<^bold>\<open>The program.\<close> \<open>server/main.c\<close> reads the command line (\<open>shared/args.c\<close>), opens two passive
  sockets and registers them with the multiplexer (\<open>shared/selector.c\<close>). Every ready descriptor
  is dispatched to one of four static handler structs: the two passive ones accept, those of
  \<open>server/socks5.c\<close> feed the event to the state machine of a client (\<open>server/stm.c\<close>), those of
  \<open>server/manager.c\<close> read a line. A client passes through the states of the negotiation
  (\<open>negotiation.c\<close>), the authentication (\<open>authentication.c\<close>), the request (\<open>request.c\<close>: parse,
  resolve in a thread, connect, reply) and the relay (\<open>copy.c\<close>); each of the first three has its
  byte automaton (\<open>*_parser.c\<close>) over the buffer (\<open>buffer.c\<close>). They share the table of users
  (\<open>users.c\<close>), the counters (\<open>metrics.c\<close>) and the log (\<open>shared/logger.c\<close>). A close callback frees
  a client with its second descriptor, a session with its only one.

  \<^bold>\<open>How it is modelled.\<close> A struct is a record, an enum a datatype, \<open>uint8_t\<close> to \<open>uint32_t\<close> are
  words, \<open>unsigned int\<close> and \<open>size_t\<close> counters naturals with the wrap-around written out, arrays
  are lists. An operation whose C code may fail an \<open>assert\<close>, call \<open>abort\<close>, follow NULL or a freed
  pointer, or leave an array, answers \<open>None\<close> there: that it answers \<open>Some\<close> is the claim that it
  does not. A system call is a field of the record \<open>os\<close>, given the history of the calls so far,
  and every call is recorded with its answer in \<open>trace\<close>, so that what was sent, received and
  closed, and in which order, is a function of the history. Which descriptors are ready, and when a
  resolver thread ends, is the list of turns of \<open>serve\<close>: properties hold for every list, so there
  is no fuel. Loops that may run for ever are partial functions, with theorems that they return
  (\<open>grow_capacity\<close>, \<open>sock_blocking_write\<close>, \<open>sock_blocking_copy\<close>).

  \<^bold>\<open>The theories.\<close>

  \<^item> \<open>Prelude\<close>: types, the crash monad, runs of an array, C strings, \<open>feed_all\<close>, and \<open>post\<close>, what
    holds of every result. \<open>C_Library\<close>: \<open>strtol\<close>, \<open>snprintf\<close> of a number.
  \<^item> \<open>Buffer\<close> (\<open>buffer.c\<close>): all operations; the invariant \<open>R \<le> W \<le> limit\<close> and the queue of bytes a
    buffer stands for (locale \<open>byte_queue\<close>).
  \<^item> \<open>Byte_Parser\<close>: what the parsing loops share (locale \<open>byte_parser\<close>, interpreted by
    \<open>Negotiation_Parser\<close>, \<open>Auth_Parser\<close>, \<open>Request_Parser\<close>): they compute the automaton on the
    buffer's queue, return, and resume over any split of the stream.
  \<^item> \<open>Logger\<close>, \<open>Metrics\<close>, \<open>Users\<close>: string builder and printer, counters, the table of users with
    its invariant and its contract (locale \<open>account_store\<close>).
  \<^item> \<open>Selector\<close>: the table is a finite map, registering its update, unregistering its delete; the
    interest sets and \<open>max_fd\<close> agree with it. Locales \<open>closing_handlers\<close>, \<open>preserving_handlers\<close> and
    \<open>reading_handlers\<close> say what the callbacks must keep for dispatching to keep it.
  \<^item> \<open>Stm\<close>: the state machine (locale \<open>machine_place\<close>: where a machine is stored).
  \<^item> \<open>World\<close>: clients, sessions, the calls to the system and their history. \<open>Handshake\<close>, \<open>Request\<close>,
    \<open>Copy\<close>: the handlers of the states; \<open>Socks5\<close>: the table that ties them together, the four
    callbacks, accepting; locale \<open>write_sink\<close> is the event that the relay raises in its own machine.
  \<^item> \<open>Lifecycle\<close>: a client from its acceptance to its release, each descriptor closed once.
    \<open>Connecting\<close>: the outcomes of resolving and connecting. \<open>Access_Log\<close>: the reply sent, and the line
    it leaves in the log of the user.
  \<^item> \<open>Connection\<close>: a whole conversation, one lemma per event, composed over the state machine from the
    accepted client to the relay; the system it runs against is \<open>network_serves\<close>. \<open>Typing\<close>: which
    member of the union of parsers holds in which state, and that the handshake keeps to it.
  \<^item> \<open>Manager\<close>, \<open>Sessions\<close>: the management protocol, its commands and its login. \<open>Administration\<close>: a
    session from its acceptance over the login to the user it adds.
  \<^item> \<open>Ownership\<close>: \<open>server_inv\<close>, that every registered descriptor belongs to a live client or
    session that knows it, is kept by every callback. \<open>Args\<close>, \<open>Server\<close>: the command line, the
    start-up, the loop, the way out. \<open>Accounts\<close>: \<open>users_core\<close>, what every operation on the table of
    users keeps, wrapped sizes and failed allocations included.
  \<^item> \<open>Steps\<close>: what a callback may do to clients and users, proved once for every handler: the locale
    \<open>stepping\<close> (a relation that the single changes satisfy), with \<open>open_stepping\<close> (new clients) and
    \<open>free_stepping\<close> (any change of machines and parsers). \<open>Invariants\<close> interprets them, once for each
    invariant, and carries it through \<open>serve\<close>: \<open>users_core\<close>, and that the union of every client
    holds the parser that its state reads.
  \<^item> \<open>Parser_Engine\<close> (\<open>parser.c\<close>, \<open>parser_utils.c\<close>), \<open>Netutils\<close> (\<open>netutils.c\<close>), \<open>Client\<close>
    (\<open>client/main.c\<close>): the programs and the library beside the server.
  \<^item> \<open>Sample\<close>, \<open>Sample_Server\<close>: concrete systems and states on which the properties with
    hypotheses are applied.

  This theory states the properties: first a whole connection, the relay, the handshake and the
  connection to the origin, then the parsers, the server as a whole, the selector, users and management, start-up and
  text, and the other programs. Where the code does not do what it means to, the property states
  what it does.

  \<^bold>\<open>Bounds.\<close> A buffer holds 1024 bytes; a reply takes at most 22, so the properties about replies ask
  for that room in an empty buffer. Texts written to the log are asked to be shorter than \<open>2^20\<close>
  bytes, which keeps the doubling of the builder's capacity far from its wrap-around.
  A session keeps 49 bytes of the name it logs in with, so the administrator's is asked to be that short.
  \<open>mallocs_ok\<close>, where it is assumed, excludes the crash that every handler has when the builder
  of its log message cannot be allocated; \<open>report_failure\<close> is the one on the way out, where
  \<open>strerror_ok\<close> bounds the text of \<open>strerror\<close>, and \<open>announce\<close> those of the start.

  \<^bold>\<open>The system.\<close> \<open>os_ok\<close> is what every system does: \<open>recv\<close> and \<open>send\<close> move no
  more bytes than they are asked to. \<open>sends_some\<close>: a \<open>send\<close> of some bytes takes at least one or
  fails. A \<open>send\<close> without \<open>MSG_NOSIGNAL\<close> that is answered \<open>EPIPE\<close> raises SIGPIPE, which nothing in the
  program handles: the replies of the management protocol (\<open>send_plain\<close>) and the lines of the terminal
  client (\<open>stdin_read\<close>) are such, and there the model crashes. \<open>no_sigpipe\<close> and \<open>server_hears\<close> say
  that it does not happen; properties that are about a return assume them, and say what happens otherwise.

  \<^bold>\<open>Not modelled.\<close> The signal and the mutex that wake \<open>pselect\<close>: a resolver thread interleaves with
  the server at the granularity of whole callbacks, which is where \<open>pselect\<close> lets the signal in.
  The messages composed for the log, which \<open>NO_LOGS_PLS\<close> switches off, where they have no other
  effect, and with those that \<open>users.c\<close> composes and those before an \<open>exit\<close> of \<open>args.c\<close> the crash
  that a failed allocation is there; the usage and version texts. \<open>getopt\<close>, \<open>inet_ntop\<close>, \<open>strftime\<close>,
  \<open>strerror\<close> and \<open>gai_strerror\<close> answer as arguments. The handler of the signals that end the server is modelled as an operation
  (\<open>sigterm_handler\<close>), not as something that may interrupt another in the middle. The two programs under \<open>example\<close>: no target of the build
  compiles them, and they cannot be compiled, as they include headers that are not there and one has
  an ellipsis in place of code. The unit tests.
\<close>

section \<open>A whole connection\<close>

text \<open>C1. Any credentials get a connection: a client that offers the password method, names a user of the
  table with whatever password, and asks for an address is told the verdict of the login, \<open>ACCESS_DENIED\<close>
  included, and is connected and relayed all the same. The bytes it is sent are the method,
  the verdict and a reply of success with the bound address; the line in the access log of that
  user says so, other clients are untouched.\<close>

theorem any_credentials_are_relayed:
  assumes acc: "accepted i fd addr s"
    and net: "network_serves os fd [hello_message ms, login_message u p, connect_message t a q] ofd (target t a q) bnd s"
    and ms: "length ms < 256" "0x2 \<in> set ms"
    and u: "0 \<notin> set u" "length u < 256" and p: "0 \<notin> set p" "p \<noteq> []" "length p < 256"
    and t: "(t = IPV4 \<and> length a = 4) \<or> (t = IPV6 \<and> length a = 16)" and free: "vacant ofd s"
    and bnd: "bnd = Sockaddr_in b (htons r) \<and> length b = 4 \<or> bnd = Sockaddr_in6 b (htons r) \<and> length b = 16"
    and known: "lookup (user_tab (snd s)) (string_of u) = Some v" "u_access v = Some sb" "sb_small sb" "sb_length sb < 2 ^ 61"
    and prints: "prints_ok os"
  shows "\<exists>s' c es reply rp sb' now. connection_run os others i fd ofd s \<bind> socksv5_write os others (client_key i fd) = Some s'
    \<and> client_at i s' = Some c \<and> stm_current (stm c) = Some (state_id COPY) \<and> origin_fd c = ofd \<and> cstr (username c) = u
    \<and> interest_of s' fd = Some OP_READ \<and> interest_of s' ofd = Some OP_READ
    \<and> hist s' = hist s @ es \<and> sent fd es = [SOCKS_VERSION, 0x2, AUTH_VERSION, auth_status_code
        (if user_login (user_tab (snd s)) (string_of u) (string_of p) = 0 then AUTHENTICATED else ACCESS_DENIED)] @ reply
    \<and> reply_fields reply = Some (0, if length b = 4 then 1 else 4, b, r)
    \<and> request_read_as rp t a q \<and> con_status rp = CON_SUCCEEDED
    \<and> user_tab (snd s') = store_access (string_of u) sb' (user_tab (snd s))
    \<and> sb_text sb' = sb_text sb @ access_line os now c rp
    \<and> (\<forall>j. j \<noteq> i \<longrightarrow> client_at j s' = client_at j s)"
  by (rule conversation_relayed [OF acc net ms u p t free bnd known prints])

theorem any_credentials_are_relayed_witness:
  "\<exists>s' c es reply. connection_run (guest_os ''admin'' ''guess'') (\<lambda>h. None) 0 4 7 sample_accepted
      \<bind> socksv5_write (guest_os ''admin'' ''guess'') (\<lambda>h. None) (client_key 0 4) = Some s'
    \<and> client_at 0 s' = Some c \<and> stm_current (stm c) = Some (state_id COPY) \<and> origin_fd c = 7
    \<and> hist s' = hist sample_accepted @ es \<and> sent 4 es = [SOCKS_VERSION, 0x2, AUTH_VERSION, auth_status_code ACCESS_DENIED] @ reply
    \<and> reply_fields reply = Some (0, 1, [10, 0, 0, 1], 1080)"
proof -
  have "user_login sample_users ''admin'' ''guess'' \<noteq> 0" using sample_lookup(1) by (simp add: user_login_iff)
  then show ?thesis
    using any_credentials_are_relayed [where others = "\<lambda>h. None" and b = "[10, 0, 0, 1]" and r = 1080,
        OF sample_accepted_facts(1) guest_network [of "''admin''" "''guess''"]] guest_facts sample_lookup(1) sample_builder
    by fastforce
qed

text \<open>C2. A stranger brings the server down: where the name is not in the table, the same conversation gets
  as far as the reply of success, whose access log is then written to \<open>users[-1]\<close>, whatever else the
  process was doing; no login is needed for it.\<close>

theorem stranger_crashes_the_server:
  assumes acc: "accepted i fd addr s"
    and net: "network_serves os fd [hello_message ms, login_message u p, connect_message t a q] ofd (target t a q) bnd s"
    and ms: "length ms < 256" "0x2 \<in> set ms"
    and u: "0 \<notin> set u" "length u < 256" and p: "0 \<notin> set p" "p \<noteq> []" "length p < 256"
    and t: "(t = IPV4 \<and> length a = 4) \<or> (t = IPV6 \<and> length a = 16)" and free: "vacant ofd s"
    and bnd: "bnd = Sockaddr_in b (htons r) \<and> length b = 4 \<or> bnd = Sockaddr_in6 b (htons r) \<and> length b = 16"
    and unknown: "\<not> has_user (user_tab (snd s)) (string_of u)"
  shows "\<exists>s'. connection_run os others i fd ofd s = Some s' \<and> socksv5_write os others (client_key i fd) s' = None"
  by (rule conversation_stranger [OF acc net ms u p t free bnd unknown])

theorem stranger_crashes_the_server_witness:
  "\<exists>s'. connection_run (guest_os ''nobody'' ''x'') (\<lambda>h. None) 0 4 7 sample_accepted = Some s'
    \<and> socksv5_write (guest_os ''nobody'' ''x'') (\<lambda>h. None) (client_key 0 4) s' = None"
  using stranger_crashes_the_server [where others = "\<lambda>h. None" and b = "[10, 0, 0, 1]" and r = 1080,
      OF sample_accepted_facts(1) guest_network [of "''nobody''" "''x''"]]
    guest_facts sample_lookup(2) by simp

section \<open>The relay\<close>

text \<open>C3. The relay of a connection loses, invents and reorders nothing: however the read and write events
  of the two descriptors interleave, what was buffered for the origin plus what came in from the
  client is what went out to the origin plus what is still buffered, and likewise the other way;
  other clients are untouched.\<close>

theorem relay_integrity:
  assumes "relay_run os others i s s'" and "os_ok os" and "mallocs_ok os" and "relaying i c s"
  shows "\<exists>c' es. client_at i s' = Some c' \<and> hist s' = hist s @ es
    \<and> contents (client_to_sv c) @ received (client_fd c) es
        = sent (origin_fd c) es @ contents (client_to_sv c')
    \<and> contents (sv_to_client c) @ received (origin_fd c) es
        = sent (client_fd c) es @ contents (sv_to_client c')
    \<and> (\<forall>j. j \<noteq> i \<longrightarrow> client_at j s' = client_at j s)"
proof -
  from relay_run_relays [OF assms] have "relayed i s s'" by blast
  with assms(4) show ?thesis unfolding relayed_def flows_def relaying_def by auto
qed

theorem relay_integrity_witness:
  "\<exists>c' es. client_at 0 relay_end = Some c' \<and> hist relay_end = hist relay_begin @ es
    \<and> contents (client_to_sv relay_client) @ received (client_fd relay_client) es
        = sent (origin_fd relay_client) es @ contents (client_to_sv c')
    \<and> contents (sv_to_client relay_client) @ received (origin_fd relay_client) es
        = sent (client_fd relay_client) es @ contents (sv_to_client c')
    \<and> (\<forall>j. j \<noteq> 0 \<longrightarrow> client_at j relay_end = client_at j relay_begin)"
  by (rule relay_integrity [OF relay_sample sample_os_ok relay_begin_facts(1)])

text \<open>C4. Every read or write event of either descriptor of a relayed connection returns (no failed
  assertion, no access out of bounds), leaves the machine in \<open>COPY\<close>, \<open>SOCKS_DONE\<close> or
  \<open>SOCKS_ERROR\<close>, and has moved bytes only as a relay does.\<close>

theorem relay_events_return:
  assumes "os_ok os" and "mallocs_ok os" and "copying i key c s" and "in_copy c"
  shows "(\<exists>ret s'. stm_handler_read (client_actions os others) (client_stm i) key s = Some (ret, s')
      \<and> ret \<in> state_id ` {COPY, SOCKS_DONE, SOCKS_ERROR} \<and> relayed i s s')
    \<and> (\<exists>ret s'. stm_handler_write (client_actions os others) (client_stm i) key s = Some (ret, s')
      \<and> ret \<in> state_id ` {COPY, SOCKS_DONE, SOCKS_ERROR} \<and> relayed i s s')"
  using relay_read_event [OF assms] relay_write_event [OF assms] by blast

theorem relay_events_return_witness:
  "\<exists>ret s'. stm_handler_write (client_actions (sample_os [9]) server_closers) (client_stm 0) (sample_key 5)
       relay_begin = Some (ret, s') \<and> ret \<in> state_id ` {COPY, SOCKS_DONE, SOCKS_ERROR}"
  using relay_events_return [OF sample_os_ok relay_begin_facts(2,3), of "[9]" server_closers] by blast

section \<open>The handshake\<close>

text \<open>C5. The parsers of a client share one union, and no tag says which member holds. Every event that a
  state of the handshake waits for returns while memory lasts (no handler reads a member that is not
  there), asks for a state that may follow, and leaves the member that the handlers of that state
  read. With a full buffer the reading states read nothing and stay.\<close>

theorem handshake_keeps_its_types:
  assumes ok: "os_ok os" "mallocs_ok os" and call: "called i key c s"
    and q: "q \<in> {NEGOTIATION_READ, NEGOTIATION_WRITE, AUTH_READ, AUTH_WRITE}" "well_typed q c"
  shows "\<exists>q' s' c'. handshake_event os others q i key s = Some (state_id q', s')
    \<and> q' \<in> set (successors q) \<and> client_at i s' = Some c' \<and> well_typed q' c'
    \<and> (room (client_to_sv c) = 0 \<and> q \<in> {NEGOTIATION_READ, AUTH_READ} \<longrightarrow> q' = q \<and> c' = c \<and> silent s s')"
proof (cases "room (client_to_sv c) = 0 \<and> q \<in> {NEGOTIATION_READ, AUTH_READ}")
  case True
  then obtain s' where "handshake_event os others q i key s = Some (state_id q, s')" "silent s s'" "client_at i s' = Some c"
    using handshake_waits [OF ok(2) call _ _ q(2)] by blast
  moreover have "q \<in> set (successors q)" using True by auto
  ultimately show ?thesis using q(2) by blast
next
  case False
  have "q \<in> set hands_shakes" using q(1) by (simp add: hands_shakes_def)
  from handshake_typed [OF ok call this q(2), of others] False show ?thesis by blast
qed

theorem handshake_keeps_its_types_witness:
  "(\<exists>q' s' c'. handshake_event (sample_os []) (\<lambda>h. None) AUTH_WRITE 0 (sample_key 4) denied_begin = Some (state_id q', s')
      \<and> q' \<in> {AUTH_WRITE, REQ_READ, SOCKS_ERROR} \<and> client_at 0 s' = Some c' \<and> well_typed q' c')
    \<and> (\<exists>s'. handshake_event (sample_os []) (\<lambda>h. None) AUTH_READ 0 (sample_key 4) full_begin = Some (state_id AUTH_READ, s')
      \<and> client_at 0 s' = Some full_client \<and> silent full_begin s')"
  using handshake_keeps_its_types [OF sample_os_ok denied_begin_facts(1) _ denied_typed, of "[]" "\<lambda>h. None"]
    handshake_keeps_its_types [OF sample_os_ok full_facts(1) _ full_facts(2), of "[]" "\<lambda>h. None"] full_facts(3)
  by auto

text \<open>C6. A complete username/password request that arrives in one piece is answered with the verdict of
  \<open>user_login\<close> on exactly the two strings sent, the user's name is remembered, and the reply is
  what goes out next.\<close>

theorem authentication_read_answers:
  assumes ok: "os_ok os" "mallocs_ok os" and call: "called i key c s"
    and hs: "handshake c = Authentication (initialize_auth_parser ap)"
    and zero: "uname ap = replicate 256 0" "passwd ap = replicate 256 0"
    and empty: "contents (client_to_sv c) = []" "contents (sv_to_client c) = []"
    and room: "0 < room (client_to_sv c)" "2 \<le> room (sv_to_client c)"
    and u: "0 \<notin> set u" "length u = unat n" and p: "0 \<notin> set p" "length p = unat m" "m \<noteq> 0"
    and req: "\<forall>h. os_recv os h (key_fd key) (room (client_to_sv c)) = Inr (AUTH_VERSION # n # u @ m # p)"
  shows "\<exists>s' c'. authentication_read os key s = Some (state_id AUTH_WRITE, s') \<and> client_at i s' = Some c'
    \<and> contents (sv_to_client c') = [AUTH_VERSION, auth_status_code
        (if user_login (user_tab (snd s)) (string_of u) (string_of p) = 0 then AUTHENTICATED else ACCESS_DENIED)]
    \<and> cstr (username c') = u \<and> contents (client_to_sv c') = []"
proof -
  let ?ap = "auth_result ap u m p"
  have lens: "length u < 256" "length p < 256" using u(2) p(2) unat_u8_less by metis+
  have f: "feed_all auth_feed is_auth_done (initialize_auth_parser ap) (AUTH_VERSION # n # u @ m # p) = (?ap, [])"
    using feed_auth_request [of ap u n p m "[]"] zero u p by (simp add: wrap_total_def)
  have strs: "cstr (uname ?ap) = u" "cstr (passwd ?ap) = p"
    using auth_result_strings [of ap u m p] auth_result_passwd [of ap p u m] zero u p lens by auto
  have out: "auth_outcome t ?ap = (if user_login t (string_of u) (string_of p) = 0
      then AUTHENTICATED else ACCESS_DENIED)" for t
    by (auto simp: auth_outcome_def strs user_login_def Let_def)
  have inv: "buffer_inv (sv_to_client c)" using call by (simp add: called_def client_ok_def)
  let ?t = "\<lambda>s1. record_event (Recv (key_fd key) (Inr (AUTH_VERSION # n # u @ m # p))) s1"
  from authentication_read_spec [OF ok call hs room(1)] req f empty(1) obtain s1 b3 sel' err b4 name where r:
    "auth_generate_response (sv_to_client c) (auth_outcome (user_tab (snd s)) ?ap) = Some (err, b4)"
    "contents b3 = []" "cstr name = cstr (uname ?ap)"
    "authentication_read os key s = Some (state_id (if err then SOCKS_ERROR else AUTH_WRITE),
       set_sel sel' (set_client i (c\<lparr>client_to_sv := b3, handshake := Authentication ?ap,
         username := name, sv_to_client := b4\<rparr>) (?t s1)))"
    by (simp add: Let_def) blast
  with auth_generate_response_spec [OF inv room(2), of "auth_outcome (user_tab (snd s)) ?ap"] empty(2)
  show ?thesis by (auto simp: out strs)
qed

theorem authentication_read_answers_witness:
  "\<exists>s' c'. authentication_read (sample_os [1, 5, 97, 100, 109, 105, 110, 2, 110, 111]) (sample_key 4) login_begin
      = Some (state_id AUTH_WRITE, s') \<and> client_at 0 s' = Some c'
    \<and> contents (sv_to_client c') = [1, 1]"
proof -
  let ?u = "[97, 100, 109, 105, 110] :: bytes" and ?p = "[110, 111] :: bytes"
  let ?in = "[1, 5, 97, 100, 109, 105, 110, 2, 110, 111] :: bytes"
  have "user_login sample_users (string_of ?u) (string_of ?p) \<noteq> 0" by code_simp
  then show ?thesis
    using authentication_read_answers [OF sample_os_ok [of ?in] login_begin_facts(1-6),
        where u = ?u and n = 5 and p = ?p and m = 2]
    by (simp add: login_begin_facts(7-9) AUTH_VERSION_def) blast
qed

text \<open>C7. A complete hello that arrives in one piece is answered at once: with username/password when the
  client offers it among its methods, with "no acceptable method" otherwise.\<close>

theorem negotiation_read_answers:
  assumes ok: "os_ok os" "mallocs_ok os" and call: "called i key c s"
    and hs: "handshake c = Negotiation (initialize_negotiation_parser np)"
    and empty: "contents (client_to_sv c) = []" "contents (sv_to_client c) = []"
    and room: "0 < room (client_to_sv c)" "2 \<le> room (sv_to_client c)"
    and ms: "length ms = unat n"
    and hello: "\<forall>h. os_recv os h (key_fd key) (room (client_to_sv c)) = Inr (SOCKS_VERSION # n # ms)"
  shows "\<exists>s' c'. negotiation_read os key s = Some (state_id NEGOTIATION_WRITE, s') \<and> client_at i s' = Some c'
    \<and> contents (sv_to_client c') = [SOCKS_VERSION, if 0x2 \<in> set ms then 0x2 else 0xFF]
    \<and> contents (client_to_sv c') = []"
proof -
  obtain np1 where f: "feed_all negotiation_feed is_negotiation_read_done
      (initialize_negotiation_parser np) (SOCKS_VERSION # n # ms) = (np1, [])" "neg_state np1 = NEG_DONE"
    "selected_method np1 = (if 0x2 \<in> set ms then PASS else NOT_ACCEPTABLE)"
    using feed_hello [OF ms, of np "[]"] by auto
  have fin: "is_negotiation_read_done np1" "\<not> has_errors np1"
    using f(2) by (simp_all add: is_negotiation_read_done_def has_errors_def)
  have inv: "buffer_inv (sv_to_client c)" using call by (simp add: called_def client_ok_def)
  let ?t = "\<lambda>s1. record_event (Recv (key_fd key) (Inr (SOCKS_VERSION # n # ms))) s1"
  from negotiation_read_spec [OF ok call hs room(1)] hello f(1) fin(1) empty(1) obtain s1 b3 sel' err b4 where r:
    "generate_negotiation_response np1 (sv_to_client c) = Some (err, b4)" "contents b3 = []"
    "negotiation_read os key s = Some (state_id (if err then SOCKS_ERROR else NEGOTIATION_WRITE),
       set_client i (c\<lparr>client_to_sv := b3, handshake := Negotiation np1, sv_to_client := b4\<rparr>)
         (set_sel sel' (set_client i (c\<lparr>client_to_sv := b3, handshake := Negotiation np1\<rparr>) (?t s1))))"
    by (simp add: Let_def) blast
  with generate_negotiation_response_spec [OF inv room(2) fin(2)] empty(2) f(3)
  show ?thesis by auto
qed

theorem negotiation_read_answers_witness:
  "\<exists>s' c'. negotiation_read (sample_os [5, 2, 0, 2]) (sample_key 4) hello_begin
      = Some (state_id NEGOTIATION_WRITE, s') \<and> client_at 0 s' = Some c'
    \<and> contents (sv_to_client c') = [5, 2] \<and> contents (client_to_sv c') = []"
  using negotiation_read_answers [OF sample_os_ok [of "[5, 2, 0, 2]"] hello_begin_facts(1-4),
      where ms = "[0, 2]" and n = 2]
  by (simp add: hello_begin_facts(5,6) SOCKS_VERSION_def)

text \<open>C8. After the whole reply of the negotiation has gone out the client reaches \<open>AUTH_READ\<close> exactly when
  username/password was selected; otherwise its connection is in error.\<close>

theorem negotiation_write_gates:
  assumes "os_ok os" and "mallocs_ok os" and "called i key c s" and "handshake c = Negotiation np"
    and all: "\<forall>h. os_send os h (key_fd key) (contents (sv_to_client c)) = Inr (length (contents (sv_to_client c)))"
    and some: "contents (sv_to_client c) \<noteq> []"
  shows "\<exists>s'. negotiation_write os key s =
      Some (state_id (if selected_method np = PASS then AUTH_READ else SOCKS_ERROR), s')
    \<and> keeps i s s'
    \<and> metrics_of (snd s') = more_bytes (int (length (contents (sv_to_client c)))) (metrics_of (snd s))"
proof -
  have "selected_method np = NOT_ACCEPTABLE \<longleftrightarrow> selected_method np \<noteq> PASS"
    by (cases "selected_method np") simp_all
  with negotiation_write_spec [OF assms(1-4)] all some show ?thesis
    by (cases "selected_method np = PASS") fastforce+
qed

theorem negotiation_write_gates_witness:
  "\<exists>s'. negotiation_write (sample_os []) (sample_key 4) refused_begin = Some (state_id SOCKS_ERROR, s')
    \<and> keeps 0 refused_begin s'"
  using negotiation_write_gates [OF sample_os_ok refused_begin_facts(1,2), of "[]"]
  by (simp add: refused_begin_facts(3)) (auto simp: zero_neg_def initialize_negotiation_parser_def)

section \<open>Connecting to the origin\<close>

text \<open>C9. When the connection to the origin has been made, the client is sent the reply of success with the
  address the socket is bound to, waits for nothing but to write it, the origin for its first
  bytes, and the addresses are released.\<close>

theorem connect_established:
  assumes "awaits i key c s" and "contents (sv_to_client c) = []" and "22 \<le> room (sv_to_client c)"
    and "\<forall>h. os_getsockopt os h (origin_fd c) = Some 0" and "\<forall>h. os_getsockname os h (origin_fd c) = Some bnd"
    and "bnd = Sockaddr_in a (htons p) \<and> length a = 4 \<or> bnd = Sockaddr_in6 a (htons p) \<and> length a = 16"
  shows "\<exists>s' c'. request_connect unregister os key s = Some (state_id REQ_WRITE, s') \<and> client_at i s' = Some c'
    \<and> reply_fields (contents (sv_to_client c')) = Some (0, if length a = 4 then 1 else 4, a, p)
    \<and> interest_of s' (client_fd c) = Some OP_WRITE \<and> interest_of s' (origin_fd c) = Some OP_READ
    \<and> roles (fst s') = roles (fst s) \<and> origin_fd c' = origin_fd c \<and> client_fd c' = client_fd c \<and> origin_addr c' = []
    \<and> (\<forall>j. j \<noteq> i \<longrightarrow> client_at j s' = client_at j s)"
  using connect_established_spec [OF assms] by blast

theorem connect_established_witness:
  "\<exists>s' c'. request_connect (unregister_fd (sample_os []) server_closers) ((sample_os [])\<lparr>os_getsockopt := (\<lambda>h fd. Some 0)\<rparr>) (sample_key 5) connecting_begin
      = Some (state_id REQ_WRITE, s') \<and> client_at 0 s' = Some c'
    \<and> reply_fields (contents (sv_to_client c')) = Some (0, 1, [10, 0, 0, 1], 1080)"
proof -
  have "[4, 56] = htons 1080" by (simp add: htons_def)
  then show ?thesis
    using connect_established [OF connecting_begin_facts(1-3), of "(sample_os [])\<lparr>os_getsockopt := (\<lambda>h fd. Some 0)\<rparr>"
        "Sockaddr_in [10, 0, 0, 1] (htons 1080)" "[10, 0, 0, 1]" 1080 "unregister_fd (sample_os []) server_closers"] by fastforce
qed

text \<open>C10. When the last address refuses the connection, the reply that says so is never sent: it goes through
  the key of the origin's descriptor, which has just been unregistered. The client is released
  with no byte sent or received.\<close>

theorem refused_connection_unanswered:
  assumes "mallocs_ok os" and "awaits i key c s"
    and "\<forall>h. os_getsockopt os h (origin_fd c) = Some e" and "e \<noteq> 0" and "current_origin_addr c = [a]"
  shows "\<exists>s' es. socksv5_write os others key s = Some s' \<and> client_at i s' = None
    \<and> registered (fst s') = (registered (fst s))(client_fd c := None, origin_fd c := None)
    \<and> hist s' = hist s @ es \<and> (\<forall>fd. sent fd es = [] \<and> received fd es = [])
    \<and> Close (client_fd c) \<in> set es \<and> Close (origin_fd c) \<in> set es
    \<and> (\<forall>j. j \<noteq> i \<longrightarrow> client_at j s' = client_at j s)"
  using connect_refused_event [OF assms] quiet_traffic by metis

theorem refused_connection_unanswered_witness:
  "\<exists>s' es. socksv5_write (sample_os []) server_closers (sample_key 5) connecting_begin = Some s'
    \<and> client_at 0 s' = None \<and> hist s' = hist connecting_begin @ es \<and> sent 4 es = []"
  using refused_connection_unanswered [OF sample_os_ok(2) connecting_begin_facts(1) _ _ connecting_begin_facts(6),
      of "[]" 111 server_closers] by fastforce

text \<open>C11. When \<open>getaddrinfo\<close> fails, the thread leaves a job for the client's descriptor, and the callback that
  this job runs sends the client the reply "host unreachable".\<close>

theorem resolve_failure_answered:
  assumes "mallocs_ok os" and "called i key c s"
    and "nth_opt (threads (snd s)) k = Some \<lparr>rj_client_fd = key_fd key, rj_client = i\<rparr>"
    and "handshake c = Request rp" and "terminated (address_class (req_address rp))"
    and "\<forall>h n p. os_getaddrinfo os h n p = Inl msg" and "length msg < 2 ^ 20"
    and "contents (sv_to_client c) = []" and "22 \<le> room (sv_to_client c)"
  shows "\<exists>s1 s2 c2. resolver_step os k s = Some s1 \<and> key_fd key \<in> set (resolution_jobs (fst s1))
    \<and> request_resolve unregister os key s1 = Some (state_id REQ_WRITE, s2) \<and> client_at i s2 = Some c2
    \<and> reply_fields (contents (sv_to_client c2)) = Some (status_code CON_HOST_UNREACHABLE, 1, [0, 0, 0, 0], 0)
    \<and> interest_of s2 (key_fd key) = Some OP_WRITE \<and> roles (fst s2) = roles (fst s)
    \<and> (\<forall>j. j \<noteq> i \<longrightarrow> client_at j s2 = client_at j s)"
  by (rule failed_name_answered [OF assms])

theorem resolve_failure_answered_witness:
  "\<exists>s1 s2 c2. resolver_step ((sample_os [])\<lparr>os_getaddrinfo := (\<lambda>h n p. Inl ''unknown'')\<rparr>) 0 resolving_begin = Some s1
    \<and> request_resolve (unregister_fd (sample_os []) server_closers) ((sample_os [])\<lparr>os_getaddrinfo := (\<lambda>h n p. Inl ''unknown'')\<rparr>) (sample_key 4) s1
      = Some (state_id REQ_WRITE, s2) \<and> client_at 0 s2 = Some c2
    \<and> reply_fields (contents (sv_to_client c2)) = Some (4, 1, [0, 0, 0, 0], 0)"
proof -
  have "mallocs_ok ((sample_os [])\<lparr>os_getaddrinfo := (\<lambda>h n p. Inl ''unknown'')\<rparr>)" by (simp add: mallocs_ok_def sample_os_def)
  from resolve_failure_answered [OF this resolving_begin_facts(1-4) _ _ resolving_begin_facts(5,6), of "''unknown''" "unregister_fd (sample_os []) server_closers"]
  show ?thesis by auto
qed

text \<open>C12. A thread that cannot be created goes unnoticed, since \<open>pthread_create\<close> never answers -1: the client
  waits in \<open>REQ_RESOLVE\<close> for a job that no thread will leave, and its descriptor is in neither set
  handed to \<open>pselect\<close>.\<close>

theorem failed_thread_stalls:
  assumes "mallocs_ok os" and "called i key c s" and "handshake c = Request rp" and "atyp rp = DN"
    and "\<forall>h. 0 < os_pthread_create os h"
  shows "\<exists>s'. handle_request unregister os key s = Some (state_id REQ_RESOLVE, s') \<and> client_at i s' = Some c
    \<and> threads (snd s') = threads (snd s) \<and> roles (fst s') = roles (fst s)
    \<and> key_fd key \<notin> master_r (fst s') \<and> key_fd key \<notin> master_w (fst s')"
  by (rule failed_thread_unnoticed [OF assms])

theorem failed_thread_stalls_witness:
  "\<exists>s'. handle_request (unregister_fd (sample_os []) server_closers) (sample_os []) (sample_key 4) resolving_begin = Some (state_id REQ_RESOLVE, s')
    \<and> 4 \<notin> master_r (fst s') \<and> 4 \<notin> master_w (fst s')"
  using failed_thread_stalls [OF sample_os_ok(2) resolving_begin_facts(1,3), of "[]" "unregister_fd (sample_os []) server_closers"] by auto

section \<open>The message parsers\<close>

text \<open>C13. A CONNECT request for an IPv4 or IPv6 address is parsed to that address type, those address bytes and
  that port, whatever is left in the arrays from before, and not a byte more is taken than it has.\<close>

theorem request_ip_parsed:
  assumes "buffer_inv b"
    and "contents b = PROTOCOL_VERSION # CONNECT # RSV # ucast t # a @ htons p @ rest"
    and "length (addr_buffer (req_address rp)) = 256" and "length (address_class (req_address rp)) = 256"
    and "(t = IPV4 \<and> length a = 4) \<or> (t = IPV6 \<and> length a = 16)"
  shows "\<exists>rp' b'. req_parse (initialize_request_parser rp) b = Some (rp', b')
    \<and> request_read_as rp' t a p \<and> buffer_inv b' \<and> contents b' = rest"
proof -
  from feed_request_ip [OF assms(3-5)] obtain rp' where
    "feed_all req_feed is_req_done (initialize_request_parser rp) (contents b) = (rp', rest)"
    "request_read_as rp' t a p" unfolding assms(2) by blast
  with req.loop_result [OF assms(1)] show ?thesis by blast
qed

theorem request_ip_parsed_witness:
  "\<exists>rp' b'. req_parse (initialize_request_parser zero_req) (sample_buffer [5, 1, 0, 1, 10, 0, 0, 7, 0, 80, 33])
      = Some (rp', b') \<and> request_read_as rp' IPV4 [10, 0, 0, 7] 80 \<and> buffer_inv b' \<and> contents b' = [33]"
  by (rule request_ip_parsed)
    (simp_all add: BUFFER_SIZE_def zero_req_def PROTOCOL_VERSION_def CONNECT_def RSV_def IPV4_def htons_def)

text \<open>C14. A CONNECT request for a domain name is parsed to that name, terminated, and that port.\<close>

theorem request_dn_parsed:
  assumes "buffer_inv b"
    and "contents b = PROTOCOL_VERSION # CONNECT # RSV # ucast DN # n # a @ htons p @ rest"
    and "length (addr_buffer (req_address rp)) = 256" and "length (address_class (req_address rp)) = 256"
    and "length a = unat n" and "a \<noteq> []" and "0 \<notin> set a"
  shows "\<exists>rp' b'. req_parse (initialize_request_parser rp) b = Some (rp', b')
    \<and> request_read_as rp' DN a p \<and> addr_dn (req_address rp') = a \<and> buffer_inv b' \<and> contents b' = rest"
proof -
  from feed_request_dn [OF assms(3-6)] obtain rp' where
    f: "feed_all req_feed is_req_done (initialize_request_parser rp) (contents b) = (rp', rest)"
    and r: "request_read_as rp' DN a p" "address_class (req_address rp') ! length a = 0"
    unfolding assms(2) by blast
  obtain b' where b': "req_parse (initialize_request_parser rp) b = Some (rp', b')"
    "buffer_inv b'" "contents b' = rest"
    using req.loop_result [OF assms(1) f] by blast
  have "req_parser_ok (initialize_request_parser rp)"
    using assms(3,4) by (simp add: initialize_request_ok)
  then have "req_parser_ok rp'"
    using req.loop_invariant [of req_parser_ok, OF _ assms(1) _ b'(1)] req_feed_ok by blast
  then have "length a < length (address_class (req_address rp'))"
    using assms(5) unat_u8_less [of n] by (simp add: req_parser_ok_def)
  then have "address_class (req_address rp') = a @ 0 # drop (Suc (length a)) (address_class (req_address rp'))"
    using r id_take_nth_drop [of "length a" "address_class (req_address rp')"]
    by (simp add: request_read_as_def)
  then have "addr_dn (req_address rp') = a"
    unfolding addr_dn_def using cstr_append_zero [OF assms(7)] by metis
  with b' r show ?thesis by blast
qed

theorem request_dn_parsed_witness:
  "\<exists>rp' b'. req_parse (initialize_request_parser zero_req) (sample_buffer [5, 1, 0, 3, 2, 97, 98, 1, 187])
      = Some (rp', b') \<and> request_read_as rp' DN [97, 98] 443 \<and> addr_dn (req_address rp') = [97, 98]
      \<and> buffer_inv b' \<and> contents b' = []"
  by (rule request_dn_parsed [where n = 2])
    (simp_all add: BUFFER_SIZE_def zero_req_def PROTOCOL_VERSION_def CONNECT_def RSV_def DN_def htons_def)

text \<open>C15. A username/password request is parsed to the two strings that were sent. Its password takes as many
  bytes as announced, except that an announced length of 0 takes 256: the counter of one byte is
  compared after it was incremented.\<close>

theorem auth_request_parsed:
  assumes "buffer_inv b" and "contents b = AUTH_VERSION # n # u @ m # p @ rest"
    and "uname ap = replicate 256 0" and "passwd ap = replicate 256 0"
    and "length u = unat n" and "0 \<notin> set u" and "length p = (if m = 0 then 256 else unat m)"
  shows "\<exists>ap' b'. auth_parse (initialize_auth_parser ap) b = Some (ap', b') \<and> auth_state ap' = AUTH_DONE
    \<and> cstr (uname ap') = u \<and> take (length p) (passwd ap') = p \<and> contents b' = rest"
proof -
  have f: "feed_all auth_feed is_auth_done (initialize_auth_parser ap) (contents b) = (auth_result ap u m p, rest)"
    unfolding assms(2) by (rule feed_auth_request) (use assms in \<open>simp_all add: wrap_total_def\<close>)
  have "length p \<le> 256" using assms(7) unat_u8_le [of m] by auto
  then have "take (length p) (passwd (auth_result ap u m p)) = p"
    using assms(4) by (simp add: auth_result_def take_poke_0 initialize_auth_parser_def)
  moreover have "cstr (uname (auth_result ap u m p)) = u"
    using auth_result_strings [of ap u m p] assms(3,5,6) unat_u8_less [of n] by auto
  moreover have "auth_state (auth_result ap u m p) = AUTH_DONE" by (simp add: auth_result_def)
  ultimately show ?thesis using auth.loop_result [OF assms(1) f] by blast
qed

theorem auth_request_parsed_witness:
  "\<exists>ap' b'. auth_parse (initialize_auth_parser zero_auth) (sample_buffer [1, 1, 97, 2, 98, 99, 5])
      = Some (ap', b') \<and> auth_state ap' = AUTH_DONE
    \<and> cstr (uname ap') = [97] \<and> take (length [98, 99 :: u8]) (passwd ap') = [98, 99] \<and> contents b' = [5]"
  by (rule auth_request_parsed [where n = 1 and m = 2])
    (simp_all add: BUFFER_SIZE_def zero_auth_def AUTH_VERSION_def)

text \<open>C16. The three parsers do not depend on how the stream is cut into \<open>recv\<close> calls: parsing a first piece
  and then what was left of it together with a second piece gives the parser and the leftover that
  parsing both at once gives.\<close>

theorem parsers_resume:
  assumes b: "buffer_inv b" "contents b = xs @ ys" and b1: "buffer_inv b1" "contents b1 = xs"
    and b3: "buffer_inv b3"
  shows "(\<forall>np np1 b2. negotiation_parse np b1 = Some (np1, b2) \<and> contents b3 = contents b2 @ ys \<longrightarrow>
      (\<exists>r b4 b5. negotiation_parse np1 b3 = Some (r, b4) \<and> negotiation_parse np b = Some (r, b5)
        \<and> contents b4 = contents b5))
    \<and> (\<forall>ap ap1 b2. auth_parse ap b1 = Some (ap1, b2) \<and> contents b3 = contents b2 @ ys \<longrightarrow>
      (\<exists>r b4 b5. auth_parse ap1 b3 = Some (r, b4) \<and> auth_parse ap b = Some (r, b5)
        \<and> contents b4 = contents b5))
    \<and> (\<forall>rp rp1 b2. req_parse rp b1 = Some (rp1, b2) \<and> contents b3 = contents b2 @ ys \<longrightarrow>
      (\<exists>r b4 b5. req_parse rp1 b3 = Some (r, b4) \<and> req_parse rp b = Some (r, b5)
        \<and> contents b4 = contents b5))"
  using neg.loop_chunks [OF b b1 _ b3] auth.loop_chunks [OF b b1 _ b3] req.loop_chunks [OF b b1 _ b3]
  by (intro conjI allI impI; elim conjE) blast+

theorem parsers_resume_witness:
  "\<exists>r b4 b5. req_parse (fst piece_end) (sample_buffer [1, 10, 0, 0, 7, 0, 80]) = Some (r, b4)
    \<and> req_parse (initialize_request_parser zero_req) (sample_buffer [5, 1, 0, 1, 10, 0, 0, 7, 0, 80]) = Some (r, b5)
    \<and> contents b4 = contents b5"
proof -
  have "req_parse (initialize_request_parser zero_req) (sample_buffer [5, 1, 0])
      = Some (fst piece_end, snd piece_end)"
    "contents (sample_buffer [1, 10, 0, 0, 7, 0, 80]) = contents (snd piece_end) @ [1, 10, 0, 0, 7, 0, 80]"
    by (simp_all add: BUFFER_SIZE_def piece_end_facts)
  moreover have "buffer_inv (sample_buffer [5, 1, 0, 1, 10, 0, 0, 7, 0, 80])"
    "contents (sample_buffer [5, 1, 0, 1, 10, 0, 0, 7, 0, 80]) = [5, 1, 0] @ [1, 10, 0, 0, 7, 0, 80]"
    "buffer_inv (sample_buffer [5, 1, 0])" "contents (sample_buffer [5, 1, 0]) = [5, 1, 0]"
    "buffer_inv (sample_buffer [1, 10, 0, 0, 7, 0, 80])"
    by (simp_all add: BUFFER_SIZE_def)
  note parsers_resume [OF this]
  ultimately show ?thesis by blast
qed

text \<open>C17. What \<open>req_generate_response\<close> writes, read by the format of RFC 1928, is the status, and for a
  successful connection the bound address and port; the zero IPv4 address otherwise.\<close>

theorem reply_reads_back:
  assumes "buffer_inv b" and "contents b = []" and "22 \<le> room b"
    and bnd: "bnd = Sockaddr_in a (htons p) \<and> length a = 4 \<or> bnd = Sockaddr_in6 a (htons p) \<and> length a = 16"
  shows "\<exists>b'. req_generate_response rp b bnd = Some (False, b') \<and> buffer_inv b'
    \<and> reply_fields (contents b') = Some
      (if con_status rp = CON_SUCCEEDED then (0, if length a = 4 then 1 else 4, a, p)
       else (status_code (con_status rp), 1, [0, 0, 0, 0], 0))"
  using req_generate_response_spec [OF assms(1,3), of rp bnd] assms(2) req_response_fields [OF bnd, of rp] by fastforce

theorem reply_reads_back_witness:
  "\<exists>b'. req_generate_response (zero_req\<lparr>con_status := CON_SUCCEEDED\<rparr>) (sample_buffer [])
      (Sockaddr_in [10, 0, 0, 1] (htons 1080)) = Some (False, b') \<and> buffer_inv b'
    \<and> reply_fields (contents b') = Some (0, 1, [10, 0, 0, 1], 1080)"
  using reply_reads_back [of "sample_buffer []" "Sockaddr_in [10, 0, 0, 1] (htons 1080)" "[10, 0, 0, 1]" 1080
      "zero_req\<lparr>con_status := CON_SUCCEEDED\<rparr>"]
  by (simp add: BUFFER_SIZE_def)

section \<open>The server as a whole\<close>

text \<open>C18. From its start and through every turn of the loop, whatever the system answers and in whatever
  order descriptors become ready and resolver threads end, the table of the selector is
  well-formed, its interest sets are those of the registered items, and every registered
  descriptor of a client or of a session belongs to a live one that knows it: no callback is ever
  called on freed memory.\<close>

theorem server_invariant_kept:
  assumes "setup_server b args = Some (Listening server manager sel)"
    and "serve os turns (sel, initial_world t) = Some (st, s')"
  shows "server_inv s'
    \<and> (\<forall>fd it i. registered (fst s') fd = Some it \<and> item_data it = Some (Client i) \<longrightarrow>
        (\<exists>c. client_at i s' = Some c \<and> machine_ok c \<and> (fd = client_fd c \<or> fd = origin_fd c)))
    \<and> (\<forall>fd it i. registered (fst s') fd = Some it \<and> item_data it = Some (Manager i) \<longrightarrow>
        (\<exists>m. manager_at i s' = Some m \<and> fd = mgr_fd m))"
proof -
  have inv: "server_inv s'" using serve_inv [OF setup_server_inv [OF assms(1)] assms(2)] .
  have "owner_alive s' fd (item_handler it, item_data it)" if "registered (fst s') fd = Some it" for fd it
    using inv that by (auto simp: server_inv_def attached_def roles_def)
  with inv show ?thesis by (fastforce simp: owner_alive_def server_inv_def heaps_ok_def)
qed

theorem server_invariant_kept_witness:
  "\<exists>sel st s'. setup_server sample_boot default_args = Some (Listening 3 4 sel)
    \<and> serve (sample_os []) [Wake (Failed EINTR)] (sel, initial_world sample_users) = Some (st, s') \<and> server_inv s'"
proof -
  obtain sel where 1: "setup_server sample_boot default_args = Some (Listening 3 4 sel)" "resolution_jobs sel = []"
    using sample_setup by blast
  obtain s' where 2: "serve (sample_os []) [Wake (Failed EINTR)] (sel, initial_world sample_users)
      = Some (SELECTOR_SUCCESS, s')" using idle_turn [OF 1(2)] by blast
  with 1(1) server_invariant_kept [OF 1(1) 2] show ?thesis by blast
qed

text \<open>C19. The parsers of a client share one union without a tag. Through every turn of the loop, whatever
  the system answers and whatever the peers send, the member that is in the union of every live
  client is the one the handlers of its state read, and the state is one of the table.\<close>

theorem unions_stay_typed:
  assumes "serve os turns (sel, initial_world t) = Some (st, s')" and "client_at i s' = Some c"
  shows "machine_ok c \<and> union_typed c"
  by (rule all_typedD [OF serve_typed [OF initial_typed assms(1)] assms(2)])

theorem unions_stay_typed_witness:
  "\<exists>sel s' c. setup_server sample_boot default_args = Some (Listening 3 4 sel)
    \<and> serve (sample_os []) [Wake (Ready {3} {})] (sel, initial_world sample_users) = Some (SELECTOR_SUCCESS, s')
    \<and> client_at 0 s' = Some c \<and> client_fd c = 6 \<and> machine_ok c \<and> union_typed c"
proof -
  obtain sel where 1: "setup_server sample_boot default_args = Some (Listening 3 4 sel)" "resolution_jobs sel = []" "sel_inv sel"
    "fd_size sel = 1025" "registered sel =
      [3 \<mapsto> new_item 3 (Some PASSIVE_SOCKS) OP_READ None, 4 \<mapsto> new_item 4 (Some PASSIVE_MANAGER) OP_READ None]"
    using sample_setup by blast
  obtain s' where 2: "serve (sample_os []) [Wake (Ready {3} {})] (sel, initial_world sample_users) = Some (SELECTOR_SUCCESS, s')"
    "client_at 0 s' = Some (fresh_client 6 (Sockaddr_in [127, 0, 0, 1] [200, 1]))"
    using accepting_turn [OF 1(2-5)] by blast
  moreover have "client_fd (fresh_client 6 (Sockaddr_in [127, 0, 0, 1] [200, 1])) = 6" by (simp add: fresh_client_def)
  ultimately show ?thesis using 1(1) unions_stay_typed [OF 2] by blast
qed

text \<open>C20. Once the server is listening it comes back from its shutdown: every descriptor of a client and of a
  session is closed exactly once, in the order of the table, then the two sockets, and the exit
  status is 2 after a failure of \<open>selector_select\<close> and 1 after a signal, never 0. After a failure
  that takes the memory for its report, and a text of \<open>strerror\<close> shorter than 1024 characters: without
  the report's builder the way out crashes and closes nothing.\<close>

theorem shutdown_closes_everything:
  assumes "setup_server b args = Some (Listening server manager sel)"
    and "serve os turns (sel, initial_world t) = Some (st, s')"
  shows "(st = SELECTOR_SUCCESS \<or> mallocs_ok os \<and> strerror_ok os \<longrightarrow>
      (\<exists>es. main_from b os args t turns = Some (if st \<noteq> SELECTOR_SUCCESS then 2 else 1,
          close_if_open manager (close_if_open server
            (hist s' @ es @ map (\<lambda>i. Close (int i)) (filter (\<lambda>i. closes s' (int i)) [0..<ITEMS_MAX_SIZE + 1]))))
        \<and> allocated es \<and> (st = SELECTOR_SUCCESS \<longrightarrow> es = [])))
    \<and> (st \<noteq> SELECTOR_SUCCESS \<and> \<not> os_malloc os (hist s') 24 \<longrightarrow> main_from b os args t turns = None)"
proof -
  let ?msg = "if st \<noteq> SELECTOR_SUCCESS then ''Serving'' else ''Closing server''"
  have run: "main_from b os args t turns = main_finally os st (Some ?msg) True (Some server) (Some manager) 0 s'"
    using assms by (simp add: main_from_def)
  have "length ?msg < 1024" by simp
  from finally_returns [OF serve_inv [OF setup_server_inv [OF assms(1)] assms(2)] this]
  show ?thesis unfolding run closing_order_def by (blast intro: finally_crashes)
qed

theorem shutdown_closes_everything_witness:
  "(\<exists>h. main_from sample_boot (sample_os []) default_args sample_users [Wake (Failed EINTR)] = Some (1, h @ [Close 3, Close 4]))
    \<and> (\<exists>h. main_from sample_boot (sample_os []) default_args sample_users [Wake (Failed EBADF)] = Some (2, h @ [Close 3, Close 4]))"
proof -
  obtain sel where 1: "setup_server sample_boot default_args = Some (Listening 3 4 sel)" "resolution_jobs sel = []"
    using sample_setup by blast
  obtain s' where 2: "serve (sample_os []) [Wake (Failed EINTR)] (sel, initial_world sample_users)
      = Some (SELECTOR_SUCCESS, s')" using idle_turn [OF 1(2)] by blast
  obtain s'' where 3: "serve (sample_os []) [Wake (Failed EBADF)] (sel, initial_world sample_users) = Some (SELECTOR_IO, s'')"
    by (simp add: selector_select_def)
  have "strerror_ok (sample_os [])" by (simp add: strerror_ok_def sample_os_def)
  with shutdown_closes_everything [OF 1(1) 2] shutdown_closes_everything [OF 1(1) 3] show ?thesis
    by (auto simp: close_if_open_def)
qed

section \<open>The selector\<close>

text \<open>C21. Registering a descriptor is the update of a finite map: a free descriptor is added with exactly
  the given handler, interest and data, a used one is refused and nothing changes. It holds for
  every valid descriptor but the one equal to the size of the table, growing the table as needed.\<close>

theorem register_is_map_update:
  assumes "sel_inv s" and "0 \<le> fd" and "fd < int ITEMS_MAX_SIZE" and "nat fd \<noteq> fd_size s"
  shows "\<exists>r s'. selector_register True s fd (Some h) i d = Some (r, s') \<and> sel_inv s'
    \<and> (case registered s fd of
         None \<Rightarrow> r = SELECTOR_SUCCESS \<and> registered s' = (registered s)(fd \<mapsto> new_item fd (Some h) i d)
       | Some _ \<Rightarrow> r = SELECTOR_FDINUSE \<and> s' = s)"
proof (cases "nat fd < fd_size s")
  case True
  note reg = selector_register_in_table [OF assms(1-3) True, of "Some h" True i d]
  show ?thesis using reg assms(1) by (cases "registered s fd") auto
next
  case False
  then have "fd_size s < nat fd" using assms(4) by simp
  moreover have "registered s fd = None" using False by (simp add: registered_def)
  ultimately show ?thesis using selector_register_grow [OF assms(1-3), of h i d] by auto
qed

theorem register_is_map_update_witness:
  "\<exists>r s'. selector_register True sample_sel 9 (Some SOCKS5_HANDLER) OP_READ (Some (Client 3)) = Some (r, s') \<and> sel_inv s'
    \<and> r = SELECTOR_SUCCESS
    \<and> registered s' = (registered sample_sel)(9 \<mapsto> new_item 9 (Some SOCKS5_HANDLER) OP_READ (Some (Client 3)))"
  using register_is_map_update [OF sample_sel_inv, of 9 SOCKS5_HANDLER OP_READ "Some (Client 3)"]
  by (simp add: ITEMS_MAX_SIZE_def sample_registered)

text \<open>C22. In the running server, unregistering a descriptor always returns: it is the deletion from the
  map, and the descriptor is closed exactly once when it belongs to a client or a session, and not
  at all when it is one of the two passive sockets.\<close>

theorem unregister_is_map_delete:
  assumes "server_inv s" and "registered (fst s) fd = Some it"
  shows "\<exists>s'. selector_unregister_fd (server_handlers os) fd s = Some (SELECTOR_SUCCESS, s') \<and> server_inv s'
    \<and> registered (fst s') = (registered (fst s))(fd := None)
    \<and> hist s' = hist s @ (if item_handler it \<in> {Some SOCKS5_HANDLER, Some MANAGER_HANDLER} then [Close fd] else [])"
proof -
  have "closes s fd \<longleftrightarrow> item_handler it \<in> {Some SOCKS5_HANDLER, Some MANAGER_HANDLER}"
    using assms(2) by (auto simp: closes_def roles_def)
  with unregister_any_returns [OF assms, of os] show ?thesis by (simp add: unregister_server_handlers)
qed

theorem unregister_is_map_delete_witness:
  "\<exists>sel s'. setup_server sample_boot default_args = Some (Listening 3 4 sel)
    \<and> selector_unregister_fd (server_handlers (sample_os [])) 3 (sel, initial_world sample_users) = Some (SELECTOR_SUCCESS, s')
    \<and> registered (fst s') = (registered sel)(3 := None) \<and> hist s' = []"
proof -
  obtain sel where sel: "setup_server sample_boot default_args = Some (Listening 3 4 sel)" "registered sel =
      [3 \<mapsto> new_item 3 (Some PASSIVE_SOCKS) OP_READ None, 4 \<mapsto> new_item 4 (Some PASSIVE_MANAGER) OP_READ None]"
    using sample_setup by blast
  then have 1: "setup_server sample_boot default_args = Some (Listening 3 4 sel)"
    "registered sel 3 = Some (new_item 3 (Some PASSIVE_SOCKS) OP_READ None)" by simp_all
  from unregister_is_map_delete [OF setup_server_inv [OF 1(1), of sample_users], where fd = 3 and os = "sample_os []"
      and it = "new_item 3 (Some PASSIVE_SOCKS) OP_READ None"] 1
  show ?thesis by (fastforce simp: new_item_def hist_def initial_world_def)
qed

text \<open>C23. Changing an interest of a registered descriptor changes that field of that item and nothing else,
  and keeps the sets handed to \<open>pselect\<close> those of the items.\<close>

theorem set_interest_is_map_update:
  assumes "sel_inv s" and "registered s fd = Some it"
  shows "\<exists>s'. selector_set_interest s fd i = Some (SELECTOR_SUCCESS, s') \<and> sel_inv s'
    \<and> registered s' = (registered s)(fd \<mapsto> it\<lparr>item_interest := i\<rparr>)
    \<and> master_r s' = (if i AND OP_READ \<noteq> 0 then insert fd (master_r s) else master_r s - {fd})
    \<and> master_w s' = (if i AND OP_WRITE \<noteq> 0 then insert fd (master_w s) else master_w s - {fd})"
proof -
  from selector_set_interest_spec [OF assms, of i] obtain s' where
    s': "selector_set_interest s fd i = Some (SELECTOR_SUCCESS, s')" "sel_inv s'"
      "registered s' = (registered s)(fd \<mapsto> it\<lparr>item_interest := i\<rparr>)" by blast
  have r: "master_r x = {fd. \<exists>it. registered x fd = Some it \<and> wants OP_READ it}"
    and w: "master_w x = {fd. \<exists>it. registered x fd = Some it \<and> wants OP_WRITE it}" if "sel_inv x" for x :: "('a, 'b) fdselector"
    using that by (simp_all add: sel_inv_def)
  show ?thesis
    using s' by (intro exI [of _ s']) (auto simp: r [OF s'(2)] r [OF assms(1)] w [OF s'(2)] w [OF assms(1)] wants_def)
qed

theorem set_interest_is_map_update_witness:
  "\<exists>s'. selector_set_interest sample_sel 4 OP_NOOP = Some (SELECTOR_SUCCESS, s') \<and> sel_inv s'
    \<and> master_r s' = master_r sample_sel - {4}"
  using set_interest_is_map_update [OF sample_sel_inv, of 4 "sample_item 4" OP_NOOP]
  by (auto simp: sample_registered OP_NOOP_def)

section \<open>Users and the management protocol\<close>

text \<open>C24. Before a session has logged in, an event that reads a line changes no user, no client and no other
  session, whatever the line says; it logs the session in only if the line is \<open>PASS\<close> with the
  password of the user named before, and that user is an administrator. While memory lasts it returns,
  unless a reply meets a peer that has gone: replies are sent without \<open>MSG_NOSIGNAL\<close>, so then any
  line that is neither \<open>USER\<close> nor \<open>PASS\<close> kills the server.\<close>

theorem login_guards_the_protocol:
  assumes "os_ok os" and "mallocs_ok os"
    and "manages i data s" and "\<not> logged_in data" and "key_data key = Some (Manager i)"
  shows "(\<forall>s'. manager_read os key s = Some s' \<longrightarrow> users_of s' = users_of s \<and> (\<forall>j. client_at j s' = client_at j s)
      \<and> (\<forall>j. j \<noteq> i \<longrightarrow> manager_at j s' = manager_at j s)
      \<and> (\<forall>data'. manager_at i s' = Some data' \<and> logged_in data' \<longrightarrow>
          (\<exists>bs p u. os_recv os (hist s) (mgr_fd data) 1023 = Inr bs \<and> command_of bs = (Some ''PASS'', Some p)
            \<and> user_sent data \<and> lookup (users_of s) (session_name data) = Some u \<and> u_pass u = p \<and> u_status u = ADMIN)))
    \<and> (no_sigpipe os \<longrightarrow> (\<exists>s'. manager_read os key s = Some s'))
    \<and> (\<forall>bs cmd. (\<forall>h bs. os_send os h (mgr_fd data) bs = Inl EPIPE)
          \<and> os_recv os (hist s) (mgr_fd data) 1023 = Inr bs \<and> fst (command_of bs) = Some cmd \<and> cmd \<notin> {''USER'', ''PASS''}
        \<longrightarrow> manager_read os key s = None)"
proof (intro conjI allI impI, goal_cases)
  case (1 s')
  from manager_read_logged_out [OF assms(3-5) 1] show ?case by blast
next
  case (2 s' j)
  from manager_read_logged_out [OF assms(3-5) 2] show ?case by blast
next
  case (3 s' j)
  from manager_read_logged_out [OF assms(3-5) 3(1)] 3(2) show ?case by blast
next
  case (4 s' data')
  from manager_read_logged_out [OF assms(3-5) 4(1)] 4(2) show ?case unfolding admits_def by (metis prod.collapse)
next
  case 5
  then show ?case using manager_read_logged_out_returns [OF assms(1,2) _ assms(3-5)] by blast
next
  case (6 bs cmd)
  have "manager_at i s = Some data" using assms(3) by (simp add: manages_def)
  from manager_read_unheard [OF assms(1,2) this assms(4,5), of bs cmd] 6 show ?case by blast
qed

theorem login_guards_the_protocol_witness:
  "\<exists>s'. manager_read (sample_os (bytes_of (''DELETE-USER admin'' @ crlf))) sample_manager_key sample_session = Some s'
    \<and> users_of s' = users_of sample_session"
  using login_guards_the_protocol [OF sample_os_ok sample_session_facts] sample_os_no_sigpipe by blast

text \<open>C25. An administrator connects to the management port, sends \<open>USER\<close>, \<open>PASS\<close> with his password and
  \<open>ADD-USER\<close>: the greeting and exactly the three positive replies go out, the session is logged
  in, the user is in the table, and its password, and no other, is what the proxy then accepts.\<close>

theorem administrator_adds_a_user:
  assumes "hears_all os" "sel_inv (fst s)" "arrives os fd key s"
    and "speaks os fd (add_user_lines a (u_pass u) n p) s"
    and "word_ok a" "word_ok (u_pass u)" "word_ok n" "word_ok p" "length a \<le> 49" "length n \<le> 255" "length p \<le> 255"
    and "users_inv (users_of s)" "lookup (users_of s) a = Some u" "u_status u = ADMIN"
    and "\<not> has_user (users_of s) n" "cantUsers (users_of s) < max_users (users_of s)"
  shows "\<exists>s0 s' m. manager_passive_accept os key s = Some s0
    \<and> session_reads os \<lparr>key_fd = fd, key_data = Some (Manager (next_manager (snd s)))\<rparr> 3 s0 = Some s'
    \<and> sent fd (new_events s s') = bytes_of (version_line @ greeting_line @ welcome_line @ added_line n)
    \<and> manager_at (next_manager (snd s)) s' = Some m \<and> logged_in m
    \<and> users (users_of s') = users (users_of s) @ [\<lparr>u_name = n, u_pass = p, u_status = COMMONER, u_access = sb_create True True\<rparr>]
    \<and> (\<forall>q. user_login (users_of s') n q = 0 \<longleftrightarrow> q = p) \<and> (\<forall>j. client_at j s' = client_at j s)"
  by (rule accepted_session_adds [OF assms]) (rule exI, rule exI, rule exI, (rule conjI, assumption)+, assumption)

theorem administrator_adds_a_user_witness:
  "\<exists>s0 s'. manager_passive_accept admin_os listening_key sample_session = Some s0
    \<and> session_reads admin_os \<lparr>key_fd = 6, key_data = Some (Manager 1)\<rparr> 3 s0 = Some s'
    \<and> user_login (users_of s') ''bob'' ''pw'' = 0 \<and> user_login (users_of s') ''bob'' ''x'' \<noteq> 0"
proof -
  let ?u = "\<lparr>u_name = ''admin'', u_pass = ''admin'', u_status = ADMIN, u_access = sb_create True True\<rparr>"
  have pass: "u_pass ?u = ''admin''" by simp
  have "word_ok (u_pass ?u)" "speaks admin_os 6 (add_user_lines ''admin'' (u_pass ?u) ''bob'' ''pw'') sample_session"
    unfolding pass by (rule admin_facts)+
  from administrator_adds_a_user [OF admin_facts(1,3,2) this(2) admin_facts(5) this(1) admin_facts(6,7),
      unfolded admin_facts(8,11)] sample_lookup(1) sample_users_inv admin_facts(9,10)
  obtain s0 s' where s': "manager_passive_accept admin_os listening_key sample_session = Some s0"
    "session_reads admin_os \<lparr>key_fd = 6, key_data = Some (Manager 1)\<rparr> 3 s0 = Some s'"
    "\<forall>q. user_login (users_of s') ''bob'' q = 0 \<longleftrightarrow> q = ''pw''" by (auto simp del: append.simps)
  have "''x'' \<noteq> ''pw''" by simp
  with s' show ?thesis by metis
qed

text \<open>C26. A user that was added can log in with the password given and with no other, nobody else's login
  changes, and the name cannot be added again.\<close>

theorem added_user_logs_in:
  assumes "users_inv t" and "new_user True t (Some n) (Some p) = Some (0, t')" and "length n \<le> 255" and "length p \<le> 255"
  shows "users_inv t' \<and> (\<forall>q. user_login t' n q = 0 \<longleftrightarrow> q = p)
    \<and> (\<forall>m q. has_user t m \<longrightarrow> (user_login t' m q = 0 \<longleftrightarrow> user_login t m q = 0))
    \<and> (\<forall>q. \<nexists>t''. new_user True t' (Some n) (Some q) = Some (0, t''))"
proof -
  have add: "add_user t n p = Some t'" using assms(2) by (simp add: add_user_def)
  have "\<nexists>t''. new_user True t' (Some n) (Some q) = Some (0, t'')" for q
    using accounts.add_twice [OF assms(1) add assms(3,4), of q] by (auto simp: add_user_def)
  then show ?thesis
    using accounts.add_then_only_password [OF assms(1) add assms(3,4)] accounts.add_other [OF assms(1) add]
      accounts.add_inv [OF assms(1) add] by (simp add: login_ok_def)
qed

theorem added_user_logs_in_witness:
  "\<exists>t'. new_user True sample_users (Some ''bob'') (Some ''pw'') = Some (0, t') \<and> user_login t' ''bob'' ''pw'' = 0
    \<and> user_login t' ''bob'' ''no'' \<noteq> 0"
proof -
  obtain t' where t': "new_user True sample_users (Some ''bob'') (Some ''pw'') = Some (0, t')"
    using new_user_spec [OF sample_users_inv, of True "Some ''bob''" "Some ''pw''"]
    by (auto simp: sample_users_def has_user_def)
  from added_user_logs_in [OF sample_users_inv t'] t' show ?thesis by auto
qed

text \<open>C27. From \<open>init_users\<close> and the users of the command line on, and through every turn of the loop, the
  table of users is consistent, whatever the system answers and whatever clients and sessions
  send: the counts are those of the users and of the administrators in it, there are at most
  \<open>max_users\<close>, no name is empty and no name or password longer than its array. Commands, access
  logs and a failed \<open>malloc\<close> anywhere included.\<close>

theorem users_stay_consistent:
  assumes "init_users malloc_ok sb_ok users_globals = Some (r, t0)" and "add_users m us t0 = Some t"
    and "serve os turns (sel, initial_world t) = Some (st, s')"
  shows "users_core (users_of s')"
  by (rule serve_users [OF _ assms(3)]) (simp add: add_users_core [OF init_users_core [OF assms(1)] assms(2)])

theorem users_stay_consistent_witness:
  "\<exists>t sel st s'. init_users True True users_globals = Some (0, sample_users)
    \<and> add_users (\<lambda>_. True) [\<lparr>arg_name = Some ''bob'', arg_pass = Some ''pw''\<rparr>] sample_users = Some t \<and> cantUsers t = 2
    \<and> serve (sample_os []) [Wake (Failed EINTR)] (sel, initial_world t) = Some (st, s') \<and> users_core (users_of s')"
proof -
  have 1: "init_users True True users_globals = Some (0, sample_users)"
    by (simp add: init_users_def users_globals_def new_user_def user_exists_def change_status_def sample_users_def Let_def
        USER_MAX_LENGTH_def inc32_def)
  obtain t where 2: "add_users (\<lambda>_. True) [\<lparr>arg_name = Some ''bob'', arg_pass = Some ''pw''\<rparr>] sample_users = Some t" "cantUsers t = 2"
    by (simp add: new_user_def user_exists_def sample_users_def Let_def inc32_def)
  obtain sel where 3: "setup_server sample_boot default_args = Some (Listening 3 4 sel)" "resolution_jobs sel = []"
    using sample_setup by blast
  obtain s' where 4: "serve (sample_os []) [Wake (Failed EINTR)] (sel, initial_world t) = Some (SELECTOR_SUCCESS, s')"
    using idle_turn [OF 3(2)] by blast
  from 1 2 4 users_stay_consistent [OF 1 2(1) 4] show ?thesis by blast
qed

text \<open>C28. The size handed to \<open>realloc\<close> wraps around at 2^64: after \<open>SET-MAX-USERS 34937015291116577\<close> the
  limit is 3253763105 users and the block has room for one, and the next user that is added is
  written behind it.\<close>

theorem set_max_users_overflows:
  assumes "mallocs_ok os" and "no_sigpipe os" and "cantUsers (users_of s) = 1"
  shows "\<exists>s'. handle_set_max_users os fd (Some ''34937015291116577'') s = Some s'
    \<and> max_users (users_of s') = 3253763105 \<and> users_cap (users_of s') = 1
    \<and> (\<forall>n p. n \<noteq> [] \<and> p \<noteq> [] \<and> \<not> has_user (users_of s') n \<longrightarrow> new_user ok (users_of s') (Some n) (Some p) = None)"
  by (rule set_max_users_wraps [OF assms])

theorem set_max_users_overflows_witness:
  "\<exists>s'. handle_set_max_users (sample_os []) 4 (Some ''34937015291116577'') sample_session = Some s'
    \<and> users_cap (users_of s') = 1"
  using set_max_users_overflows [of "sample_os []" sample_session 4 True]
  by (auto simp: no_sigpipe_def sample_session_def sample_users_def)

text \<open>C29. Deleting users never leaves the table without an administrator, but changing the status of the
  last one does.\<close>

theorem last_admin_demoted_not_deleted:
  assumes "users_inv t" and "0 < admins t"
  shows "(\<forall>name. 0 < admins (snd (delete_user t name)))
    \<and> (\<forall>name u. admins t = 1 \<and> lookup t name = Some u \<and> u_status u = ADMIN \<longrightarrow>
        admins (change_status t name COMMONER) = 0)"
proof -
  have "0 < admins (snd (delete_user t name))" for name
    using delete_user_keeps_admin [OF assms(1) _ assms(2), of name] by (metis prod.collapse)
  moreover have "admins (change_status t name COMMONER) = 0"
    if a: "admins t = 1" "lookup t name = Some u" "u_status u = ADMIN" for name u
  proof -
    have "\<not> user_exists t name < 0" using a(2) user_exists_lookup(1) [of t name] by simp
    then have "users t ! nat (user_exists t name) = u" using a(2) by (elim user_exists_nonneg) simp
    with a \<open>\<not> user_exists t name < 0\<close> show ?thesis by (simp add: change_status_def Let_def)
  qed
  ultimately show ?thesis by blast
qed

theorem last_admin_demoted_not_deleted_witness:
  "admins (snd (delete_user sample_users ''admin'')) > 0 \<and> admins (change_status sample_users ''admin'' COMMONER) = 0"
proof -
  have "0 < admins sample_users" "admins sample_users = 1" "\<exists>u. lookup sample_users ''admin'' = Some u \<and> u_status u = ADMIN"
    by (simp_all add: sample_users_def lookup_def)
  with last_admin_demoted_not_deleted [OF sample_users_inv] show ?thesis by blast
qed

text \<open>C30. While memory lasts, \<open>QUIT\<close> sends its reply to the session's descriptor, then closes that descriptor, once, frees the
  session and removes it from the selector; the table of users stays, and nothing else is done. A peer
  that does not wait for the reply kills the server (SIGPIPE).\<close>

theorem quit_ends_the_session:
  fixes s :: st and data :: manager_data
  assumes "mallocs_ok os" and "manages i data s"
  defines "sending \<equiv> Malloc (length quit_reply + 1) True"
  defines "r \<equiv> os_send os (hist s @ [sending]) (mgr_fd data) (bytes_of quit_reply)"
  shows "(r \<noteq> Inl EPIPE \<longrightarrow> (\<exists>s'. handle_quit os i s = Some s' \<and> manager_at i s' = None \<and> users_of s' = users_of s
      \<and> sel_inv (fst s') \<and> registered (fst s') = (registered (fst s))(mgr_fd data := None)
      \<and> hist s' = hist s @ [sending, Send (mgr_fd data) (bytes_of quit_reply) r, Close (mgr_fd data)]))
    \<and> (r = Inl EPIPE \<longrightarrow> handle_quit os i s = None)"
  unfolding r_def sending_def using handle_quit_spec [OF assms(1,2)] by blast

theorem quit_ends_the_session_witness:
  "\<exists>s' n k. handle_quit (sample_os []) 0 sample_session = Some s' \<and> manager_at 0 s' = None
    \<and> hist s' = [Malloc n True, Send 4 (bytes_of quit_reply) (Inr k), Close 4]"
  using quit_ends_the_session [OF _ sample_session_facts(1), of "sample_os []"]
  by (fastforce simp: sample_session_def hist_def sample_manager_data_def simp del: append.simps)

section \<open>Start-up and text\<close>

text \<open>C31. The users of the command line come out of \<open>parse_args\<close> in their order, each cut at its first
  colon, and never more than ten; the counter that should stop at ten is never incremented, so with
  an eleventh option \<open>-u\<close> the array \<open>users\<close> is overrun.\<close>

theorem command_line_users:
  assumes "parse_args opts rest = Some (Inr args)"
  shows "(\<exists>us. map Some us = map (\<lambda>(c, a). split_user a) (filter (\<lambda>(c, a). c = CHR ''u'') opts)
      \<and> length us \<le> MAX_USERS \<and> unat (cant args) = length us
      \<and> take (length us) (arg_users args) = map (\<lambda>(n, p). \<lparr>arg_name = Some n, arg_pass = Some p\<rparr>) us)
    \<and> (\<forall>as. (\<forall>a \<in> set as. split_user a \<noteq> None) \<and> 10 < length as \<longrightarrow> parse_args (map (Pair (CHR ''u'')) as) rest = None)"
proof (intro conjI allI impI)
  obtain us where us: "users_parsed args us" "map Some us = user_options opts" using parse_args_users [OF assms] by blast
  then show "\<exists>us. map Some us = map (\<lambda>(c, a). split_user a) (filter (\<lambda>(c, a). c = CHR ''u'') opts)
      \<and> length us \<le> MAX_USERS \<and> unat (cant args) = length us
      \<and> take (length us) (arg_users args) = map (\<lambda>(n, p). \<lparr>arg_name = Some n, arg_pass = Some p\<rparr>) us"
    by (intro exI [of _ us]) (auto simp: users_parsed_def user_options_def)
next
  fix as
  assume "(\<forall>a \<in> set as. split_user a \<noteq> None) \<and> 10 < length as"
  then show "parse_args (map (Pair (CHR ''u'')) as) rest = None"
    using too_many_users [OF default_parsed] by (simp add: parse_args_def MAX_USERS_def)
qed

theorem command_line_users_witness:
  "\<exists>args us. parse_args [(CHR ''u'', ''bob:pw''), (CHR ''N'', [])] [] = Some (Inr args)
    \<and> map Some us = [Some (''bob'', ''pw'')] \<and> unat (cant args) = length us
    \<and> parse_args (map (Pair (CHR ''u'')) (replicate 11 ''a:b'')) [] = None"
proof -
  have "\<exists>args. parse_args [(CHR ''u'', ''bob:pw''), (CHR ''N'', [])] [] = Some (Inr args)"
    by (simp add: parse_args_def parse_option_def user_def split_user_def default_args_def MAX_USERS_def)
  then obtain args where run: "parse_args [(CHR ''u'', ''bob:pw''), (CHR ''N'', [])] [] = Some (Inr args)" ..
  then have all: "parse_args (map (Pair (CHR ''u'')) as) [] = None"
    if "\<forall>a \<in> set as. split_user a \<noteq> None" "10 < length as" for as using that command_line_users by blast
  have "parse_args (map (Pair (CHR ''u'')) (replicate 11 ''a:b'')) [] = None" by (rule all) (simp_all add: split_user_def)
  with command_line_users [OF run] run show ?thesis by (fastforce simp: split_user_def)
qed

text \<open>C32. A port is accepted exactly when the text is blanks, perhaps a sign, and digits up to its end whose
  value is from 0 to 65535 (0 after a minus), and then it is that value; anything else is refused with
  status 1. So a port written out in decimal is read back, also with blanks, zeros or a plus before it.\<close>

theorem ports_read_back:
  shows "(\<forall>s p. port s = Inr p \<longleftrightarrow> (\<exists>sp sign ds. s = sp @ sign @ ds \<and> list_all is_space sp \<and> sign \<in> {[], ''+'', ''-''}
        \<and> list_all is_digit ds \<and> ds \<noteq> [] \<and> dec_value ds = unat p \<and> (sign = ''-'' \<longrightarrow> unat p = 0)))
    \<and> (\<forall>s. (\<nexists>p. port s = Inr p) \<longleftrightarrow> port s = Inl 1)
    \<and> (\<forall>sp z p. list_all is_space sp \<longrightarrow> port (sp @ replicate z (CHR ''0'') @ utoa (unat p)) = Inr p
        \<and> port (sp @ ''+'' @ replicate z (CHR ''0'') @ utoa (unat p)) = Inr p)"
  unfolding port_text_def [symmetric] using port_accepts port_rejects port_reads_back by blast

theorem ports_read_back_witness:
  "port ''1080'' = Inr 1080 \<and> port '' +080'' = Inr 80 \<and> port ''-0'' = Inr 0 \<and> port [] = Inl 1 \<and> port ''80x'' = Inl 1"
proof -
  have accept: "port (sp @ sign @ ds) = Inr p" if "list_all is_space sp" "sign \<in> {[], ''+'', ''-''}" "list_all is_digit ds" "ds \<noteq> []"
    "dec_value ds = unat p" "sign = ''-'' \<Longrightarrow> unat p = 0" for sp sign ds p using ports_read_back that by blast
  have refuse: "port s = Inl 1" if s: "s = [] \<or> \<not> is_digit (last s)" for s
  proof -
    have "ds = []" if "s = sp @ sign @ ds" "list_all is_digit ds" for sp sign ds
      using s that last_in_set [of ds] by (cases "ds = []") (auto simp: list_all_iff)
    then show ?thesis using ports_read_back by blast
  qed
  have "port ''1080'' = Inr 1080" "port '' +080'' = Inr 80" "port ''-0'' = Inr 0"
    using accept [of "[]" "[]" "''1080''" 1080] accept [of "'' ''" "''+''" "''080''" 80] accept [of "[]" "''-''" "''0''" 0]
    by (simp_all add: is_space_def is_digit_def dec_value_def)
  moreover have "port [] = Inl 1" "port ''80x'' = Inl 1" by (rule refuse, simp add: is_digit_def)+
  ultimately show ?thesis by blast
qed

text \<open>C33. Appending to a string builder returns, whatever its size below 2^63: the text grows by exactly the
  string, or nothing changes when \<open>realloc\<close> fails, and the builder stays well-formed.\<close>

theorem append_appends:
  assumes "sb_inv sb" and "sb_length sb + length str < 2 ^ 63" and "sb_capacity sb < 2 ^ 63"
  shows "\<exists>r sb'. sb_append ok sb str = Some (r, sb') \<and> sb_inv sb'
    \<and> (if r = 0 then sb_get_string sb' = sb_get_string sb @ str else r = -1 \<and> sb' = sb \<and> \<not> ok)"
proof -
  from sb_append_spec [OF assms, of ok] obtain r sb' where
    "sb_append ok sb str = Some (r, sb')" "sb_inv sb'"
    "r = 0 \<and> sb_text sb' = sb_text sb @ str \<or> r = -1 \<and> sb' = sb \<and> \<not> ok" by blast
  then show ?thesis by (auto simp: sb_get_string_def)
qed

theorem append_appends_witness:
  "\<exists>sb sb'. sb_create True True = Some sb \<and> sb_append True sb ''abc'' = Some (0, sb') \<and> sb_get_string sb' = ''abc''"
proof -
  define sb where "sb = \<lparr>sb_text = [], sb_length = 0, sb_capacity = SB_INITIAL_CAPACITY\<rparr>"
  then have sb: "sb_create True True = Some sb" "sb_text sb = []" "sb_length sb = 0" "sb_capacity sb = SB_INITIAL_CAPACITY"
    by (simp_all add: sb_create_def)
  from append_appends [OF sb_create_inv [OF sb(1)], of "''abc''" True] sb show ?thesis
    by (auto simp: sb_get_string_def SB_INITIAL_CAPACITY_def split: if_splits)
qed

text \<open>C34. The doubling loop of \<open>sb_append\<close> ends exactly when the text stays below 2^63 bytes: beyond it the
  64-bit capacity wraps around to 0 and the loop never leaves it. Every builder it makes is again
  one whose capacity is a power of two.\<close>

theorem append_returns_iff:
  assumes "sb_doubled sb" and "sb_length sb + length str + 1 < 2 ^ 64"
  shows "((\<exists>r. sb_append ok sb str = Some r) \<longleftrightarrow> sb_length sb + length str < 2 ^ 63)
    \<and> (\<forall>r sb'. sb_append ok sb str = Some (r, sb') \<longrightarrow> sb_doubled sb')"
  using sb_append_returns [OF assms] by blast

theorem append_returns_iff_witness:
  "\<exists>sb. sb_create True True = Some sb \<and> (\<exists>r. sb_append True sb ''abc'' = Some r)"
  using append_returns_iff [OF sample_builder(3), of "''abc''" True] sample_builder(1) by simp

text \<open>C35. \<open>int_to_string\<close> writes exactly the digits that read back as the number, behind a minus sign where
  it is negative, and never outside the block it allocated, for every \<open>int\<close> but the smallest.\<close>

theorem int_to_string_reads_back:
  assumes "\<bar>num\<bar> < 2 ^ 31"
  shows "\<exists>digits. int_to_string True junk num = Some (Some ((if num < 0 then ''-'' else []) @ digits))
    \<and> digits \<noteq> [] \<and> int (dec_value digits) = \<bar>num\<bar>"
proof (cases "num = 0")
  case True
  then show ?thesis by (auto simp: int_to_string_def dec_value_def)
next
  case False
  then have "decimal (nat \<bar>num\<bar>) \<noteq> []" by (subst decimal.simps) simp
  with int_to_string_spec [OF assms False, of junk] show ?thesis
    by (intro exI [of _ "decimal (nat \<bar>num\<bar>)"]) (simp add: dec_value_decimal)
qed

theorem int_to_string_reads_back_witness:
  "\<exists>digits. int_to_string True (\<lambda>n. replicate n (CHR ''x'')) (-1080) = Some (Some (''-'' @ digits)) \<and> dec_value digits = 1080"
  using int_to_string_reads_back [of "-1080" "\<lambda>n. replicate n (CHR ''x'')"] by auto

section \<open>The other programs\<close>

text \<open>C36. The table that \<open>parser_utils_strcmpi\<close> builds, run by the engine of \<open>parser.c\<close>, decides equality up
  to the case of ASCII letters: after every prefix of the input the event says whether that prefix
  is the string, may still become it, or cannot.\<close>

theorem strcmpi_decides:
  assumes "\<forall>ch\<in>set s. unat ch < 128" and "length s + 1 < 2 ^ 32" and "\<forall>c\<in>set w. unat c < length cls"
  shows "\<exists>d p es q. parser_utils_strcmpi True s = Some d \<and> parser_init True cls d = Some p
    \<and> parser_feeds p w = Some (es, q) \<and> length es = length w
    \<and> (\<forall>i<length w. ev_data (es ! i) ! 0 = w ! i \<and> ev_type (es ! i) = event_code
        (if map lower (take (Suc i) w) = map lower s then STRING_CMP_EQ
         else if prefix (map lower (take (Suc i) w)) (map lower s) then STRING_CMP_MAYEQ
         else STRING_CMP_NEQ))"
proof -
  obtain d where d: "parser_utils_strcmpi True s = Some d"
    using strcmpi_rows_defined [OF assms(1), of "length s" 0] by (auto simp: parser_utils_strcmpi_def Let_def)
  moreover obtain p where p: "parser_init True cls d = Some p" by (simp add: parser_init_def)
  moreover note strcmpi_feeds [OF assms(1,2) d p assms(3)]
  ultimately show ?thesis unfolding says_def compared_def by blast
qed

theorem strcmpi_decides_witness:
  "\<exists>d p es q. parser_utils_strcmpi True (bytes_of ''foo'') = Some d \<and> parser_init True parser_no_classes d = Some p
    \<and> parser_feeds p (bytes_of ''fOo'') = Some (es, q) \<and> ev_type (es ! 2) = event_code STRING_CMP_EQ"
proof -
  have t: "take (Suc 2) (bytes_of ''fOo'') = bytes_of ''fOo''" by (simp add: bytes_of_def)
  have l: "map lower (bytes_of ''fOo'') = map lower (bytes_of ''foo'')" by (simp add: bytes_of_def lower_def)
  from strcmpi_decides [of "bytes_of ''foo''" "bytes_of ''fOo''" parser_no_classes] obtain d p es q where
    "parser_utils_strcmpi True (bytes_of ''foo'') = Some d" "parser_init True parser_no_classes d = Some p"
    "parser_feeds p (bytes_of ''fOo'') = Some (es, q)"
    "\<forall>i<3. ev_type (es ! i) = event_code
        (if map lower (take (Suc i) (bytes_of ''fOo'')) = map lower (bytes_of ''foo'') then STRING_CMP_EQ
         else if prefix (map lower (take (Suc i) (bytes_of ''fOo''))) (map lower (bytes_of ''foo'')) then STRING_CMP_MAYEQ
         else STRING_CMP_NEQ)"
    by (auto simp: bytes_of_def parser_no_classes_def)
  moreover from this(4) have "ev_type (es ! 2) = event_code STRING_CMP_EQ" using t l by (auto dest: spec [of _ 2])
  ultimately show ?thesis by blast
qed

text \<open>C37. Where a \<open>send\<close> of some bytes takes at least one or fails, as POSIX has it, \<open>sock_blocking_write\<close>
  returns, and what it sent plus what it left in the buffer is what was there.
  If there was anything to send, it answers 0 exactly when nothing is left; on an empty buffer it
  answers the \<open>errno\<close> of its one \<open>send\<close>, or the \<open>errno\<close> of some call before when that succeeds.\<close>

theorem blocking_write_drains:
  assumes "os_ok os" and "sends_some os" and "buffer_inv b"
  shows "\<exists>ret b' err' s' es. sock_blocking_write os fd b err s = Some (ret, b', err', s')
    \<and> hist s' = hist s @ es \<and> buffer_inv b' \<and> sent fd es @ contents b' = contents b
    \<and> (contents b \<noteq> [] \<longrightarrow> (ret = None \<longleftrightarrow> contents b' = []))
    \<and> (contents b = [] \<longrightarrow> ret = (case os_send os (hist s) fd [] of Inl e \<Rightarrow> Some e | Inr _ \<Rightarrow> err))"
proof (cases "contents b = []")
  case True
  let ?r = "os_send os (hist s) fd []"
  obtain s' ret where s': "sock_blocking_write os fd b err s = Some (ret, b, ret, s')" "hist s' = hist s @ [Send fd [] ?r]"
    "ret = (case ?r of Inl e \<Rightarrow> Some e | Inr _ \<Rightarrow> err)" using sock_blocking_write_nothing [OF assms(1,3) True] by blast
  have "sent fd [Send fd [] ?r] = []" by (cases ?r) simp_all
  with s' True assms(3) show ?thesis by auto
next
  case False
  with sock_blocking_write_spec [OF assms False, of fd err s] show ?thesis by simp
qed

theorem blocking_write_drains_witness:
  "(\<exists>ret b' err' s' es. sock_blocking_write (sample_os []) 4 (sample_buffer [1, 2, 3]) (Some EBADF) sample_session = Some (ret, b', err', s')
      \<and> hist s' = hist sample_session @ es \<and> sent 4 es @ contents b' = [1, 2, 3])
    \<and> (\<exists>b' err' s'. sock_blocking_write (sample_os []) 4 (sample_buffer []) (Some EBADF) sample_session = Some (Some EBADF, b', err', s'))"
proof -
  have os: "os_ok (sample_os [])" "sends_some (sample_os [])" by (simp_all add: sends_some_def)
  have b: "buffer_inv (sample_buffer [1, 2, 3])" "buffer_inv (sample_buffer [])" by (simp_all add: BUFFER_SIZE_def)
  from blocking_write_drains [OF os b(1), of 4 "Some EBADF" sample_session]
    blocking_write_drains [OF os b(2), of 4 "Some EBADF" sample_session]
  show ?thesis by fastforce
qed

text \<open>C38. \<open>sock_blocking_copy\<close> of a source that delivers some pieces and then ends or fails returns, where a
  \<open>send\<close> of some bytes takes at least one or fails. Either no
  \<open>send\<close> failed, all the pieces were taken and exactly their concatenation was sent, and it answers 0,
  also when the source failed instead of ending; or a \<open>send\<close> failed, whose \<open>errno\<close> it answers, it
  stopped there, and what it had taken by then was sent but for a part at the end.\<close>

theorem blocking_copy_copies:
  assumes "os_ok os" and "sends_some os" and "\<forall>h. os_recv os h source 4096 = script (recvs source h)"
    and "\<forall>i < length chunks. chunks ! i \<noteq> [] \<and> script (recvs source (hist s) + i) = Inr (chunks ! i)"
    and "script (recvs source (hist s) + length chunks) = Inr [] \<or> script (recvs source (hist s) + length chunks) = Inl e"
  shows "\<exists>ret err' s' es rest n. sock_blocking_copy os source dest err s = Some (ret, err', s')
    \<and> hist s' = hist s @ es \<and> es \<noteq> [] \<and> n \<le> length chunks \<and> received source es = concat (take n chunks)
    \<and> sent dest es @ rest = received source es \<and> ret = sending_failed dest es
    \<and> (ret = None \<longleftrightarrow> rest = []) \<and> (ret = None \<longrightarrow> n = length chunks)"
  by (rule sock_blocking_copy_spec [OF assms(1,2,3) _ assms(4) refl]) (use assms(5) in blast)

theorem blocking_copy_copies_witness:
  "(\<exists>ret err' s' es rest n. sock_blocking_copy ((sample_os [])\<lparr>os_recv := (\<lambda>h fd n. if recvs 4 h = 0 then Inr (take n [7, 8]) else Inl EBADF)\<rparr>)
      4 5 None sample_session = Some (ret, err', s') \<and> hist s' = hist sample_session @ es
      \<and> received 4 es = concat (take n [[7, 8]]) \<and> sent 5 es @ rest = received 4 es \<and> ret = sending_failed 5 es)
    \<and> (\<exists>ret err' s' es rest n. sock_blocking_copy ((sample_os [])\<lparr>os_recv := (\<lambda>h fd n. if recvs 4 h = 0 then Inr (take n [7, 8]) else Inl EBADF),
        os_send := (\<lambda>h fd bs. Inl EPIPE)\<rparr>) 4 5 None sample_session = Some (ret, err', s') \<and> hist s' = hist sample_session @ es
      \<and> sent 5 es @ rest = received 4 es \<and> ret = sending_failed 5 es)"
proof -
  let ?os = "(sample_os [])\<lparr>os_recv := (\<lambda>h fd n. if recvs 4 h = 0 then Inr (take n [7, 8]) else Inl EBADF)\<rparr>"
  let ?script = "\<lambda>k. if k = 0 then Inr [7, 8 :: u8] else Inl EBADF"
  have ok: "os_ok ?os" "sends_some ?os" "os_ok (?os\<lparr>os_send := \<lambda>h fd bs. Inl EPIPE\<rparr>)"
    "sends_some (?os\<lparr>os_send := \<lambda>h fd bs. Inl EPIPE\<rparr>)"
    by (simp_all add: os_ok_def sends_some_def sample_os_def)
  have hist: "hist sample_session = []" by (simp add: sample_session_def hist_def)
  have src: "\<forall>h. os_recv ?os h 4 4096 = ?script (recvs 4 h)"
    "\<forall>h. os_recv (?os\<lparr>os_send := \<lambda>h fd bs. Inl EPIPE\<rparr>) h 4 4096 = ?script (recvs 4 h)" by (simp_all split: if_split)
  have chunks: "\<forall>i < length [[7, 8 :: u8]]. [[7, 8]] ! i \<noteq> [] \<and> ?script (recvs 4 (hist sample_session) + i) = Inr ([[7, 8]] ! i)"
    "?script (recvs 4 (hist sample_session) + length [[7, 8 :: u8]]) = Inr []
      \<or> ?script (recvs 4 (hist sample_session) + length [[7, 8 :: u8]]) = Inl EBADF"
    by (simp_all add: hist)
  from blocking_copy_copies [OF ok(1,2) src(1) chunks, of 5 None] blocking_copy_copies [OF ok(3,4) src(2) chunks, of 5 None]
  show ?thesis by blast
qed

text \<open>C39. \<open>sockaddr_to_human\<close> writes the text of the address, a colon and the port in decimal, cut off to fit
  and terminated, whenever the array has room for the address and two bytes more. \<open>strncat\<close> is given
  the size of the array instead of the room left in it: when the text of the address just fits, the
  colon is written over its terminator and the new terminator behind the end.\<close>

theorem sockaddr_to_human_bounds:
  assumes "a = Sockaddr_in p q \<or> a = Sockaddr_in6 p q" and "0 \<notin> set (bytes_of (ntop p))" and "n \<le> length buff"
  shows "(length (ntop p) + 2 \<le> n \<longrightarrow> (\<exists>r. sockaddr_to_human ntop buff n (Some a) = Some r \<and> length r = length buff
      \<and> cstr r = take (n - 1) (bytes_of (ntop p) @ bytes_of '':'' @ bytes_of (utoa (unat (ntohs q))))))
    \<and> (length (ntop p) + 1 = n \<and> n = length buff \<longrightarrow> sockaddr_to_human ntop buff n (Some a) = None)"
  using inet_human [of a p q ntop n buff] inet_human_overflow [of a p q ntop n buff] assms by simp

theorem sockaddr_to_human_bounds_witness:
  "(\<exists>r. sockaddr_to_human (\<lambda>a. ''1.2.3.4'') (replicate 50 0) 11 (Some (Sockaddr_in [1, 2, 3, 4] (htons 90))) = Some r
      \<and> cstr r = bytes_of ''1.2.3.4:90'')
    \<and> sockaddr_to_human (\<lambda>a. ''1.2.3.4'') (replicate 8 0) 8 (Some (Sockaddr_in [1, 2, 3, 4] (htons 9090))) = None"
proof -
  have "decimal 90 = ''90''" by (simp add: decimal.simps digit_char_def char_of_def bit_0)
  then have "utoa (unat (ntohs (htons 90))) = ''90''" by (simp add: utoa_def)
  then show ?thesis
    using sockaddr_to_human_bounds [of "Sockaddr_in [1, 2, 3, 4] (htons 90)" "[1, 2, 3, 4]" "htons 90" "\<lambda>a. ''1.2.3.4''" 11
        "replicate 50 0"]
      sockaddr_to_human_bounds [of "Sockaddr_in [1, 2, 3, 4] (htons 9090)" "[1, 2, 3, 4]" "htons 9090" "\<lambda>a. ''1.2.3.4''" 8
        "replicate 8 0"] by (auto simp: bytes_of_def)
qed

text \<open>C40. The terminal client, once connected and with the memory for its table, ends with status 0 whatever the terminal, the server and
  \<open>pselect\<close> answer, if it ends: every line that was typed has been offered to the server once and in
  order, and the socket was closed twice, by its callback and again on the way out. It does end when
  no \<open>send\<close> is answered \<open>EPIPE\<close>; a line typed after the server has gone kills it (SIGPIPE).\<close>

theorem client_relays_and_closes_twice:
  assumes "\<forall>n. cb_malloc b n" and "0 < sockfd" "sockfd < 1024" and "client_os_ok os"
  shows "(\<forall>st tr. client_session b os answers sockfd = Some (st, tr) \<longrightarrow>
      st = 0 \<and> closings sockfd tr = 2 \<and> offered sockfd tr = typed tr)
    \<and> (server_hears os \<longrightarrow> (\<exists>st tr. client_session b os answers sockfd = Some (st, tr)))
    \<and> (\<forall>s key l. cw_data (snd s) = Some sockfd \<and> (\<forall>tr bs. co_send os tr sockfd bs = Inl EPIPE)
          \<and> co_fgets os (cw_trace (snd s)) CLIENT_BUFFER_SIZE = Some l \<longrightarrow> stdin_read os key s = None)"
  using client_session_spec [OF assms, of answers] stdin_read_unheard by blast

theorem client_relays_and_closes_twice_witness:
  "\<exists>tr. client_session sample_client_boot sample_client_os [Ready {0} {}, Ready {0, 3} {}] 3 = Some (0, tr)
    \<and> closings 3 tr = 2 \<and> offered 3 tr = typed tr"
proof -
  have "\<forall>n. cb_malloc sample_client_boot n" "server_hears sample_client_os"
    by (simp_all add: sample_client_boot_def sample_client_os_def server_hears_def)
  with client_relays_and_closes_twice [of sample_client_boot 3 sample_client_os "[Ready {0} {}, Ready {0, 3} {}]"] sample_client_os_ok
  show ?thesis by fastforce
qed

end
